(* ===== verification/Kernel_Prelude.thy ===== *)
theory Kernel_Prelude
  imports Main "HOL-Library.Sublist"
begin

text \<open>
  What every component theory shares: the Python string operations the kernel uses (on
  \<^typ>\<open>string\<close>, a list of code points below 256), the outcome type of code that may raise,
  insertion-ordered dictionaries as association lists, JSON values, and the generic list
  lemmas. The lemmas are declared \<open>[simp]\<close> or collected in \<open>py_simps\<close>, so that the component
  proofs carry them by \<open>simp add: py_simps\<close>.
\<close>

named_theorems py_simps
  \<open>characteristic equations of the Python string and dictionary operations\<close>

section \<open>Outcomes of code that may raise\<close>

text \<open>
  A call that may raise returns \<^typ>\<open>'e + 'a\<close>: \<^term>\<open>Inl e\<close> is the exception, \<^term>\<open>Inr v\<close>
  the value. \<open>ebind\<close> is sequencing: the first exception ends the computation.
\<close>

datatype py_exn = PyExn string

type_synonym 'a py = "py_exn + 'a"

fun ebind :: "'e + 'a \<Rightarrow> ('a \<Rightarrow> 'e + 'b) \<Rightarrow> 'e + 'b" where
  "ebind (Inl e) f = Inl e"
| "ebind (Inr v) f = f v"

lemma ebind_Inr_iff: "ebind m f = Inr v \<longleftrightarrow> (\<exists>x. m = Inr x \<and> f x = Inr v)"
  by (cases m) auto

lemma ebind_Inl_iff: "ebind m f = Inl e \<longleftrightarrow> m = Inl e \<or> (\<exists>x. m = Inr x \<and> f x = Inl e)"
  by (cases m) auto

lemma ebind_split:
  "P (ebind m f) \<longleftrightarrow> (\<forall>e. m = Inl e \<longrightarrow> P (Inl e)) \<and> (\<forall>x. m = Inr x \<longrightarrow> P (f x))"
  by (cases m) auto

lemma ebind_Inr_right [simp]: "ebind m Inr = m"
  by (cases m) auto

section \<open>Python strings\<close>

text \<open>\<open>str.isspace\<close> on the code points below 256.\<close>

definition py_isspace :: "char \<Rightarrow> bool" where
  "py_isspace c =
     (let n = (of_char c :: nat)
      in (9 \<le> n \<and> n \<le> 13) \<or> (28 \<le> n \<and> n \<le> 32) \<or> n = 133 \<or> n = 160)"

definition py_lstrip :: "string \<Rightarrow> string" where
  "py_lstrip s = dropWhile py_isspace s"

definition py_rstrip :: "string \<Rightarrow> string" where
  "py_rstrip s = rev (dropWhile py_isspace (rev s))"

text \<open>\<open>str.strip()\<close>\<close>

definition py_strip :: "string \<Rightarrow> string" where
  "py_strip s = py_rstrip (py_lstrip s)"

text \<open>\<open>s.startswith(p)\<close>, \<open>s.endswith(p)\<close> and \<open>sub in s\<close>\<close>

definition py_startswith :: "string \<Rightarrow> string \<Rightarrow> bool" where
  "py_startswith s p \<longleftrightarrow> take (length p) s = p"

definition py_endswith :: "string \<Rightarrow> string \<Rightarrow> bool" where
  "py_endswith s p \<longleftrightarrow> py_startswith (rev s) (rev p)"

fun py_contains :: "string \<Rightarrow> string \<Rightarrow> bool" where
  "py_contains sub [] = (sub = [])"
| "py_contains sub (c # s) = (py_startswith (c # s) sub \<or> py_contains sub s)"

text \<open>\<open>s.index(c)\<close> for a character that occurs in \<open>s\<close>\<close>

definition py_index :: "string \<Rightarrow> char \<Rightarrow> nat" where
  "py_index s c = length (takeWhile (\<lambda>x. x \<noteq> c) s)"

text \<open>\<open>str.lower()\<close> on the ASCII letters (no other code point matters to its callers).\<close>

definition py_lower_char :: "char \<Rightarrow> char" where
  "py_lower_char c =
     (let n = (of_char c :: nat) in if 65 \<le> n \<and> n \<le> 90 then char_of (n + 32) else c)"

definition py_lower :: "string \<Rightarrow> string" where
  "py_lower s = map py_lower_char s"

text \<open>\<open>sep.join(parts)\<close>\<close>

fun py_join :: "string \<Rightarrow> string list \<Rightarrow> string" where
  "py_join sep [] = []"
| "py_join sep [p] = p"
| "py_join sep (p # q # ps) = p @ sep @ py_join sep (q # ps)"

lemma py_startswith_prefix [py_simps]: "py_startswith s p \<longleftrightarrow> prefix p s"
  by (metis append_eq_conv_conj append_take_drop_id prefixE prefixI py_startswith_def)

lemma py_endswith_suffix [py_simps]: "py_endswith s p \<longleftrightarrow> suffix p s"
  by (simp add: py_endswith_def py_startswith_prefix suffix_to_prefix)

lemma py_contains_sublist [py_simps]: "py_contains sub s \<longleftrightarrow> sublist sub s"
  by (induction s) (auto simp: py_startswith_prefix sublist_Cons_right)

lemma py_endswith_append [simp]: "py_endswith (s @ p) p"
  by (simp add: py_endswith_suffix suffixI)

lemma py_index_split:
  assumes "c \<in> set s"
  shows "s = take (py_index s c) s @ c # drop (Suc (py_index s c)) s"
    and "c \<notin> set (take (py_index s c) s)"
proof -
  have tw: "take (py_index s c) s = takeWhile (\<lambda>x. x \<noteq> c) s"
    by (simp add: py_index_def takeWhile_eq_take [symmetric])
  show "c \<notin> set (take (py_index s c) s)"
    unfolding tw by (auto dest: set_takeWhileD)
  have dw: "drop (py_index s c) s = dropWhile (\<lambda>x. x \<noteq> c) s"
    by (simp add: py_index_def dropWhile_eq_drop [symmetric])
  have ne: "dropWhile (\<lambda>x. x \<noteq> c) s \<noteq> []"
    using assms by (auto simp: dropWhile_eq_Nil_conv)
  then have "hd (dropWhile (\<lambda>x. x \<noteq> c) s) = c"
    using hd_dropWhile [OF ne] by simp
  with ne dw have "drop (py_index s c) s = c # drop (Suc (py_index s c)) s"
    by (metis drop_Suc hd_Cons_tl tl_drop)
  then show "s = take (py_index s c) s @ c # drop (Suc (py_index s c)) s"
    by (metis append_take_drop_id)
qed

lemma py_index_append [simp]: "c \<notin> set p \<Longrightarrow> py_index (p @ c # s) c = length p"
  by (simp add: py_index_def takeWhile_append)

lemma py_rstrip_snoc [simp]: "\<not> py_isspace c \<Longrightarrow> py_rstrip (s @ [c]) = s @ [c]"
  by (simp add: py_rstrip_def)

lemma py_lstrip_Cons [simp]: "\<not> py_isspace c \<Longrightarrow> py_lstrip (c # s) = c # s"
  by (simp add: py_lstrip_def)

lemma length_py_rstrip: "length (py_rstrip s) \<le> length s"
  by (simp add: py_rstrip_def) (metis length_dropWhile_le length_rev)

lemma py_strip_hd:
  assumes "py_strip (c # s) = c # s"
  shows "\<not> py_isspace c"
proof
  assume "py_isspace c"
  then have "py_strip (c # s) = py_strip s"
    by (simp add: py_strip_def py_lstrip_def)
  moreover have "length (py_strip s) \<le> length s"
  proof -
    have "length (py_strip s) \<le> length (py_lstrip s)"
      unfolding py_strip_def by (rule length_py_rstrip)
    also have "\<dots> \<le> length s"
      unfolding py_lstrip_def by (rule length_dropWhile_le)
    finally show ?thesis .
  qed
  ultimately have "length (c # s) \<le> length s" using assms by metis
  then show False by simp
qed

lemma py_strip_Nil [simp]: "py_strip [] = []"
  by (simp add: py_strip_def py_lstrip_def py_rstrip_def)

lemma py_strip_bracketed:
  "\<not> py_isspace c \<Longrightarrow> \<not> py_isspace d \<Longrightarrow> py_strip (c # s @ [d]) = c # s @ [d]"
  using py_rstrip_snoc [of d "c # s"] by (simp add: py_strip_def)

lemma py_strip_id:
  assumes "s \<noteq> []" "\<not> py_isspace (hd s)" "\<not> py_isspace (last s)"
  shows "py_strip s = s"
proof -
  from assms have "py_lstrip s = s" by (cases s) auto
  moreover have "py_rstrip (butlast s @ [last s]) = butlast s @ [last s]"
    using assms(3) by simp
  ultimately show ?thesis using assms(1) by (simp add: py_strip_def)
qed

section \<open>Decimal rendering\<close>

text \<open>
  Three constants of the source lie outside the code points below 256; each is stood for by one
  unused control character, so that lengths come out as in Python.
\<close>

definition em_dash :: char where
  "em_dash = CHR 0x97"

definition ellipsis_char :: char where
  "ellipsis_char = CHR 0x84"

definition warning_sign :: char where
  "warning_sign = CHR 0x9A"

text \<open>\<open>str(n)\<close> of a natural number, the form the identifiers are built from.\<close>

fun py_str_nat :: "nat \<Rightarrow> string" where
  "py_str_nat n =
     (if n < 10 then [char_of (48 + n)]
      else py_str_nat (n div 10) @ [char_of (48 + n mod 10)])"

declare py_str_nat.simps [simp del]

definition py_digit_val :: "char \<Rightarrow> nat" where
  "py_digit_val c = of_char c - 48"

definition py_int_of :: "string \<Rightarrow> nat" where
  "py_int_of s = foldl (\<lambda>a c. 10 * a + py_digit_val c) 0 s"

definition is_digit_char :: "char \<Rightarrow> bool" where
  "is_digit_char c = (let n = (of_char c :: nat) in 48 \<le> n \<and> n \<le> 57)"

lemma is_digit_char_digit [simp]: "(d::nat) < 10 \<Longrightarrow> is_digit_char (char_of (48 + d))"
  by (simp add: is_digit_char_def of_char_of Let_def)

lemma py_str_nat_digits: "list_all is_digit_char (py_str_nat n)"
proof (induction n rule: py_str_nat.induct)
  case (1 n)
  then show ?case by (cases "n < 10") (simp_all add: py_str_nat.simps [of n])
qed

lemma py_str_nat_nonempty [simp]: "py_str_nat n \<noteq> []"
  by (simp add: py_str_nat.simps [of n])

lemma digit_not_space: "is_digit_char c \<Longrightarrow> \<not> py_isspace c"
  by (auto simp: is_digit_char_def py_isspace_def Let_def)

lemma py_digit_val_digit [simp]: "d < 10 \<Longrightarrow> py_digit_val (char_of (48 + d)) = d"
  by (simp add: py_digit_val_def of_char_of)

lemma py_int_of_str_nat [simp]: "py_int_of (py_str_nat n) = n"
proof (induction n rule: py_str_nat.induct)
  case (1 n)
  show ?case
  proof (cases "n < 10")
    case True
    then show ?thesis by (simp add: py_str_nat.simps [of n] py_int_of_def)
  next
    case False
    with "1.IH" have "py_int_of (py_str_nat (n div 10)) = n div 10" by simp
    with False show ?thesis by (simp add: py_str_nat.simps [of n] py_int_of_def)
  qed
qed

lemma py_str_nat_inject [simp]: "py_str_nat m = py_str_nat n \<longleftrightarrow> m = n"
  by (metis py_int_of_str_nat)

section \<open>JSON values and dictionaries\<close>

text \<open>
  Tool inputs and protocol payloads are JSON values. A float is kept as its decimal mantissa
  and exponent. A \<open>dict\<close> keeps insertion order, so an object is an association list whose
  first entry for a key counts; \<open>dict_set\<close> replaces in place, as Python does.
\<close>

datatype json =
    JNull
  | JBool bool
  | JInt int
  | JFloat int int
  | JStr string
  | JList "json list"
  | JDict "(string \<times> json) list"

type_synonym ('k, 'v) dict = "('k \<times> 'v) list"

fun dict_set :: "'k \<Rightarrow> 'v \<Rightarrow> ('k, 'v) dict \<Rightarrow> ('k, 'v) dict" where
  "dict_set k v [] = [(k, v)]"
| "dict_set k v ((k', v') # d) = (if k = k' then (k, v) # d else (k', v') # dict_set k v d)"

definition dict_pop :: "'k \<Rightarrow> ('k, 'v) dict \<Rightarrow> ('k, 'v) dict" where
  "dict_pop k d = filter (\<lambda>(k', _). k' \<noteq> k) d"

definition dict_setdefault :: "'k \<Rightarrow> 'v \<Rightarrow> ('k, 'v) dict \<Rightarrow> ('k, 'v) dict" where
  "dict_setdefault k v d = (case map_of d k of None \<Rightarrow> dict_set k v d | Some _ \<Rightarrow> d)"

lemma map_of_dict_set [simp]: "map_of (dict_set k v d) = (map_of d)(k \<mapsto> v)"
  by (induction k v d rule: dict_set.induct) auto

lemma map_of_dict_pop [simp]: "map_of (dict_pop k d) = (map_of d)(k := None)"
  by (induction d) (auto simp: dict_pop_def)

lemma map_of_dict_setdefault [simp]:
  "map_of (dict_setdefault k v d) = (map_of d)(k \<mapsto> (case map_of d k of None \<Rightarrow> v | Some w \<Rightarrow> w))"
  by (auto simp: dict_setdefault_def fun_eq_iff split: option.splits)

lemma keys_dict_set: "fst ` set (dict_set k v d) = insert k (fst ` set d)"
  by (induction k v d rule: dict_set.induct) auto

lemma distinct_dict_set [simp]:
  "distinct (map fst d) \<Longrightarrow> distinct (map fst (dict_set k v d))"
proof (induction k v d rule: dict_set.induct)
  case (2 k v k' v' d)
  then show ?case using keys_dict_set [of k v d] by auto
qed simp

lemma distinct_dict_pop [simp]:
  "distinct (map fst d) \<Longrightarrow> distinct (map fst (dict_pop k d))"
  by (induction d) (auto simp: dict_pop_def)

text \<open>Truthiness of a value read with \<open>dict.get\<close>.\<close>

fun py_truthy :: "json \<Rightarrow> bool" where
  "py_truthy JNull = False"
| "py_truthy (JBool b) = b"
| "py_truthy (JInt i) = (i \<noteq> 0)"
| "py_truthy (JFloat m e) = (m \<noteq> 0)"
| "py_truthy (JStr s) = (s \<noteq> [])"
| "py_truthy (JList xs) = (xs \<noteq> [])"
| "py_truthy (JDict d) = (d \<noteq> [])"

text \<open>
  \<open>repr\<close> of a JSON value as Python prints it (\<open>str\<close> of a dictionary or a list prints the
  \<open>repr\<close> of its parts). How a float prints is an argument.
\<close>

definition py_str_int :: "int \<Rightarrow> string" where
  "py_str_int i = (if i < 0 then CHR ''-'' # py_str_nat (nat (- i)) else py_str_nat (nat i))"

definition hex_digit :: "nat \<Rightarrow> char" where
  "hex_digit n = char_of (if n < 10 then 48 + n else 87 + n)"

definition py_repr_char :: "char \<Rightarrow> char \<Rightarrow> string" where
  "py_repr_char q c =
     (let n = (of_char c :: nat)
      in if c = q \<or> n = 92 then [CHR 0x5C, c]
         else if n = 9 then [CHR 0x5C, CHR ''t'']
         else if n = 10 then [CHR 0x5C, CHR ''n'']
         else if n = 13 then [CHR 0x5C, CHR ''r'']
         else if n < 32 \<or> (127 \<le> n \<and> n \<le> 160) \<or> n = 173
         then [CHR 0x5C, CHR ''x'', hex_digit (n div 16), hex_digit (n mod 16)]
         else [c])"

definition py_repr_str :: "string \<Rightarrow> string" where
  "py_repr_str s =
     (let q = (if CHR 0x27 \<in> set s \<and> CHR 0x22 \<notin> set s then CHR 0x22 else CHR 0x27)
      in q # concat (map (py_repr_char q) s) @ [q])"

fun py_repr :: "(int \<Rightarrow> int \<Rightarrow> string) \<Rightarrow> json \<Rightarrow> string" where
  "py_repr fl JNull = ''None''"
| "py_repr fl (JBool b) = (if b then ''True'' else ''False'')"
| "py_repr fl (JInt i) = py_str_int i"
| "py_repr fl (JFloat m e) = fl m e"
| "py_repr fl (JStr s) = py_repr_str s"
| "py_repr fl (JList vs) = ''['' @ py_join '', '' (map (py_repr fl) vs) @ '']''"
| "py_repr fl (JDict d) =
     ''{'' @ py_join '', '' (map (\<lambda>(k, v). py_repr_str k @ '': '' @ py_repr fl v) d) @ ''}''"

section \<open>Lists\<close>

lemma find_Some_first:
  "List.find P xs = Some x \<Longrightarrow>
     \<exists>ys zs. xs = ys @ x # zs \<and> P x \<and> (\<forall>y \<in> set ys. \<not> P y)"
proof (induction xs)
  case (Cons y ys)
  show ?case
  proof (cases "P y")
    case True
    with Cons.prems have "y # ys = [] @ x # ys \<and> P x \<and> (\<forall>y \<in> set []. \<not> P y)" by simp
    then show ?thesis by blast
  next
    case False
    with Cons obtain us vs where "ys = us @ x # vs" "P x" "\<forall>u \<in> set us. \<not> P u" by auto
    with False have "y # ys = (y # us) @ x # vs" "P x" "\<forall>u \<in> set (y # us). \<not> P u" by auto
    then show ?thesis by blast
  qed
qed simp

lemma find_filter: "List.find P (filter Q xs) = List.find (\<lambda>x. Q x \<and> P x) xs"
  by (induction xs) auto

lemma count_list_distinct: "distinct xs \<Longrightarrow> count_list xs x = (if x \<in> set xs then 1 else 0)"
  by (induction xs) auto

end
