(* ===== verification/Tool_Contract.thy ===== *)
theory Tool_Contract
  imports Kernel_Prelude
begin

text \<open>
  What the authorizer and the orchestrator know of a tool: the kinds
  (\<open>orchestrator/tool_kinds.py\<close>), the risk suggestion (\<open>tools/types.py\<close>), name matching
  (\<open>tools/matching.py\<close>), the per-call context (\<open>tool_authz/types.py\<close>) and the contract
  methods of the abstract class \<open>Tool\<close> (\<open>tools/tool.py\<close>). A tool is a record whose fields are
  the contract methods, so a theorem about the authorizer holds for every implementation; a
  method that raises returns \<^term>\<open>Inl e\<close>.
\<close>

datatype tool_kind =
  KRead | KSearch | KFetch | KThink | KOrchestrate | KEdit | KDelete | KMove | KExecute | KOther

fun is_read_only :: "tool_kind \<Rightarrow> bool" where
  "is_read_only k = (k \<in> {KRead, KSearch, KFetch, KThink})"

datatype risk = Low | Medium | High

datatype decision_kind = DAllow | DAsk | DDeny

record permission_suggestion =
  sg_risk :: risk
  sg_default_decision :: decision_kind
  sg_reason :: string

datatype permission_mode = MDefault | MPlan | MBypass | MAcceptEdits | MAuto | MDontAsk

record authorize_context =
  session_id :: string
  agent_depth :: nat
  mode :: permission_mode
  cwd :: string
  should_avoid_prompts :: bool

type_synonym tool_input = "(string \<times> json) list"

record tool =
  t_name :: string
  t_aliases :: "string list"
  t_kind :: tool_kind
  prepare_permission_matcher :: "tool_input \<Rightarrow> (string \<Rightarrow> bool py) py"
  default_risk :: "tool_input \<Rightarrow> authorize_context \<Rightarrow> permission_suggestion py"
  is_destructive :: "tool_input \<Rightarrow> bool py"
  is_read_only_call :: "tool_input \<Rightarrow> authorize_context \<Rightarrow> bool py"
  user_facing_name :: "tool_input \<Rightarrow> string py"
  activity_description :: "tool_input \<Rightarrow> string option py"
  destructive_warning :: "tool_input \<Rightarrow> string option py"

definition matches_name :: "tool \<Rightarrow> string \<Rightarrow> bool" where
  "matches_name t candidate \<longleftrightarrow> candidate = t_name t \<or> candidate \<in> set (t_aliases t)"

end
