(* ===== verification/Messages.thy ===== *)
theory Messages
  imports Tool_Contract "HOL-Library.Multiset"
begin

text \<open>
  The provider-neutral message schema (\<open>llm/types.py\<close>), the stream chunks, the token estimate
  (\<open>orchestrator/history/tokens.py\<close>), the assembly of thinking blocks
  (\<open>orchestrator/history/thinking.py\<close>), and what the providers ask of a history: the pairing
  of tool uses with tool results, as an automaton over the message list.
\<close>

section \<open>Schema\<close>

text \<open>\<open>TextContent | ImageContent\<close>, the blocks inside a tool result.\<close>

datatype result_part = PartText string | PartImage string string

datatype result_content = ResultText string | ResultParts "result_part list"

datatype user_content =
    TextContent string
  | ImageContent string string
  | ToolResultContent string result_content bool

datatype assistant_content =
    AssistantText string
  | ToolUseContent string string tool_input
  | ThinkingContent string string

datatype message =
    UserMessage "user_content list"
  | AssistantMessage "assistant_content list"

datatype llm_chunk =
    TextChunk string
  | ThoughtChunk string string
  | ToolUseChunk string string tool_input
  | UsageChunk int int "string option"
  | StreamError string "string option"

fun is_user :: "message \<Rightarrow> bool" where
  "is_user (UserMessage c) = True"
| "is_user (AssistantMessage c) = False"

fun is_result :: "user_content \<Rightarrow> bool" where
  "is_result (ToolResultContent i c e) = True"
| "is_result _ = False"

fun result_id :: "user_content \<Rightarrow> string list" where
  "result_id (ToolResultContent i c e) = [i]"
| "result_id _ = []"

fun use_id :: "assistant_content \<Rightarrow> string list" where
  "use_id (ToolUseContent i n inp) = [i]"
| "use_id _ = []"

definition result_ids :: "user_content list \<Rightarrow> string list" where
  "result_ids c = concat (map result_id c)"

definition use_ids :: "assistant_content list \<Rightarrow> string list" where
  "use_ids c = concat (map use_id c)"

section \<open>Token estimate\<close>

definition CHARS_PER_TOKEN :: nat where
  "CHARS_PER_TOKEN = 4"

fun part_chars :: "result_part \<Rightarrow> nat" where
  "part_chars (PartText t) = length t"
| "part_chars (PartImage m d) = 0"

fun content_char_count :: "result_content \<Rightarrow> nat" where
  "content_char_count (ResultText s) = length s"
| "content_char_count (ResultParts ps) = sum_list (map part_chars ps)"

fun user_block_chars :: "user_content \<Rightarrow> nat" where
  "user_block_chars (TextContent t) = length t"
| "user_block_chars (ImageContent m d) = 0"
| "user_block_chars (ToolResultContent i c e) = content_char_count c"

fun assistant_block_chars :: "(int \<Rightarrow> int \<Rightarrow> string) \<Rightarrow> assistant_content \<Rightarrow> nat" where
  "assistant_block_chars fl (AssistantText t) = length t"
| "assistant_block_chars fl (ThinkingContent t s) = length t"
| "assistant_block_chars fl (ToolUseContent i n inp) = length n + length (py_repr fl (JDict inp))"

fun message_chars :: "(int \<Rightarrow> int \<Rightarrow> string) \<Rightarrow> message \<Rightarrow> nat" where
  "message_chars fl (UserMessage c) = sum_list (map user_block_chars c)"
| "message_chars fl (AssistantMessage c) = sum_list (map (assistant_block_chars fl) c)"

definition estimate_tokens_for :: "(int \<Rightarrow> int \<Rightarrow> string) \<Rightarrow> message list \<Rightarrow> int" where
  "estimate_tokens_for fl ms = max 1 (int (sum_list (map (message_chars fl) ms) div CHARS_PER_TOKEN))"

lemma estimate_tokens_pos: "1 \<le> estimate_tokens_for fl ms"
  by (simp add: estimate_tokens_for_def)

lemma estimate_tokens_mono:
  assumes "sum_list (map (message_chars fl) ms) \<le> sum_list (map (message_chars fl) ms')"
  shows "estimate_tokens_for fl ms \<le> estimate_tokens_for fl ms'"
proof -
  have "sum_list (map (message_chars fl) ms) div CHARS_PER_TOKEN
          \<le> sum_list (map (message_chars fl) ms') div CHARS_PER_TOKEN"
    using assms by (rule div_le_mono)
  then show ?thesis by (simp add: estimate_tokens_for_def max.coboundedI2)
qed

section \<open>Thinking blocks\<close>

record thought_accumulator =
  content_parts :: "string list"
  acc_signature :: string

definition add_content :: "string \<Rightarrow> thought_accumulator \<Rightarrow> thought_accumulator" where
  "add_content t acc = (if t \<noteq> [] then acc\<lparr>content_parts := content_parts acc @ [t]\<rparr> else acc)"

definition add_signature :: "string \<Rightarrow> thought_accumulator \<Rightarrow> thought_accumulator" where
  "add_signature s acc = (if s \<noteq> [] then acc\<lparr>acc_signature := s\<rparr> else acc)"

definition build_thinking :: "thought_accumulator \<Rightarrow> assistant_content option" where
  "build_thinking acc =
     (let content = concat (content_parts acc)
      in if content = [] \<and> acc_signature acc = [] then None
         else Some (ThinkingContent content (acc_signature acc)))"

definition add_thought :: "string \<times> string \<Rightarrow> thought_accumulator \<Rightarrow> thought_accumulator" where
  "add_thought chunk acc =
     (if snd chunk \<noteq> [] then add_signature (snd chunk) acc else add_content (fst chunk) acc)"

text \<open>The list holds content and signature of each \<open>ThoughtChunk\<close>.\<close>

definition assemble_thinking :: "(string \<times> string) list \<Rightarrow> assistant_content option" where
  "assemble_thinking thoughts =
     (if thoughts = [] then None
      else build_thinking (fold add_thought thoughts \<lparr>content_parts = [], acc_signature = []\<rparr>))"

lemma fold_thoughts:
  "fold add_thought ts acc =
     \<lparr>content_parts = content_parts acc @ filter (\<lambda>c. c \<noteq> []) (map fst (filter (\<lambda>t. snd t = []) ts)),
      acc_signature = (case filter (\<lambda>s. s \<noteq> []) (map snd ts) of [] \<Rightarrow> acc_signature acc | ss \<Rightarrow> last ss)\<rparr>"
  by (induction ts arbitrary: acc)
     (auto simp: add_thought_def add_content_def add_signature_def split: list.splits)

lemma concat_nonempty [simp]: "concat (filter (\<lambda>c. c \<noteq> []) xs) = concat xs"
  by (induction xs) auto

lemma assemble_thinking_eq:
  "assemble_thinking ts =
     (let content = concat (map fst (filter (\<lambda>t. snd t = []) ts));
          sigs = filter (\<lambda>s. s \<noteq> []) (map snd ts);
          sig = (if sigs = [] then [] else last sigs)
      in if content = [] \<and> sig = [] then None else Some (ThinkingContent content sig))"
  by (auto simp: assemble_thinking_def build_thinking_def fold_thoughts Let_def split: list.splits)

lemma assemble_thinking_no_use [simp]: "assemble_thinking ts = Some b \<Longrightarrow> use_id b = []"
  by (auto simp: assemble_thinking_eq Let_def split: if_splits)

section \<open>Pairing of tool uses and tool results\<close>

text \<open>
  Providers ask that the results of an assistant message's tool uses follow it before any other
  message, each once, and that no other result occurs. \<open>answer\<close> consumes the results of one user
  message; \<open>None\<close> is a stray result.
\<close>

fun answer :: "string list \<Rightarrow> string list \<Rightarrow> string list option" where
  "answer pending [] = Some pending"
| "answer pending (i # is) = (if i \<in> set pending then answer (remove1 i pending) is else None)"

fun paired_from :: "string list \<Rightarrow> message list \<Rightarrow> bool" where
  "paired_from pending [] \<longleftrightarrow> pending = []"
| "paired_from pending (AssistantMessage c # ms) \<longleftrightarrow> pending = [] \<and> paired_from (use_ids c) ms"
| "paired_from pending (UserMessage c # ms) \<longleftrightarrow>
     (case answer pending (result_ids c) of
        None \<Rightarrow> False
      | Some rest \<Rightarrow> (list_ex (\<lambda>b. \<not> is_result b) c \<longrightarrow> rest = []) \<and> paired_from rest ms)"

definition well_paired :: "message list \<Rightarrow> bool" where
  "well_paired ms = paired_from [] ms"

lemma result_ids_simps [simp]:
  "result_ids [] = []" "result_ids (b # bs) = result_id b @ result_ids bs"
  "result_ids (xs @ ys) = result_ids xs @ result_ids ys"
  by (simp_all add: result_ids_def)

lemma use_ids_simps [simp]:
  "use_ids [] = []" "use_ids (b # bs) = use_id b @ use_ids bs"
  "use_ids (xs @ ys) = use_ids xs @ use_ids ys"
  by (simp_all add: use_ids_def)

lemma result_id_other [simp]: "\<not> is_result b \<Longrightarrow> result_id b = []"
  by (cases b) auto

lemma result_ids_filter [simp]:
  "result_ids (filter is_result c) = result_ids c"
  "result_ids (filter (\<lambda>b. \<not> is_result b) c) = []"
  by (induction c) auto

lemma answer_append:
  "answer p (xs @ ys) = (case answer p xs of None \<Rightarrow> None | Some q \<Rightarrow> answer q ys)"
  by (induction p xs rule: answer.induct) auto

lemma answer_self [simp]: "answer p p = Some []"
  by (induction p) auto

lemma answer_nil [simp]: "answer [] is = Some r \<longleftrightarrow> is = [] \<and> r = []"
  by (cases "is") auto

lemma answer_mset: "answer p is = Some r \<Longrightarrow> mset p = mset is + mset r"
proof (induction p "is" arbitrary: r rule: answer.induct)
  case (2 p i "is")
  then have "i \<in> set p" "mset (remove1 i p) = mset is + mset r" by (auto split: if_splits)
  then show ?case by (metis add_mset_remove_trivial_If insert_DiffM mset.simps(2) mset_remove1
        set_mset_mset union_mset_add_mset_left)
qed simp

lemma answer_perm: "mset is = mset p \<Longrightarrow> answer p is = Some []"
proof (induction "is" arbitrary: p)
  case (Cons i "is")
  then have "i \<in># mset p" by (metis list.set_intros(1) set_mset_mset)
  then have "i \<in> set p" by simp
  moreover have "mset is = mset (remove1 i p)"
    using Cons.prems by (metis add_mset_remove_trivial mset.simps(2) mset_remove1)
  ultimately show ?case using Cons.IH by simp
qed simp

lemma paired_from_append:
  "paired_from [] (xs @ ys) \<Longrightarrow> paired_from [] xs \<Longrightarrow> paired_from [] ys"
proof -
  have "paired_from p (xs @ ys) \<Longrightarrow> paired_from p xs \<Longrightarrow> paired_from [] ys" for p
    by (induction p xs rule: paired_from.induct) (auto split: option.splits)
  then show "paired_from [] (xs @ ys) \<Longrightarrow> paired_from [] xs \<Longrightarrow> paired_from [] ys" by blast
qed

lemma paired_from_appendI:
  "paired_from p xs \<Longrightarrow> paired_from [] ys \<Longrightarrow> paired_from p (xs @ ys)"
  by (induction p xs rule: paired_from.induct) (auto split: option.splits)

lemma paired_from_split:
  "paired_from p (xs @ ys) \<Longrightarrow> \<exists>q. paired_from q ys \<and> (paired_from p xs \<longleftrightarrow> q = [])"
  by (induction p xs rule: paired_from.induct) (auto split: option.splits)

text \<open>The automaton is deterministic: a suffix can be read with one pending list only.\<close>

lemma paired_from_unique:
  "paired_from p ms \<Longrightarrow> paired_from [] ms \<Longrightarrow> p = []"
proof (induction p ms rule: paired_from.induct)
  case (3 p c ms)
  from 3(3) have "result_ids c = []" and rest: "paired_from [] ms" by (auto split: option.splits)
  with 3(2) have "answer p (result_ids c) = Some p" "paired_from p ms" by simp_all
  with 3(1) rest show ?case by simp
qed auto

end
