(* ===== verification/Message_Serde.thy ===== *)
theory Message_Serde
  imports Messages
begin

text \<open>
  Messages as JSON rows of the session log (\<open>sessions/message_serde.py\<close>). A log row that cannot be
  read is an exception, a block of unknown type becomes text.
\<close>

fun serialize_part :: "result_part \<Rightarrow> json" where
  "serialize_part (PartText t) = JDict [(''text'', JStr t), (''type'', JStr ''text'')]"
| "serialize_part (PartImage m d) = JDict [(''media_type'', JStr m), (''data_base64'', JStr d), (''type'', JStr ''image'')]"

fun serialize_result :: "result_content \<Rightarrow> json" where
  "serialize_result (ResultText s) = JStr s"
| "serialize_result (ResultParts ps) = JList (map serialize_part ps)"

fun serialize_user :: "user_content \<Rightarrow> json" where
  "serialize_user (TextContent t) = JDict [(''text'', JStr t), (''type'', JStr ''text'')]"
| "serialize_user (ImageContent m d) = JDict [(''media_type'', JStr m), (''data_base64'', JStr d), (''type'', JStr ''image'')]"
| "serialize_user (ToolResultContent i c e) =
     JDict [(''tool_use_id'', JStr i), (''content'', serialize_result c), (''is_error'', JBool e), (''type'', JStr ''tool_result'')]"

fun serialize_assistant :: "assistant_content \<Rightarrow> json" where
  "serialize_assistant (AssistantText t) = JDict [(''text'', JStr t), (''type'', JStr ''text'')]"
| "serialize_assistant (ToolUseContent i n inp) =
     JDict [(''id'', JStr i), (''name'', JStr n), (''input'', JDict inp), (''type'', JStr ''tool_use'')]"
| "serialize_assistant (ThinkingContent t s) =
     JDict [(''thinking'', JStr t), (''signature'', JStr s), (''type'', JStr ''thinking'')]"

fun serialize_message :: "message \<Rightarrow> json" where
  "serialize_message (UserMessage c) = JDict [(''content'', JList (map serialize_user c)), (''role'', JStr ''user'')]"
| "serialize_message (AssistantMessage c) =
     JDict [(''content'', JList (map serialize_assistant c)), (''role'', JStr ''assistant'')]"

text \<open>
  \<open>b.get(k)\<close> and \<open>b[k]\<close>. Fields that must hold a string, a bool or a dict are read with
  \<open>as_str\<close>, \<open>as_bool\<close> and \<open>as_dict\<close>; the dataclasses do not check this, and a row with a
  value of another type, which \<open>serialize_message\<close> never writes, is an error in the model.
\<close>

definition py_attr_get :: "string \<Rightarrow> json \<Rightarrow> json option py" where
  "py_attr_get k b = (case b of JDict d \<Rightarrow> Inr (map_of d k) | _ \<Rightarrow> Inl (PyExn ''AttributeError''))"

definition py_item :: "string \<Rightarrow> json \<Rightarrow> json py" where
  "py_item k b =
     (case b of
        JDict d \<Rightarrow> (case map_of d k of Some v \<Rightarrow> Inr v | None \<Rightarrow> Inl (PyExn ''KeyError''))
      | _ \<Rightarrow> Inl (PyExn ''TypeError''))"

fun as_str :: "json \<Rightarrow> string py" where
  "as_str (JStr s) = Inr s" | "as_str _ = Inl (PyExn ''TypeError'')"

fun as_bool :: "json \<Rightarrow> bool py" where
  "as_bool (JBool b) = Inr b" | "as_bool _ = Inl (PyExn ''TypeError'')"

fun as_dict :: "json \<Rightarrow> tool_input py" where
  "as_dict (JDict d) = Inr d" | "as_dict _ = Inl (PyExn ''TypeError'')"

text \<open>Iteration: the items of a list, the keys of a dict, the characters of a string.\<close>

fun py_iter :: "json \<Rightarrow> json list py" where
  "py_iter (JList xs) = Inr xs"
| "py_iter (JDict d) = Inr (map (\<lambda>p. JStr (fst p)) d)"
| "py_iter (JStr s) = Inr (map (\<lambda>c. JStr [c]) s)"
| "py_iter _ = Inl (PyExn ''TypeError'')"

fun py_map :: "('a \<Rightarrow> 'b py) \<Rightarrow> 'a list \<Rightarrow> 'b list py" where
  "py_map f [] = Inr []"
| "py_map f (x # xs) =
     (case f x of Inl e \<Rightarrow> Inl e
      | Inr y \<Rightarrow> (case py_map f xs of Inl e \<Rightarrow> Inl e | Inr ys \<Rightarrow> Inr (y # ys)))"

definition py_bind :: "'a py \<Rightarrow> ('a \<Rightarrow> 'b py) \<Rightarrow> 'b py" where
  "py_bind r f = (case r of Inl e \<Rightarrow> Inl e | Inr x \<Rightarrow> f x)"

definition str_item :: "string \<Rightarrow> json \<Rightarrow> string py" where
  "str_item k b = py_bind (py_item k b) as_str"

definition deserialize_tool_result_block :: "(int \<Rightarrow> int \<Rightarrow> string) \<Rightarrow> json \<Rightarrow> result_part py" where
  "deserialize_tool_result_block fl b =
     py_bind (py_attr_get ''type'' b) (\<lambda>kind.
       if kind = Some (JStr ''text'') then py_bind (str_item ''text'' b) (\<lambda>t. Inr (PartText t))
       else if kind = Some (JStr ''image'')
       then py_bind (str_item ''media_type'' b) (\<lambda>m. py_bind (str_item ''data_base64'' b) (\<lambda>d. Inr (PartImage m d)))
       else Inr (PartText (py_repr fl b)))"

definition deserialize_result_content :: "(int \<Rightarrow> int \<Rightarrow> string) \<Rightarrow> json \<Rightarrow> result_content py" where
  "deserialize_result_content fl raw =
     (case raw of
        JStr s \<Rightarrow> Inr (ResultText s)
      | _ \<Rightarrow> py_bind (py_iter raw) (\<lambda>xs.
               py_bind (py_map (deserialize_tool_result_block fl) xs) (\<lambda>ps. Inr (ResultParts ps))))"

definition deserialize_user_content :: "(int \<Rightarrow> int \<Rightarrow> string) \<Rightarrow> json \<Rightarrow> user_content py" where
  "deserialize_user_content fl b =
     py_bind (py_attr_get ''type'' b) (\<lambda>kind.
       if kind = Some (JStr ''text'') then py_bind (str_item ''text'' b) (\<lambda>t. Inr (TextContent t))
       else if kind = Some (JStr ''image'')
       then py_bind (str_item ''media_type'' b) (\<lambda>m. py_bind (str_item ''data_base64'' b) (\<lambda>d. Inr (ImageContent m d)))
       else if kind = Some (JStr ''tool_result'')
       then py_bind (py_item ''content'' b) (\<lambda>raw. py_bind (deserialize_result_content fl raw) (\<lambda>c.
              py_bind (str_item ''tool_use_id'' b) (\<lambda>i. py_bind (py_attr_get ''is_error'' b) (\<lambda>e.
                py_bind (case e of None \<Rightarrow> Inr False | Some v \<Rightarrow> as_bool v) (\<lambda>flag.
                  Inr (ToolResultContent i c flag))))))
       else Inr (TextContent (py_repr fl b)))"

definition deserialize_assistant_content :: "(int \<Rightarrow> int \<Rightarrow> string) \<Rightarrow> json \<Rightarrow> assistant_content py" where
  "deserialize_assistant_content fl b =
     py_bind (py_attr_get ''type'' b) (\<lambda>kind.
       if kind = Some (JStr ''text'') then py_bind (str_item ''text'' b) (\<lambda>t. Inr (AssistantText t))
       else if kind = Some (JStr ''tool_use'')
       then py_bind (str_item ''id'' b) (\<lambda>i. py_bind (str_item ''name'' b) (\<lambda>n.
              py_bind (py_item ''input'' b) (\<lambda>v. py_bind (as_dict v) (\<lambda>inp. Inr (ToolUseContent i n inp)))))
       else if kind = Some (JStr ''thinking'')
       then py_bind (str_item ''thinking'' b) (\<lambda>t. py_bind (str_item ''signature'' b) (\<lambda>s. Inr (ThinkingContent t s)))
       else Inr (AssistantText (py_repr fl b)))"

definition deserialize_message :: "(int \<Rightarrow> int \<Rightarrow> string) \<Rightarrow> json \<Rightarrow> message py" where
  "deserialize_message fl data =
     py_bind (py_attr_get ''role'' data) (\<lambda>role.
       if role = Some (JStr ''user'')
       then py_bind (py_item ''content'' data) (\<lambda>c. py_bind (py_iter c) (\<lambda>bs.
              py_bind (py_map (deserialize_user_content fl) bs) (\<lambda>us. Inr (UserMessage us))))
       else if role = Some (JStr ''assistant'')
       then py_bind (py_item ''content'' data) (\<lambda>c. py_bind (py_iter c) (\<lambda>bs.
              py_bind (py_map (deserialize_assistant_content fl) bs) (\<lambda>us. Inr (AssistantMessage us))))
       else Inl (PyExn ''ValueError''))"

lemmas py_access = py_attr_get_def py_item_def py_bind_def str_item_def

lemma py_map_inverse: "(\<And>x. x \<in> set xs \<Longrightarrow> f (g x) = Inr x) \<Longrightarrow> py_map f (map g xs) = Inr xs"
  by (induction xs) auto

lemma part_roundtrip: "deserialize_tool_result_block fl (serialize_part p) = Inr p"
  by (cases p) (simp_all add: deserialize_tool_result_block_def py_access)

lemma result_roundtrip: "deserialize_result_content fl (serialize_result c) = Inr c"
  by (cases c) (simp_all add: deserialize_result_content_def py_bind_def py_map_inverse part_roundtrip)

lemma user_roundtrip: "deserialize_user_content fl (serialize_user b) = Inr b"
  by (cases b) (simp_all add: deserialize_user_content_def py_access result_roundtrip)

lemma assistant_roundtrip: "deserialize_assistant_content fl (serialize_assistant b) = Inr b"
  by (cases b) (simp_all add: deserialize_assistant_content_def py_access)

lemma deserialize_serialize [simp]: "deserialize_message fl (serialize_message m) = Inr m"
  by (cases m) (simp_all add: deserialize_message_def py_access py_map_inverse user_roundtrip assistant_roundtrip)

text \<open>
  C39. A message that is written to the log and read back is the same message, with all its blocks:
  text, images, tool uses with their input, results with their error flag, thinking with its
  signature.
\<close>

theorem message_roundtrip: "deserialize_message fl (serialize_message m) = Inr m"
  by (rule deserialize_serialize)

end
