(* ===== verification/Conversation_History.thy ===== *)
theory Conversation_History
  imports Messages
begin

text \<open>
  The in-memory conversation (\<open>orchestrator/history/conversation.py\<close> and \<open>pairs.py\<close>): the
  message list, the token count and the recorded tool kinds, every operation of
  \<open>ConversationHistory\<close>, and the protocol repair. The theorems show that the repair produces a
  well-paired history, changes nothing when there is nothing to repair, and keeps every block
  that is not a tool result; and that sealing interrupted calls leaves none pending. How Python
  prints a float is the argument \<open>fl\<close> of the token estimate.
\<close>

section \<open>State and operations\<close>

record history =
  messages :: "message list"
  token_count :: int
  tool_kinds :: "(string, tool_kind) dict"

type_synonym float_repr = "int \<Rightarrow> int \<Rightarrow> string"

definition new_history :: "float_repr \<Rightarrow> message list \<Rightarrow> history" where
  "new_history fl ms = \<lparr>messages = ms, token_count = estimate_tokens_for fl ms, tool_kinds = []\<rparr>"

definition push_message :: "float_repr \<Rightarrow> message \<Rightarrow> history \<Rightarrow> history" where
  "push_message fl m h =
     h\<lparr>messages := messages h @ [m], token_count := token_count h + estimate_tokens_for fl [m]\<rparr>"

definition append_user :: "float_repr \<Rightarrow> string list \<Rightarrow> history \<Rightarrow> history" where
  "append_user fl texts h = push_message fl (UserMessage (map TextContent texts)) h"

definition assistant_blocks ::
    "string \<Rightarrow> (string \<times> string) list \<Rightarrow> assistant_content list \<Rightarrow> assistant_content list" where
  "assistant_blocks txt thoughts tool_calls =
     (case assemble_thinking thoughts of None \<Rightarrow> [] | Some b \<Rightarrow> [b]) @
     (if txt \<noteq> [] then [AssistantText txt] else []) @ tool_calls"

definition append_assistant ::
    "float_repr \<Rightarrow> string \<Rightarrow> (string \<times> string) list \<Rightarrow> assistant_content list \<Rightarrow> history \<Rightarrow> history" where
  "append_assistant fl txt thoughts tool_calls h =
     (let content = assistant_blocks txt thoughts tool_calls
      in if content = [] then h else push_message fl (AssistantMessage content) h)"

definition append_tool_results :: "float_repr \<Rightarrow> user_content list \<Rightarrow> history \<Rightarrow> history" where
  "append_tool_results fl results h =
     (if results = [] then h else push_message fl (UserMessage results) h)"

text \<open>
  \<open>pending_tool_use_ids\<close> scans backwards for the last assistant message and collects the answers
  after it.
\<close>

fun last_assistant :: "message list \<Rightarrow> (assistant_content list \<times> message list) option" where
  "last_assistant [] = None"
| "last_assistant (m # ms) =
     (case last_assistant ms of
        Some r \<Rightarrow> Some r
      | None \<Rightarrow> (case m of AssistantMessage c \<Rightarrow> Some (c, ms) | UserMessage c \<Rightarrow> None))"

fun message_results :: "message \<Rightarrow> string list" where
  "message_results (UserMessage c) = result_ids c"
| "message_results (AssistantMessage c) = []"

definition pending_tool_use_ids :: "message list \<Rightarrow> string list" where
  "pending_tool_use_ids ms =
     (case last_assistant ms of
        None \<Rightarrow> []
      | Some (c, rest) \<Rightarrow>
          let answered = concat (map message_results rest)
          in filter (\<lambda>i. i \<notin> set answered) (use_ids c))"

definition synthetic :: "string \<Rightarrow> string list \<Rightarrow> user_content list" where
  "synthetic reason ids = map (\<lambda>i. ToolResultContent i (ResultText reason) True) ids"

definition append_interrupted_tool_results :: "float_repr \<Rightarrow> string \<Rightarrow> history \<Rightarrow> string list \<times> history" where
  "append_interrupted_tool_results fl reason h =
     (let orphan_ids = pending_tool_use_ids (messages h)
      in if orphan_ids = [] then ([], h)
         else (orphan_ids, append_tool_results fl (synthetic reason orphan_ids) h))"

text \<open>\<open>_append_synthetic_results\<close>: the message to append, if any.\<close>

definition synthetic_message :: "string \<Rightarrow> string list \<Rightarrow> message list" where
  "synthetic_message reason ids = (if ids = [] then [] else [UserMessage (synthetic reason ids)])"

text \<open>
  The inner loop of the repair over the result blocks of one user message: valid results,
  removed ids, and what is still pending.
\<close>

fun claim_results ::
    "string list \<Rightarrow> user_content list \<Rightarrow> user_content list \<times> string list \<times> string list" where
  "claim_results pending [] = ([], [], pending)"
| "claim_results pending (ToolResultContent i c e # bs) =
     (if i \<in> set pending
      then (let (valid, removed, rest) = claim_results (remove1 i pending) bs
            in (ToolResultContent i c e # valid, removed, rest))
      else (let (valid, removed, rest) = claim_results pending bs
            in (valid, i # removed, rest)))"
| "claim_results pending (b # bs) = claim_results pending bs"

text \<open>
  The loop of \<open>repair_orphan_tool_results\<close>: the ids inserted or removed and the new messages,
  from a list of pending ids on. \<^typ>\<open>message\<close> has two cases, as the union in the source, so
  the branch for any other class is never taken.
\<close>

fun repair_loop :: "string \<Rightarrow> string list \<Rightarrow> message list \<Rightarrow> string list \<times> message list" where
  "repair_loop reason pending [] = (pending, synthetic_message reason pending)"
| "repair_loop reason pending (AssistantMessage c # ms) =
     (let (repaired, out) = repair_loop reason (use_ids c) ms
      in (pending @ repaired, synthetic_message reason pending @ AssistantMessage c # out))"
| "repair_loop reason pending (UserMessage c # ms) =
     (let result_blocks = filter is_result c;
          other_blocks = filter (\<lambda>b. \<not> is_result b) c
      in if pending \<noteq> []
         then (let (valid, removed, rest) = claim_results pending result_blocks;
                   valid_message = (if valid \<noteq> [] then [UserMessage valid] else [])
               in if other_blocks \<noteq> []
                  then (let (repaired, out) = repair_loop reason [] ms
                        in (removed @ rest @ repaired,
                            valid_message @ synthetic_message reason rest @ UserMessage other_blocks # out))
                  else (let (repaired, out) = repair_loop reason rest ms
                        in (removed @ repaired, valid_message @ out)))
         else (let (repaired, out) = repair_loop reason [] ms
               in (result_ids result_blocks @ repaired,
                   (if other_blocks \<noteq> [] then [UserMessage other_blocks] else []) @ out)))"

definition repair_orphan_tool_results :: "float_repr \<Rightarrow> string \<Rightarrow> history \<Rightarrow> string list \<times> history" where
  "repair_orphan_tool_results fl reason h =
     (let (repaired, ms) = repair_loop reason [] (messages h)
      in (repaired,
          if repaired \<noteq> [] then h\<lparr>messages := ms, token_count := estimate_tokens_for fl ms\<rparr> else h))"

definition record_tool_kind :: "string \<Rightarrow> tool_kind \<Rightarrow> history \<Rightarrow> history" where
  "record_tool_kind i k h = h\<lparr>tool_kinds := dict_set i k (tool_kinds h)\<rparr>"

definition tool_kind_for :: "string \<Rightarrow> history \<Rightarrow> tool_kind option" where
  "tool_kind_for i h = map_of (tool_kinds h) i"

definition pop_last_assistant :: "float_repr \<Rightarrow> history \<Rightarrow> bool \<times> history" where
  "pop_last_assistant fl h =
     (if messages h \<noteq> [] \<and> \<not> is_user (last (messages h))
      then (True, h\<lparr>messages := butlast (messages h),
                    token_count := estimate_tokens_for fl (butlast (messages h))\<rparr>)
      else (False, h))"

definition update_token_count :: "int \<Rightarrow> int \<Rightarrow> history \<Rightarrow> history" where
  "update_token_count input_tokens output_tokens h =
     (if input_tokens > 0 then h\<lparr>token_count := input_tokens + output_tokens\<rparr> else h)"

definition user_indices :: "message list \<Rightarrow> nat list" where
  "user_indices ms = filter (\<lambda>i. is_user (ms ! i)) [0..<length ms]"

text \<open>
  \<open>user_indices[-keep_recent_turns]\<close>; with \<open>keep_recent_turns = 0\<close> Python reads index \<open>0\<close>.
\<close>

definition find_compaction_boundary :: "nat \<Rightarrow> history \<Rightarrow> nat" where
  "find_compaction_boundary keep h =
     (let users = user_indices (messages h)
      in if length users \<le> keep then 0
         else if keep = 0 then users ! 0 else users ! (length users - keep))"

definition replace_with_compacted :: "float_repr \<Rightarrow> string \<Rightarrow> nat \<Rightarrow> string option \<Rightarrow> history \<Rightarrow> history" where
  "replace_with_compacted fl summary boundary summary_header h =
     (let header_text = (case summary_header of
                           Some s \<Rightarrow> if s \<noteq> [] then s
                                     else ''Prior conversation summary:'' @ [CHR 0x0A] @ summary
                         | None \<Rightarrow> ''Prior conversation summary:'' @ [CHR 0x0A] @ summary);
          ms = UserMessage [TextContent header_text] # drop boundary (messages h)
      in h\<lparr>messages := ms, token_count := estimate_tokens_for fl ms\<rparr>)"

section \<open>What the repair keeps\<close>

text \<open>Everything in a history that is not a tool result, in order.\<close>

fun spoken :: "message list \<Rightarrow> (assistant_content list + user_content) list" where
  "spoken [] = []"
| "spoken (AssistantMessage c # ms) = Inl c # spoken ms"
| "spoken (UserMessage c # ms) = map Inr (filter (\<lambda>b. \<not> is_result b) c) @ spoken ms"

text \<open>The results recorded for one tool use, in order.\<close>

fun results_for :: "string \<Rightarrow> message list \<Rightarrow> user_content list" where
  "results_for i [] = []"
| "results_for i (AssistantMessage c # ms) = results_for i ms"
| "results_for i (UserMessage c # ms) = filter (\<lambda>b. result_id b = [i]) c @ results_for i ms"

lemma spoken_append [simp]: "spoken (xs @ ys) = spoken xs @ spoken ys"
  by (induction xs rule: spoken.induct) auto

lemma results_for_append [simp]: "results_for i (xs @ ys) = results_for i xs @ results_for i ys"
  by (induction i xs rule: results_for.induct) auto

lemma result_ids_synthetic [simp]: "result_ids (synthetic reason ids) = ids"
  by (induction ids) (auto simp: synthetic_def)

lemma is_result_synthetic [simp]: "b \<in> set (synthetic reason ids) \<Longrightarrow> is_result b"
  by (auto simp: synthetic_def)

lemma synthetic_nil [simp]: "synthetic reason ids = [] \<longleftrightarrow> ids = []"
  by (simp add: synthetic_def)

lemma filter_synthetic [simp]:
  "filter (\<lambda>b. \<not> is_result b) (synthetic reason ids) = []"
  "i \<notin> set ids \<Longrightarrow> filter (\<lambda>b. result_id b = [i]) (synthetic reason ids) = []"
  by (auto simp: synthetic_def filter_empty_conv)

lemma synthetic_message_simps [simp]:
  "spoken (synthetic_message reason ids) = []"
  "i \<notin> set ids \<Longrightarrow> results_for i (synthetic_message reason ids) = []"
  "paired_from ids (synthetic_message reason ids @ ms) = paired_from [] ms"
  by (auto simp: synthetic_message_def list_ex_iff)

lemma claim_results_answer:
  "claim_results pending bs = (valid, removed, rest) \<Longrightarrow> answer pending (result_ids valid) = Some rest"
  by (induction pending bs arbitrary: valid removed rest rule: claim_results.induct)
     (auto split: prod.splits if_splits)

lemma claim_results_valid:
  "claim_results pending bs = (valid, removed, rest) \<Longrightarrow> list_all is_result valid"
  by (induction pending bs arbitrary: valid removed rest rule: claim_results.induct)
     (auto split: prod.splits if_splits)

lemma claim_results_removed:
  "claim_results pending bs = (valid, removed, rest) \<Longrightarrow>
     answer pending (result_ids bs) = (if removed = [] then Some rest else None)"
proof (induction pending bs arbitrary: valid removed rest rule: claim_results.induct)
  case (2 pending i c e bs)
  then show ?case by (cases "i \<in> set pending") (auto split: prod.splits)
qed auto

lemma claim_results_kept:
  "claim_results pending bs = (valid, removed, rest) \<Longrightarrow> i \<notin> set removed \<Longrightarrow>
     filter (\<lambda>b. result_id b = [i]) valid = filter (\<lambda>b. result_id b = [i]) bs"
  by (induction pending bs arbitrary: valid removed rest rule: claim_results.induct)
     (auto split: prod.splits if_splits)

lemma spoken_valid [simp]: "list_all is_result c \<Longrightarrow> filter (\<lambda>b. \<not> is_result b) c = []"
  by (simp add: filter_empty_conv list_all_iff)

lemma filter_results_other [simp]:
  "filter (\<lambda>b. is_result b \<and> result_id b = [i]) c = filter (\<lambda>b. result_id b = [i]) c"
  "filter (\<lambda>b. \<not> is_result b \<and> result_id b = [i]) c = []"
  by (induction c) auto

lemma others_empty: "filter (\<lambda>b. \<not> is_result b) c = [] \<longleftrightarrow> \<not> list_ex (\<lambda>b. \<not> is_result b) c"
  by (auto simp: filter_empty_conv list_ex_iff)

lemma list_ex_results [simp]: "list_all is_result c \<Longrightarrow> \<not> list_ex (\<lambda>b. \<not> is_result b) c"
  by (auto simp: list_ex_iff list_all_iff)

lemma paired_from_results [simp]:
  "list_all is_result c \<Longrightarrow> answer p (result_ids c) = Some r \<Longrightarrow>
     paired_from p (UserMessage c # ms) = paired_from r ms"
  by simp

lemma paired_from_others [simp]:
  "result_ids c = [] \<Longrightarrow> paired_from [] (UserMessage c # ms) = paired_from [] ms"
  by simp

declare paired_from.simps(3) [simp del]

lemma repair_loop_paired: "paired_from pending (snd (repair_loop reason pending ms))"
proof (induction reason pending ms rule: repair_loop.induct)
  case (1 reason pending)
  show ?case using synthetic_message_simps(3) [of pending reason "[]"] by simp
next
  case (2 reason pending c ms)
  then show ?case by (simp add: Let_def split_def)
next
  case (3 reason pending c ms)
  let ?rs = "filter is_result c" and ?os = "filter (\<lambda>b. \<not> is_result b) c"
  obtain valid removed rest where cl: "claim_results pending ?rs = (valid, removed, rest)"
    by (cases "claim_results pending ?rs") auto
  show ?case
  proof (cases "pending = []")
    case True
    with 3 show ?thesis by (simp add: Let_def split_def)
  next
    case False
    with 3 cl show ?thesis
      using claim_results_answer [OF cl] claim_results_valid [OF cl]
      by (cases "?os = []"; cases "valid = []") (simp_all add: Let_def split_def)
  qed
qed

lemma repair_loop_spoken: "spoken (snd (repair_loop reason pending ms)) = spoken ms"
proof (induction reason pending ms rule: repair_loop.induct)
  case (3 reason pending c ms)
  let ?rs = "filter is_result c" and ?os = "filter (\<lambda>b. \<not> is_result b) c"
  obtain valid removed rest where cl: "claim_results pending ?rs = (valid, removed, rest)"
    by (cases "claim_results pending ?rs") auto
  with claim_results_valid [OF cl] 3 show ?case
    by (cases "pending = []"; cases "?os = []") (simp_all add: Let_def split_def)
qed (simp_all add: Let_def split_def)

lemma repair_loop_kept:
  "i \<notin> set (fst (repair_loop reason pending ms)) \<Longrightarrow>
     results_for i (snd (repair_loop reason pending ms)) = results_for i ms"
proof (induction reason pending ms rule: repair_loop.induct)
  case (3 reason pending c ms)
  let ?rs = "filter is_result c" and ?os = "filter (\<lambda>b. \<not> is_result b) c"
  obtain valid removed rest where cl: "claim_results pending ?rs = (valid, removed, rest)"
    by (cases "claim_results pending ?rs") auto
  have gone: "i \<notin> set (result_ids c) \<Longrightarrow> filter (\<lambda>b. result_id b = [i]) c = []"
    by (induction c) auto
  show ?case
  proof (cases "pending = []")
    case True
    with 3 gone show ?thesis by (cases "?os = []") (auto simp: Let_def split_def)
  next
    case False
    with 3(4) cl have "i \<notin> set removed" by (auto simp: Let_def split_def split: if_splits)
    from claim_results_kept [OF cl this] False 3 cl show ?thesis
      by (cases "?os = []"; cases "valid = []") (simp_all add: Let_def split_def)
  qed
qed (simp_all add: Let_def split_def)

lemma repair_loop_none: "fst (repair_loop reason pending ms) = [] \<longleftrightarrow> paired_from pending ms"
proof (induction reason pending ms rule: repair_loop.induct)
  case (3 reason pending c ms)
  let ?rs = "filter is_result c" and ?os = "filter (\<lambda>b. \<not> is_result b) c"
  obtain valid removed rest where cl: "claim_results pending ?rs = (valid, removed, rest)"
    by (cases "claim_results pending ?rs") auto
  show ?case
  proof (cases "pending = []")
    case True
    with 3 show ?thesis
      by (cases "result_ids c = []") (auto simp: Let_def split_def paired_from.simps(3) split: option.splits)
  next
    case False
    with 3 cl claim_results_removed [OF cl] others_empty [of c] show ?thesis
      by (cases "?os = []"; cases "removed = []")
         (auto simp: Let_def split_def paired_from.simps(3) split: option.splits)
  qed
qed (simp_all add: Let_def split_def)

lemma repair_messages:
  "messages (snd (repair_orphan_tool_results fl reason h)) =
     (if fst (repair_orphan_tool_results fl reason h) = [] then messages h
      else snd (repair_loop reason [] (messages h)))"
  "fst (repair_orphan_tool_results fl reason h) = fst (repair_loop reason [] (messages h))"
  "fst (repair_orphan_tool_results fl reason h) = [] \<Longrightarrow> snd (repair_orphan_tool_results fl reason h) = h"
  by (simp_all add: repair_orphan_tool_results_def Let_def split_def)

text \<open>
  C15. The protocol repair. After it the history is well paired: every assistant message's tool
  uses are answered, each exactly once, before any other block, and no other result is left. It
  reports no id exactly when the history was well paired, and then changes nothing; the
  assistant messages and all user blocks that are not tool results stay in place and in order;
  and the results of every tool use it does not report are kept as they were.
\<close>

theorem repair_orphan_tool_results_correct:
  "well_paired (messages (snd (repair_orphan_tool_results fl reason h))) \<and>
   (fst (repair_orphan_tool_results fl reason h) = [] \<longleftrightarrow> well_paired (messages h)) \<and>
   (fst (repair_orphan_tool_results fl reason h) = [] \<longrightarrow>
      snd (repair_orphan_tool_results fl reason h) = h) \<and>
   spoken (messages (snd (repair_orphan_tool_results fl reason h))) = spoken (messages h) \<and>
   (\<forall>i. i \<notin> set (fst (repair_orphan_tool_results fl reason h)) \<longrightarrow>
      results_for i (messages (snd (repair_orphan_tool_results fl reason h))) = results_for i (messages h))"
  using repair_loop_paired [of "[]" reason "messages h"] repair_loop_none [of reason "[]" "messages h"]
    repair_loop_kept [of _ reason "[]" "messages h"]
  by (auto simp: repair_messages well_paired_def repair_loop_spoken)

definition torn_history :: history where
  "torn_history = new_history (\<lambda>m e. [])
     [UserMessage [TextContent ''hi''],
      AssistantMessage [ToolUseContent ''a'' ''Read'' [], ToolUseContent ''b'' ''Grep'' []],
      UserMessage [ToolResultContent ''a'' (ResultText ''ok'') False],
      UserMessage [TextContent ''next'', ToolResultContent ''z'' (ResultText ''stray'') False]]"

theorem repair_orphan_tool_results_witness:
  "fst (repair_orphan_tool_results (\<lambda>m e. []) ''lost'' torn_history) = [''z'', ''b''] \<and>
   results_for ''a'' (messages (snd (repair_orphan_tool_results (\<lambda>m e. []) ''lost'' torn_history))) =
     [ToolResultContent ''a'' (ResultText ''ok'') False]"
proof
  show ids: "fst (repair_orphan_tool_results (\<lambda>m e. []) ''lost'' torn_history) = [''z'', ''b'']"
    by code_simp
  have "results_for ''a'' (messages torn_history) = [ToolResultContent ''a'' (ResultText ''ok'') False]"
    by code_simp
  moreover have "''a'' \<notin> set (fst (repair_orphan_tool_results (\<lambda>m e. []) ''lost'' torn_history))"
    by (simp add: ids)
  ultimately show "results_for ''a'' (messages (snd (repair_orphan_tool_results (\<lambda>m e. []) ''lost'' torn_history))) =
     [ToolResultContent ''a'' (ResultText ''ok'') False]"
    using repair_orphan_tool_results_correct by metis
qed

section \<open>Pending calls\<close>

lemma last_assistant_append:
  "last_assistant (ms @ [UserMessage c]) =
     (case last_assistant ms of None \<Rightarrow> None | Some (d, rest) \<Rightarrow> Some (d, rest @ [UserMessage c]))"
  by (induction ms) (auto split: option.splits message.splits)

lemma pending_after_append:
  "pending_tool_use_ids (ms @ [UserMessage c]) =
     filter (\<lambda>i. i \<notin> set (result_ids c)) (pending_tool_use_ids ms)"
  by (auto simp: pending_tool_use_ids_def last_assistant_append Let_def conj_commute
      split: option.splits intro!: filter_cong)

lemma paired_no_assistant: "last_assistant ms = None \<Longrightarrow> paired_from p ms \<Longrightarrow>
  mset p = mset (concat (map message_results ms))"
proof (induction p ms rule: paired_from.induct)
  case (3 p c ms)
  then obtain r where "answer p (result_ids c) = Some r" "paired_from r ms" "last_assistant ms = None"
    by (auto simp: paired_from.simps(3) split: option.splits)
  with answer_mset [OF this(1)] 3 show ?case by auto
qed (auto split: option.splits)

lemma paired_pending:
  "last_assistant ms = Some (c, rest) \<Longrightarrow> paired_from p ms \<Longrightarrow>
     mset (use_ids c) = mset (concat (map message_results rest))"
proof (induction p ms rule: paired_from.induct)
  case (2 p d ms)
  then show ?case using paired_no_assistant [of ms "use_ids c"] by (auto split: option.splits)
next
  case (3 p d ms)
  then show ?case by (auto simp: paired_from.simps(3) split: option.splits)
qed simp

lemma well_paired_no_pending: "well_paired ms \<Longrightarrow> pending_tool_use_ids ms = []"
  using mset_eq_setD [OF paired_pending [of ms _ _ "[]"]]
  by (auto simp: pending_tool_use_ids_def well_paired_def Let_def filter_empty_conv split: option.splits)

lemma last_assistant_last: "last_assistant (ms @ [AssistantMessage c]) = Some (c, [])"
  by (induction ms) (auto split: option.splits)

lemma well_paired_assistant_answered:
  assumes "well_paired ms" "mset (result_ids rs) = mset (use_ids c)" "list_all is_result rs"
  shows "well_paired (ms @ [AssistantMessage c, UserMessage rs])"
proof -
  have "paired_from [] [AssistantMessage c, UserMessage rs]"
    using assms(2,3) answer_perm [OF assms(2)] by simp
  with assms(1) show ?thesis unfolding well_paired_def by (rule paired_from_appendI)
qed

lemma append_interrupted_messages:
  "messages (snd (append_interrupted_tool_results fl reason h)) =
     (let ids = pending_tool_use_ids (messages h)
      in if ids = [] then messages h else messages h @ [UserMessage (synthetic reason ids)])"
  "fst (append_interrupted_tool_results fl reason h) = pending_tool_use_ids (messages h)"
  by (simp_all add: append_interrupted_tool_results_def append_tool_results_def push_message_def Let_def)

text \<open>
  Sealing an interrupted turn (\<open>append_interrupted_tool_results\<close>, run when a query is
  cancelled): afterwards no tool use of the last assistant message is pending; and when the
  cancellation struck between a well-paired history's next assistant message and its results,
  the sealed history is well paired again.
\<close>

theorem interrupted_calls_sealed:
  assumes "well_paired ms" "messages h = ms @ [AssistantMessage c]"
  shows "pending_tool_use_ids (messages (snd (append_interrupted_tool_results fl reason h))) = [] \<and>
         fst (append_interrupted_tool_results fl reason h) = use_ids c \<and>
         well_paired (messages (snd (append_interrupted_tool_results fl reason h)))"
proof -
  let ?h' = "snd (append_interrupted_tool_results fl reason h)"
  have ids: "pending_tool_use_ids (messages h) = use_ids c"
    by (simp add: assms(2) pending_tool_use_ids_def last_assistant_last)
  have "well_paired (messages ?h')"
  proof (cases "use_ids c = []")
    case True
    then have "paired_from [] [AssistantMessage c]" by simp
    with assms True ids show ?thesis
      by (simp add: append_interrupted_messages Let_def well_paired_def paired_from_appendI)
  next
    case False
    with assms ids show ?thesis
      using well_paired_assistant_answered [OF assms(1), of "synthetic reason (use_ids c)" c]
      by (simp add: append_interrupted_messages Let_def list_all_iff)
  qed
  with ids show ?thesis by (simp add: append_interrupted_messages(2) well_paired_no_pending)
qed

theorem interrupted_calls_sealed_witness:
  "well_paired (messages (snd (append_interrupted_tool_results (\<lambda>m e. []) ''Interrupted by user''
     (new_history (\<lambda>m e. []) [UserMessage [TextContent ''hi''],
        AssistantMessage [ToolUseContent ''a'' ''Read'' [], ToolUseContent ''b'' ''Grep'' []]]))))"
proof -
  have "well_paired [UserMessage [TextContent ''hi'']]" by code_simp
  from interrupted_calls_sealed [OF this, of
      "new_history (\<lambda>m e. []) [UserMessage [TextContent ''hi''],
        AssistantMessage [ToolUseContent ''a'' ''Read'' [], ToolUseContent ''b'' ''Grep'' []]]"]
  show ?thesis by (simp add: new_history_def)
qed

section \<open>The compaction boundary\<close>

lemma user_indices_mem:
  "i \<in> set (user_indices ms) \<longleftrightarrow> i < length ms \<and> is_user (ms ! i)"
  by (auto simp: user_indices_def)

lemma user_indices_strict: "sorted_wrt (<) (user_indices ms)"
  by (simp add: user_indices_def sorted_wrt_filter)

lemma boundary_in_range:
  "find_compaction_boundary keep h \<noteq> 0 \<Longrightarrow>
     find_compaction_boundary keep h < length (messages h) \<and>
     is_user (messages h ! find_compaction_boundary keep h)"
proof -
  assume nz: "find_compaction_boundary keep h \<noteq> 0"
  let ?u = "user_indices (messages h)"
  from nz have "find_compaction_boundary keep h \<in> set ?u"
    by (auto simp: find_compaction_boundary_def Let_def split: if_splits)
  then show ?thesis by (simp add: user_indices_mem)
qed

lemma boundary_le: "find_compaction_boundary keep h \<le> length (messages h)"
  using boundary_in_range [of keep h] by (cases "find_compaction_boundary keep h = 0") auto

lemma users_from: "length (filter is_user (drop b ms)) = length (filter (\<lambda>i. b \<le> i) (user_indices ms))"
proof -
  have "filter is_user (drop b ms) = map ((!) ms) (filter (\<lambda>i. is_user (ms ! i)) [b..<length ms])"
  proof -
    have "drop b ms = map ((!) ms) [b..<length ms]"
      using drop_map [of b "(!) ms" "[0..<length ms]"] by (simp add: map_nth)
    then show ?thesis by (simp add: filter_map comp_def)
  qed
  moreover have "filter (\<lambda>i. b \<le> i) (user_indices ms) = filter (\<lambda>i. is_user (ms ! i)) [b..<length ms]"
  proof (cases "b \<le> length ms")
    case True
    then have "[0..<length ms] = [0..<b] @ [b..<length ms]"
      using upt_add_eq_append [of 0 b "length ms - b"] by simp
    then show ?thesis by (auto simp: user_indices_def intro!: filter_cong)
  qed (auto simp: user_indices_def filter_empty_conv)
  ultimately show ?thesis by simp
qed

lemma strict_count_from:
  assumes "sorted_wrt (<) (u :: nat list)" "k \<le> length u" "0 < k"
  shows "length (filter (\<lambda>i. u ! (length u - k) \<le> i) u) = k"
proof -
  let ?j = "length u - k" and ?b = "u ! (length u - k)"
  have j: "?j < length u" using assms by simp
  have "filter (\<lambda>i. ?b \<le> i) (take ?j u) = []"
    using assms(1) j by (auto simp: filter_empty_conv in_set_conv_nth sorted_wrt_iff_nth_less not_le)
  moreover have "filter (\<lambda>i. ?b \<le> i) (drop ?j u) = drop ?j u"
  proof (rule filter_True, rule ballI)
    fix i assume "i \<in> set (drop ?j u)"
    then obtain n where "i = u ! (?j + n)" "?j + n < length u" by (auto simp: in_set_conv_nth)
    with assms(1) j show "?b \<le> i"
      by (cases "n = 0") (auto simp: sorted_wrt_iff_nth_less intro!: less_imp_le)
  qed
  ultimately have "filter (\<lambda>i. ?b \<le> i) (take ?j u @ drop ?j u) = drop ?j u"
    unfolding filter_append by simp
  then show ?thesis using assms by simp
qed

lemma boundary_keeps:
  assumes "find_compaction_boundary keep h \<noteq> 0" "0 < keep"
  shows "length (filter is_user (drop (find_compaction_boundary keep h) (messages h))) = keep"
proof -
  let ?u = "user_indices (messages h)"
  from assms have "find_compaction_boundary keep h = ?u ! (length ?u - keep)" "keep \<le> length ?u"
    by (auto simp: find_compaction_boundary_def Let_def split: if_splits)
  with strict_count_from [OF user_indices_strict this(2) assms(2)] show ?thesis
    by (simp add: users_from)
qed

end
