(* ===== verification/Compaction.thy ===== *)
theory Compaction
  imports Conversation_History
begin

text \<open>
  The compaction layers (\<open>orchestrator/compact/\<close>): media stripping, snipping of old read-only
  results, removal of read-only tool pairs, summarisation, the \<open>Compactor\<close> facade and the skill
  attachment. The first three passes keep a history well paired under the conditions stated; the
  boundary of the summarising pass may separate a tool use from its results.
\<close>

section \<open>Rendering helpers\<close>

fun is_read_only_use :: "history \<Rightarrow> assistant_content \<Rightarrow> bool" where
  "is_read_only_use h (ToolUseContent i n inp) =
     (case tool_kind_for i h of None \<Rightarrow> False | Some k \<Rightarrow> is_read_only k)"
| "is_read_only_use h _ = False"

definition is_read_only_assistant :: "assistant_content list \<Rightarrow> history \<Rightarrow> bool" where
  "is_read_only_assistant c h \<longleftrightarrow> c \<noteq> [] \<and> list_all (is_read_only_use h) c"

definition is_tool_result_only :: "user_content list \<Rightarrow> bool" where
  "is_tool_result_only c \<longleftrightarrow> c \<noteq> [] \<and> list_all is_result c"

text \<open>
  \<open>render_messages\<close>. \<open>str(content)\<close> of a block list prints the dataclasses and is an argument.
\<close>

fun render_user_block :: "(result_part list \<Rightarrow> string) \<Rightarrow> user_content \<Rightarrow> string list" where
  "render_user_block str_parts (TextContent t) = [t]"
| "render_user_block str_parts (ImageContent m d) = []"
| "render_user_block str_parts (ToolResultContent i c e) =
     [''[tool_result: '' @
      (case c of ResultText s \<Rightarrow> s | ResultParts ps \<Rightarrow> take 200 (str_parts ps)) @ '']'']"

fun render_assistant_block :: "float_repr \<Rightarrow> assistant_content \<Rightarrow> string" where
  "render_assistant_block fl (AssistantText t) = t"
| "render_assistant_block fl (ThinkingContent t s) =
     ''[thinking: '' @ take 200 t @ [ellipsis_char] @ '']''"
| "render_assistant_block fl (ToolUseContent i n inp) =
     ''[tool_use: '' @ n @ ''('' @ py_repr fl (JDict inp) @ '')]''"

fun render_message :: "float_repr \<Rightarrow> (result_part list \<Rightarrow> string) \<Rightarrow> message \<Rightarrow> string list" where
  "render_message fl str_parts (UserMessage c) =
     (let parts = concat (map (render_user_block str_parts) c)
      in if parts = [] then [] else [''User: '' @ py_join ''  '' parts])"
| "render_message fl str_parts (AssistantMessage c) =
     (let parts = map (render_assistant_block fl) c
      in if parts = [] then [] else [''Assistant: '' @ py_join ''  '' parts])"

definition render_messages :: "float_repr \<Rightarrow> (result_part list \<Rightarrow> string) \<Rightarrow> message list \<Rightarrow> string" where
  "render_messages fl str_parts ms = py_join [CHR 0x0A] (concat (map (render_message fl str_parts) ms))"

section \<open>Media\<close>

definition image_placeholder :: string where
  "image_placeholder = ''[image removed '' @ [em_dash] @ '' media size limit]''"

fun strip_part :: "result_part \<Rightarrow> result_part" where
  "strip_part (PartImage m d) = PartText image_placeholder"
| "strip_part (PartText t) = PartText t"

fun part_images :: "result_part \<Rightarrow> nat" where
  "part_images (PartImage m d) = 1"
| "part_images (PartText t) = 0"

fun strip_tool_result_media :: "user_content \<Rightarrow> user_content \<times> nat" where
  "strip_tool_result_media (ToolResultContent i (ResultParts ps) e) =
     (let stripped = sum_list (map part_images ps)
      in if stripped = 0 then (ToolResultContent i (ResultParts ps) e, 0)
         else (ToolResultContent i (ResultParts (map strip_part ps)) e, stripped))"
| "strip_tool_result_media b = (b, 0)"

fun strip_block :: "user_content \<Rightarrow> user_content \<times> nat" where
  "strip_block (ImageContent m d) = (TextContent image_placeholder, 1)"
| "strip_block (ToolResultContent i c e) = strip_tool_result_media (ToolResultContent i c e)"
| "strip_block b = (b, 0)"

fun strip_message :: "message \<Rightarrow> message \<times> nat" where
  "strip_message (UserMessage c) =
     (let removed = sum_list (map (\<lambda>b. snd (strip_block b)) c)
      in (if removed > 0 then UserMessage (map (\<lambda>b. fst (strip_block b)) c) else UserMessage c, removed))"
| "strip_message (AssistantMessage c) = (AssistantMessage c, 0)"

definition strip_media :: "float_repr \<Rightarrow> history \<Rightarrow> nat \<times> history" where
  "strip_media fl h =
     (let ms = map (\<lambda>m. fst (strip_message m)) (messages h);
          stripped = sum_list (map (\<lambda>m. snd (strip_message m)) (messages h))
      in (stripped,
          if stripped > 0 then h\<lparr>messages := ms, token_count := estimate_tokens_for fl ms\<rparr>
          else h\<lparr>messages := ms\<rparr>))"

section \<open>Snipping\<close>

definition snip_placeholder :: "nat \<Rightarrow> string" where
  "snip_placeholder n = ''[result snipped '' @ [em_dash] @ '' '' @ py_str_nat n @ '' chars]''"

fun snip_block :: "history \<Rightarrow> user_content \<Rightarrow> user_content \<times> nat" where
  "snip_block h (ToolResultContent i c e) =
     (if \<not> e
      then (case tool_kind_for i h of
              None \<Rightarrow> (ToolResultContent i c e, 0)
            | Some k \<Rightarrow>
                if is_read_only k
                then (let old_size = content_char_count c
                      in if old_size > 0
                         then (ToolResultContent i (ResultText (snip_placeholder old_size)) False, old_size)
                         else (ToolResultContent i c e, 0))
                else (ToolResultContent i c e, 0))
      else (ToolResultContent i c e, 0))"
| "snip_block h b = (b, 0)"

fun snip_message :: "history \<Rightarrow> message \<Rightarrow> message \<times> nat" where
  "snip_message h (UserMessage c) =
     (UserMessage (map (\<lambda>b. fst (snip_block h b)) c), sum_list (map (\<lambda>b. snd (snip_block h b)) c))"
| "snip_message h (AssistantMessage c) = (AssistantMessage c, 0)"

definition snip_read_only_results :: "float_repr \<Rightarrow> nat \<Rightarrow> history \<Rightarrow> nat \<times> history" where
  "snip_read_only_results fl keep h =
     (let boundary = find_compaction_boundary keep h
      in if boundary = 0 then (0, h)
         else (let old = take boundary (messages h);
                   ms = map (\<lambda>m. fst (snip_message h m)) old @ drop boundary (messages h);
                   freed = sum_list (map (\<lambda>m. snd (snip_message h m)) old)
               in (freed,
                   if freed > 0 then h\<lparr>messages := ms, token_count := estimate_tokens_for fl ms\<rparr>
                   else h\<lparr>messages := ms\<rparr>)))"

section \<open>Microcompaction\<close>

text \<open>The scan \<open>while idx < boundary - 1\<close>: the first index of every pair to remove.\<close>

function removable_pairs :: "history \<Rightarrow> nat \<Rightarrow> nat \<Rightarrow> nat list" where
  "removable_pairs h boundary idx =
     (if idx < boundary - 1
      then (case (messages h ! idx, messages h ! (idx + 1)) of
              (AssistantMessage c, UserMessage d) \<Rightarrow>
                if is_read_only_assistant c h \<and> is_tool_result_only d
                then idx # removable_pairs h boundary (idx + 2)
                else removable_pairs h boundary (idx + 1)
            | _ \<Rightarrow> removable_pairs h boundary (idx + 1))
      else [])"
  by pat_completeness auto
termination by (relation "measure (\<lambda>(h, boundary, idx). boundary - idx)") auto

declare removable_pairs.simps [simp del]

definition removed_marker :: "nat \<Rightarrow> message" where
  "removed_marker n = UserMessage [TextContent (''['' @ py_str_nat n @ '' read-only tool calls removed]'')]"

definition remove_read_only_pairs :: "float_repr \<Rightarrow> nat \<Rightarrow> history \<Rightarrow> nat \<times> history" where
  "remove_read_only_pairs fl keep h =
     (let boundary = find_compaction_boundary keep h
      in if boundary \<le> 1 then (0, h)
         else (let pairs = removable_pairs h boundary 0;
                   indices = concat (map (\<lambda>i. [i, i + 1]) pairs)
               in if indices = [] then (0, h)
                  else (let pair_count = length (remdups indices) div 2;
                            kept_pre = map ((!) (messages h)) (filter (\<lambda>j. j \<notin> set indices) [0..<boundary]);
                            pos = min (Min (set indices)) (length kept_pre);
                            ms = take pos kept_pre @ removed_marker pair_count # drop pos kept_pre
                                   @ drop boundary (messages h)
                        in (pair_count, h\<lparr>messages := ms, token_count := estimate_tokens_for fl ms\<rparr>))))"

section \<open>Summarisation\<close>

text \<open>
  What the summarizer is given: its prompts, and the provider as the function from the request
  text to the chunks it delivers before its stream ends or raises (\<open>Inl\<close> is a failed \<open>stream()\<close>
  call); \<open>None\<close> is a missing provider, as is \<open>s_header = None\<close> for the prompt manager.
\<close>

record summarizer =
  s_prefix :: string
  s_fallback :: string
  s_provider :: "(string \<Rightarrow> llm_chunk list py) option"
  s_str_parts :: "result_part list \<Rightarrow> string"
  s_header :: "(string \<Rightarrow> string) option"

fun summary_parts :: "llm_chunk list \<Rightarrow> string" where
  "summary_parts [] = []"
| "summary_parts (TextChunk t # cs) = t @ summary_parts cs"
| "summary_parts (StreamError m c # cs) = []"
| "summary_parts (_ # cs) = summary_parts cs"

definition summarise :: "float_repr \<Rightarrow> summarizer \<Rightarrow> message list \<Rightarrow> string" where
  "summarise fl sm ms =
     (case s_provider sm of
        None \<Rightarrow> s_fallback sm
      | Some stream \<Rightarrow>
          let parts = (case stream (s_prefix sm @ render_messages fl (s_str_parts sm) ms) of
                         Inl e \<Rightarrow> [] | Inr chunks \<Rightarrow> summary_parts chunks);
              txt = py_strip parts
          in if txt \<noteq> [] then txt else s_fallback sm)"

text \<open>
  \<open>Compactor\<close>. A \<open>prompts.render\<close> that is present gives the header text.
\<close>

definition DEFAULT_KEEP_RECENT_TURNS :: nat where
  "DEFAULT_KEEP_RECENT_TURNS = 5"

definition compact :: "float_repr \<Rightarrow> summarizer \<Rightarrow> nat \<Rightarrow> history \<Rightarrow> history" where
  "compact fl sm keep h =
     (let boundary = find_compaction_boundary keep h
      in if boundary = 0 then h
         else (let summary = summarise fl sm (take boundary (messages h));
                   summary_header = (case s_header sm of None \<Rightarrow> None | Some render \<Rightarrow> Some (render summary))
               in replace_with_compacted fl summary boundary summary_header h))"

section \<open>Skill attachment\<close>

record invoked_skill =
  skill_name :: string
  skill_path :: string
  skill_content :: string

definition POST_COMPACT_MAX_TOKENS_PER_SKILL :: nat where
  "POST_COMPACT_MAX_TOKENS_PER_SKILL = 5000"

definition POST_COMPACT_SKILLS_TOKEN_BUDGET :: nat where
  "POST_COMPACT_SKILLS_TOKEN_BUDGET = 25000"

definition SKILL_TRUNCATION_MARKER :: string where
  "SKILL_TRUNCATION_MARKER = [CHR 0x0A, CHR 0x0A] @
     ''[... skill content truncated for compaction; use Read on the skill path if you need the full text]''"

definition capped_content :: "string \<Rightarrow> string" where
  "capped_content c =
     (let budget = POST_COMPACT_MAX_TOKENS_PER_SKILL * CHARS_PER_TOKEN
      in if length c > budget then take budget c @ SKILL_TRUNCATION_MARKER else c)"

text \<open>The loop over the invoked skills: the skills that get a section, with their capped content.\<close>

fun attach_skills :: "nat \<Rightarrow> invoked_skill list \<Rightarrow> (invoked_skill \<times> string) list" where
  "attach_skills used [] = []"
| "attach_skills used (info # infos) =
     (let content = capped_content (skill_content info)
      in if used + length content > POST_COMPACT_SKILLS_TOKEN_BUDGET * CHARS_PER_TOKEN then []
         else (info, content) # attach_skills (used + length content) infos)"

definition skill_section :: "invoked_skill \<times> string \<Rightarrow> string" where
  "skill_section p =
     ''<skill name='' @ [CHR 0x22] @ skill_name (fst p) @ [CHR 0x22] @ '' path='' @ [CHR 0x22] @
     skill_path (fst p) @ [CHR 0x22] @ ''>'' @ [CHR 0x0A] @ snd p @ [CHR 0x0A] @ ''</skill>''"

text \<open>\<open>None\<close> is a missing skill manager; \<open>Inl\<close> a \<open>get_invoked_for_agent\<close> that raises.\<close>

definition create_skill_attachment :: "invoked_skill list py option \<Rightarrow> string option" where
  "create_skill_attachment skills =
     (case skills of
        Some (Inr invoked) \<Rightarrow>
          if invoked = [] then None
          else (let sections = map skill_section (attach_skills 0 invoked)
                in if sections = [] then None
                   else Some (''The following skills were previously invoked in this session. Their instructions remain active:''
                              @ [CHR 0x0A, CHR 0x0A] @ py_join [CHR 0x0A, CHR 0x0A] sections))
      | _ \<Rightarrow> None)"

section \<open>Passes that keep the shape of a history\<close>

text \<open>What the pairing automaton reads of a message.\<close>

fun shape :: "message \<Rightarrow> string list + (string list \<times> bool)" where
  "shape (AssistantMessage c) = Inl (use_ids c)"
| "shape (UserMessage c) = Inr (result_ids c, list_ex (\<lambda>b. \<not> is_result b) c)"

lemma shape_Inl: "Inl u = shape m \<longleftrightarrow> (\<exists>c. m = AssistantMessage c \<and> use_ids c = u)"
  by (cases m) auto

lemma shape_Inr:
  "Inr (r, o') = shape m \<longleftrightarrow> (\<exists>c. m = UserMessage c \<and> result_ids c = r \<and> list_ex (\<lambda>b. \<not> is_result b) c = o')"
  by (cases m) auto

lemma paired_from_shape:
  "map shape ms = map shape ms' \<Longrightarrow> paired_from p ms = paired_from p ms'"
proof (induction p ms arbitrary: ms' rule: paired_from.induct)
  case (2 p c ms)
  then obtain d ns where "ms' = AssistantMessage d # ns" "use_ids d = use_ids c" "map shape ms = map shape ns"
    by (cases ms') (auto simp: shape_Inl)
  with 2 show ?case by simp
next
  case (3 p c ms)
  then obtain d ns where ms': "ms' = UserMessage d # ns" "result_ids d = result_ids c"
      "list_ex (\<lambda>b. \<not> is_result b) d = list_ex (\<lambda>b. \<not> is_result b) c" "map shape ms = map shape ns"
    by (cases ms') (auto simp: shape_Inr)
  with 3 show ?case by (auto simp: paired_from.simps(3) split: option.splits)
qed simp

lemma well_paired_shape: "map shape ms = map shape ms' \<Longrightarrow> well_paired ms = well_paired ms'"
  unfolding well_paired_def by (rule paired_from_shape)

text \<open>A rewriting of the user blocks that keeps the ids and turns no result into another block.\<close>

definition keeps_result :: "(user_content \<Rightarrow> user_content) \<Rightarrow> bool" where
  "keeps_result f \<longleftrightarrow> (\<forall>b. result_id (f b) = result_id b \<and> is_result (f b) = is_result b)"

lemma shape_rewrite: "keeps_result f \<Longrightarrow> shape (UserMessage (map f c)) = shape (UserMessage c)"
  by (induction c) (auto simp: keeps_result_def)

lemma keeps_result_snip: "keeps_result (\<lambda>b. fst (snip_block h b))"
  unfolding keeps_result_def
proof (intro allI)
  fix b show "result_id (fst (snip_block h b)) = result_id b \<and> is_result (fst (snip_block h b)) = is_result b"
    by (cases b) (auto simp: Let_def split: option.splits)
qed

lemma keeps_result_strip: "keeps_result (\<lambda>b. fst (strip_block b))"
  unfolding keeps_result_def
proof (intro allI)
  fix b show "result_id (fst (strip_block b)) = result_id b \<and> is_result (fst (strip_block b)) = is_result b"
  proof (cases b)
    case (ToolResultContent i c e)
    then show ?thesis by (cases c) (auto simp: Let_def)
  qed auto
qed

lemma shape_snip [simp]: "shape (fst (snip_message h m)) = shape m"
  using shape_rewrite [OF keeps_result_snip] by (cases m) auto

lemma shape_strip [simp]: "shape (fst (strip_message m)) = shape m"
  using shape_rewrite [OF keeps_result_strip] by (cases m) (auto simp: Let_def simp del: shape.simps)

subsection \<open>Snipping\<close>

lemma snip_block_zero: "snd (snip_block h b) = 0 \<Longrightarrow> fst (snip_block h b) = b"
  by (cases b) (auto simp: Let_def split: option.splits if_splits)

lemma snip_message_zero: "snd (snip_message h m) = 0 \<Longrightarrow> fst (snip_message h m) = m"
  by (cases m) (auto intro!: map_idI snip_block_zero)

lemma snip_block_other [simp]: "\<not> is_result b \<Longrightarrow> fst (snip_block h b) = b"
  by (cases b) auto

lemma spoken_snip: "spoken (map (\<lambda>m. fst (snip_message h m)) ms) = spoken ms"
proof (induction ms rule: spoken.induct)
  case (3 c ms)
  have "filter (\<lambda>b. \<not> is_result b) (map (\<lambda>b. fst (snip_block h b)) c) = filter (\<lambda>b. \<not> is_result b) c"
    using keeps_result_snip [of h] by (induction c) (auto simp: keeps_result_def)
  with 3 show ?case by simp
qed auto

text \<open>The results that must survive: errors, and those of tools not known to be read-only.\<close>

fun protected_result :: "history \<Rightarrow> user_content \<Rightarrow> bool" where
  "protected_result h (ToolResultContent i c e) \<longleftrightarrow>
     e \<or> (case tool_kind_for i h of None \<Rightarrow> True | Some k \<Rightarrow> \<not> is_read_only k)"
| "protected_result h b \<longleftrightarrow> False"

fun protected_results :: "history \<Rightarrow> message list \<Rightarrow> user_content list" where
  "protected_results h [] = []"
| "protected_results h (AssistantMessage c # ms) = protected_results h ms"
| "protected_results h (UserMessage c # ms) = filter (protected_result h) c @ protected_results h ms"

lemma protected_results_append [simp]:
  "protected_results h (xs @ ys) = protected_results h xs @ protected_results h ys"
  by (induction h xs rule: protected_results.induct) auto

lemma snip_block_protected:
  "protected_result h b \<Longrightarrow> fst (snip_block h b) = b"
  "protected_result h (fst (snip_block h b)) = protected_result h b"
  by (cases b; auto simp: Let_def split: option.splits)+

lemma protected_snip: "protected_results h (map (\<lambda>m. fst (snip_message h m)) ms) = protected_results h ms"
proof (induction h ms rule: protected_results.induct)
  case (3 h c ms)
  have "filter (protected_result h) (map (\<lambda>b. fst (snip_block h b)) c) = filter (protected_result h) c"
    by (induction c) (auto simp: snip_block_protected)
  with 3 show ?case by simp
qed auto

lemma snip_cases:
  obtains "find_compaction_boundary keep h = 0" "snip_read_only_results fl keep h = (0, h)"
  | ms where "find_compaction_boundary keep h \<noteq> 0"
      "ms = map (\<lambda>m. fst (snip_message h m)) (take (find_compaction_boundary keep h) (messages h))
              @ drop (find_compaction_boundary keep h) (messages h)"
      "messages (snd (snip_read_only_results fl keep h)) = ms"
  by (cases "find_compaction_boundary keep h = 0")
     (auto simp: snip_read_only_results_def Let_def)

lemma take_drop_rewrite:
  "drop b (map f (take b ms) @ drop b ms) = drop b ms"
  by (cases "b \<le> length ms") auto

lemma map_shape_split: "map shape (take b ms) @ map shape (drop b ms) = map shape ms"
  by (metis append_take_drop_id map_append)

lemma snip_shape: "map shape (messages (snd (snip_read_only_results fl keep h))) = map shape (messages h)"
  by (rule snip_cases [of keep h fl]) (simp_all add: comp_def map_shape_split)

text \<open>
  Snipping old read-only results never disturbs the protocol or recent turns: the pairing of
  tool uses and results is unchanged, every block that is not a result is unchanged, every error
  result and every result of a tool not known to be read-only is unchanged, and the messages
  from the boundary on are the same; when nothing is freed the history is untouched.
\<close>

theorem snip_read_only_results_safe:
  "well_paired (messages (snd (snip_read_only_results fl keep h))) = well_paired (messages h) \<and>
   spoken (messages (snd (snip_read_only_results fl keep h))) = spoken (messages h) \<and>
   protected_results h (messages (snd (snip_read_only_results fl keep h))) = protected_results h (messages h) \<and>
   drop (find_compaction_boundary keep h) (messages (snd (snip_read_only_results fl keep h))) =
     drop (find_compaction_boundary keep h) (messages h) \<and>
   (fst (snip_read_only_results fl keep h) = 0 \<longrightarrow> snd (snip_read_only_results fl keep h) = h)"
proof (rule snip_cases [of keep h fl])
  let ?b = "find_compaction_boundary keep h"
  let ?h' = "snd (snip_read_only_results fl keep h)"
  fix ms
  assume b: "?b \<noteq> 0"
    and ms: "ms = map (\<lambda>m. fst (snip_message h m)) (take ?b (messages h)) @ drop ?b (messages h)"
    and h': "messages ?h' = ms"
  have "well_paired (messages ?h') = well_paired (messages h)"
    by (rule well_paired_shape [OF snip_shape])
  moreover have "spoken (messages ?h') = spoken (messages h)"
    "protected_results h (messages ?h') = protected_results h (messages h)"
    unfolding h' ms spoken_append protected_results_append spoken_snip protected_snip
    by (metis append_take_drop_id spoken_append, metis append_take_drop_id protected_results_append)
  moreover have "drop ?b (messages ?h') = drop ?b (messages h)"
    unfolding h' ms by (rule take_drop_rewrite)
  moreover have "?h' = h" if "fst (snip_read_only_results fl keep h) = 0"
  proof -
    from that b have zero: "sum_list (map (\<lambda>m. snd (snip_message h m)) (take ?b (messages h))) = 0"
      by (simp add: snip_read_only_results_def Let_def)
    then have "ms = messages h"
      unfolding ms by (simp add: snip_message_zero map_idI)
    with that b zero show ?thesis
      unfolding ms snip_read_only_results_def Let_def by (simp del: sum_list_eq_0_iff)
  qed
  ultimately show ?thesis by blast
qed simp

definition long_history :: history where
  "long_history =
     record_tool_kind ''r'' KRead (new_history (\<lambda>m e. [])
       ([UserMessage [TextContent ''start''],
         AssistantMessage [ToolUseContent ''r'' ''Read'' []],
         UserMessage [ToolResultContent ''r'' (ResultText ''file contents here'') False]] @
        concat (replicate 5 [AssistantMessage [AssistantText ''ok''], UserMessage [TextContent ''go'']])))"

theorem snip_read_only_results_safe_witness:
  "fst (snip_read_only_results (\<lambda>m e. []) 5 long_history) = 18 \<and>
   well_paired (messages (snd (snip_read_only_results (\<lambda>m e. []) 5 long_history)))"
proof
  show "fst (snip_read_only_results (\<lambda>m e. []) 5 long_history) = 18" by code_simp
  have "well_paired (messages long_history)" by code_simp
  with snip_read_only_results_safe
  show "well_paired (messages (snd (snip_read_only_results (\<lambda>m e. []) 5 long_history)))" by blast
qed

text \<open>
  Snipping is not idempotent: a result that was already snipped counts as a fresh result of
  the size of its placeholder, so the next pass reports characters freed again and replaces the
  recorded size of the original result by the length of the placeholder.
\<close>

theorem snip_overwrites_placeholder:
  assumes "tool_kind_for i h = Some k" "is_read_only k" "0 < content_char_count c"
  shows "snip_block h (fst (snip_block h (ToolResultContent i c False))) =
           (ToolResultContent i (ResultText (snip_placeholder (length (snip_placeholder (content_char_count c))))) False,
            length (snip_placeholder (content_char_count c)))"
  using assms by (simp add: Let_def snip_placeholder_def)

theorem snip_overwrites_placeholder_witness:
  "fst (snip_block long_history (fst (snip_block long_history
     (ToolResultContent ''r'' (ResultText ''0123456789'') False)))) =
   ToolResultContent ''r'' (ResultText (snip_placeholder 27)) False"
proof -
  have "tool_kind_for ''r'' long_history = Some KRead" "is_read_only KRead"
    "0 < content_char_count (ResultText ''0123456789'')" by code_simp+
  from arg_cong [OF snip_overwrites_placeholder [OF this], of fst]
  have "fst (snip_block long_history (fst (snip_block long_history
     (ToolResultContent ''r'' (ResultText ''0123456789'') False)))) =
     ToolResultContent ''r'' (ResultText (snip_placeholder
       (length (snip_placeholder (content_char_count (ResultText ''0123456789'')))))) False"
    by (simp only: fst_conv)
  moreover have "length (snip_placeholder (content_char_count (ResultText ''0123456789''))) = 27" by code_simp
  ultimately show ?thesis by (simp only:)
qed

subsection \<open>Media\<close>

fun result_images :: "result_content \<Rightarrow> nat" where
  "result_images (ResultText s) = 0"
| "result_images (ResultParts ps) = sum_list (map part_images ps)"

fun block_images :: "user_content \<Rightarrow> nat" where
  "block_images (ImageContent m d) = 1"
| "block_images (ToolResultContent i c e) = result_images c"
| "block_images (TextContent t) = 0"

fun message_images :: "message \<Rightarrow> nat" where
  "message_images (UserMessage c) = sum_list (map block_images c)"
| "message_images (AssistantMessage c) = 0"

lemma strip_parts_images [simp]: "sum_list (map (part_images \<circ> strip_part) ps) = 0"
proof -
  have "part_images (strip_part p) = 0" for p by (cases p) auto
  then show ?thesis by simp
qed

lemma strip_block_images:
  "snd (strip_block b) = block_images b" "block_images (fst (strip_block b)) = 0"
proof -
  have "snd (strip_block b) = block_images b \<and> block_images (fst (strip_block b)) = 0"
  proof (cases b)
    case (ToolResultContent i c e)
    then show ?thesis by (cases c) (auto simp: Let_def)
  qed auto
  then show "snd (strip_block b) = block_images b" "block_images (fst (strip_block b)) = 0" by simp_all
qed

lemma strip_message_images:
  "snd (strip_message m) = message_images m" "message_images (fst (strip_message m)) = 0"
  by (cases m; auto simp: Let_def strip_block_images comp_def)+

lemma strip_messages: "messages (snd (strip_media fl h)) = map (\<lambda>m. fst (strip_message m)) (messages h)"
  by (simp add: strip_media_def Let_def)

lemma strip_shape: "map shape (messages (snd (strip_media fl h))) = map shape (messages h)"
  by (simp add: strip_messages comp_def)

text \<open>
  The emergency media pass removes every image, reports how many there were, and keeps the
  pairing of tool uses and results; run again it finds nothing.
\<close>

theorem strip_media_correct:
  "fst (strip_media fl h) = sum_list (map message_images (messages h)) \<and>
   sum_list (map message_images (messages (snd (strip_media fl h)))) = 0 \<and>
   length (messages (snd (strip_media fl h))) = length (messages h) \<and>
   well_paired (messages (snd (strip_media fl h))) = well_paired (messages h)"
  using well_paired_shape [OF strip_shape, of fl h] strip_messages [of fl h]
  by (simp add: strip_media_def Let_def strip_message_images comp_def)

section \<open>Microcompaction\<close>

text \<open>The scan over the list itself.\<close>

definition removable :: "history \<Rightarrow> message \<Rightarrow> message \<Rightarrow> bool" where
  "removable h m n =
     (case (m, n) of
        (AssistantMessage c, UserMessage d) \<Rightarrow> is_read_only_assistant c h \<and> is_tool_result_only d
      | _ \<Rightarrow> False)"

fun drop_pairs :: "history \<Rightarrow> message list \<Rightarrow> message list" where
  "drop_pairs h (m # n # ms) =
     (if removable h m n then drop_pairs h ms else m # drop_pairs h (n # ms))"
| "drop_pairs h ms = ms"

lemma removable_pairs_step:
  "removable_pairs h b idx =
     (if idx < b - 1
      then if removable h (messages h ! idx) (messages h ! (idx + 1))
           then idx # removable_pairs h b (idx + 2) else removable_pairs h b (idx + 1)
      else [])"
  by (subst removable_pairs.simps) (auto simp: removable_def split: message.splits)

lemma removable_pairs_induct [case_names Stop Pair Skip]:
  assumes stop: "\<And>idx. \<not> idx < b - 1 \<Longrightarrow> P idx"
    and pair: "\<And>idx. idx < b - 1 \<Longrightarrow> removable h (messages h ! idx) (messages h ! (idx + 1)) \<Longrightarrow>
      P (idx + 2) \<Longrightarrow> P idx"
    and skip: "\<And>idx. idx < b - 1 \<Longrightarrow> \<not> removable h (messages h ! idx) (messages h ! (idx + 1)) \<Longrightarrow>
      P (idx + 1) \<Longrightarrow> P idx"
  shows "P idx"
proof (induction "b - idx" arbitrary: idx rule: less_induct)
  case less
  then show ?case using stop [of idx] pair [of idx] skip [of idx]
    by (metis add.commute diff_less_mono2 less_add_one less_diff_conv less_trans one_add_one
        add_less_cancel_left less_add_same_cancel1 zero_less_numeral zero_less_one)
qed

definition pair_indices :: "history \<Rightarrow> nat \<Rightarrow> nat \<Rightarrow> nat list" where
  "pair_indices h b idx = concat (map (\<lambda>i. [i, i + 1]) (removable_pairs h b idx))"

lemma pair_indices_step:
  "pair_indices h b idx =
     (if idx < b - 1
      then if removable h (messages h ! idx) (messages h ! (idx + 1))
           then idx # (idx + 1) # pair_indices h b (idx + 2) else pair_indices h b (idx + 1)
      else [])"
  by (simp add: pair_indices_def removable_pairs_step [of h b idx])

lemma pair_indices_range: "j \<in> set (pair_indices h b idx) \<Longrightarrow> idx \<le> j \<and> j < b"
proof (induction idx rule: removable_pairs_induct [of b _ h])
  case (Stop idx)
  then show ?case by (simp add: pair_indices_step [of h b idx])
next
  case (Pair idx)
  then show ?case by (auto simp: pair_indices_step [of h b idx])
next
  case (Skip idx)
  then show ?case by (auto simp: pair_indices_step [of h b idx])
qed

lemma pair_indices_distinct: "distinct (pair_indices h b idx)"
proof (induction idx rule: removable_pairs_induct [of b _ h])
  case (Pair idx)
  then show ?case using pair_indices_range [of _ h b "idx + 2"]
    by (subst pair_indices_step) fastforce
next
  case (Stop idx)
  then show ?case by (simp add: pair_indices_step [of h b idx])
next
  case (Skip idx)
  then show ?case by (simp add: pair_indices_step [of h b idx])
qed

text \<open>The messages kept by the index set are those kept by the list scan.\<close>

definition kept :: "history \<Rightarrow> nat \<Rightarrow> nat \<Rightarrow> message list" where
  "kept h b idx = map ((!) (messages h)) (filter (\<lambda>j. j \<notin> set (pair_indices h b idx)) [idx..<b])"

lemma drop_take_step:
  "idx < b \<Longrightarrow> b \<le> length ms \<Longrightarrow> drop idx (take b ms) = ms ! idx # drop (Suc idx) (take b ms)"
  by (metis Cons_nth_drop_Suc length_take min.absorb2 nth_take)

lemma kept_eq: "b \<le> length (messages h) \<Longrightarrow> kept h b idx = drop_pairs h (drop idx (take b (messages h)))"
proof (induction idx rule: removable_pairs_induct [of b _ h])
  case (Stop idx)
  then consider "b \<le> idx" | "idx + 1 = b" by linarith
  then show ?case
  proof cases
    case 1
    with Stop show ?thesis by (simp add: kept_def)
  next
    case 2
    with Stop have "[idx..<b] = [idx]" "pair_indices h b idx = []"
      by (simp_all add: upt_rec pair_indices_step [of h b idx])
    with 2 Stop show ?thesis by (simp add: kept_def drop_take_step)
  qed
next
  case (Pair idx)
  let ?ps = "pair_indices h b (idx + 2)"
  have "[idx..<b] = idx # (idx + 1) # [idx + 2..<b]"
    using Pair(1) by (simp add: upt_rec)
  moreover have "filter (\<lambda>j. j \<notin> set (idx # (idx + 1) # ?ps)) [idx + 2..<b] =
      filter (\<lambda>j. j \<notin> set ?ps) [idx + 2..<b]"
    by (rule filter_cong) auto
  ultimately have "kept h b idx = kept h b (idx + 2)"
    using Pair by (simp add: kept_def pair_indices_step [of h b idx])
  also have "\<dots> = drop_pairs h (drop (idx + 2) (take b (messages h)))"
    using Pair by blast
  also have "\<dots> = drop_pairs h (drop idx (take b (messages h)))"
    using Pair by (simp add: drop_take_step [of idx] drop_take_step [of "Suc idx"])
  finally show ?case .
next
  case (Skip idx)
  let ?ps = "pair_indices h b (idx + 1)"
  have "[idx..<b] = idx # [idx + 1..<b]" using Skip(1) by (simp add: upt_rec)
  moreover have "idx \<notin> set ?ps" using pair_indices_range [of idx h b "idx + 1"] by auto
  ultimately have "kept h b idx = messages h ! idx # kept h b (idx + 1)"
    using Skip(1,2) by (simp add: kept_def pair_indices_step [of h b idx])
  also have "\<dots> = messages h ! idx # drop_pairs h (drop (idx + 1) (take b (messages h)))"
    using Skip by simp
  also have "\<dots> = drop_pairs h (drop idx (take b (messages h)))"
    using Skip by (simp add: drop_take_step [of idx] drop_take_step [of "Suc idx"])
  finally show ?case .
qed

text \<open>
  The rewritten history: the messages up to the first removed pair, the marker, the rest of the
  old messages without their read-only pairs, and the recent messages.
\<close>

lemma drop_pairs_skip:
  assumes "b \<le> length (messages h)" "idx \<le> p"
    and "\<forall>j \<in> set (pair_indices h b idx). p \<le> j" "p < b"
  shows "drop_pairs h (drop idx (take b (messages h))) =
           drop idx (take p (messages h)) @ drop_pairs h (drop p (take b (messages h)))"
  using assms
proof (induction idx rule: removable_pairs_induct [of b _ h])
  case (Stop idx)
  then have "idx = p" by linarith
  then show ?case by simp
next
  case (Pair idx)
  then have "idx = p" by (simp add: pair_indices_step [of h b idx])
  then show ?case by simp
next
  case (Skip idx)
  show ?case
  proof (cases "idx = p")
    case False
    with Skip have le: "idx + 1 \<le> p" "idx < p" by simp_all
    from Skip(1,2,6) have "\<forall>j \<in> set (pair_indices h b (idx + 1)). p \<le> j"
      by (simp add: pair_indices_step [of h b idx])
    with Skip le have IH: "drop_pairs h (drop (Suc idx) (take b (messages h))) =
        drop (Suc idx) (take p (messages h)) @ drop_pairs h (drop p (take b (messages h)))" by simp
    have "drop_pairs h (drop idx (take b (messages h))) =
        messages h ! idx # drop_pairs h (drop (Suc idx) (take b (messages h)))"
      using Skip(1,2,4) by (simp add: drop_take_step [of idx] drop_take_step [of "Suc idx"])
    with IH show ?thesis
      using le Skip(4,7) drop_take_step [of idx p "messages h"] by simp
  qed simp
qed

lemma pair_indices_Min:
  assumes "removable_pairs h b idx = p # ps"
  shows "Min (set (pair_indices h b idx)) = p" "p < b" "idx \<le> p"
    "\<forall>j \<in> set (pair_indices h b idx). p \<le> j"
    "removable h (messages h ! p) (messages h ! (p + 1))" "p + 1 < b"
proof -
  have "p \<in> set (pair_indices h b idx)" "p + 1 \<in> set (pair_indices h b idx)"
    by (simp_all add: pair_indices_def assms)
  with pair_indices_range show "p < b" "idx \<le> p" "p + 1 < b" by blast+
  have first: "removable h (messages h ! p) (messages h ! (p + 1)) \<and>
      (\<forall>j \<in> set (pair_indices h b idx). p \<le> j)" using assms
  proof (induction idx rule: removable_pairs_induct [of b _ h])
    case (Pair idx)
    then have "p = idx" by (simp add: removable_pairs_step [of h b idx])
    with Pair pair_indices_range [of _ h b idx] show ?case by auto
  next
    case (Stop idx)
    then show ?case by (simp add: removable_pairs_step [of h b idx])
  next
    case (Skip idx)
    then show ?case by (simp add: removable_pairs_step [of h b idx] pair_indices_step [of h b idx])
  qed
  then show "removable h (messages h ! p) (messages h ! (p + 1))"
    "\<forall>j \<in> set (pair_indices h b idx). p \<le> j" by blast+
  with \<open>p \<in> set (pair_indices h b idx)\<close> show "Min (set (pair_indices h b idx)) = p"
    by (intro Min_eqI) auto
qed

lemma microcompact_cases:
  obtains "remove_read_only_pairs fl keep h = (0, h)"
  | p ps b where "b = find_compaction_boundary keep h" "removable_pairs h b 0 = p # ps"
      "b \<le> length (messages h)" "1 < b"
      "fst (remove_read_only_pairs fl keep h) = length (removable_pairs h b 0)"
      "messages (snd (remove_read_only_pairs fl keep h)) =
         take p (messages h) @ removed_marker (length (removable_pairs h b 0)) #
         drop_pairs h (drop p (take b (messages h))) @ drop b (messages h)"
proof (cases "find_compaction_boundary keep h \<le> 1 \<or> removable_pairs h (find_compaction_boundary keep h) 0 = []")
  case True
  then have "remove_read_only_pairs fl keep h = (0, h)"
    by (auto simp: remove_read_only_pairs_def Let_def)
  then show ?thesis using that(1) by blast
next
  case False
  let ?b = "find_compaction_boundary keep h" and ?ms = "messages h"
  from False obtain p ps where ps: "removable_pairs h ?b 0 = p # ps"
    by (cases "removable_pairs h ?b 0") auto
  note m = pair_indices_Min [OF ps]
  have b: "?b \<le> length ?ms" by (rule boundary_le)
  have idx: "concat (map (\<lambda>i. [i, i + 1]) (removable_pairs h ?b 0)) = pair_indices h ?b 0"
    by (simp add: pair_indices_def)
  have "length (concat (map (\<lambda>i. [i, i + 1]) xs)) = 2 * length xs" for xs :: "nat list"
    by (induction xs) auto
  then have count: "length (remdups (pair_indices h ?b 0)) div 2 = length (removable_pairs h ?b 0)"
    using pair_indices_distinct [of h ?b 0] by (simp add: distinct_remdups_id pair_indices_def)
  have kept: "kept h ?b 0 = take p ?ms @ drop_pairs h (drop p (take ?b ?ms))"
    using kept_eq [OF b, of 0] drop_pairs_skip [OF b m(3) m(4) m(2)] by simp
  have len: "length (take p ?ms) = p" using m(2) b by simp
  have pos: "min p (length (kept h ?b 0)) = p" unfolding kept length_append len by simp
  have nonempty: "pair_indices h ?b 0 \<noteq> []" by (simp add: pair_indices_def ps)
  have "remove_read_only_pairs fl keep h =
      (length (removable_pairs h ?b 0),
       h\<lparr>messages := take p (kept h ?b 0) @ removed_marker (length (removable_pairs h ?b 0)) #
            drop p (kept h ?b 0) @ drop ?b ?ms,
          token_count := estimate_tokens_for fl (take p (kept h ?b 0) @
            removed_marker (length (removable_pairs h ?b 0)) # drop p (kept h ?b 0) @ drop ?b ?ms)\<rparr>)"
    using False nonempty pos
    unfolding remove_read_only_pairs_def Let_def idx count m(1) kept_def [symmetric] by simp
  then show ?thesis
    using that(2) [OF refl ps b] False m(2) b by (simp add: kept)
qed

subsection \<open>What microcompaction keeps\<close>

text \<open>
  \<open>prompt_answers\<close>: the message after an assistant message with tool uses answers all of them,
  as every turn of the query loop leaves it (\<open>append_tool_results\<close> takes all results at once).
\<close>

fun prompt_answers :: "message list \<Rightarrow> bool" where
  "prompt_answers (AssistantMessage c # UserMessage d # ms) \<longleftrightarrow>
     (use_ids c = [] \<or> answer (use_ids c) (result_ids d) = Some []) \<and> prompt_answers (UserMessage d # ms)"
| "prompt_answers (m # ms) \<longleftrightarrow> prompt_answers ms"
| "prompt_answers [] \<longleftrightarrow> True"

lemma prompt_answers_tail: "prompt_answers (m # ms) \<Longrightarrow> prompt_answers ms"
  by (induction "m # ms" rule: prompt_answers.induct) auto

lemma prompt_answers_drop: "prompt_answers ms \<Longrightarrow> prompt_answers (drop n ms)"
  by (induction n arbitrary: ms) (auto simp: drop_Suc tl_def prompt_answers_tail split: list.splits)

lemma read_only_uses: "is_read_only_assistant c h \<Longrightarrow> use_ids c \<noteq> []"
proof -
  assume "is_read_only_assistant c h"
  then obtain b bs where "c = b # bs" "is_read_only_use h b"
    by (auto simp: is_read_only_assistant_def neq_Nil_conv)
  then show ?thesis by (cases b) auto
qed

lemma paired_drop_pairs:
  "paired_from q (xs @ ys) \<Longrightarrow> prompt_answers (xs @ ys) \<Longrightarrow> paired_from q (drop_pairs h xs @ ys)"
proof (induction h xs arbitrary: q rule: drop_pairs.induct)
  case (1 h m n ms)
  show ?case
  proof (cases "removable h m n")
    case True
    then obtain c d where mn: "m = AssistantMessage c" "n = UserMessage d"
        "is_read_only_assistant c h" "is_tool_result_only d"
      by (auto simp: removable_def split: message.splits)
    with 1(4) read_only_uses [OF mn(3)] have ans: "answer (use_ids c) (result_ids d) = Some []" by simp
    with mn 1(3) have "q = []" "paired_from [] (ms @ ys)" by (simp_all add: paired_from.simps(3))
    moreover from 1(4) have "prompt_answers (ms @ ys)" by (auto dest!: prompt_answers_tail)
    ultimately show ?thesis using 1(1) True by simp
  next
    case False
    from 1(4) have p: "prompt_answers ((n # ms) @ ys)" by (auto dest: prompt_answers_tail)
    show ?thesis
    proof (cases m)
      case (AssistantMessage c)
      with 1(3) False 1(2) [OF False _ p] show ?thesis by simp
    next
      case (UserMessage c)
      with 1(3) False 1(2) [OF False _ p] show ?thesis
        by (auto simp: paired_from.simps(3) split: option.splits)
    qed
  qed
qed auto

lemma length_kept: "b \<le> length (messages h) \<Longrightarrow>
  length (kept h b 0) + 2 * length (removable_pairs h b 0) = b"
proof -
  let ?I = "pair_indices h b 0"
  have "length (filter (\<lambda>j. j \<notin> set ?I) [0..<b]) = card ({0..<b} - set ?I)"
    by (subst distinct_card [symmetric]) (auto intro!: arg_cong [where f = card])
  moreover have "set ?I \<subseteq> {0..<b}" using pair_indices_range by fastforce
  moreover have "card (set ?I) = length ?I" using pair_indices_distinct by (rule distinct_card)
  moreover have "length (concat (map (\<lambda>i. [i, i + 1]) xs)) = 2 * length xs" for xs :: "nat list"
    by (induction xs) auto
  then have "length ?I = 2 * length (removable_pairs h b 0)" by (simp add: pair_indices_def)
  ultimately show ?thesis
    using card_mono [of "{0..<b}" "set ?I"] by (simp add: kept_def card_Diff_subset)
qed

text \<open>The messages microcompaction must never remove.\<close>

fun must_keep :: "history \<Rightarrow> message \<Rightarrow> bool" where
  "must_keep h (AssistantMessage c) \<longleftrightarrow> \<not> is_read_only_assistant c h"
| "must_keep h (UserMessage d) \<longleftrightarrow> \<not> is_tool_result_only d"

lemma filter_drop_pairs: "filter (must_keep h) (drop_pairs h xs) = filter (must_keep h) xs"
  by (induction h xs rule: drop_pairs.induct)
     (auto simp: removable_def split: message.splits)

lemma paired_before_pair:
  assumes "well_paired ms" "p < length ms" "ms ! p = AssistantMessage c"
  shows "paired_from [] (take p ms)" "paired_from [] (drop p ms)"
proof -
  have "paired_from q (xs @ AssistantMessage c # ys) \<Longrightarrow> paired_from q xs" for q xs ys
    by (induction q xs rule: paired_from.induct) (auto simp: paired_from.simps(3) split: option.splits)
  moreover have "ms = take p ms @ AssistantMessage c # drop (Suc p) ms"
    using assms(2,3) by (metis id_take_nth_drop)
  ultimately show "paired_from [] (take p ms)" using assms(1) unfolding well_paired_def by metis
  then show "paired_from [] (drop p ms)"
    using assms(1) paired_from_append unfolding well_paired_def by (metis append_take_drop_id)
qed

lemma removable_assistant: "removable h m n \<Longrightarrow> \<exists>c. m = AssistantMessage c"
  by (auto simp: removable_def split: message.splits)

lemma microcompact_paired:
  assumes "well_paired (messages h)" "prompt_answers (messages h)"
  shows "well_paired (messages (snd (remove_read_only_pairs fl keep h)))"
proof (rule microcompact_cases [of fl keep h])
  fix p ps b
  assume ps: "removable_pairs h b 0 = p # ps" and b: "b \<le> length (messages h)"
    and h': "messages (snd (remove_read_only_pairs fl keep h)) =
         take p (messages h) @ removed_marker (length (removable_pairs h b 0)) #
         drop_pairs h (drop p (take b (messages h))) @ drop b (messages h)"
  note m = pair_indices_Min [OF ps]
  obtain c where "messages h ! p = AssistantMessage c" using removable_assistant [OF m(5)] by blast
  note pre = paired_before_pair [OF assms(1) _ this]
  have split: "drop p (take b (messages h)) @ drop b (messages h) = drop p (messages h)"
    using m(2) b by (metis append_take_drop_id drop_append diff_is_0_eq drop0 length_take less_imp_le min.absorb2)
  have "paired_from [] (drop_pairs h (drop p (take b (messages h))) @ drop b (messages h))"
    by (rule paired_drop_pairs) (use split pre m(2) b assms(2) prompt_answers_drop in auto)
  moreover have "result_ids [TextContent t] = []" for t by simp
  ultimately have "paired_from [] (removed_marker (length (removable_pairs h b 0)) #
      drop_pairs h (drop p (take b (messages h))) @ drop b (messages h))"
    by (simp add: removed_marker_def)
  with pre(1) m(2) b show ?thesis
    unfolding h' well_paired_def by (intro paired_from_appendI) auto
qed (use assms in simp)

text \<open>
  C16. Removing read-only tool pairs. When pairs are removed, one marker message takes the place of
  the first; every message that is not a read-only assistant turn or a pure tool-result message
  stays, in order (so no mutating call disappears); the number reported is the number of pairs;
  the messages from the boundary on are untouched; and if every assistant turn was answered by
  the next message, a well-paired history stays well paired.
\<close>

theorem microcompact_correct:
  assumes "well_paired (messages h)" "prompt_answers (messages h)"
  shows "well_paired (messages (snd (remove_read_only_pairs fl keep h))) \<and>
    (fst (remove_read_only_pairs fl keep h) = 0 \<longrightarrow> snd (remove_read_only_pairs fl keep h) = h) \<and>
    (fst (remove_read_only_pairs fl keep h) > 0 \<longrightarrow>
      (\<exists>xs ys. messages (snd (remove_read_only_pairs fl keep h)) =
                 xs @ removed_marker (fst (remove_read_only_pairs fl keep h)) # ys \<and>
               filter (must_keep h) (xs @ ys) = filter (must_keep h) (messages h) \<and>
               length (xs @ ys) + 2 * fst (remove_read_only_pairs fl keep h) = length (messages h) \<and>
               suffix (drop (find_compaction_boundary keep h) (messages h)) ys))"
proof (rule microcompact_cases [of fl keep h])
  fix p ps b
  assume bdef: "b = find_compaction_boundary keep h" and ps: "removable_pairs h b 0 = p # ps"
    and b: "b \<le> length (messages h)"
    and n: "fst (remove_read_only_pairs fl keep h) = length (removable_pairs h b 0)"
    and h': "messages (snd (remove_read_only_pairs fl keep h)) =
         take p (messages h) @ removed_marker (length (removable_pairs h b 0)) #
         drop_pairs h (drop p (take b (messages h))) @ drop b (messages h)"
  note m = pair_indices_Min [OF ps]
  let ?ys = "drop_pairs h (drop p (take b (messages h))) @ drop b (messages h)"
  have kept: "kept h b 0 = take p (messages h) @ drop_pairs h (drop p (take b (messages h)))"
    using kept_eq [OF b, of 0] drop_pairs_skip [OF b m(3) m(4) m(2)] by simp
  have "filter (must_keep h) (kept h b 0) = filter (must_keep h) (take b (messages h))"
    using kept_eq [OF b, of 0] by (simp add: filter_drop_pairs)
  then have f: "filter (must_keep h) (take p (messages h) @ ?ys) = filter (must_keep h) (messages h)"
    unfolding kept by (metis append.assoc append_take_drop_id filter_append)
  have l: "length (take p (messages h) @ ?ys) + 2 * length (removable_pairs h b 0) = length (messages h)"
    using length_kept [OF b] b unfolding kept by simp
  have "suffix (drop b (messages h)) ?ys" by (simp add: suffix_def)
  with f l have "\<exists>xs ys. take p (messages h) @ removed_marker (length (removable_pairs h b 0)) # ?ys =
        xs @ removed_marker (length (removable_pairs h b 0)) # ys \<and>
      filter (must_keep h) (xs @ ys) = filter (must_keep h) (messages h) \<and>
      length (xs @ ys) + 2 * length (removable_pairs h b 0) = length (messages h) \<and>
      suffix (drop b (messages h)) ys" by blast
  moreover have "length (removable_pairs h b 0) \<noteq> 0" by (simp add: ps)
  ultimately show ?thesis
    using microcompact_paired [OF assms, of fl keep] unfolding n h' bdef [symmetric] by blast
qed (use assms in simp)

theorem microcompact_correct_witness:
  "fst (remove_read_only_pairs (\<lambda>m e. []) 5 long_history) = 1 \<and>
   well_paired (messages (snd (remove_read_only_pairs (\<lambda>m e. []) 5 long_history)))"
proof
  show "fst (remove_read_only_pairs (\<lambda>m e. []) 5 long_history) = 1" by code_simp
  have "well_paired (messages long_history)" "prompt_answers (messages long_history)" by code_simp+
  from microcompact_correct [OF this]
  show "well_paired (messages (snd (remove_read_only_pairs (\<lambda>m e. []) 5 long_history)))" by blast
qed

section \<open>Summarising compaction\<close>

lemma compact_messages:
  assumes "find_compaction_boundary keep h \<noteq> 0"
  shows "\<exists>header. messages (compact fl sm keep h) =
           UserMessage [TextContent header] # drop (find_compaction_boundary keep h) (messages h)"
  using assms by (auto simp: compact_def replace_with_compacted_def Let_def)

text \<open>
  C17. Summarising compaction keeps exactly the last \<open>keep\<close> user messages (and what lies between
  them) verbatim behind one summary message, and does nothing when there are not more. A
  well-paired history stays well paired exactly when the summarised prefix was well paired: when
  the boundary message answers tool uses of the prefix, the kept suffix starts with orphaned tool
  results, and the protocol repair then removes them.
\<close>

theorem compact_correct:
  assumes "well_paired (messages h)" "0 < keep"
  shows "(find_compaction_boundary keep h = 0 \<longrightarrow> compact fl sm keep h = h) \<and>
    (find_compaction_boundary keep h \<noteq> 0 \<longrightarrow>
      tl (messages (compact fl sm keep h)) = drop (find_compaction_boundary keep h) (messages h) \<and>
      length (filter is_user (messages (compact fl sm keep h))) = Suc keep \<and>
      (well_paired (messages (compact fl sm keep h)) \<longleftrightarrow>
         well_paired (take (find_compaction_boundary keep h) (messages h))) \<and>
      (\<forall>c. messages h ! find_compaction_boundary keep h = UserMessage c \<and> result_ids c \<noteq> [] \<longrightarrow>
         \<not> well_paired (messages (compact fl sm keep h))))"
proof (cases "find_compaction_boundary keep h = 0")
  case True
  then show ?thesis by (simp add: compact_def)
next
  case False
  let ?b = "find_compaction_boundary keep h" and ?ms = "messages h"
  obtain header where ms: "messages (compact fl sm keep h) = UserMessage [TextContent header] # drop ?b ?ms"
    using compact_messages [OF False] by blast
  have wp: "well_paired (messages (compact fl sm keep h)) \<longleftrightarrow> paired_from [] (drop ?b ?ms)"
    by (simp add: ms well_paired_def)
  have rest: "\<exists>q. paired_from q (drop ?b ?ms) \<and> (paired_from [] (take ?b ?ms) \<longleftrightarrow> q = [])"
    using assms(1) paired_from_split [of "[]" "take ?b ?ms" "drop ?b ?ms"] by (simp add: well_paired_def)
  then have eq: "paired_from [] (drop ?b ?ms) \<longleftrightarrow> well_paired (take ?b ?ms)"
    unfolding well_paired_def using paired_from_unique by blast
  have "\<not> paired_from [] (drop ?b ?ms)" if "?ms ! ?b = UserMessage c" "result_ids c \<noteq> []" for c
  proof -
    have "drop ?b ?ms = UserMessage c # drop (Suc ?b) ?ms"
      using that(1) boundary_in_range [OF False] by (metis Cons_nth_drop_Suc)
    then show ?thesis using that(2) by (simp add: paired_from.simps(3) split: option.splits)
  qed
  with False wp eq boundary_keeps [OF False assms(2)] show ?thesis by (simp add: ms)
qed

definition tool_loop_history :: history where
  "tool_loop_history = new_history (\<lambda>m e. [])
     (UserMessage [TextContent ''task''] #
      concat (replicate 5 [AssistantMessage [ToolUseContent ''t'' ''Bash'' []],
                           UserMessage [ToolResultContent ''t'' (ResultText ''done'') False]]))"

definition silent_summarizer :: summarizer where
  "silent_summarizer = \<lparr>s_prefix = [], s_fallback = ''[compacted]'', s_provider = None,
     s_str_parts = (\<lambda>ps. []), s_header = None\<rparr>"

theorem compact_correct_witness:
  "well_paired (messages tool_loop_history) \<and>
   find_compaction_boundary 5 tool_loop_history = 2 \<and>
   \<not> well_paired (messages (compact (\<lambda>m e. []) silent_summarizer 5 tool_loop_history))"
proof -
  have wp: "well_paired (messages tool_loop_history)" and b: "find_compaction_boundary 5 tool_loop_history = 2"
    by code_simp+
  have "messages tool_loop_history ! 2 = UserMessage [ToolResultContent ''t'' (ResultText ''done'') False]"
    by code_simp
  moreover have "result_ids [ToolResultContent ''t'' (ResultText ''done'') False] \<noteq> []" "(2::nat) \<noteq> 0" "(0::nat) < 5"
    by simp_all
  ultimately have "\<not> well_paired (messages (compact (\<lambda>m e. []) silent_summarizer 5 tool_loop_history))"
    using compact_correct [OF wp, of 5 "\<lambda>m e. []" silent_summarizer] unfolding b by blast
  with wp b show ?thesis by blast
qed

section \<open>Skill attachment\<close>

lemma capped_length:
  "length (capped_content c) \<le> POST_COMPACT_MAX_TOKENS_PER_SKILL * CHARS_PER_TOKEN + length SKILL_TRUNCATION_MARKER"
  by (simp add: capped_content_def Let_def)

lemma attach_skills_prefix: "prefix (map fst (attach_skills used infos)) infos"
  by (induction used infos rule: attach_skills.induct) (auto simp: Let_def)

lemma attach_skills_budget:
  "used \<le> POST_COMPACT_SKILLS_TOKEN_BUDGET * CHARS_PER_TOKEN \<Longrightarrow>
     used + sum_list (map (length \<circ> snd) (attach_skills used infos))
       \<le> POST_COMPACT_SKILLS_TOKEN_BUDGET * CHARS_PER_TOKEN"
proof (induction used infos rule: attach_skills.induct)
  case (2 used info infos)
  let ?n = "length (capped_content (skill_content info))"
  show ?case
  proof (cases "used + ?n > POST_COMPACT_SKILLS_TOKEN_BUDGET * CHARS_PER_TOKEN")
    case False
    with 2(1) [OF refl False] show ?thesis by (simp add: Let_def add.assoc)
  qed (use 2(2) in \<open>simp add: Let_def\<close>)
qed simp

lemma attach_skills_content: "(info, c) \<in> set (attach_skills used infos) \<Longrightarrow> c = capped_content (skill_content info)"
  by (induction used infos rule: attach_skills.induct) (auto simp: Let_def split: if_splits)

lemma marker_length: "length SKILL_TRUNCATION_MARKER = 100"
  by (simp add: SKILL_TRUNCATION_MARKER_def)

lemma attach_skills_all:
  "used + length infos * 20100 \<le> 100000 \<Longrightarrow> map fst (attach_skills used infos) = infos"
proof (induction used infos rule: attach_skills.induct)
  case (2 used info infos)
  let ?n = "length (capped_content (skill_content info))"
  have n: "?n \<le> 20100"
    using capped_length [of "skill_content info"]
    by (simp add: marker_length POST_COMPACT_MAX_TOKENS_PER_SKILL_def CHARS_PER_TOKEN_def)
  with 2(2) have fits: "\<not> used + ?n > POST_COMPACT_SKILLS_TOKEN_BUDGET * CHARS_PER_TOKEN"
    by (simp add: POST_COMPACT_SKILLS_TOKEN_BUDGET_def CHARS_PER_TOKEN_def)
  have "used + ?n + length infos * 20100 \<le> 100000" using n 2(2) by simp
  with 2(1) [OF refl fits] fits show ?case by (simp add: Let_def)
qed simp

text \<open>
  The skills attached after a compaction are the first ones invoked, in order; their bodies
  stay within 100000 characters altogether and each within 20000 characters plus the truncation
  marker; with at most four skills invoked, none is left out.
\<close>

theorem skill_attachment_budget:
  "prefix (map fst (attach_skills 0 invoked)) invoked \<and>
   sum_list (map (length \<circ> snd) (attach_skills 0 invoked)) \<le> 100000 \<and>
   (\<forall>info c. (info, c) \<in> set (attach_skills 0 invoked) \<longrightarrow>
      c = capped_content (skill_content info) \<and> length c \<le> 20000 + length SKILL_TRUNCATION_MARKER) \<and>
   (length invoked \<le> 4 \<longrightarrow> map fst (attach_skills 0 invoked) = invoked)"
proof -
  have "sum_list (map (length \<circ> snd) (attach_skills 0 invoked)) \<le> 100000"
    using attach_skills_budget [of 0 invoked]
    by (simp add: POST_COMPACT_SKILLS_TOKEN_BUDGET_def CHARS_PER_TOKEN_def)
  moreover have "length (capped_content c) \<le> 20000 + length SKILL_TRUNCATION_MARKER" for c
    using capped_length [of c] by (simp add: POST_COMPACT_MAX_TOKENS_PER_SKILL_def CHARS_PER_TOKEN_def)
  moreover have "map fst (attach_skills 0 invoked) = invoked" if "length invoked \<le> 4"
    by (rule attach_skills_all) (use that in simp)
  ultimately show ?thesis using attach_skills_prefix attach_skills_content by blast
qed

theorem skill_attachment_budget_witness:
  "map fst (attach_skills 0 [\<lparr>skill_name = ''a'', skill_path = ''p'', skill_content = ''x''\<rparr>]) =
     [\<lparr>skill_name = ''a'', skill_path = ''p'', skill_content = ''x''\<rparr>]"
  using skill_attachment_budget [of "[\<lparr>skill_name = ''a'', skill_path = ''p'', skill_content = ''x''\<rparr>]"] by simp

end
