(* ===== verification/Permission_Rules.thy ===== *)
theory Permission_Rules
  imports Kernel_Prelude
begin

text \<open>
  Permission rules: the rule data types (\<open>tool_authz/types.py\<close>), the DSL parser
  (\<open>tool_authz/rule_parser.py\<close>) and the layered store (\<open>tool_authz/rule_store.py\<close>).
  Shown here: the unescaper accepts exactly the escaped strings and inverts escaping, a rule
  printed in the DSL parses back, malformed input becomes an inert deny rule, and a snapshot
  keeps unique rule ids in config-then-flag order.
\<close>

section \<open>Rules\<close>

datatype rule_source = USER | PROJECT | LOCAL | FLAG

fun source_value :: "rule_source \<Rightarrow> string" where
  "source_value USER = ''user''"
| "source_value PROJECT = ''project''"
| "source_value LOCAL = ''local''"
| "source_value FLAG = ''flag''"

datatype behavior = Allow | Deny | Ask

record permission_rule_value =
  rv_tool_name :: string
  rv_content :: "string option"

record permission_rule =
  source :: rule_source
  layer_index :: nat
  rule_id :: string
  behavior :: behavior
  rule_value :: permission_rule_value
  raw_dsl :: string

section \<open>The DSL parser\<close>

text \<open>The reasons \<open>ValueError\<close> is raised with.\<close>

datatype rule_error =
    EmptyRule
  | EmptyToolName
  | MissingClosingParen
  | EmptyRuleContent
  | TrailingBackslash
  | InvalidEscape char
  | UnescapedParen char

text \<open>\<open>_unescape\<close>: the index loop reads one character, or two at a backslash.\<close>

fun unescape :: "string \<Rightarrow> rule_error + string" where
  "unescape [] = Inr []"
| "unescape (ch # rest) =
     (if ch = CHR 0x5C then
        (case rest of
           [] \<Rightarrow> Inl TrailingBackslash
         | nxt # rest' \<Rightarrow>
             if nxt \<noteq> CHR ''('' \<and> nxt \<noteq> CHR '')'' \<and> nxt \<noteq> CHR 0x5C
             then Inl (InvalidEscape nxt)
             else ebind (unescape rest') (\<lambda>out. Inr (nxt # out)))
      else if ch = CHR ''('' \<or> ch = CHR '')'' then Inl (UnescapedParen ch)
      else ebind (unescape rest) (\<lambda>out. Inr (ch # out)))"

definition validate_tool_name :: "string \<Rightarrow> rule_error + unit" where
  "validate_tool_name name = (if name = [] then Inl EmptyToolName else Inr ())"

definition split_tool_and_content :: "string \<Rightarrow> rule_error + (string \<times> string option)" where
  "split_tool_and_content raw =
     (let stripped = py_strip raw
      in if stripped = [] then Inl EmptyRule
         else if CHR ''('' \<notin> set stripped
         then ebind (validate_tool_name stripped) (\<lambda>_. Inr (stripped, None))
         else
           (let open_idx = py_index stripped (CHR ''('');
                name = py_strip (take open_idx stripped)
            in ebind (validate_tool_name name) (\<lambda>_.
                 if \<not> py_endswith stripped '')'' then Inl MissingClosingParen
                 else
                   (let body = butlast (drop (Suc open_idx) stripped)
                    in ebind (unescape body) (\<lambda>content.
                         if content = [] then Inl EmptyRuleContent
                         else Inr (name, Some content))))))"

definition make_rule_id :: "rule_source \<Rightarrow> nat \<Rightarrow> string" where
  "make_rule_id src idx = source_value src @ '':'' @ py_str_nat idx"

definition parse_rule :: "string \<Rightarrow> behavior \<Rightarrow> rule_source \<Rightarrow> nat \<Rightarrow> permission_rule" where
  "parse_rule raw bh src idx =
     (case split_tool_and_content raw of
        Inl e \<Rightarrow>
          \<lparr>source = src, layer_index = idx, rule_id = make_rule_id src idx, behavior = Deny,
           rule_value = \<lparr>rv_tool_name = ''<unparsed>'', rv_content = None\<rparr>, raw_dsl = raw\<rparr>
      | Inr (name, content) \<Rightarrow>
          \<lparr>source = src, layer_index = idx, rule_id = make_rule_id src idx, behavior = bh,
           rule_value = \<lparr>rv_tool_name = name, rv_content = content\<rparr>, raw_dsl = raw\<rparr>)"

section \<open>The rule store\<close>

text \<open>
  The rule lists of a \<open>PermissionsSection\<close> (\<open>config_section.py\<close>); the two classifier switches
  of the same section are read by the authorizer at start-up.
\<close>

record permissions_section =
  sec_allow :: "string list"
  sec_deny :: "string list"
  sec_ask :: "string list"
  bash_llm_judge_enabled :: bool
  bash_llm_judge_fail_closed :: bool
  bash_safe_commands :: "string list"

record rule_store =
  config_rules :: "permission_rule list"
  flag_rules :: "permission_rule list"

definition new_rule_store :: rule_store where
  "new_rule_store = \<lparr>config_rules = [], flag_rules = []\<rparr>"

text \<open>One \<open>for raw in ...\<close> loop of \<open>_build_rules\<close>, the running index threaded through.\<close>

fun append_rules ::
    "behavior \<Rightarrow> rule_source \<Rightarrow> string list \<Rightarrow> permission_rule list \<times> nat
       \<Rightarrow> permission_rule list \<times> nat" where
  "append_rules bh src [] (rules, idx) = (rules, idx)"
| "append_rules bh src (raw # raws) (rules, idx) =
     append_rules bh src raws (rules @ [parse_rule raw bh src idx], Suc idx)"

definition build_rules ::
    "string list \<Rightarrow> string list \<Rightarrow> string list \<Rightarrow> rule_source \<Rightarrow> permission_rule list" where
  "build_rules allow deny ask src =
     fst (append_rules Allow src allow
           (append_rules Ask src ask
             (append_rules Deny src deny ([], 0))))"

definition parse_section :: "permissions_section \<Rightarrow> permission_rule list" where
  "parse_section s = build_rules (sec_allow s) (sec_deny s) (sec_ask s) USER"

definition bind_config :: "permissions_section \<Rightarrow> rule_store \<Rightarrow> rule_store" where
  "bind_config s st = st\<lparr>config_rules := parse_section s\<rparr>"

text \<open>
  \<open>_on_change\<close>, the subscriber of the section's \<open>changed\<close> signal. \<open>_parse_section\<close> does not
  raise (\<open>parse_rule\<close> catches its \<open>ValueError\<close>), so its \<open>except\<close> branch is dead.
\<close>

definition rules_on_change :: "permissions_section \<Rightarrow> rule_store \<Rightarrow> rule_store" where
  "rules_on_change new st = st\<lparr>config_rules := parse_section new\<rparr>"

definition load_flag_layer ::
    "string list \<Rightarrow> string list \<Rightarrow> string list \<Rightarrow> rule_store \<Rightarrow> rule_store" where
  "load_flag_layer allow deny ask st = st\<lparr>flag_rules := build_rules allow deny ask FLAG\<rparr>"

definition snapshot :: "rule_store \<Rightarrow> permission_rule list" where
  "snapshot st = config_rules st @ flag_rules st"

section \<open>Lemmas on the parser\<close>

text \<open>The DSL escaping that \<open>_unescape\<close> is documented to invert.\<close>

fun escape_char :: "char \<Rightarrow> string" where
  "escape_char c = (if c = CHR ''('' \<or> c = CHR '')'' \<or> c = CHR 0x5C then [CHR 0x5C, c] else [c])"

definition dsl_escape :: "string \<Rightarrow> string" where
  "dsl_escape s = concat (map escape_char s)"

lemma dsl_escape_Nil [simp]: "dsl_escape [] = []"
  by (simp add: dsl_escape_def)

lemma dsl_escape_Cons: "dsl_escape (c # s) = escape_char c @ dsl_escape s"
  by (simp add: dsl_escape_def)

lemma unescape_escape [simp]: "unescape (dsl_escape s) = Inr s"
  by (induction s) (auto simp: dsl_escape_Cons)

lemma unescape_Inr_escape: "unescape body = Inr content \<Longrightarrow> body = dsl_escape content"
proof (induction body arbitrary: content rule: unescape.induct)
  case 1
  then show ?case by simp
next
  case (2 ch rest)
  show ?case
  proof (cases "ch = CHR 0x5C")
    case True
    with 2(3) obtain nxt rest' where rest: "rest = nxt # rest'"
      by (auto split: list.splits)
    with True 2(3) have nxt: "nxt = CHR ''('' \<or> nxt = CHR '')'' \<or> nxt = CHR 0x5C"
      by (auto split: if_splits)
    with True 2(3) rest obtain out
      where out: "unescape rest' = Inr out" "content = nxt # out"
      by (auto simp: ebind_Inr_iff split: if_splits)
    from 2(1) [OF True rest _ out(1)] nxt have "rest' = dsl_escape out" by auto
    with True rest nxt out show ?thesis by (auto simp: dsl_escape_Cons)
  next
    case False
    with 2(3) have np: "ch \<noteq> CHR ''(''" "ch \<noteq> CHR '')''" by (auto split: if_splits)
    with False 2(3) obtain out where out: "unescape rest = Inr out" "content = ch # out"
      by (auto simp: ebind_Inr_iff split: if_splits)
    from 2(2) [OF False _ out(1)] np have "rest = dsl_escape out" by auto
    with False np out show ?thesis by (simp add: dsl_escape_Cons)
  qed
qed

lemma split_no_paren:
  assumes "py_strip name = name" "name \<noteq> []" "CHR ''('' \<notin> set name"
  shows "split_tool_and_content name = Inr (name, None)"
  using assms by (simp add: split_tool_and_content_def validate_tool_name_def)

lemma split_with_content:
  assumes strip: "py_strip name = name" and ne: "name \<noteq> []" and np: "CHR ''('' \<notin> set name"
    and content: "content \<noteq> []"
  shows "split_tool_and_content (name @ ''('' @ dsl_escape content @ '')'') =
           Inr (name, Some content)"
proof -
  let ?raw = "name @ ''('' @ dsl_escape content @ '')''"
  from ne obtain c s where name: "name = c # s" by (cases name) auto
  with strip have "\<not> py_isspace c" using py_strip_hd by blast
  moreover have "\<not> py_isspace (CHR '')'')" by (simp add: py_isspace_def)
  ultimately have raw: "py_strip ?raw = ?raw"
    using py_strip_bracketed [of c "CHR '')''" "s @ ''('' @ dsl_escape content"]
    by (simp add: name)
  have idx: "py_index ?raw (CHR ''('') = length name"
    using np by simp
  have "py_endswith ?raw '')''"
    using py_endswith_append [of "name @ ''('' @ dsl_escape content" "'')''"] by simp
  with raw idx ne strip content show ?thesis
    by (simp add: split_tool_and_content_def validate_tool_name_def)
qed

text \<open>Both lemmas at once: a rule printed in the DSL.\<close>

fun print_rule :: "string \<Rightarrow> string option \<Rightarrow> string" where
  "print_rule name None = name"
| "print_rule name (Some content) = name @ ''('' @ dsl_escape content @ '')''"

lemma split_print_rule:
  assumes "py_strip name = name" "name \<noteq> []" "CHR ''('' \<notin> set name" "content \<noteq> Some []"
  shows "split_tool_and_content (print_rule name content) = Inr (name, content)"
  using assms by (cases content) (auto intro: split_no_paren split_with_content [simplified])

section \<open>Lemmas on the store\<close>

lemma parse_rule_id [simp]: "rule_id (parse_rule raw bh src idx) = make_rule_id src idx"
  by (simp add: parse_rule_def split: sum.splits prod.splits)

lemma parse_rule_source [simp]: "source (parse_rule raw bh src idx) = src"
  by (simp add: parse_rule_def split: sum.splits prod.splits)

lemma parse_rule_raw [simp]: "raw_dsl (parse_rule raw bh src idx) = raw"
  by (simp add: parse_rule_def split: sum.splits prod.splits)

lemma parse_rule_behavior:
  "behavior (parse_rule raw bh src idx) = bh \<or> behavior (parse_rule raw bh src idx) = Deny"
  by (simp add: parse_rule_def split: sum.splits prod.splits)

text \<open>The three loops as one: the raw strings in order, numbered from zero.\<close>

lemma append_rules_eq:
  "append_rules bh src raws (rules, idx) =
     (rules @ map (\<lambda>(i, raw). parse_rule raw bh src i) (enumerate idx raws), idx + length raws)"
  by (induction raws arbitrary: rules idx) auto

lemma map_rule_id_enumerate:
  "map (rule_id \<circ> (\<lambda>(i, raw). parse_rule raw bh src i)) (enumerate idx raws) =
     map (make_rule_id src) [idx ..< idx + length raws]"
  by (induction raws arbitrary: idx) (simp_all add: upt_rec del: upt_Suc)

lemma rule_ids_build_rules:
  "map rule_id (build_rules allow deny ask src) =
     map (make_rule_id src) [0 ..< length deny + length ask + length allow]"
  by (simp add: build_rules_def append_rules_eq map_rule_id_enumerate upt_add_eq_append [of 0])

lemma source_value_inject [simp]: "source_value a = source_value b \<longleftrightarrow> a = b"
  by (cases a; cases b) auto

lemma make_rule_id_inject [simp]:
  "make_rule_id a i = make_rule_id b j \<longleftrightarrow> a = b \<and> i = j"
proof
  assume eq: "make_rule_id a i = make_rule_id b j"
  have tw: "takeWhile (\<lambda>c. c \<noteq> CHR '':'') (make_rule_id r k) = source_value r" for r k
    by (cases r) (simp_all add: make_rule_id_def)
  have "a = b"
    using tw [of a i] tw [of b j] eq by simp
  with eq show "a = b \<and> i = j" by (simp add: make_rule_id_def)
qed simp

lemma distinct_make_rule_id: "distinct is \<Longrightarrow> distinct (map (make_rule_id src) is)"
  by (simp add: distinct_map inj_on_def)

lemma source_build_rules:
  "r \<in> set (build_rules allow deny ask src) \<Longrightarrow> source r = src"
  by (auto simp: build_rules_def append_rules_eq)

lemma distinct_rule_ids_build_rules:
  "distinct (map rule_id (build_rules allow deny ask src))"
  unfolding rule_ids_build_rules by (rule distinct_make_rule_id) simp

text \<open>
  The states a store reaches: \<open>bind_config\<close> at start-up, any number of config reloads, and
  \<open>load_flag_layer\<close>. The invariant separates the two layers by source.
\<close>

inductive store_reachable :: "rule_store \<Rightarrow> bool" where
  sr_new: "store_reachable new_rule_store"
| sr_bind: "store_reachable st \<Longrightarrow> store_reachable (bind_config sec st)"
| sr_change: "store_reachable st \<Longrightarrow> store_reachable (rules_on_change sec st)"
| sr_flags: "store_reachable st \<Longrightarrow> store_reachable (load_flag_layer allow deny ask st)"

definition layer_ok :: "rule_source \<Rightarrow> permission_rule list \<Rightarrow> bool" where
  "layer_ok src rules \<longleftrightarrow>
     distinct (map rule_id rules) \<and>
     list_all (\<lambda>r. source r = src \<and> rule_id r = make_rule_id src (layer_index r)) rules"

definition store_ok :: "rule_store \<Rightarrow> bool" where
  "store_ok st \<longleftrightarrow> layer_ok USER (config_rules st) \<and> layer_ok FLAG (flag_rules st)"

lemma parse_rule_index [simp]: "layer_index (parse_rule raw bh src idx) = idx"
  by (simp add: parse_rule_def split: sum.splits prod.splits)

lemma layer_ok_build_rules: "layer_ok src (build_rules allow deny ask src)"
proof -
  have "r \<in> set (build_rules allow deny ask src) \<Longrightarrow> rule_id r = make_rule_id src (layer_index r)" for r
    by (auto simp: build_rules_def append_rules_eq)
  then show ?thesis
    by (auto simp: layer_ok_def list_all_iff distinct_rule_ids_build_rules source_build_rules)
qed

lemma store_reachable_ok: "store_reachable st \<Longrightarrow> store_ok st"
proof (induction rule: store_reachable.induct)
  case sr_new
  show ?case by (simp add: store_ok_def layer_ok_def new_rule_store_def)
qed (simp_all add: store_ok_def bind_config_def rules_on_change_def load_flag_layer_def
      parse_section_def layer_ok_build_rules)

lemma layers_disjoint_ids:
  "layer_ok a rs \<Longrightarrow> layer_ok b rs' \<Longrightarrow> a \<noteq> b \<Longrightarrow> rule_id ` set rs \<inter> rule_id ` set rs' = {}"
  by (force simp: layer_ok_def list_all_iff)

section \<open>Properties\<close>

text \<open>
  The unescaper accepts exactly the escaped strings: \<open>_unescape(body)\<close> returns
  \<open>content\<close> if and only if \<open>body\<close> is \<open>content\<close> with every paren and backslash escaped. So
  escaping has one normal form and no content can be smuggled in by a second spelling.
\<close>

theorem unescape_iff_escape: "unescape body = Inr content \<longleftrightarrow> body = dsl_escape content"
  using unescape_Inr_escape unescape_escape by blast

text \<open>
  Round trip of the DSL: a rule whose tool name is stripped, non-empty and free of
  \<open>(\<close>, and whose content is absent or non-empty, parses back from its printed form to the
  same tool name, content and behaviour.
\<close>

theorem parse_print_rule:
  assumes "py_strip name = name" "name \<noteq> []" "CHR ''('' \<notin> set name" "content \<noteq> Some []"
  shows "rule_value (parse_rule (print_rule name content) bh src idx) =
           \<lparr>rv_tool_name = name, rv_content = content\<rparr>
         \<and> behavior (parse_rule (print_rule name content) bh src idx) = bh"
  using split_print_rule [OF assms] by (simp add: parse_rule_def)


theorem parse_print_rule_witness:
  "rule_value (parse_rule ''Bash(f(x))'' Allow USER 3) = \<lparr>rv_tool_name = ''<unparsed>'', rv_content = None\<rparr>
   \<and> rule_value (parse_rule (print_rule ''Bash'' (Some ''f(x)'')) Allow USER 3) =
       \<lparr>rv_tool_name = ''Bash'', rv_content = Some ''f(x)''\<rparr>"
proof -
  have "py_strip ''Bash'' = ''Bash''" "''Bash'' \<noteq> []" "CHR ''('' \<notin> set ''Bash''"
      "Some ''f(x)'' \<noteq> Some []"
    by code_simp+
  note parse_print_rule [OF this, of Allow USER 3]
  moreover have "rule_value (parse_rule ''Bash(f(x))'' Allow USER 3) =
      \<lparr>rv_tool_name = ''<unparsed>'', rv_content = None\<rparr>"
    by code_simp
  ultimately show ?thesis by blast
qed

text \<open>
  In every state the rule store can reach through \<open>bind_config\<close>, config reloads and
  \<open>load_flag_layer\<close>, the rule ids of a snapshot are pairwise distinct (the ids are documented
  to be globally unique) and every config rule stands before every flag rule.
\<close>

theorem snapshot_ids_unique:
  assumes "store_reachable st"
  shows "distinct (map rule_id (snapshot st)) \<and>
         takeWhile (\<lambda>r. source r = USER) (snapshot st) = config_rules st"
proof -
  have ok: "layer_ok USER (config_rules st)" "layer_ok FLAG (flag_rules st)"
    using store_reachable_ok [OF assms] by (simp_all add: store_ok_def)
  have "distinct (map rule_id (snapshot st))"
    using ok layers_disjoint_ids [OF ok] by (auto simp: snapshot_def layer_ok_def)
  moreover have "takeWhile (\<lambda>r. source r = USER) (flag_rules st) = []"
    using ok(2) by (cases "flag_rules st") (auto simp: layer_ok_def)
  ultimately show ?thesis
    using ok(1) by (simp add: snapshot_def takeWhile_append layer_ok_def list_all_iff)
qed

theorem snapshot_ids_unique_witness:
  "distinct (map rule_id (snapshot (load_flag_layer [''Read''] [''Bash''] [] new_rule_store)))"
proof -
  have "store_reachable (load_flag_layer [''Read''] [''Bash''] [] new_rule_store)"
    by (intro store_reachable.intros)
  from snapshot_ids_unique [OF this] show ?thesis by blast
qed

end
