(* ===== verification/Rule_Engine.thy ===== *)
theory Rule_Engine
  imports Permission_Rules Tool_Contract
begin

text \<open>
  The rule engine (\<open>tool_authz/rule_engine.py\<close>): which rules target a tool, the traversal with
  its deny short-circuit and lazily built matcher, and the choice of the effective rule.
  Shown here: the traversal computes the first deny, else the first ask, else the first allow
  rule that applies; the behaviour does not depend on the order of the rules; a malformed
  entry changes nothing.
\<close>

section \<open>Targeting\<close>

definition mcp_prefix :: string where
  "mcp_prefix = ''mcp__''"

text \<open>\<open>"mcp__server"\<close> with no further double underscore: a server-level name.\<close>

definition is_server_name :: "string \<Rightarrow> bool" where
  "is_server_name n \<longleftrightarrow>
     py_startswith n mcp_prefix \<and> \<not> py_contains ''__'' (drop (length mcp_prefix) n)"

definition rule_matches_tool :: "permission_rule \<Rightarrow> tool \<Rightarrow> bool" where
  "rule_matches_tool r t =
     (let rule_name = rv_tool_name (rule_value r)
      in if matches_name t rule_name then True
         else if rule_name = ''mcp__*'' then py_startswith (t_name t) mcp_prefix
         else if is_server_name rule_name then py_startswith (t_name t) (rule_name @ ''__'')
         else False)"

definition is_mcp_server_rule :: "string \<Rightarrow> tool \<Rightarrow> bool" where
  "is_mcp_server_rule rule_name t =
     (if \<not> py_startswith rule_name mcp_prefix then False
      else \<not> py_contains ''__'' (drop (length mcp_prefix) rule_name)
           \<and> py_startswith (t_name t) (rule_name @ ''__''))"

section \<open>The traversal\<close>

record engine_outcome =
  matched_rule :: "permission_rule option"
  rule_behavior :: "behavior option"
  suggestion :: permission_suggestion
  outcome_destructive :: bool

text \<open>The local variables of \<open>decide\<close>'s loop.\<close>

record scan_state =
  matched_deny :: "permission_rule option"
  matched_ask :: "permission_rule option"
  matched_allow :: "permission_rule option"
  matcher_cache :: "(string \<Rightarrow> bool py) option"

definition scan_init :: scan_state where
  "scan_init = \<lparr>matched_deny = None, matched_ask = None, matched_allow = None, matcher_cache = None\<rparr>"

text \<open>
  The tests at the head of the loop body: does the rule hit this call? The matcher is built
  on first use and kept in the cache.
\<close>

definition rule_hits ::
    "tool \<Rightarrow> tool_input \<Rightarrow> permission_rule \<Rightarrow> scan_state \<Rightarrow> (bool \<times> scan_state) py" where
  "rule_hits t inp r s =
     (if \<not> rule_matches_tool r t then Inr (False, s)
      else (case rv_content (rule_value r) of
              None \<Rightarrow> Inr (True, s)
            | Some content \<Rightarrow>
                if is_mcp_server_rule (rv_tool_name (rule_value r)) t then Inr (True, s)
                else
                  ebind (case matcher_cache s of
                           None \<Rightarrow> prepare_permission_matcher t inp
                         | Some m \<Rightarrow> Inr m)
                    (\<lambda>m. ebind (m content) (\<lambda>b. Inr (b, s\<lparr>matcher_cache := Some m\<rparr>)))))"

text \<open>The recording half of the loop body; a deny ends the loop (\<open>break\<close>).\<close>

fun scan_rules ::
    "tool \<Rightarrow> tool_input \<Rightarrow> permission_rule list \<Rightarrow> scan_state \<Rightarrow> scan_state py" where
  "scan_rules t inp [] s = Inr s"
| "scan_rules t inp (r # rs) s =
     ebind (rule_hits t inp r s) (\<lambda>(hit, s').
       if \<not> hit then scan_rules t inp rs s'
       else if behavior r = Deny \<and> matched_deny s' = None
       then Inr (s'\<lparr>matched_deny := Some r\<rparr>)
       else if behavior r = Ask \<and> matched_ask s' = None
       then scan_rules t inp rs (s'\<lparr>matched_ask := Some r\<rparr>)
       else if behavior r = Allow \<and> matched_allow s' = None
       then scan_rules t inp rs (s'\<lparr>matched_allow := Some r\<rparr>)
       else scan_rules t inp rs s')"

definition decide ::
    "permission_rule list \<Rightarrow> tool \<Rightarrow> tool_input \<Rightarrow> authorize_context \<Rightarrow> engine_outcome py" where
  "decide rules t inp ctx =
     ebind (scan_rules t inp rules scan_init) (\<lambda>s.
     ebind (default_risk t inp ctx) (\<lambda>sg.
     ebind (is_destructive t inp) (\<lambda>d.
       Inr (case matched_deny s of
              Some r \<Rightarrow> \<lparr>matched_rule = Some r, rule_behavior = Some Deny,
                        suggestion = sg, outcome_destructive = d\<rparr>
            | None \<Rightarrow>
                (case matched_ask s of
                   Some r \<Rightarrow> \<lparr>matched_rule = Some r, rule_behavior = Some Ask,
                             suggestion = sg, outcome_destructive = d\<rparr>
                 | None \<Rightarrow>
                     (case matched_allow s of
                        Some r \<Rightarrow> \<lparr>matched_rule = Some r, rule_behavior = Some Allow,
                                  suggestion = sg, outcome_destructive = d\<rparr>
                      | None \<Rightarrow> \<lparr>matched_rule = None, rule_behavior = None,
                                suggestion = sg, outcome_destructive = d\<rparr>))))))"

section \<open>Reference semantics\<close>

text \<open>
  What a rule list means for one call, with no loop: a rule applies when it targets the tool
  and its content, if any, is accepted by the matcher \<open>p\<close>; the effective rule is the first
  applicable deny, else the first applicable ask, else the first applicable allow.
\<close>

definition rule_applies :: "tool \<Rightarrow> (string \<Rightarrow> bool) \<Rightarrow> permission_rule \<Rightarrow> bool" where
  "rule_applies t p r \<longleftrightarrow>
     rule_matches_tool r t \<and>
     (case rv_content (rule_value r) of
        None \<Rightarrow> True
      | Some c \<Rightarrow> is_mcp_server_rule (rv_tool_name (rule_value r)) t \<or> p c)"

definition first_with :: "tool \<Rightarrow> (string \<Rightarrow> bool) \<Rightarrow> behavior \<Rightarrow> permission_rule list
    \<Rightarrow> permission_rule option" where
  "first_with t p b rules = List.find (\<lambda>r. rule_applies t p r \<and> behavior r = b) rules"

definition effective_rule ::
    "tool \<Rightarrow> (string \<Rightarrow> bool) \<Rightarrow> permission_rule list \<Rightarrow> permission_rule option" where
  "effective_rule t p rules =
     (case first_with t p Deny rules of
        Some r \<Rightarrow> Some r
      | None \<Rightarrow> (case first_with t p Ask rules of
                  Some r \<Rightarrow> Some r
                | None \<Rightarrow> first_with t p Allow rules))"

text \<open>A tool whose matcher does not raise on this input and decides by \<open>p\<close>.\<close>

definition matcher_total :: "tool \<Rightarrow> tool_input \<Rightarrow> (string \<Rightarrow> bool) \<Rightarrow> bool" where
  "matcher_total t inp p \<longleftrightarrow>
     (\<exists>m. prepare_permission_matcher t inp = Inr m \<and> (\<forall>c. m c = Inr (p c)))"

text \<open>The cache of a scan state is empty or holds the tool's own matcher.\<close>

definition cache_ok :: "tool \<Rightarrow> tool_input \<Rightarrow> scan_state \<Rightarrow> bool" where
  "cache_ok t inp s \<longleftrightarrow>
     (case matcher_cache s of None \<Rightarrow> True | Some m \<Rightarrow> prepare_permission_matcher t inp = Inr m)"

lemma first_with_Nil [simp]: "first_with t p b [] = None"
  by (simp add: first_with_def)

lemma first_with_Cons [simp]:
  "first_with t p b (r # rs) =
     (if rule_applies t p r \<and> behavior r = b then Some r else first_with t p b rs)"
  by (simp add: first_with_def)

lemma rule_hits_applies:
  assumes "matcher_total t inp p" "cache_ok t inp s"
  shows "\<exists>c. rule_hits t inp r s = Inr (rule_applies t p r, s\<lparr>matcher_cache := c\<rparr>)
             \<and> cache_ok t inp (s\<lparr>matcher_cache := c\<rparr>)"
proof -
  obtain m where m: "prepare_permission_matcher t inp = Inr m" "\<And>c. m c = Inr (p c)"
    using assms(1) by (auto simp: matcher_total_def)
  have same: "s = s\<lparr>matcher_cache := matcher_cache s\<rparr>" by simp
  show ?thesis
  proof (cases "rule_matches_tool r t \<and> rv_content (rule_value r) \<noteq> None
                \<and> \<not> is_mcp_server_rule (rv_tool_name (rule_value r)) t")
    case True
    with m assms(2) show ?thesis
      by (intro exI [of _ "Some m"])
        (auto simp: rule_hits_def rule_applies_def cache_ok_def split: option.splits)
  next
    case False
    with assms(2) same show ?thesis
      by (intro exI [of _ "matcher_cache s"])
        (auto simp: rule_hits_def rule_applies_def split: option.splits)
  qed
qed

lemma scan_rules_finds:
  assumes "matcher_total t inp p" "cache_ok t inp s" "matched_deny s = None"
  shows "\<exists>s'. scan_rules t inp rules s = Inr s'
           \<and> matched_deny s' = first_with t p Deny rules
           \<and> (matched_deny s' = None \<longrightarrow>
                matched_ask s' = (case matched_ask s of None \<Rightarrow> first_with t p Ask rules | x \<Rightarrow> x)
              \<and> matched_allow s' =
                  (case matched_allow s of None \<Rightarrow> first_with t p Allow rules | x \<Rightarrow> x))"
  using assms(2,3)
proof (induction rules arbitrary: s)
  case Nil
  then show ?case by (auto split: option.splits)
next
  case (Cons r rs)
  from rule_hits_applies [OF assms(1) Cons.prems(1), of r] obtain c
    where hit: "rule_hits t inp r s = Inr (rule_applies t p r, s\<lparr>matcher_cache := c\<rparr>)"
      and ok: "cache_ok t inp (s\<lparr>matcher_cache := c\<rparr>)" by blast
  let ?s = "s\<lparr>matcher_cache := c\<rparr>"
  have okr: "cache_ok t inp (?s\<lparr>matched_ask := a\<rparr>)" "cache_ok t inp (?s\<lparr>matched_allow := a\<rparr>)" for a
    using ok by (simp_all add: cache_ok_def)
  have mn: "matched_deny ?s = None" using Cons.prems by simp
  show ?case
  proof (cases "rule_applies t p r")
    case False
    then show ?thesis using hit Cons.IH [OF ok mn] by (simp cong: option.case_cong)
  next
    case True
    show ?thesis
    proof (cases "behavior r")
      case Deny
      then show ?thesis using True hit mn by (simp cong: option.case_cong)
    next
      case Ask
      show ?thesis
      proof (cases "matched_ask s")
        case None
        then show ?thesis
          using True hit Ask Cons.IH [OF okr(1), of "Some r"] mn by (simp cong: option.case_cong)
      next
        case (Some q)
        then show ?thesis using True hit Ask Cons.IH [OF ok mn] by (simp cong: option.case_cong)
      qed
    next
      case Allow
      show ?thesis
      proof (cases "matched_allow s")
        case None
        then show ?thesis
          using True hit Allow Cons.IH [OF okr(2), of "Some r"] mn by (simp cong: option.case_cong)
      next
        case (Some q)
        then show ?thesis using True hit Allow Cons.IH [OF ok mn] by (simp cong: option.case_cong)
      qed
    qed
  qed
qed

lemma first_with_behavior: "first_with t p b rules = Some r \<Longrightarrow> behavior r = b"
  by (auto simp: first_with_def find_Some_iff)

lemma scan_rules_returns:
  assumes "matcher_total t inp p"
  shows "\<exists>s. scan_rules t inp rules scan_init = Inr s"
proof -
  have "cache_ok t inp scan_init" "matched_deny scan_init = None"
    by (simp_all add: cache_ok_def scan_init_def)
  from scan_rules_finds [OF assms this] show ?thesis by blast
qed

lemma decide_effective:
  assumes "matcher_total t inp p" "default_risk t inp ctx = Inr sg" "is_destructive t inp = Inr d"
  shows "decide rules t inp ctx =
           Inr \<lparr>matched_rule = effective_rule t p rules,
                rule_behavior = map_option behavior (effective_rule t p rules),
                suggestion = sg, outcome_destructive = d\<rparr>"
proof -
  have "cache_ok t inp scan_init" "matched_deny scan_init = None"
    by (simp_all add: cache_ok_def scan_init_def)
  from scan_rules_finds [OF assms(1) this, of rules] obtain s'
    where "scan_rules t inp rules scan_init = Inr s'"
      "matched_deny s' = first_with t p Deny rules"
      "matched_deny s' = None \<longrightarrow> matched_ask s' = first_with t p Ask rules
         \<and> matched_allow s' = first_with t p Allow rules"
    unfolding scan_init_def by fastforce
  with assms(2,3) show ?thesis
    by (auto simp: decide_def effective_rule_def dest: first_with_behavior split: option.splits)
qed

lemma first_with_None_iff:
  "first_with t p b rules = None \<longleftrightarrow> (\<forall>r \<in> set rules. rule_applies t p r \<longrightarrow> behavior r \<noteq> b)"
  by (auto simp: first_with_def find_None_iff)

lemma effective_behavior_set:
  "map_option behavior (effective_rule t p rules) =
     (if \<exists>r \<in> set rules. rule_applies t p r \<and> behavior r = Deny then Some Deny
      else if \<exists>r \<in> set rules. rule_applies t p r \<and> behavior r = Ask then Some Ask
      else if \<exists>r \<in> set rules. rule_applies t p r \<and> behavior r = Allow then Some Allow
      else None)"
  using first_with_None_iff [of t p Deny rules] first_with_None_iff [of t p Ask rules]
    first_with_None_iff [of t p Allow rules]
  by (auto simp: effective_rule_def dest: first_with_behavior split: option.splits)

text \<open>Rules that never hit are invisible to the scan, wherever they stand.\<close>

lemma scan_rules_skip:
  assumes "\<not> rule_matches_tool r t"
  shows "scan_rules t inp (xs @ r # ys) s = scan_rules t inp (xs @ ys) s"
proof (induction xs arbitrary: s)
  case Nil
  show ?case using assms by (simp add: rule_hits_def)
next
  case (Cons q xs)
  show ?case by (cases "rule_hits t inp q s") (simp_all add: Cons.IH split: prod.split)
qed

lemma unparsed_matches_nothing:
  assumes "split_tool_and_content raw = Inl e" "\<not> matches_name t ''<unparsed>''"
  shows "\<not> rule_matches_tool (parse_rule raw bh src idx) t"
  using assms
  by (simp add: rule_matches_tool_def parse_rule_def is_server_name_def mcp_prefix_def py_startswith_def)

section \<open>Properties\<close>

text \<open>A small tool for the concrete instances: it matches one content and never raises.\<close>

definition echo_tool :: tool where
  "echo_tool =
     \<lparr>t_name = ''Echo'', t_aliases = [''Say''], t_kind = KOther,
      prepare_permission_matcher = (\<lambda>inp. Inr (\<lambda>c. Inr (c = ''hi''))),
      default_risk = (\<lambda>inp ctx. Inr \<lparr>sg_risk = Low, sg_default_decision = DAllow, sg_reason = ''echo''\<rparr>),
      is_destructive = (\<lambda>inp. Inr False),
      is_read_only_call = (\<lambda>inp ctx. Inr False),
      user_facing_name = (\<lambda>inp. Inr ''Echo''),
      activity_description = (\<lambda>inp. Inr None),
      destructive_warning = (\<lambda>inp. Inr None)\<rparr>"

definition demo_ctx :: authorize_context where
  "demo_ctx = \<lparr>session_id = ''s1'', agent_depth = 0, mode = MDefault, cwd = ''/w'',
               should_avoid_prompts = False\<rparr>"

lemma echo_tool_contract:
  "matcher_total echo_tool inp (\<lambda>c. c = ''hi'')"
  "default_risk echo_tool inp ctx =
     Inr \<lparr>sg_risk = Low, sg_default_decision = DAllow, sg_reason = ''echo''\<rparr>"
  "is_destructive echo_tool inp = Inr False"
  by (simp_all add: echo_tool_def matcher_total_def)

text \<open>
  C12. \<open>RuleEngine.decide\<close> against its reference semantics: when the tool's contract methods
  do not raise, the loop with its short-circuit and matcher cache returns exactly the first
  applicable deny rule, else the first applicable ask rule, else the first applicable allow
  rule, together with the tool's own suggestion and destructiveness.
\<close>

theorem decide_is_effective_rule:
  assumes "matcher_total t inp p" "default_risk t inp ctx = Inr sg" "is_destructive t inp = Inr d"
  shows "decide rules t inp ctx =
           Inr \<lparr>matched_rule = effective_rule t p rules,
                rule_behavior = map_option behavior (effective_rule t p rules),
                suggestion = sg, outcome_destructive = d\<rparr>"
  by (rule decide_effective [OF assms])

theorem decide_is_effective_rule_witness:
  "map_sum id rule_behavior
     (decide (build_rules [''Echo''] [''Say(hi)''] [''Echo''] USER) echo_tool [] demo_ctx)
   = Inr (Some Deny)"
proof -
  have "map_option behavior
          (effective_rule echo_tool (\<lambda>c. c = ''hi'')
             (build_rules [''Echo''] [''Say(hi)''] [''Echo''] USER)) = Some Deny"
    by code_simp
  then show ?thesis
    by (simp add: decide_is_effective_rule [OF echo_tool_contract])
qed

text \<open>
  The outcome's behaviour does not depend on the order of the rules, nor on repetitions:
  two rule lists with the same rules give the same behaviour for every call.
\<close>

theorem decide_order_independent:
  assumes "matcher_total t inp p" "set rules = set rules'"
  shows "map_sum id rule_behavior (decide rules t inp ctx) =
         map_sum id rule_behavior (decide rules' t inp ctx)"
proof -
  obtain s s' where scan: "scan_rules t inp rules scan_init = Inr s"
      "scan_rules t inp rules' scan_init = Inr s'"
    using scan_rules_returns [OF assms(1)] by metis
  show ?thesis
  proof (cases "\<exists>sg d. default_risk t inp ctx = Inr sg \<and> is_destructive t inp = Inr d")
    case True
    then obtain sg d where "default_risk t inp ctx = Inr sg" "is_destructive t inp = Inr d" by blast
    note eff = decide_effective [OF assms(1) this]
    show ?thesis
      using effective_behavior_set [of t p rules] effective_behavior_set [of t p rules'] assms(2)
      by (simp add: eff)
  next
    case False
    then show ?thesis
      by (cases "default_risk t inp ctx"; cases "is_destructive t inp") (auto simp: decide_def scan)
  qed
qed

theorem decide_order_independent_witness:
  "map_sum id rule_behavior
     (decide [parse_rule ''Echo'' Allow USER 0, parse_rule ''Say'' Ask USER 1] echo_tool [] demo_ctx) =
   map_sum id rule_behavior
     (decide [parse_rule ''Say'' Ask USER 1, parse_rule ''Echo'' Allow USER 0] echo_tool [] demo_ctx)"
  by (rule decide_order_independent [OF echo_tool_contract(1)]) auto

text \<open>
  A malformed rule is neutral: whatever list and position it is declared at, dropping the
  entry leaves the engine's result unchanged, exceptions included, for every tool that is not
  itself called \<open><unparsed>\<close>.
\<close>

theorem malformed_rule_neutral:
  assumes "split_tool_and_content raw = Inl e" "\<not> matches_name t ''<unparsed>''"
  shows "decide (xs @ parse_rule raw bh src idx # ys) t inp ctx = decide (xs @ ys) t inp ctx"
  by (simp add: decide_def scan_rules_skip [OF unparsed_matches_nothing [OF assms]])

theorem malformed_rule_neutral_witness:
  "decide [parse_rule ''Echo(hi'' Deny USER 0] echo_tool [] demo_ctx = decide [] echo_tool [] demo_ctx"
proof -
  have "split_tool_and_content ''Echo(hi'' = Inl MissingClosingParen"
    "\<not> matches_name echo_tool ''<unparsed>''"
    by code_simp+
  from malformed_rule_neutral [OF this, of "[]" Deny USER 0 "[]"] show ?thesis by simp
qed

end
