(* ===== verification/Session_Scope.thy ===== *)
theory Session_Scope
  imports Kernel_Prelude
begin

text \<open>
  The contract of a component that keeps one bucket of state per session: \<open>on_session_open\<close>
  creates an initial bucket unless there is one, \<open>on_session_close\<close> drops it, and neither
  touches another session. The grant cache and the bash classifier both promise it, and the
  authorizer relies on it when it forwards the session lifecycle to both.
\<close>

locale session_scoped =
  fixes on_open :: "string \<Rightarrow> 's \<Rightarrow> 's"
    and on_close :: "string \<Rightarrow> 's \<Rightarrow> 's"
    and bucket :: "'s \<Rightarrow> string \<Rightarrow> 'b option"
    and fresh :: 'b
  assumes bucket_open:
      "bucket (on_open sid s) sid' =
         (if sid' = sid then Some (case bucket s sid of None \<Rightarrow> fresh | Some b \<Rightarrow> b) else bucket s sid')"
    and bucket_close:
      "bucket (on_close sid s) sid' = (if sid' = sid then None else bucket s sid')"
begin

lemma open_idempotent: "bucket (on_open sid (on_open sid s)) = bucket (on_open sid s)"
  by (rule ext) (simp add: bucket_open)

lemma reopen_fresh: "bucket (on_open sid (on_close sid s)) sid = Some fresh"
  by (simp add: bucket_open bucket_close)

lemma open_keeps: "bucket s sid = Some b \<Longrightarrow> bucket (on_open sid s) = bucket s"
  by (rule ext) (simp add: bucket_open)

lemma lifecycle_frame:
  "sid' \<noteq> sid \<Longrightarrow> bucket (on_open sid s) sid' = bucket s sid'"
  "sid' \<noteq> sid \<Longrightarrow> bucket (on_close sid s) sid' = bucket s sid'"
  by (simp_all add: bucket_open bucket_close)

end

end
