(* ===== verification/Grant_Cache.thy ===== *)
theory Grant_Cache
  imports Session_Scope Tool_Contract
begin

text \<open>
  The session grant cache (\<open>tool_authz/session_grant_cache.py\<close>): per-session \<open>allow_always\<close>
  grants keyed by the signature of a (tool, input) pair. The serializer \<open>orjson.dumps\<close> is a
  third-party function and SHA-256 a primitive of the standard library; both are arguments of
  the definitions, gathered in \<open>signature_env\<close>. Every operation runs under one lock, so each
  is one atomic step.
\<close>

record signature_env =
  orjson_dumps :: "tool_input \<Rightarrow> string py"
  repr_sorted_items :: "tool_input \<Rightarrow> string"
  sha256_hexdigest :: "string \<Rightarrow> string"

record grant_entry =
  ge_signature :: string
  ge_granted_at :: int

type_synonym grant_cache = "(string, (string, grant_entry) dict) dict"

text \<open>\<open>str.encode("utf-8")\<close> for code points below 256.\<close>

definition utf8_encode :: "string \<Rightarrow> string" where
  "utf8_encode s =
     concat (map (\<lambda>c. let n = (of_char c :: nat)
                      in if n < 128 then [c]
                         else [char_of (192 + n div 64), char_of (128 + n mod 64)]) s)"

definition compute_signature :: "signature_env \<Rightarrow> tool \<Rightarrow> tool_input \<Rightarrow> string" where
  "compute_signature env t inp =
     (let canonical = (case orjson_dumps env inp of
                         Inr bytes \<Rightarrow> bytes
                       | Inl e \<Rightarrow> utf8_encode (repr_sorted_items env inp));
          payload = utf8_encode (t_name t) @ '':'' @ canonical
      in sha256_hexdigest env payload)"

definition new_grant_cache :: grant_cache where
  "new_grant_cache = []"

definition cache_on_session_open :: "string \<Rightarrow> grant_cache \<Rightarrow> grant_cache" where
  "cache_on_session_open sid c = dict_setdefault sid [] c"

definition cache_on_session_close :: "string \<Rightarrow> grant_cache \<Rightarrow> grant_cache" where
  "cache_on_session_close sid c = dict_pop sid c"

definition cache_grant ::
    "signature_env \<Rightarrow> int \<Rightarrow> string \<Rightarrow> tool \<Rightarrow> tool_input \<Rightarrow> grant_cache \<Rightarrow> grant_entry \<times> grant_cache" where
  "cache_grant env now sid t inp c =
     (let sig = compute_signature env t inp;
          entry = \<lparr>ge_signature = sig, ge_granted_at = now\<rparr>;
          c' = dict_setdefault sid [] c;
          bucket = the (map_of c' sid)
      in (entry, dict_set sid (dict_set sig entry bucket) c'))"

definition cache_check ::
    "signature_env \<Rightarrow> string \<Rightarrow> tool \<Rightarrow> tool_input \<Rightarrow> grant_cache \<Rightarrow> grant_entry option" where
  "cache_check env sid t inp c =
     (let sig = compute_signature env t inp
      in case map_of c sid of None \<Rightarrow> None | Some bucket \<Rightarrow> map_of bucket sig)"

definition cache_clear :: "grant_cache \<Rightarrow> grant_cache" where
  "cache_clear c = []"

interpretation grants: session_scoped cache_on_session_open cache_on_session_close map_of "[]"
  by unfold_locales
    (auto simp: cache_on_session_open_def cache_on_session_close_def split: option.splits)

section \<open>The cache as a store of grants\<close>

text \<open>
  The laws the authorizer uses: what a check returns after a grant, after the lifecycle calls
  and in a cleared cache, for every session and call.
\<close>

locale grant_store =
  fixes grant :: "int \<Rightarrow> string \<Rightarrow> tool \<Rightarrow> tool_input \<Rightarrow> 's \<Rightarrow> grant_entry \<times> 's"
    and check :: "string \<Rightarrow> tool \<Rightarrow> tool_input \<Rightarrow> 's \<Rightarrow> grant_entry option"
    and close :: "string \<Rightarrow> 's \<Rightarrow> 's"
    and signature :: "tool \<Rightarrow> tool_input \<Rightarrow> string"
  assumes check_grant:
      "check sid' t' inp' (snd (grant now sid t inp s)) =
         (if sid' = sid \<and> signature t' inp' = signature t inp
          then Some (fst (grant now sid t inp s)) else check sid' t' inp' s)"
    and check_close:
      "check sid' t' inp' (close sid s) = (if sid' = sid then None else check sid' t' inp' s)"
    and grant_entry_signature:
      "ge_signature (fst (grant now sid t inp s)) = signature t inp"
begin

lemma granted_again: "check sid t inp (snd (grant now sid t inp s)) \<noteq> None"
  by (simp add: check_grant)

lemma other_session_unaffected:
  "sid' \<noteq> sid \<Longrightarrow> check sid' t' inp' (snd (grant now sid t inp s)) = check sid' t' inp' s"
  by (simp add: check_grant)

lemma close_forgets: "check sid t inp (close sid s) = None"
  by (simp add: check_close)

lemma grant_then_close: "check sid t' inp' (close sid (snd (grant now sid t inp s))) = None"
  by (simp add: check_close)

end

interpretation gs: grant_store "cache_grant env" "cache_check env" cache_on_session_close
    "compute_signature env" for env
  by unfold_locales
    (auto simp: cache_grant_def cache_check_def cache_on_session_close_def Let_def split: option.splits)

end
