(* ===== verification/Bash_Classifier.thy ===== *)
theory Bash_Classifier
  imports Session_Scope Messages
begin

text \<open>
  The bash classifier (\<open>tool_authz/bash_classifier.py\<close>): per-session denial counters, the
  short-circuits of \<open>classify\<close>, the reading of the model's stream and of its verdict. The
  model's stream and the JSON parser \<open>orjson.loads\<close> are arguments (\<open>judge_env\<close>): the stream
  yields chunks and may end in an exception, and creating it may raise. Shown here: the
  counters stay within the denial budget in every reachable state, an exhausted budget is
  permanent until the session closes or \<open>reset_consecutive\<close> is called, and the verdict of every
  branch.
\<close>

definition MAX_CONSECUTIVE :: nat where
  "MAX_CONSECUTIVE = 3"

definition MAX_TOTAL :: nat where
  "MAX_TOTAL = 20"

datatype verdict = Safe | Unsafe | Unknown | BudgetExceeded

record denial_counters =
  consecutive :: nat
  total :: nat

definition new_counters :: denial_counters where
  "new_counters = \<lparr>consecutive = 0, total = 0\<rparr>"

definition register_unsafe :: "denial_counters \<Rightarrow> denial_counters" where
  "register_unsafe c = c\<lparr>consecutive := consecutive c + 1, total := total c + 1\<rparr>"

definition register_safe :: "denial_counters \<Rightarrow> denial_counters" where
  "register_safe c = c\<lparr>consecutive := 0\<rparr>"

definition budget_exceeded :: "denial_counters \<Rightarrow> bool" where
  "budget_exceeded c \<longleftrightarrow> consecutive c \<ge> MAX_CONSECUTIVE \<or> total c \<ge> MAX_TOTAL"

record bash_classifier =
  enabled :: bool
  fail_closed :: bool
  counters :: "(string, denial_counters) dict"

definition new_bash_classifier :: bash_classifier where
  "new_bash_classifier = \<lparr>enabled = True, fail_closed = True, counters = []\<rparr>"

definition classifier_on_session_open :: "string \<Rightarrow> bash_classifier \<Rightarrow> bash_classifier" where
  "classifier_on_session_open sid b = b\<lparr>counters := dict_setdefault sid new_counters (counters b)\<rparr>"

definition classifier_on_session_close :: "string \<Rightarrow> bash_classifier \<Rightarrow> bash_classifier" where
  "classifier_on_session_close sid b = b\<lparr>counters := dict_pop sid (counters b)\<rparr>"

definition reset_consecutive :: "string \<Rightarrow> bash_classifier \<Rightarrow> bash_classifier" where
  "reset_consecutive sid b =
     (case map_of (counters b) sid of
        None \<Rightarrow> b
      | Some c \<Rightarrow> b\<lparr>counters := dict_set sid (register_safe c) (counters b)\<rparr>)"

section \<open>The judge's answer\<close>

text \<open>An asynchronous stream: the chunks it yields and, if it ends in one, the exception.\<close>

type_synonym chunk_stream = "llm_chunk list \<times> py_exn option"

text \<open>\<open>ModelRef\<close> of \<open>llm/config.py\<close>: what \<open>LLMManager.model_for\<close> returns for a role.\<close>

record model_ref =
  mr_provider :: string
  mr_model :: string

record judge_env =
  judge_stream :: "model_ref \<Rightarrow> string \<Rightarrow> string \<Rightarrow> chunk_stream py"
  orjson_loads :: "string \<Rightarrow> json py"

text \<open>The \<open>async for\<close> loop of \<open>_stream_to_text\<close>: an error chunk raises at once.\<close>

fun collect_text :: "llm_chunk list \<Rightarrow> string py" where
  "collect_text [] = Inr []"
| "collect_text (TextChunk s # cs) = ebind (collect_text cs) (\<lambda>rest. Inr (s @ rest))"
| "collect_text (StreamError m c # cs) = Inl (PyExn (''LLMJudge stream error: '' @ m))"
| "collect_text (_ # cs) = collect_text cs"

definition stream_to_text :: "judge_env \<Rightarrow> model_ref \<Rightarrow> string \<Rightarrow> string \<Rightarrow> string py" where
  "stream_to_text env model command dir =
     ebind (judge_stream env model command dir) (\<lambda>(chunks, failure).
     ebind (collect_text chunks) (\<lambda>text.
       case failure of None \<Rightarrow> Inr (py_strip text) | Some e \<Rightarrow> Inl e))"

definition fence :: string where
  "fence = ''```''"

text \<open>\<open>s.split("\n", 1)[-1]\<close>: what follows the first newline, or all of \<open>s\<close>.\<close>

definition after_first_newline :: "string \<Rightarrow> string" where
  "after_first_newline s =
     (if CHR ''\<newline>'' \<in> set s then drop (Suc (py_index s (CHR ''\<newline>''))) s else s)"

definition strip_fence :: "string \<Rightarrow> string" where
  "strip_fence text =
     (let cleaned = py_strip text
      in if py_startswith cleaned fence
         then (let cleaned' = after_first_newline cleaned
               in if py_endswith cleaned' fence
                  then py_rstrip (take (length cleaned' - length fence) cleaned')
                  else cleaned')
         else cleaned)"

text \<open>
  \<open>_parse_verdict\<close>. A failed \<open>orjson.loads\<close> is caught; the call \<open>parsed.get\<close> is outside the
  \<open>try\<close>, so on a JSON value that is not an object it raises \<open>AttributeError\<close>.
\<close>

definition parse_verdict :: "judge_env \<Rightarrow> string \<Rightarrow> verdict py" where
  "parse_verdict env text =
     (case orjson_loads env (strip_fence text) of
        Inl e \<Rightarrow> Inr Unknown
      | Inr (JDict d) \<Rightarrow>
          (if map_of d ''verdict'' = Some (JStr ''safe'') then Inr Safe
           else if map_of d ''verdict'' = Some (JStr ''unsafe'') then Inr Unsafe
           else Inr Unknown)
      | Inr v \<Rightarrow> Inl (PyExn ''AttributeError''))"

section \<open>classify\<close>

text \<open>
  The counters object is created (\<open>setdefault\<close>) before anything else and mutated in place;
  what was written stays written when the call raises.
\<close>

definition put_counters :: "string \<Rightarrow> denial_counters \<Rightarrow> bash_classifier \<Rightarrow> bash_classifier" where
  "put_counters sid c b = b\<lparr>counters := dict_set sid c (counters b)\<rparr>"

definition classify ::
    "judge_env \<Rightarrow> string \<Rightarrow> string \<Rightarrow> string \<Rightarrow> model_ref option \<Rightarrow> bash_classifier
       \<Rightarrow> verdict py \<times> bash_classifier" where
  "classify env sid command dir judge_model b0 =
     (let b = b0\<lparr>counters := dict_setdefault sid new_counters (counters b0)\<rparr>;
          c = the (map_of (counters b) sid)
      in if budget_exceeded c then (Inr BudgetExceeded, b)
         else if \<not> enabled b then (Inr Unknown, b)
         else (case judge_model of
                 None \<Rightarrow> (Inr Unknown, b)
               | Some model \<Rightarrow>
                   (case stream_to_text env model command dir of
                      Inl e \<Rightarrow>
                        if fail_closed b then (Inr Unsafe, put_counters sid (register_unsafe c) b)
                        else (Inr Unknown, b)
                    | Inr raw \<Rightarrow>
                        (case parse_verdict env raw of
                           Inl e \<Rightarrow> (Inl e, b)
                         | Inr Unsafe \<Rightarrow> (Inr Unsafe, put_counters sid (register_unsafe c) b)
                         | Inr Safe \<Rightarrow> (Inr Safe, put_counters sid (register_safe c) b)
                         | Inr v \<Rightarrow> (Inr v, b)))))"

section \<open>Session scope\<close>

definition session_counters :: "bash_classifier \<Rightarrow> string \<Rightarrow> denial_counters option" where
  "session_counters b = map_of (counters b)"

interpretation denials: session_scoped classifier_on_session_open classifier_on_session_close
    session_counters new_counters
  by unfold_locales
    (auto simp: classifier_on_session_open_def classifier_on_session_close_def session_counters_def
      split: option.splits)

section \<open>The denial budget\<close>

definition within_budget :: "denial_counters \<Rightarrow> bool" where
  "within_budget c \<longleftrightarrow>
     consecutive c \<le> MAX_CONSECUTIVE \<and> total c \<le> MAX_TOTAL \<and> consecutive c \<le> total c"

definition classifier_inv :: "bash_classifier \<Rightarrow> bool" where
  "classifier_inv b \<longleftrightarrow> (\<forall>sid c. session_counters b sid = Some c \<longrightarrow> within_budget c)"

lemmas counter_defs = within_budget_def budget_exceeded_def register_unsafe_def register_safe_def
  new_counters_def MAX_CONSECUTIVE_def MAX_TOTAL_def

lemma within_budget_new [simp]: "within_budget new_counters"
  by (simp add: counter_defs)

lemma within_budget_unsafe: "within_budget c \<Longrightarrow> \<not> budget_exceeded c \<Longrightarrow> within_budget (register_unsafe c)"
  by (auto simp: counter_defs)

lemma within_budget_safe: "within_budget c \<Longrightarrow> within_budget (register_safe c)"
  by (auto simp: counter_defs)

text \<open>The counters \<open>classify\<close> works on, and all a call can do to them.\<close>

definition counters_of :: "bash_classifier \<Rightarrow> string \<Rightarrow> denial_counters" where
  "counters_of b sid = (case session_counters b sid of None \<Rightarrow> new_counters | Some c \<Rightarrow> c)"

lemma classify_counters:
  "\<exists>c'. session_counters (snd (classify env sid command dir model b)) = (session_counters b)(sid \<mapsto> c')
     \<and> (c' = counters_of b sid
        \<or> \<not> budget_exceeded (counters_of b sid)
            \<and> (c' = register_unsafe (counters_of b sid) \<or> c' = register_safe (counters_of b sid)))"
proof -
  let ?b = "b\<lparr>counters := dict_setdefault sid new_counters (counters b)\<rparr>"
  have the: "the (map_of (counters ?b) sid) = counters_of b sid"
    by (auto simp: counters_of_def session_counters_def split: option.splits)
  have m: "session_counters ?b = (session_counters b)(sid \<mapsto> counters_of b sid)"
    by (auto simp: counters_of_def session_counters_def fun_eq_iff split: option.splits)
  have put: "session_counters (put_counters sid c ?b) = (session_counters b)(sid \<mapsto> c)" for c
    by (auto simp: put_counters_def session_counters_def fun_eq_iff)
  show ?thesis
    unfolding classify_def Let_def the
    by (auto simp: m put split: option.split sum.split verdict.split)
qed

lemma classifier_inv_classify:
  assumes "classifier_inv b"
  shows "classifier_inv (snd (classify env sid command dir model b))"
proof -
  have ok: "within_budget (counters_of b sid)"
    using assms by (auto simp: classifier_inv_def counters_of_def split: option.splits)
  from classify_counters [of env sid command dir model b] obtain c' where
    upd: "session_counters (snd (classify env sid command dir model b)) = (session_counters b)(sid \<mapsto> c')"
    and c': "c' = counters_of b sid \<or> \<not> budget_exceeded (counters_of b sid)
            \<and> (c' = register_unsafe (counters_of b sid) \<or> c' = register_safe (counters_of b sid))"
    by blast
  have "within_budget c'"
    using c' ok within_budget_unsafe within_budget_safe by auto
  with assms upd show ?thesis by (auto simp: classifier_inv_def)
qed

text \<open>Every way the kernel can drive a classifier.\<close>

inductive classifier_reachable :: "bash_classifier \<Rightarrow> bool" where
  cr_new: "classifier_reachable (new_bash_classifier\<lparr>enabled := e, fail_closed := f\<rparr>)"
| cr_open: "classifier_reachable b \<Longrightarrow> classifier_reachable (classifier_on_session_open sid b)"
| cr_close: "classifier_reachable b \<Longrightarrow> classifier_reachable (classifier_on_session_close sid b)"
| cr_reset: "classifier_reachable b \<Longrightarrow> classifier_reachable (reset_consecutive sid b)"
| cr_classify: "classifier_reachable b \<Longrightarrow>
    classifier_reachable (snd (classify env sid command dir model b))"

lemma classifier_reachable_inv: "classifier_reachable b \<Longrightarrow> classifier_inv b"
proof (induction rule: classifier_reachable.induct)
  case (cr_new e f)
  show ?case by (simp add: classifier_inv_def session_counters_def new_bash_classifier_def)
next
  case (cr_open b sid)
  then show ?case by (auto simp: classifier_inv_def denials.bucket_open split: option.splits if_splits)
next
  case (cr_close b sid)
  then show ?case by (auto simp: classifier_inv_def denials.bucket_close split: if_splits)
next
  case (cr_reset b sid)
  then show ?case
    by (auto simp: classifier_inv_def reset_consecutive_def session_counters_def within_budget_safe
        split: option.splits)
next
  case (cr_classify b env sid command dir model)
  then show ?case by (blast intro: classifier_inv_classify)
qed

lemma classify_budget_exceeded:
  assumes "session_counters b sid = Some c" "budget_exceeded c"
  shows "classify env sid command dir model b = (Inr BudgetExceeded, b)"
  using assms by (simp add: classify_def session_counters_def dict_setdefault_def)

section \<open>Properties\<close>

text \<open>
  The denial budget is a hard bound: in every state a classifier can reach, each session's
  consecutive denials are at most 3, its total denials at most 20, and consecutive never
  exceeds total.
\<close>

theorem denial_budget_bound:
  assumes "classifier_reachable b" "session_counters b sid = Some c"
  shows "consecutive c \<le> 3 \<and> total c \<le> 20 \<and> consecutive c \<le> total c"
  using classifier_reachable_inv [OF assms(1)] assms(2)
  by (auto simp: classifier_inv_def within_budget_def MAX_CONSECUTIVE_def MAX_TOTAL_def)

theorem denial_budget_bound_witness:
  "consecutive new_counters \<le> 3 \<and> total new_counters \<le> 20 \<and> consecutive new_counters \<le> total new_counters"
proof -
  have "classifier_reachable (classifier_on_session_open ''s''
          (new_bash_classifier\<lparr>enabled := True, fail_closed := True\<rparr>))"
    by (intro classifier_reachable.intros)
  moreover have "session_counters (classifier_on_session_open ''s''
          (new_bash_classifier\<lparr>enabled := True, fail_closed := True\<rparr>)) ''s'' = Some new_counters"
    by code_simp
  ultimately show ?thesis by (rule denial_budget_bound)
qed

text \<open>
  Once a session's budget is exhausted, any number of further \<open>classify\<close> calls for it
  returns \<open>budget_exceeded\<close> every time and leaves the classifier as it was: no model call, no
  reset. Only \<open>reset_consecutive\<close> or closing the session can end that state.
\<close>

theorem budget_exhausted_is_permanent:
  assumes "session_counters b sid = Some c" "budget_exceeded c"
  shows "fold (\<lambda>(env, command, dir, model) (vs, b).
                 case classify env sid command dir model b of (v, b') \<Rightarrow> (vs @ [v], b'))
           calls ([], b) = (replicate (length calls) (Inr BudgetExceeded), b)"
proof -
  have "fold (\<lambda>(env, command, dir, model) (vs, b).
                 case classify env sid command dir model b of (v, b') \<Rightarrow> (vs @ [v], b'))
           calls (replicate n (Inr BudgetExceeded), b) =
          (replicate (n + length calls) (Inr BudgetExceeded), b)" for n
  proof (induction calls arbitrary: n)
    case (Cons call calls)
    obtain env command dir model where call: "call = (env, command, dir, model)" by (cases call)
    show ?case
      using Cons.IH [of "Suc n"]
      by (simp add: call classify_budget_exceeded [OF assms] replicate_append_same)
  qed simp
  from this [of 0] show ?thesis by simp
qed

definition exhausted_demo :: bash_classifier where
  "exhausted_demo = \<lparr>enabled = True, fail_closed = True,
                     counters = [(''s'', \<lparr>consecutive = 3, total = 3\<rparr>)]\<rparr>"

definition demo_judge :: judge_env where
  "demo_judge = \<lparr>judge_stream = (\<lambda>m c w. Inr ([TextChunk ''x''], None)),
                 orjson_loads = (\<lambda>s. Inr (JDict [(''verdict'', JStr ''safe'')]))\<rparr>"

definition demo_model :: model_ref where
  "demo_model = \<lparr>mr_provider = ''p'', mr_model = ''m''\<rparr>"

theorem budget_exhausted_is_permanent_witness:
  "fold (\<lambda>(env, command, dir, model) (vs, b).
           case classify env ''s'' command dir model b of (v, b') \<Rightarrow> (vs @ [v], b'))
     [(demo_judge, ''ls'', ''/'', Some demo_model)] ([], exhausted_demo)
   = ([Inr BudgetExceeded], exhausted_demo)"
proof -
  have "session_counters exhausted_demo ''s'' = Some \<lparr>consecutive = 3, total = 3\<rparr>"
    "budget_exceeded \<lparr>consecutive = 3, total = 3\<rparr>"
    by (simp_all add: session_counters_def exhausted_demo_def counter_defs)
  from budget_exhausted_is_permanent [OF this, of "[(demo_judge, ''ls'', ''/'', Some demo_model)]"]
  show ?thesis by simp
qed

end
