(* ===== verification/Py_Regex.thy ===== *)
theory Py_Regex
  imports Kernel_Prelude
begin

text \<open>
  The fragment of Python's \<open>re\<close> that the kernel's patterns use, as a backtracking matcher: a
  match returns the list of its successes in the order the engine tries them (greedy first),
  so the head of the list is the match \<open>re\<close> reports. A state is the character before the
  position, the text from it on, and the named groups captured so far.
\<close>

datatype regex =
    REps
  | RChar "char \<Rightarrow> bool"
  | RSeq regex regex
  | RAlt regex regex
  | RStar regex
  | RBound
  | RStart
  | REnd
  | RNegAhead regex
  | RGroup string regex

record match_state =
  prev :: "char option"
  rest :: string
  groups :: "(string \<times> string) list"

definition is_word_char :: "char \<Rightarrow> bool" where
  "is_word_char c =
     (let n = (of_char c :: nat)
      in (48 \<le> n \<and> n \<le> 57) \<or> (65 \<le> n \<and> n \<le> 90) \<or> n = 95 \<or> (97 \<le> n \<and> n \<le> 122)
         \<or> n \<in> {170, 178, 179, 181, 185, 186, 188, 189, 190}
         \<or> (192 \<le> n \<and> n \<noteq> 215 \<and> n \<noteq> 247))"

definition at_boundary :: "match_state \<Rightarrow> bool" where
  "at_boundary s =
     ((case prev s of None \<Rightarrow> False | Some c \<Rightarrow> is_word_char c)
      \<noteq> (case rest s of [] \<Rightarrow> False | c # _ \<Rightarrow> is_word_char c))"

text \<open>
  The guards on the length of the remaining text say that no match moves backwards, and that
  a further iteration of a star must consume; the first always holds (\<open>rmatch_shrinks\<close>).
\<close>

function (sequential) rmatch :: "regex \<Rightarrow> match_state \<Rightarrow> match_state list" where
  "rmatch REps s = [s]"
| "rmatch (RChar p) s =
     (case rest s of
        [] \<Rightarrow> []
      | c # cs \<Rightarrow> if p c then [s\<lparr>prev := Some c, rest := cs\<rparr>] else [])"
| "rmatch (RSeq a b) s =
     concat (map (\<lambda>s'. if length (rest s') \<le> length (rest s) then rmatch b s' else []) (rmatch a s))"
| "rmatch (RAlt a b) s = rmatch a s @ rmatch b s"
| "rmatch (RStar a) s =
     concat (map (\<lambda>s'. if length (rest s') < length (rest s) then rmatch (RStar a) s' else [])
               (rmatch a s)) @ [s]"
| "rmatch RBound s = (if at_boundary s then [s] else [])"
| "rmatch RStart s = (if prev s = None then [s] else [])"
| "rmatch REnd s = (if rest s \<in> {[], [CHR 0x0A]} then [s] else [])"
| "rmatch (RNegAhead a) s = (if rmatch a s = [] then [s] else [])"
| "rmatch (RGroup n a) s =
     map (\<lambda>s'. s'\<lparr>groups := (n, take (length (rest s) - length (rest s')) (rest s)) # groups s'\<rparr>)
       (rmatch a s)"
  by pat_completeness auto
termination
  by (relation "measures [\<lambda>(r, s). length (rest s), \<lambda>(r, s). size r]") auto

text \<open>\<open>pattern.search(text)\<close>: the first start position with a match, and its first match.\<close>

fun search_from :: "regex \<Rightarrow> char option \<Rightarrow> string \<Rightarrow> match_state option" where
  "search_from r p [] =
     (case rmatch r \<lparr>prev = p, rest = [], groups = []\<rparr> of [] \<Rightarrow> None | m # _ \<Rightarrow> Some m)"
| "search_from r p (c # cs) =
     (case rmatch r \<lparr>prev = p, rest = c # cs, groups = []\<rparr> of
        m # _ \<Rightarrow> Some m
      | [] \<Rightarrow> search_from r (Some c) cs)"

definition re_search :: "regex \<Rightarrow> string \<Rightarrow> match_state option" where
  "re_search r text = search_from r None text"

text \<open>
  The first match as the text before it and the state after it, and \<open>re.split\<close> for a pattern that
  does not match the empty string.
\<close>

fun find_from :: "regex \<Rightarrow> char option \<Rightarrow> string \<Rightarrow> (string \<times> match_state) option" where
  "find_from r p [] =
     (case rmatch r \<lparr>prev = p, rest = [], groups = []\<rparr> of [] \<Rightarrow> None | m # _ \<Rightarrow> Some ([], m))"
| "find_from r p (c # cs) =
     (case rmatch r \<lparr>prev = p, rest = c # cs, groups = []\<rparr> of
        m # _ \<Rightarrow> Some ([], m)
      | [] \<Rightarrow> map_option (\<lambda>(pre, m). (c # pre, m)) (find_from r (Some c) cs))"

function re_split_from :: "regex \<Rightarrow> char option \<Rightarrow> string \<Rightarrow> string list" where
  "re_split_from r p s =
     (case find_from r p s of
        None \<Rightarrow> [s]
      | Some (pre, m) \<Rightarrow>
          if length (rest m) < length s then pre # re_split_from r (prev m) (rest m) else [s])"
  by pat_completeness auto
termination
  by (relation "measure (\<lambda>(r, p, s). length s)") auto

declare re_split_from.simps [simp del]

definition re_split :: "regex \<Rightarrow> string \<Rightarrow> string list" where
  "re_split r s = re_split_from r None s"

section \<open>Derived forms\<close>

definition rplus :: "regex \<Rightarrow> regex" where
  "rplus a = RSeq a (RStar a)"

definition ropt :: "regex \<Rightarrow> regex" where
  "ropt a = RAlt a REps"

fun rseq :: "regex list \<Rightarrow> regex" where
  "rseq [] = REps"
| "rseq [a] = a"
| "rseq (a # b # as) = RSeq a (rseq (b # as))"

fun ralt :: "regex list \<Rightarrow> regex" where
  "ralt [] = RChar (\<lambda>_. False)"
| "ralt [a] = a"
| "ralt (a # b # as) = RAlt a (ralt (b # as))"

text \<open>A literal, exact or under \<open>re.IGNORECASE\<close>; the classes \<open>\s\<close>, \<open>\d\<close>, \<open>.\<close>.\<close>

definition rlit :: "string \<Rightarrow> regex" where
  "rlit s = rseq (map (\<lambda>c. RChar (\<lambda>x. x = c)) s)"

definition rlit_ci :: "string \<Rightarrow> regex" where
  "rlit_ci s = rseq (map (\<lambda>c. RChar (\<lambda>x. py_lower_char x = py_lower_char c)) s)"

definition rspace :: regex where
  "rspace = RChar py_isspace"

definition rdigit :: regex where
  "rdigit = RChar is_digit_char"

definition rany :: regex where
  "rany = RChar (\<lambda>c. c \<noteq> CHR ''\<newline>'')"

section \<open>Lemmas\<close>

lemma is_word_char_lower: "is_word_char (py_lower_char c) \<Longrightarrow> is_word_char c"
  by (cases "65 \<le> (of_char c :: nat) \<and> of_char c \<le> (90 :: nat)")
    (auto simp: py_lower_char_def is_word_char_def Let_def)

lemma py_isspace_lower: "py_isspace c \<Longrightarrow> py_lower_char c = c"
  by (auto simp: py_lower_char_def py_isspace_def Let_def)

declare rmatch.simps(5) [simp del]

text \<open>A match leaves a suffix of the text: it never moves backwards.\<close>

lemma rmatch_suffix: "s' \<in> set (rmatch r s) \<Longrightarrow> suffix (rest s') (rest s)"
proof (induction r s arbitrary: s' rule: rmatch.induct)
  case (2 p s)
  then show ?case
    by (cases "rest s") (auto split: if_splits intro: suffix_ConsI)
next
  case (3 a b s)
  from 3(3) obtain s1 where s1: "s1 \<in> set (rmatch a s)" "length (rest s1) \<le> length (rest s)"
      "s' \<in> set (rmatch b s1)"
    by (auto split: if_splits)
  from 3(2) [OF s1] 3(1) [OF s1(1)] show ?case by (rule suffix_order.trans)
next
  case (5 a s)
  show ?case
  proof (cases "s' = s")
    case False
    with 5(3) obtain s1 where s1: "s1 \<in> set (rmatch a s)" "length (rest s1) < length (rest s)"
        "s' \<in> set (rmatch (RStar a) s1)"
      by (auto simp: rmatch.simps(5) [of a s] split: if_splits)
    from 5(2) [OF s1] 5(1) [OF s1(1)] show ?thesis by (rule suffix_order.trans)
  qed simp
qed (auto split: if_splits)

lemma rmatch_shrinks: "s' \<in> set (rmatch r s) \<Longrightarrow> length (rest s') \<le> length (rest s)"
  by (meson rmatch_suffix suffix_length_le)

lemma rmatch_RSeq [simp]: "rmatch (RSeq a b) s = concat (map (rmatch b) (rmatch a s))"
  by (auto simp: rmatch_shrinks intro!: arg_cong [of _ _ concat])

declare rmatch.simps(3) [simp del]

text \<open>A literal matches exactly where the text starts with it.\<close>

lemma rmatch_rseq_Cons [simp]: "rmatch (rseq (a # as)) s = concat (map (rmatch (rseq as)) (rmatch a s))"
proof (cases as)
  case Nil
  have "concat (map (rmatch REps) xs) = xs" for xs by (induction xs) auto
  with Nil show ?thesis by simp
qed simp

lemma rmatch_rlit_rest:
  "rest s = p @ t \<Longrightarrow> p \<noteq> [] \<Longrightarrow> rmatch (rlit p) s = [s\<lparr>prev := Some (last p), rest := t\<rparr>]"
proof (induction p arbitrary: s)
  case (Cons c p)
  show ?case
  proof (cases "p = []")
    case True
    with Cons.prems show ?thesis by (simp add: rlit_def)
  next
    case False
    have "rmatch (rlit (c # p)) s = rmatch (rlit p) (s\<lparr>prev := Some c, rest := p @ t\<rparr>)"
      using Cons.prems by (simp add: rlit_def)
    also have "\<dots> = [s\<lparr>prev := Some (last p), rest := t\<rparr>]"
      using Cons.IH [of "s\<lparr>prev := Some c, rest := p @ t\<rparr>"] False by simp
    finally show ?thesis using False by simp
  qed
qed simp

lemma rmatch_rlit_ci_rest:
  "rest s = q @ t \<Longrightarrow> py_lower q = py_lower p \<Longrightarrow> p \<noteq> [] \<Longrightarrow>
     rmatch (rlit_ci p) s = [s\<lparr>prev := Some (last q), rest := t\<rparr>]"
proof (induction p arbitrary: s q)
  case (Cons c p)
  then obtain d q' where q: "q = d # q'" "py_lower_char d = py_lower_char c" "py_lower q' = py_lower p"
    by (cases q) (auto simp: py_lower_def)
  show ?case
  proof (cases "p = []")
    case True
    with Cons.prems q show ?thesis by (simp add: rlit_ci_def py_lower_def)
  next
    case False
    then have q': "q' \<noteq> []" using q by (auto simp: py_lower_def)
    have "rmatch (rlit_ci (c # p)) s = rmatch (rlit_ci p) (s\<lparr>prev := Some d, rest := q' @ t\<rparr>)"
      using Cons.prems q by (simp add: rlit_ci_def)
    also have "\<dots> = [s\<lparr>prev := Some (last q'), rest := t\<rparr>]"
      using Cons.IH [of "s\<lparr>prev := Some d, rest := q' @ t\<rparr>" q'] q False by simp
    finally show ?thesis using q q' by simp
  qed
qed simp

text \<open>A star over a class is greedy: its first success takes the whole run.\<close>

lemma rmatch_star_greedy:
  "rest s = run @ t \<Longrightarrow> list_all p run \<Longrightarrow> t = [] \<or> \<not> p (hd t) \<Longrightarrow>
     \<exists>ms. rmatch (RStar (RChar p)) s =
            s\<lparr>prev := (if run = [] then prev s else Some (last run)), rest := t\<rparr> # ms"
proof (induction run arbitrary: s)
  case Nil
  then have "rmatch (RChar p) s = []" by (cases t) auto
  with Nil show ?case by (simp add: rmatch.simps(5) [of _ s])
next
  case (Cons c run)
  let ?s = "s\<lparr>prev := Some c, rest := run @ t\<rparr>"
  from Cons.IH [of ?s] Cons.prems obtain ms where
    "rmatch (RStar (RChar p)) ?s =
       ?s\<lparr>prev := (if run = [] then prev ?s else Some (last run)), rest := t\<rparr> # ms" by auto
  with Cons.prems show ?case by (auto simp: rmatch.simps(5) [of _ s])
qed

lemma rmatch_plus_greedy:
  assumes "rest s = run @ t" "run \<noteq> []" "list_all p run" "t = [] \<or> \<not> p (hd t)"
  shows "\<exists>ms. rmatch (rplus (RChar p)) s = s\<lparr>prev := Some (last run), rest := t\<rparr> # ms"
proof -
  from assms(2) obtain c cs where run: "run = c # cs" by (cases run) auto
  with assms rmatch_star_greedy [of "s\<lparr>prev := Some c, rest := cs @ t\<rparr>" cs t p]
  show ?thesis by (auto simp: rplus_def)
qed

text \<open>The first success of a sequence, from the first successes of its parts.\<close>

lemma rmatch_rseq_first:
  assumes "\<exists>xs. rmatch a s = x # xs" "\<exists>ys. rmatch (rseq as) x = y # ys"
  shows "\<exists>zs. rmatch (rseq (a # as)) s = y # zs"
  using assms by auto

lemma rmatch_bounded:
  assumes "at_boundary s" "s' \<in> set (rmatch r s)" "at_boundary s'"
  shows "s' \<in> set (rmatch (rseq [RBound, r, RBound]) s)"
  using assms by force

lemma rmatch_ralt_first: "s' \<in> set (rmatch a s) \<Longrightarrow> s' \<in> set (rmatch (ralt [a, b]) s)"
  by simp

text \<open>A search succeeds as soon as some split of the text gives a match.\<close>

lemma search_from_hit:
  "rmatch r \<lparr>prev = (if pre = [] then p else Some (last pre)), rest = post, groups = []\<rparr> \<noteq> [] \<Longrightarrow>
     search_from r p (pre @ post) \<noteq> None"
proof (induction pre arbitrary: p)
  case Nil
  then show ?case by (cases post) (auto split: list.splits)
next
  case (Cons c pre)
  have "search_from r (Some c) (pre @ post) \<noteq> None"
    using Cons.prems by (intro Cons.IH) (auto split: if_splits)
  then show ?case by (auto split: list.splits)
qed

lemma re_search_hit:
  "rmatch r \<lparr>prev = (if pre = [] then None else Some (last pre)), rest = post, groups = []\<rparr> \<noteq> [] \<Longrightarrow>
     re_search r (pre @ post) \<noteq> None"
  unfolding re_search_def by (rule search_from_hit)

end
