(* ===== verification/Runtime_Guard.thy ===== *)
theory Runtime_Guard
  imports Py_Regex Tool_Contract
begin

text \<open>
  The hard guard against agent-initiated runtime kills (\<open>tool_authz/runtime_guard.py\<close>): its
  patterns as \<^typ>\<open>regex\<close> terms, the protected process ids, and the decision. The process ids,
  the environment variable and the runtime file are arguments (\<open>process_env\<close>). Shown here:
  lifecycle commands and \<open>kill\<close> of a protected process are refused, whatever surrounds them,
  and where the pattern stops: only the first process id of a \<open>kill\<close> is read.
\<close>

definition RUNTIME_DENY_MESSAGE :: string where
  "RUNTIME_DENY_MESSAGE =
     ''DeepCLI runtime lifecycle is protected. Use RestartSelf to restart this agent, '' @
     ''or /kernel restart for a full user-controlled runtime restart. Agents cannot '' @
     ''kill Supervisor or Kernel processes directly.''"

section \<open>Patterns\<close>

definition pid_number :: regex where
  "pid_number = RGroup ''pid'' (RSeq (ropt (rlit ''-'')) (rplus rdigit))"

text \<open>\<open>(^|[;&|]\s*)kill\s+(-[A-Z0-9]+\s+)?(?P<pid>-?\d+)\b\<close>, ignoring case\<close>

definition kill_pid_pattern :: regex where
  "kill_pid_pattern =
     rseq [RAlt RStart (RSeq (RChar (\<lambda>c. c \<in> set '';&|'')) (RStar rspace)),
           rlit_ci ''kill'', rplus rspace,
           ropt (rseq [rlit ''-'',
                       rplus (RChar (\<lambda>c. is_digit_char c \<or> py_lower_char c \<in> set ''abcdefghijklmnopqrstuvwxyz'')),
                       rplus rspace]),
           pid_number, RBound]"

definition runtime_module :: regex where
  "runtime_module =
     RSeq (rlit ''kernel.'')
       (ralt [rlit ''supervisor'', rlit ''agent_hub'', rlit ''access_agent'', rlit ''agent_runtime''])"

definition pkill_pattern :: regex where
  "pkill_pattern = rseq [RBound, rlit ''pkill'', RBound, RStar rany, RBound, runtime_module, RBound]"

definition killall_pattern :: regex where
  "killall_pattern =
     rseq [RBound, rlit ''killall'', RBound, RStar rany, RBound,
           ralt [rlit ''kernel.supervisor'', rlit ''python''], RBound]"

definition taskkill_pattern :: regex where
  "taskkill_pattern = rseq [RBound, rlit_ci ''taskkill'', RBound]"

definition stop_process_pattern :: regex where
  "stop_process_pattern = rseq [RBound, rlit_ci ''Stop-Process'', RBound]"

definition KILL_PATTERNS :: "regex list" where
  "KILL_PATTERNS =
     [kill_pid_pattern, pkill_pattern, killall_pattern, taskkill_pattern, stop_process_pattern]"

definition RUNTIME_COMMAND_RE :: regex where
  "RUNTIME_COMMAND_RE =
     rseq [RBound,
           ralt [rseq [rlit_ci ''deepcli'', rplus rspace, ralt [rlit_ci ''stop'', rlit_ci ''restart'']],
                 rseq [rlit_ci ''scripts/run-kernel.'',
                       ralt [rlit_ci ''sh'', rlit_ci ''ps1'', rlit_ci ''bat''], RStar rany,
                       ralt [rlit_ci ''kill'', rlit_ci ''restart'']]],
           RBound]"

definition RUNTIME_PROCESS_RE :: regex where
  "RUNTIME_PROCESS_RE = rseq [RBound, runtime_module, RBound]"

section \<open>Protected process ids\<close>

text \<open>
  \<open>int(item)\<close> on a JSON value: numbers truncate, a string is an optionally signed run of digits
  with single underscores between them, anything else raises and is skipped.
\<close>

fun parse_digits :: "nat \<Rightarrow> string \<Rightarrow> nat option" where
  "parse_digits acc [] = Some acc"
| "parse_digits acc (c # cs) =
     (if is_digit_char c then parse_digits (10 * acc + py_digit_val c) cs
      else if c = CHR ''_'' then
        (case cs of
           [] \<Rightarrow> None
         | d # ds \<Rightarrow> if is_digit_char d then parse_digits acc (d # ds) else None)
      else None)"

definition py_int_of_unsigned :: "string \<Rightarrow> nat option" where
  "py_int_of_unsigned s =
     (case s of [] \<Rightarrow> None | c # cs \<Rightarrow> if is_digit_char c then parse_digits 0 s else None)"

definition py_int_of_str :: "string \<Rightarrow> int option" where
  "py_int_of_str s =
     (case py_strip s of
        [] \<Rightarrow> None
      | c # cs \<Rightarrow>
          if c = CHR ''-'' then map_option (\<lambda>n. - int n) (py_int_of_unsigned cs)
          else if c = CHR ''+'' then map_option int (py_int_of_unsigned cs)
          else map_option int (py_int_of_unsigned (c # cs)))"

fun py_int_of_json :: "json \<Rightarrow> int option" where
  "py_int_of_json (JInt i) = Some i"
| "py_int_of_json (JBool b) = Some (if b then 1 else 0)"
| "py_int_of_json (JFloat m e) =
     Some (if 0 \<le> e then m * 10 ^ nat e else sgn m * (\<bar>m\<bar> div 10 ^ nat (- e)))"
| "py_int_of_json (JStr s) = py_int_of_str s"
| "py_int_of_json v = None"

fun collect_pids :: "json \<Rightarrow> int list" where
  "collect_pids (JDict d) =
     concat (map (\<lambda>(k, v). if k = ''pid''
                           then (case py_int_of_json v of None \<Rightarrow> [] | Some p \<Rightarrow> [p])
                           else collect_pids v) d)"
| "collect_pids (JList vs) = concat (map collect_pids vs)"
| "collect_pids v = []"

record process_env =
  getpid :: int
  getppid :: int
  runtime_file :: string
  runtime_json :: "string \<Rightarrow> json py"

definition pids_from_runtime_file :: "process_env \<Rightarrow> string \<Rightarrow> int list" where
  "pids_from_runtime_file env path =
     (case runtime_json env path of Inl e \<Rightarrow> [] | Inr payload \<Rightarrow> collect_pids payload)"

definition protected_pids :: "process_env \<Rightarrow> int list" where
  "protected_pids env =
     filter (\<lambda>p. 0 < p)
       ([getpid env, getppid env] @
        (if runtime_file env \<noteq> [] then pids_from_runtime_file env (runtime_file env) else []))"

section \<open>The decision\<close>

definition is_shell_tool :: "tool \<Rightarrow> bool" where
  "is_shell_tool t \<longleftrightarrow>
     list_ex (matches_name t) [''Bash'', ''PowerShell'', ''Cmd'', ''ShellExec'', ''Monitor'']"

definition mentions_kill :: "string \<Rightarrow> bool" where
  "mentions_kill command \<longleftrightarrow>
     list_ex (\<lambda>w. py_contains w (py_lower command)) [''kill'', ''stop-process'', ''taskkill'']"

definition pid_matches :: "string \<Rightarrow> int list \<Rightarrow> bool" where
  "pid_matches pid_text pids =
     (case py_int_of_str pid_text of None \<Rightarrow> False | Some p \<Rightarrow> \<bar>p\<bar> \<in> set pids)"

text \<open>The loop over \<open>_KILL_PATTERNS\<close>: only the first match of each pattern is looked at.\<close>

fun kill_patterns_hit :: "int list \<Rightarrow> string \<Rightarrow> regex list \<Rightarrow> bool" where
  "kill_patterns_hit pids command [] = False"
| "kill_patterns_hit pids command (r # rs) =
     (case re_search r command of
        None \<Rightarrow> kill_patterns_hit pids command rs
      | Some m \<Rightarrow>
          (case map_of (groups m) ''pid'' of
             None \<Rightarrow> True
           | Some pid \<Rightarrow> if pid_matches pid pids then True else kill_patterns_hit pids command rs))"

definition runtime_kill_denial :: "process_env \<Rightarrow> tool \<Rightarrow> tool_input \<Rightarrow> string option" where
  "runtime_kill_denial env t inp =
     (if \<not> is_shell_tool t then None
      else (case map_of inp ''command'' of
              Some (JStr command) \<Rightarrow>
                if re_search RUNTIME_COMMAND_RE command \<noteq> None then Some RUNTIME_DENY_MESSAGE
                else if re_search RUNTIME_PROCESS_RE command \<noteq> None \<and> mentions_kill command
                then Some RUNTIME_DENY_MESSAGE
                else if kill_patterns_hit (protected_pids env) command KILL_PATTERNS
                then Some RUNTIME_DENY_MESSAGE
                else None
            | _ \<Rightarrow> None))"

section \<open>Lemmas\<close>

lemma parse_digits_run:
  "list_all is_digit_char s \<Longrightarrow> parse_digits acc s = Some (foldl (\<lambda>a c. 10 * a + py_digit_val c) acc s)"
  by (induction s arbitrary: acc) auto

lemma py_int_of_str_nat_text: "py_int_of_str (py_str_nat n) = Some (int n)"
proof -
  obtain c cs where s: "py_str_nat n = c # cs" by (cases "py_str_nat n") auto
  have digits: "list_all is_digit_char (c # cs)" using py_str_nat_digits [of n] by (simp add: s)
  then have "is_digit_char (last (c # cs))" by (auto simp: list_all_iff)
  with digits have strip: "py_strip (c # cs) = c # cs"
    by (intro py_strip_id) (auto dest: digit_not_space)
  have "c \<noteq> CHR ''-''" "c \<noteq> CHR ''+''" using digits by (auto simp: is_digit_char_def)
  moreover have "parse_digits 0 (c # cs) = Some n"
    using parse_digits_run [OF digits] py_int_of_str_nat [of n] by (simp add: py_int_of_def s)
  ultimately show ?thesis
    using digits by (simp add: py_int_of_str_def py_int_of_unsigned_def s strip)
qed

lemma digit_is_word: "is_digit_char c \<Longrightarrow> is_word_char c"
  by (simp add: is_digit_char_def is_word_char_def Let_def)

text \<open>The first match of the kill pattern reads the whole number.\<close>

lemma kill_pattern_reads_pid:
  assumes t: "t = [] \<or> \<not> is_word_char (hd t)"
    and digits: "list_all is_digit_char ds" "ds \<noteq> []"
  shows "\<exists>m. re_search kill_pid_pattern (''kill '' @ ds @ t) = Some m
             \<and> map_of (groups m) ''pid'' = Some ds"
proof -
  let ?s = "\<lambda>c r. \<lparr>prev = Some c, rest = r, groups = []\<rparr>"
  have t': "t = [] \<or> \<not> is_digit_char (hd t)" using t digit_is_word by blast
  obtain d ds' where ds: "ds = d # ds'" using digits(2) by (cases ds) auto
  then have d: "is_digit_char d" using digits(1) by simp
  have lastd: "is_word_char (last ds)" using digits by (auto simp: list_all_iff dest: digit_is_word)
  have nohyphen: "d \<noteq> CHR ''-''" using d by (auto simp: is_digit_char_def)
  have start: "\<exists>xs. rmatch (RAlt RStart (RSeq (RChar (\<lambda>c. c \<in> set '';&|'')) (RStar rspace)))
      \<lparr>prev = None, rest = ''kill '' @ ds @ t, groups = []\<rparr>
      = \<lparr>prev = None, rest = ''kill '' @ ds @ t, groups = []\<rparr> # xs" by simp
  have kill: "\<exists>xs. rmatch (rlit_ci ''kill'') \<lparr>prev = None, rest = ''kill '' @ ds @ t, groups = []\<rparr>
      = ?s (CHR ''l'') ('' '' @ ds @ t) # xs"
    using rmatch_rlit_ci_rest [of "\<lparr>prev = None, rest = ''kill '' @ ds @ t, groups = []\<rparr>" "''kill''"
        "'' '' @ ds @ t" "''kill''"] by simp
  have space: "\<exists>xs. rmatch (rplus rspace) (?s (CHR ''l'') ('' '' @ ds @ t)) = ?s (CHR '' '') (ds @ t) # xs"
    using rmatch_plus_greedy [of "?s (CHR ''l'') ('' '' @ ds @ t)" "'' ''" "ds @ t" py_isspace]
      digit_not_space [OF d] by (simp add: rspace_def ds py_isspace_def)
  have flag: "\<exists>xs. rmatch (ropt (rseq [rlit ''-'', a, b])) (?s (CHR '' '') (ds @ t))
      = ?s (CHR '' '') (ds @ t) # xs" for a b
    using nohyphen by (simp add: ropt_def rlit_def ds)
  have number: "\<exists>xs. rmatch (rplus rdigit) (?s (CHR '' '') (ds @ t)) = ?s (last ds) t # xs"
    using rmatch_plus_greedy [of "?s (CHR '' '') (ds @ t)" ds t is_digit_char] digits t'
    by (simp add: rdigit_def)
  have pid: "\<exists>xs. rmatch pid_number (?s (CHR '' '') (ds @ t))
      = (?s (last ds) t)\<lparr>groups := [(''pid'', ds)]\<rparr> # xs"
    using number nohyphen by (auto simp: pid_number_def ropt_def rlit_def ds)
  have bound: "\<exists>xs. rmatch (rseq [RBound]) ((?s (last ds) t)\<lparr>groups := [(''pid'', ds)]\<rparr>)
      = (?s (last ds) t)\<lparr>groups := [(''pid'', ds)]\<rparr> # xs"
    using lastd t by (auto simp: at_boundary_def split: list.splits)
  have "\<exists>xs. rmatch kill_pid_pattern \<lparr>prev = None, rest = ''kill '' @ ds @ t, groups = []\<rparr>
      = (?s (last ds) t)\<lparr>groups := [(''pid'', ds)]\<rparr> # xs"
    unfolding kill_pid_pattern_def
    by (rule rmatch_rseq_first [OF start rmatch_rseq_first [OF kill rmatch_rseq_first [OF space
        rmatch_rseq_first [OF flag rmatch_rseq_first [OF pid bound]]]]])
  then show ?thesis by (auto simp: re_search_def)
qed

lemma runtime_command_found:
  assumes pre: "pre = [] \<or> \<not> is_word_char (last pre)"
    and post: "post = [] \<or> \<not> is_word_char (hd post)"
    and w: "py_lower w = ''deepcli''" and v: "py_lower v = ''stop'' \<or> py_lower v = ''restart''"
    and gap: "gap \<noteq> []" "list_all py_isspace gap"
  shows "re_search RUNTIME_COMMAND_RE (pre @ w @ gap @ v @ post) \<noteq> None"
proof (rule re_search_hit)
  let ?p = "if pre = [] then None else Some (last pre)"
  let ?s0 = "\<lparr>prev = ?p, rest = w @ gap @ v @ post, groups = []\<rparr>"
  have low: "py_lower ''deepcli'' = ''deepcli''" "py_lower ''stop'' = ''stop''"
    "py_lower ''restart'' = ''restart''" by code_simp+
  have chars: "is_word_char (CHR ''d'')" "is_word_char (CHR ''p'')" "is_word_char (CHR ''t'')"
    "\<not> py_isspace (CHR ''s'')" "\<not> py_isspace (CHR ''r'')" by code_simp+
  obtain c w' where wc: "w = c # w'" using w by (cases w) (auto simp: py_lower_def)
  then have "py_lower_char c = CHR ''d''" using w by (simp add: py_lower_def)
  then have c: "is_word_char c" using chars is_word_char_lower by metis
  obtain v' e where ve: "v = v' @ [e]" using v by (cases v rule: rev_cases) (auto simp: py_lower_def)
  then have "last (py_lower v) = py_lower_char e" by (simp add: py_lower_def)
  then have "py_lower_char e = CHR ''p'' \<or> py_lower_char e = CHR ''t''" using v by auto
  then have e: "is_word_char e" using chars is_word_char_lower by metis
  from ve have "v \<noteq> []" by simp
  then obtain f v'' where vf: "v = f # v''" by (meson list.exhaust)
  then have "py_lower_char f = CHR ''s'' \<or> py_lower_char f = CHR ''r''"
    using v by (auto simp: py_lower_def)
  then have f: "\<not> py_isspace f" using chars py_isspace_lower by metis
  have b0: "at_boundary ?s0" using pre c wc by (auto simp: at_boundary_def)
  have s1: "rmatch (rlit_ci ''deepcli'') ?s0 = [?s0\<lparr>prev := Some (last w), rest := gap @ v @ post\<rparr>]"
    using rmatch_rlit_ci_rest [of ?s0 w "gap @ v @ post" "''deepcli''"] w low by simp
  let ?s1 = "?s0\<lparr>prev := Some (last w), rest := gap @ v @ post\<rparr>"
  let ?s2 = "?s0\<lparr>prev := Some (last gap), rest := v @ post\<rparr>"
  let ?s3 = "?s0\<lparr>prev := Some e, rest := post\<rparr>"
  obtain ms where s2: "rmatch (rplus rspace) ?s1 = ?s2 # ms"
    using rmatch_plus_greedy [of ?s1 gap "v @ post" py_isspace] gap f vf by (auto simp: rspace_def)
  have s3: "?s3 \<in> set (rmatch (ralt [rlit_ci ''stop'', rlit_ci ''restart'']) ?s2)"
    using rmatch_rlit_ci_rest [of ?s2 v post "''stop''"] rmatch_rlit_ci_rest [of ?s2 v post "''restart''"]
      v low ve by auto
  have b3: "at_boundary ?s3" using post e by (auto simp: at_boundary_def split: list.splits)
  have "?s3 \<in> set (rmatch (rseq [rlit_ci ''deepcli'', rplus rspace,
      ralt [rlit_ci ''stop'', rlit_ci ''restart'']]) ?s0)"
    unfolding rmatch_rseq_Cons using s1 s2 s3 by (simp del: ralt.simps)
  note rmatch_bounded [OF b0 rmatch_ralt_first [OF this] b3]
  then have "?s3 \<in> set (rmatch RUNTIME_COMMAND_RE ?s0)"
    unfolding RUNTIME_COMMAND_RE_def .
  then show "rmatch RUNTIME_COMMAND_RE ?s0 \<noteq> []" by auto
qed

section \<open>Properties\<close>

text \<open>A shell tool and a process environment for the concrete instances.\<close>

definition demo_shell :: tool where
  "demo_shell =
     \<lparr>t_name = ''Bash'', t_aliases = [], t_kind = KExecute,
      prepare_permission_matcher = (\<lambda>inp. Inr (\<lambda>c. Inr False)),
      default_risk = (\<lambda>inp ctx. Inr \<lparr>sg_risk = Medium, sg_default_decision = DAsk, sg_reason = ''shell''\<rparr>),
      is_destructive = (\<lambda>inp. Inr False),
      is_read_only_call = (\<lambda>inp ctx. Inr False),
      user_facing_name = (\<lambda>inp. Inr ''Bash''),
      activity_description = (\<lambda>inp. Inr None),
      destructive_warning = (\<lambda>inp. Inr None)\<rparr>"

definition demo_process :: process_env where
  "demo_process = \<lparr>getpid = 42, getppid = 41, runtime_file = [], runtime_json = (\<lambda>_. Inl (PyExn []))\<rparr>"

text \<open>
  A shell tool's command that starts with \<open>kill \<close> and the number of a protected process
  (this process, its parent, or any positive \<open>pid\<close> of the runtime file) is refused, whatever
  follows the number.
\<close>

theorem kill_protected_pid_denied:
  assumes "is_shell_tool t" "int n \<in> set (protected_pids env)"
    and "tail = [] \<or> \<not> is_word_char (hd tail)"
    and "map_of inp ''command'' = Some (JStr (''kill '' @ py_str_nat n @ tail))"
  shows "runtime_kill_denial env t inp = Some RUNTIME_DENY_MESSAGE"
proof -
  obtain m where m: "re_search kill_pid_pattern (''kill '' @ py_str_nat n @ tail) = Some m"
      "map_of (groups m) ''pid'' = Some (py_str_nat n)"
    using kill_pattern_reads_pid [OF assms(3) py_str_nat_digits] by auto
  have "pid_matches (py_str_nat n) (protected_pids env)"
    using assms(2) by (simp add: pid_matches_def py_int_of_str_nat_text)
  with m have "kill_patterns_hit (protected_pids env) (''kill '' @ py_str_nat n @ tail) KILL_PATTERNS"
    by (simp add: KILL_PATTERNS_def)
  with assms(1,4) show ?thesis by (simp add: runtime_kill_denial_def)
qed

theorem kill_protected_pid_denied_witness:
  "runtime_kill_denial demo_process demo_shell [(''command'', JStr (''kill '' @ py_str_nat 42 @ ''; ls''))]
     = Some RUNTIME_DENY_MESSAGE"
  by (rule kill_protected_pid_denied)
    (simp_all add: is_shell_tool_def demo_shell_def matches_name_def protected_pids_def demo_process_def
      is_word_char_def)

text \<open>
  \<open>deepcli stop\<close> and \<open>deepcli restart\<close>, in any letter case, with any white space between
  the two words and delimited as words anywhere in the command, are refused.
\<close>

theorem runtime_lifecycle_command_denied:
  assumes "is_shell_tool t"
    and "pre = [] \<or> \<not> is_word_char (last pre)" "post = [] \<or> \<not> is_word_char (hd post)"
    and "py_lower w = ''deepcli''" "py_lower v = ''stop'' \<or> py_lower v = ''restart''"
    and "gap \<noteq> []" "list_all py_isspace gap"
    and "map_of inp ''command'' = Some (JStr (pre @ w @ gap @ v @ post))"
  shows "runtime_kill_denial env t inp = Some RUNTIME_DENY_MESSAGE"
  using runtime_command_found [OF assms(2-7)] assms(1,8) by (simp add: runtime_kill_denial_def)

theorem runtime_lifecycle_command_denied_witness:
  "runtime_kill_denial demo_process demo_shell
     [(''command'', JStr (''ls && '' @ ''DeepCLI'' @ ''  '' @ ''restart'' @ []))] = Some RUNTIME_DENY_MESSAGE"
  by (rule runtime_lifecycle_command_denied [where pre = "''ls && ''" and w = "''DeepCLI''"
        and gap = "''  ''" and v = "''restart''" and post = "[]"]) code_simp+

text \<open>
  The limit of the pattern: only the first number after the first \<open>kill\<close> is compared, so a
  command that kills a harmless process and a protected one in the same call is not refused,
  and neither is a \<open>kill\<close> behind another command word such as \<open>sudo\<close>, although the process
  is protected.
\<close>

theorem kill_second_pid_not_denied:
  "42 \<in> set (protected_pids demo_process)
   \<and> runtime_kill_denial demo_process demo_shell [(''command'', JStr ''kill 42'')] = Some RUNTIME_DENY_MESSAGE
   \<and> runtime_kill_denial demo_process demo_shell [(''command'', JStr ''kill 7 42'')] = None
   \<and> runtime_kill_denial demo_process demo_shell [(''command'', JStr ''sudo kill 42'')] = None"
  by code_simp

end
