(* ===== verification/Plan_Files.thy ===== *)
theory Plan_Files
  imports Kernel_Prelude
begin

text \<open>
  Session plan files (\<open>plans.py\<close>): the slug of a session, cached for the life of the process,
  the paths built from it, and the check that lets plan mode write the session's own plan.
  The random draws and the existence of a file are arguments; a path is a string, joined and
  normalised as \<open>pathlib\<close> and \<open>posixpath.normpath\<close> do.
\<close>

section \<open>Paths\<close>

text \<open>\<open>s.split("/")\<close>, and the components \<open>posixpath.normpath\<close> keeps.\<close>

fun split_slash :: "string \<Rightarrow> string list" where
  "split_slash [] = [[]]"
| "split_slash (c # s) =
     (if c = CHR ''/'' then [] # split_slash s
      else (case split_slash s of [] \<Rightarrow> [[c]] | w # ws \<Rightarrow> (c # w) # ws))"

fun norm_comps :: "bool \<Rightarrow> string list \<Rightarrow> string list \<Rightarrow> string list" where
  "norm_comps rooted new [] = new"
| "norm_comps rooted new (c # cs) =
     (if c = [] \<or> c = ''.'' then norm_comps rooted new cs
      else if c \<noteq> ''..'' \<or> (\<not> rooted \<and> new = []) \<or> (new \<noteq> [] \<and> last new = ''..'')
      then norm_comps rooted (new @ [c]) cs
      else if new \<noteq> [] then norm_comps rooted (butlast new) cs
      else norm_comps rooted new cs)"

definition initial_slashes :: "string \<Rightarrow> nat" where
  "initial_slashes p =
     (if py_startswith p ''/''
      then (if py_startswith p ''//'' \<and> \<not> py_startswith p ''///'' then 2 else 1)
      else 0)"

definition normpath :: "string \<Rightarrow> string" where
  "normpath p =
     (if p = [] then ''.''
      else (let n = initial_slashes p;
                q = replicate n (CHR ''/'') @ py_join ''/'' (norm_comps (n \<noteq> 0) [] (split_slash p))
            in if q = [] then ''.'' else q))"

text \<open>\<open>str(dir / name)\<close> for a relative \<open>name\<close>\<close>

definition path_join :: "string \<Rightarrow> string \<Rightarrow> string" where
  "path_join dir name =
     (if dir = ''/'' then ''/'' @ name else if dir = ''.'' then name else dir @ ''/'' @ name)"

section \<open>Slugs\<close>

definition ADJECTIVES :: "string list" where
  "ADJECTIVES =
     [''amber'', ''bold'', ''calm'', ''dark'', ''eager'', ''fair'', ''gentle'', ''happy'',
      ''icy'', ''jade'', ''keen'', ''lush'', ''mild'', ''neat'', ''odd'', ''pale'', ''quick'',
      ''red'', ''shy'', ''tame'', ''ultra'', ''vast'', ''warm'', ''young'', ''zen'', ''azure'',
      ''brisk'', ''clear'', ''deep'', ''epic'', ''fresh'', ''grand'', ''hazy'', ''iron'',
      ''jazzy'', ''kind'', ''lean'', ''merry'', ''noble'', ''open'', ''prime'', ''raw'',
      ''sage'', ''tidy'', ''vivid'', ''wise'', ''crisp'', ''dusty'']"

definition NOUNS :: "string list" where
  "NOUNS =
     [''arch'', ''beam'', ''cave'', ''dawn'', ''edge'', ''fern'', ''gate'', ''helm'', ''isle'',
      ''jade'', ''knot'', ''lake'', ''mesa'', ''node'', ''oak'', ''peak'', ''quay'', ''reef'',
      ''star'', ''tide'', ''vale'', ''wave'', ''yard'', ''zone'', ''arc'', ''bolt'', ''cove'',
      ''dusk'', ''elm'', ''ford'', ''glen'', ''haze'', ''ice'', ''jet'', ''kite'', ''loom'',
      ''mist'', ''nest'', ''opal'', ''pine'', ''rain'', ''sage'', ''thorn'', ''vine'', ''wren'',
      ''birch'', ''cliff'', ''delta'']"

definition MAX_SLUG_RETRIES :: nat where
  "MAX_SLUG_RETRIES = 10"

text \<open>
  One draw: \<open>random.choice\<close> picks a position of each list; \<open>draw i\<close> is what the \<open>i\<close>-th call to
  \<open>_generate_slug\<close> picks.
\<close>

definition generate_slug :: "nat \<times> nat \<Rightarrow> string" where
  "generate_slug d =
     ADJECTIVES ! (fst d mod length ADJECTIVES) @ ''-'' @ NOUNS ! (snd d mod length NOUNS)"

record plan_env =
  plans_directory :: string
  plan_file_exists :: "string \<Rightarrow> bool"
  slug_draw :: "nat \<Rightarrow> nat \<times> nat"

type_synonym slug_cache = "(string, string) dict"

fun pick_slug :: "plan_env \<Rightarrow> nat \<Rightarrow> nat \<Rightarrow> string \<Rightarrow> string" where
  "pick_slug env 0 i slug = slug"
| "pick_slug env (Suc k) i slug =
     (if \<not> plan_file_exists env (path_join (plans_directory env) (slug @ ''.md'')) then slug
      else pick_slug env k (Suc i) (generate_slug (slug_draw env i)))"

definition get_plan_slug :: "plan_env \<Rightarrow> string \<Rightarrow> slug_cache \<Rightarrow> string \<times> slug_cache" where
  "get_plan_slug env sid cache =
     (case map_of cache sid of
        Some slug \<Rightarrow> (slug, cache)
      | None \<Rightarrow>
          (let slug = pick_slug env MAX_SLUG_RETRIES 1 (generate_slug (slug_draw env 0))
           in (slug, dict_set sid slug cache)))"

definition get_plan_file_path ::
    "plan_env \<Rightarrow> string \<Rightarrow> string option \<Rightarrow> slug_cache \<Rightarrow> string \<times> slug_cache" where
  "get_plan_file_path env sid agent_id cache =
     (let (slug, cache') = get_plan_slug env sid cache
      in (path_join (plans_directory env)
            (case agent_id of
               Some a \<Rightarrow> if a \<noteq> [] then slug @ ''-agent-'' @ a @ ''.md'' else slug @ ''.md''
             | None \<Rightarrow> slug @ ''.md''), cache'))"

definition is_session_plan_file :: "plan_env \<Rightarrow> string \<Rightarrow> string \<Rightarrow> slug_cache \<Rightarrow> bool \<times> slug_cache" where
  "is_session_plan_file env path sid cache =
     (let normalized = normpath path;
          (slug, cache') = get_plan_slug env sid cache;
          expected_prefix = path_join (plans_directory env) slug
      in (py_startswith normalized expected_prefix \<and> py_endswith normalized ''.md'', cache'))"

definition clear_slug_cache :: "string option \<Rightarrow> slug_cache \<Rightarrow> slug_cache" where
  "clear_slug_cache sid cache = (case sid of None \<Rightarrow> [] | Some s \<Rightarrow> dict_pop s cache)"

section \<open>Lemmas\<close>

text \<open>A component that normalisation keeps.\<close>

definition clean_comp :: "string \<Rightarrow> bool" where
  "clean_comp c \<longleftrightarrow> c \<noteq> [] \<and> c \<noteq> ''.'' \<and> c \<noteq> ''..'' \<and> CHR ''/'' \<notin> set c"

definition clean_abs :: "string list \<Rightarrow> string" where
  "clean_abs comps = ''/'' @ py_join ''/'' comps"

lemma split_slash_word: "CHR ''/'' \<notin> set w \<Longrightarrow> split_slash w = [w]"
  by (induction w) auto

lemma split_slash_append: "CHR ''/'' \<notin> set w \<Longrightarrow> split_slash (w @ CHR ''/'' # s) = w # split_slash s"
  by (induction w) auto

lemma split_slash_join:
  "comps \<noteq> [] \<Longrightarrow> list_all clean_comp comps \<Longrightarrow> split_slash (py_join ''/'' comps) = comps"
proof (induction "''/''" comps rule: py_join.induct)
  case (2 p)
  then show ?case by (simp add: clean_comp_def split_slash_word)
next
  case (3 p q ps)
  then show ?case by (simp add: clean_comp_def split_slash_append)
qed simp

lemma norm_comps_clean: "list_all clean_comp comps \<Longrightarrow> norm_comps r new comps = new @ comps"
  by (induction comps arbitrary: new) (auto simp: clean_comp_def)

text \<open>An absolute path made of clean components is its own normal form.\<close>

lemma normpath_clean:
  assumes "list_all clean_comp comps" "comps \<noteq> []"
  shows "normpath (clean_abs comps) = clean_abs comps"
proof -
  obtain c cs where comps: "comps = c # cs" using assms(2) by (cases comps) auto
  have "clean_comp c" using assms comps by simp
  then obtain x xs where c: "c = x # xs" "x \<noteq> CHR ''/''" by (cases c) (auto simp: clean_comp_def)
  have hd: "\<exists>s. py_join ''/'' comps = x # s" using comps c by (cases cs) auto
  then have "initial_slashes (clean_abs comps) = 1"
    using c(2) by (auto simp: initial_slashes_def clean_abs_def py_startswith_def)
  moreover have "split_slash (clean_abs comps) = [] # comps"
    using split_slash_join [OF assms(2,1)] by (simp add: clean_abs_def)
  ultimately show ?thesis
    using norm_comps_clean [OF assms(1)] by (simp add: normpath_def clean_abs_def)
qed

lemma py_join_snoc: "ps \<noteq> [] \<Longrightarrow> py_join sep (ps @ [q]) = py_join sep ps @ sep @ q"
  by (induction sep ps rule: py_join.induct) auto

lemma path_join_clean:
  "comps \<noteq> [] \<Longrightarrow> list_all clean_comp comps \<Longrightarrow>
     path_join (clean_abs comps) name = clean_abs (comps @ [name])"
proof -
  assume comps: "comps \<noteq> []" "list_all clean_comp comps"
  then have "hd comps \<noteq> []" by (cases comps) (auto simp: clean_comp_def)
  with comps(1) have "py_join ''/'' comps \<noteq> []"
    by (cases comps; cases "tl comps") auto
  with comps show ?thesis by (simp add: path_join_def clean_abs_def py_join_snoc)
qed

text \<open>
  \<open>..\<close> never climbs out: after a root, normal form components hold no \<open>..\<close> at all.
\<close>

lemma norm_comps_no_dotdot:
  "''..'' \<notin> set new \<Longrightarrow> ''..'' \<notin> set (norm_comps True new cs)"
proof (induction True new cs rule: norm_comps.induct)
  case (2 new c cs)
  have "last new \<noteq> ''..''" if "new \<noteq> []" using 2(5) last_in_set [OF that] by metis
  moreover have "''..'' \<notin> set (butlast new)" using 2(5) by (meson in_set_butlastD)
  ultimately show ?case using 2 by auto
qed simp

lemma words_clean:
  "list_all (\<lambda>w. w \<noteq> [] \<and> CHR ''/'' \<notin> set w) ADJECTIVES"
  "list_all (\<lambda>w. w \<noteq> [] \<and> CHR ''/'' \<notin> set w) NOUNS"
  "0 < length ADJECTIVES" "0 < length NOUNS"
  by (simp_all add: ADJECTIVES_def NOUNS_def)

definition slug_ok :: "string \<Rightarrow> bool" where
  "slug_ok slug \<longleftrightarrow> slug \<noteq> [] \<and> CHR ''/'' \<notin> set slug"

lemma generate_slug_ok: "slug_ok (generate_slug d)"
proof -
  have "ADJECTIVES ! (fst d mod length ADJECTIVES) \<in> set ADJECTIVES"
    "NOUNS ! (snd d mod length NOUNS) \<in> set NOUNS"
    using words_clean(3,4) by (simp_all add: nth_mem)
  with words_clean(1,2) show ?thesis
    by (auto simp: slug_ok_def generate_slug_def list_all_iff)
qed

lemma pick_slug_ok: "slug_ok slug \<Longrightarrow> slug_ok (pick_slug env k i slug)"
  by (induction env k i slug rule: pick_slug.induct) (auto simp: generate_slug_ok)

definition slugs_ok :: "slug_cache \<Rightarrow> bool" where
  "slugs_ok cache \<longleftrightarrow> (\<forall>sid slug. map_of cache sid = Some slug \<longrightarrow> slug_ok slug)"

lemma get_plan_slug_ok:
  assumes "slugs_ok cache"
  shows "slug_ok (fst (get_plan_slug env sid cache)) \<and> slugs_ok (snd (get_plan_slug env sid cache))"
  using assms pick_slug_ok [OF generate_slug_ok]
  by (auto simp: get_plan_slug_def slugs_ok_def Let_def split: option.splits)

lemma get_plan_slug_cached:
  "get_plan_slug env' sid (snd (get_plan_slug env sid cache)) = get_plan_slug env sid cache"
  by (auto simp: get_plan_slug_def Let_def split: option.splits)

lemma suffix_md: "py_endswith (x @ ''.md'') ''.md''"
  by (rule py_endswith_append)

lemma plan_name_clean: "slug_ok slug \<Longrightarrow> CHR ''/'' \<notin> set rest \<Longrightarrow> clean_comp (slug @ rest @ ''.md'')"
  by (auto simp: slug_ok_def clean_comp_def)

lemma plan_path_accepted:
  assumes "slug_ok slug" "CHR ''/'' \<notin> set rest" "list_all clean_comp comps" "comps \<noteq> []"
  defines "p \<equiv> path_join (clean_abs comps) (slug @ rest @ ''.md'')"
  shows "py_startswith (normpath p) (path_join (clean_abs comps) slug)
         \<and> py_endswith (normpath p) ''.md''"
proof -
  have "list_all clean_comp (comps @ [slug @ rest @ ''.md''])"
    using plan_name_clean [OF assms(1,2)] assms(3) by simp
  from normpath_clean [OF this] have "normpath p = p"
    using path_join_clean [OF assms(4,3)] by (simp add: p_def)
  moreover have "p = path_join (clean_abs comps) slug @ rest @ ''.md''"
    using path_join_clean [OF assms(4,3)] assms(4) by (simp add: p_def clean_abs_def py_join_snoc)
  moreover have "py_endswith ((path_join (clean_abs comps) slug @ rest) @ ''.md'') ''.md''"
    by (rule py_endswith_append)
  ultimately show ?thesis by (simp add: py_startswith_prefix)
qed

section \<open>Properties\<close>

text \<open>
  The plan file a session is given is a plan file the session may write: with an absolute
  plans directory in normal form, the path \<open>get_plan_file_path\<close> returns, for the main agent or
  a sub-agent whose id has no slash, passes \<open>is_session_plan_file\<close>, and the slug stays the
  one that was handed out.
\<close>

theorem own_plan_file_accepted:
  assumes "slugs_ok cache" "plans_directory env = clean_abs comps"
    and "list_all clean_comp comps" "comps \<noteq> []"
    and "\<forall>a. agent_id = Some a \<longrightarrow> CHR ''/'' \<notin> set a"
  shows "is_session_plan_file env (fst (get_plan_file_path env sid agent_id cache)) sid
           (snd (get_plan_file_path env sid agent_id cache)) =
         (True, snd (get_plan_file_path env sid agent_id cache))"
proof -
  obtain slug cache' where g: "get_plan_slug env sid cache = (slug, cache')" by force
  then have again: "get_plan_slug env sid cache' = (slug, cache')"
    using get_plan_slug_cached [of env sid env cache] by simp
  have slug: "slug_ok slug" using get_plan_slug_ok [OF assms(1), of env sid] g by simp
  obtain rest where rest: "fst (get_plan_file_path env sid agent_id cache) =
      path_join (clean_abs comps) (slug @ rest @ ''.md'')" "CHR ''/'' \<notin> set rest"
  proof (cases "\<exists>a. agent_id = Some a \<and> a \<noteq> []")
    case True
    then obtain a where "agent_id = Some a" "a \<noteq> []" by blast
    with assms(5) g show ?thesis
      by (intro that [of "''-agent-'' @ a"]) (auto simp: get_plan_file_path_def assms(2))
  next
    case False
    with g show ?thesis
      by (intro that [of "[]"]) (auto simp: get_plan_file_path_def assms(2) split: option.splits)
  qed
  have "snd (get_plan_file_path env sid agent_id cache) = cache'"
    using g by (simp add: get_plan_file_path_def)
  with rest again plan_path_accepted [OF slug rest(2) assms(3,4)] show ?thesis
    by (simp add: is_session_plan_file_def assms(2))
qed

definition demo_plans :: plan_env where
  "demo_plans = \<lparr>plans_directory = clean_abs [''home'', ''plans''], plan_file_exists = (\<lambda>_. False),
                 slug_draw = (\<lambda>_. (0, 0))\<rparr>"

theorem own_plan_file_accepted_witness:
  "fst (is_session_plan_file demo_plans
          (fst (get_plan_file_path demo_plans ''s'' (Some ''a1'') [])) ''s''
          (snd (get_plan_file_path demo_plans ''s'' (Some ''a1'') [])))"
proof -
  have "slugs_ok []" "plans_directory demo_plans = clean_abs [''home'', ''plans'']"
    "list_all clean_comp [''home'', ''plans'']" "[''home'', ''plans''] \<noteq> []"
    "\<forall>a. Some ''a1'' = Some a \<longrightarrow> CHR ''/'' \<notin> set a"
    by (simp_all add: slugs_ok_def demo_plans_def clean_comp_def)
  note own_plan_file_accepted [OF this, of "''s''"]
  then show ?thesis by simp
qed

text \<open>
  No traversal: a path accepted as a plan file has a normal form that starts with the
  plans directory and the session's slug and ends in \<open>.md\<close>, and when the path is absolute that
  normal form contains no \<open>..\<close> component.
\<close>

theorem plan_file_no_traversal:
  assumes "fst (is_session_plan_file env path sid cache)" "py_startswith path ''/''"
  shows "(\<exists>x. normpath path = path_join (plans_directory env) (fst (get_plan_slug env sid cache)) @ x)
       \<and> (\<exists>comps. normpath path = replicate (initial_slashes path) (CHR ''/'') @ py_join ''/'' comps
                  \<and> ''..'' \<notin> set comps)"
proof -
  have "initial_slashes path \<noteq> 0" "path \<noteq> []"
    using assms(2) by (auto simp: initial_slashes_def py_startswith_def)
  then have "normpath path = replicate (initial_slashes path) (CHR ''/'') @
      py_join ''/'' (norm_comps True [] (split_slash path))"
    by (simp add: normpath_def Let_def)
  moreover have "''..'' \<notin> set (norm_comps True [] (split_slash path))"
    by (rule norm_comps_no_dotdot) simp
  ultimately show ?thesis
    using assms(1)
    by (cases "get_plan_slug env sid cache")
      (auto simp: is_session_plan_file_def py_startswith_prefix prefix_def Let_def)
qed

theorem plan_file_no_traversal_witness:
  "\<exists>comps. normpath ''/home/plans/x/../amber-arch.md'' =
             replicate (initial_slashes ''/home/plans/x/../amber-arch.md'') (CHR ''/'') @ py_join ''/'' comps
           \<and> ''..'' \<notin> set comps"
proof -
  have "fst (is_session_plan_file demo_plans ''/home/plans/x/../amber-arch.md'' ''s'' [])"
    "py_startswith ''/home/plans/x/../amber-arch.md'' ''/''"
    by code_simp+
  from plan_file_no_traversal [OF this] show ?thesis by blast
qed

text \<open>
  The prefix test does not separate sessions: the nouns \<open>arc\<close> and \<open>arch\<close> are both in the
  word list, and the plan file of a session with slug \<open>red-arch\<close> passes the check for a
  session with slug \<open>red-arc\<close>.
\<close>

theorem plan_file_prefix_confusion:
  "''arc'' \<in> set NOUNS \<and> ''arch'' \<in> set NOUNS
   \<and> fst (get_plan_file_path demo_plans ''b'' None [(''a'', ''red-arc''), (''b'', ''red-arch'')])
       = ''/home/plans/red-arch.md''
   \<and> fst (is_session_plan_file demo_plans ''/home/plans/red-arch.md'' ''a''
            [(''a'', ''red-arc''), (''b'', ''red-arch'')])"
  by code_simp

end
