(* ===== verification/Hooks.thy ===== *)
theory Hooks
  imports Tool_Contract
begin

text \<open>
  The hook system (\<open>hooks/types.py\<close>, \<open>hooks/registry.py\<close>, \<open>HookManager.fire\<close>): the event table,
  the registry and the dispatch. A handler is a function from the context it is handed to the
  context it leaves behind and the way it ended; what it mutated stays, also when it raises.
  The ambient context is represented without its time stamp.
\<close>

datatype hook_event =
    PRE_TOOL_USE | POST_TOOL_USE | POST_TOOL_FAILURE | SESSION_START | SESSION_END
  | USER_PROMPT_SUBMIT | POST_SAMPLING | STOP | PRE_COMPACT | POST_COMPACT | FILE_CHANGED
  | SUBAGENT_START | PERMISSION_REQUESTED | PERMISSION_DENIED | PRE_CRON_FIRE | POST_CRON_FIRE
  | WORKTREE_CREATE | WORKTREE_REMOVE

record hook_event_spec =
  can_block :: bool
  accepts_input_mutation :: bool

fun EVENT_SPECS :: "hook_event \<Rightarrow> hook_event_spec" where
  "EVENT_SPECS PRE_TOOL_USE = \<lparr>can_block = True, accepts_input_mutation = True\<rparr>"
| "EVENT_SPECS USER_PROMPT_SUBMIT = \<lparr>can_block = True, accepts_input_mutation = True\<rparr>"
| "EVENT_SPECS PRE_COMPACT = \<lparr>can_block = True, accepts_input_mutation = False\<rparr>"
| "EVENT_SPECS _ = \<lparr>can_block = False, accepts_input_mutation = False\<rparr>"

record ambient_context =
  am_session_id :: string
  am_cwd :: string
  am_agent_depth :: nat
  am_mode :: permission_mode

record hook_ctx =
  h_ambient :: ambient_context
  h_event :: hook_event
  h_tool_name :: "string option"
  h_tool_input :: tool_input
  h_tool_output :: "string option"
  h_error_message :: "string option"
  h_user_text :: "string option"
  h_message_count :: "nat option"
  h_token_estimate :: "int option"
  h_stop_reason :: "string option"
  h_messages :: "string list"

datatype handler_end = Returned | Blocked string | Crashed

type_synonym hook_handler = "hook_ctx \<Rightarrow> hook_ctx \<times> handler_end"

type_synonym hook_registry = "(hook_event, hook_handler list) dict"

definition registry_get :: "hook_event \<Rightarrow> hook_registry \<Rightarrow> hook_handler list" where
  "registry_get ev reg = (case map_of reg ev of None \<Rightarrow> [] | Some hs \<Rightarrow> hs)"

definition registry_register :: "hook_event \<Rightarrow> hook_handler \<Rightarrow> hook_registry \<Rightarrow> hook_registry" where
  "registry_register ev h reg = dict_set ev (registry_get ev reg @ [h]) reg"

definition registry_len :: "hook_registry \<Rightarrow> nat" where
  "registry_len reg = sum_list (map (\<lambda>p. length (snd p)) reg)"

definition registry_clear :: "hook_registry \<Rightarrow> hook_registry" where
  "registry_clear reg = []"

text \<open>The dispatch loop over the handlers, given whether the event can be blocked.\<close>

fun run_handlers :: "bool \<Rightarrow> hook_handler list \<Rightarrow> hook_ctx \<Rightarrow> bool \<times> hook_ctx" where
  "run_handlers blocking [] ctx = (False, ctx)"
| "run_handlers blocking (h # hs) ctx =
     (case h ctx of
        (ctx', Blocked reason) \<Rightarrow> if blocking then (True, ctx') else run_handlers blocking hs ctx'
      | (ctx', _) \<Rightarrow> run_handlers blocking hs ctx')"

definition fire :: "hook_registry \<Rightarrow> hook_ctx \<Rightarrow> bool \<times> hook_ctx" where
  "fire reg ctx = run_handlers (can_block (EVENT_SPECS (h_event ctx))) (registry_get (h_event ctx) reg) ctx"

section \<open>Properties\<close>

lemma registry_get_register [simp]:
  "registry_get ev (registry_register ev' h reg) =
     (if ev = ev' then registry_get ev reg @ [h] else registry_get ev reg)"
  by (simp add: registry_get_def registry_register_def)

lemma run_handlers_nonblocking: "fst (run_handlers False hs ctx) = False"
  by (induction hs arbitrary: ctx) (auto split: prod.splits handler_end.splits)

text \<open>The context after a list of handlers that are all run.\<close>

definition run_all :: "hook_handler list \<Rightarrow> hook_ctx \<Rightarrow> hook_ctx" where
  "run_all hs ctx = fold (\<lambda>h c. fst (h c)) hs ctx"

lemma run_handlers_pass:
  "fst (run_handlers b hs ctx) = False \<Longrightarrow> snd (run_handlers b hs ctx) = run_all hs ctx"
  by (induction hs arbitrary: ctx)
     (auto simp: run_all_def split: prod.splits handler_end.splits if_splits)

lemma run_handlers_block:
  "fst (run_handlers b hs ctx) \<Longrightarrow>
     b \<and> (\<exists>us h vs reason. hs = us @ h # vs \<and> h (run_all us ctx) = (snd (run_handlers b hs ctx), Blocked reason)
       \<and> fst (run_handlers b us ctx) = False)"
proof (induction hs arbitrary: ctx)
  case (Cons h hs)
  obtain ctx' e where h: "h ctx = (ctx', e)" by (cases "h ctx")
  show ?case
  proof (cases "b \<and> (\<exists>reason. e = Blocked reason)")
    case True
    with h Cons.prems have "h # hs = [] @ h # hs" "h (run_all [] ctx) = (snd (run_handlers b (h # hs) ctx), e)"
      by (auto simp: run_all_def)
    with True show ?thesis by (metis fst_conv run_handlers.simps(1))
  next
    case False
    with h have step: "run_handlers b (h # xs) ctx = run_handlers b xs ctx'" for xs
      by (auto split: handler_end.splits)
    with Cons obtain us g vs reason where b and hs: "hs = us @ g # vs"
        and g: "g (run_all us ctx') = (snd (run_handlers b hs ctx'), Blocked reason)"
        and us: "fst (run_handlers b us ctx') = False" by metis
    from hs g us h have "h # hs = (h # us) @ g # vs"
        "g (run_all (h # us) ctx) = (snd (run_handlers b (h # hs) ctx), Blocked reason)"
        "fst (run_handlers b (h # us) ctx) = False"
      unfolding step by (simp_all add: run_all_def)
    with \<open>b\<close> show ?thesis by blast
  qed
qed simp

text \<open>
  Dispatch of a hook event. A veto happens only for the three events that can be blocked, and
  exactly when some handler raises \<open>HookBlock\<close> after all earlier handlers ran without a veto: the
  context is then as that handler left it and no later handler runs. Otherwise every handler ran
  in registration order, whatever crashed on the way, and the context carries all mutations.
\<close>

theorem fire_correct:
  "(fst (fire reg ctx) \<longrightarrow>
      h_event ctx \<in> {PRE_TOOL_USE, USER_PROMPT_SUBMIT, PRE_COMPACT} \<and>
      (\<exists>us h vs reason. registry_get (h_event ctx) reg = us @ h # vs \<and>
         h (run_all us ctx) = (snd (fire reg ctx), Blocked reason))) \<and>
   (\<not> fst (fire reg ctx) \<longrightarrow> snd (fire reg ctx) = run_all (registry_get (h_event ctx) reg) ctx)"
proof -
  have "can_block (EVENT_SPECS e) \<longleftrightarrow> e \<in> {PRE_TOOL_USE, USER_PROMPT_SUBMIT, PRE_COMPACT}" for e
    by (cases e) auto
  with run_handlers_block [of "can_block (EVENT_SPECS (h_event ctx))" "registry_get (h_event ctx) reg" ctx]
    run_handlers_pass [of "can_block (EVENT_SPECS (h_event ctx))" "registry_get (h_event ctx) reg" ctx]
  show ?thesis unfolding fire_def by blast
qed

definition demo_hook_ctx :: hook_ctx where
  "demo_hook_ctx = \<lparr>h_ambient = \<lparr>am_session_id = ''s'', am_cwd = ''/'', am_agent_depth = 0, am_mode = MDefault\<rparr>,
     h_event = PRE_TOOL_USE, h_tool_name = Some ''Bash'', h_tool_input = [],
     h_tool_output = None, h_error_message = None, h_user_text = None, h_message_count = None,
     h_token_estimate = None, h_stop_reason = None, h_messages = []\<rparr>"

definition note_handler :: "string \<Rightarrow> handler_end \<Rightarrow> hook_handler" where
  "note_handler s e ctx = (ctx\<lparr>h_messages := h_messages ctx @ [s]\<rparr>, e)"

theorem fire_correct_witness:
  "h_messages (snd (fire [(PRE_TOOL_USE, [note_handler ''a'' Crashed, note_handler ''b'' Returned])] demo_hook_ctx))
     = [''a'', ''b'']"
proof -
  let ?reg = "[(PRE_TOOL_USE, [note_handler ''a'' Crashed, note_handler ''b'' Returned])]"
  have "\<not> fst (fire ?reg demo_hook_ctx)" by code_simp
  with fire_correct [of ?reg demo_hook_ctx]
  have "snd (fire ?reg demo_hook_ctx) = run_all (registry_get (h_event demo_hook_ctx) ?reg) demo_hook_ctx"
    by blast
  also have "h_messages \<dots> = [''a'', ''b'']" by code_simp
  finally show ?thesis .
qed

end
