(* ===== verification/Authorizer.thy ===== *)
theory Authorizer
  imports Rule_Engine Grant_Cache Bash_Classifier Runtime_Guard Plan_Files Hooks
begin

text \<open>
  The tool authorizer (\<open>tool_authz/authorizer.py\<close>): the decision types, the session lifecycle,
  the pool filter and \<open>authorize()\<close> with every early return, the ask handling and the
  fail-closed wrapper. The authorizer's state is its four components plus the slug cache of
  \<open>plans.py\<close>; what it reads from outside (process ids, the serializer, the judge's stream,
  the resolved judge model, the hook manager's presence, and pydantic's validation of the
  string field \<open>model_used\<close>, which is handed the resolved \<open>ModelRef\<close>) is in \<open>auth_env\<close>. A call returns its
  outcome and the new state; an exception keeps what was already written.
\<close>

section \<open>Decisions\<close>

datatype decision_reason =
    ReasonRuleMatched string behavior string string
  | ReasonDefaultRisk risk string string
  | ReasonSessionGrant int string
  | ReasonMode permission_mode
  | ReasonNoPrompt
  | ReasonBashClassifier verdict "string option"
  | ReasonFailClosed string

datatype button_outcome = AllowOnce | AllowAlways | DenyCall

record suggestion_btn =
  btn_label :: string
  btn_outcome :: button_outcome

datatype permission_decision =
    PermissionAllow decision_reason
  | PermissionDeny string decision_reason
  | PermissionAsk string decision_reason "suggestion_btn list"

fun is_allow :: "permission_decision \<Rightarrow> bool" where
  "is_allow (PermissionAllow r) = True"
| "is_allow _ = False"

fun decision_kind_of :: "permission_decision \<Rightarrow> decision_kind" where
  "decision_kind_of (PermissionAllow r) = DAllow"
| "decision_kind_of (PermissionDeny m r) = DDeny"
| "decision_kind_of (PermissionAsk m r bs) = DAsk"

section \<open>State and environment\<close>

record authorizer =
  a_rules :: rule_store
  a_grants :: grant_cache
  a_classifier :: bash_classifier
  a_slugs :: slug_cache

record auth_env =
  e_signature :: signature_env
  e_judge :: judge_env
  e_process :: process_env
  e_plans :: plan_env
  e_judge_model :: "model_ref option"
  e_model_used :: "model_ref \<Rightarrow> string py"
  e_hooks :: bool
  e_str :: "json \<Rightarrow> string"

definition new_authorizer :: authorizer where
  "new_authorizer = \<lparr>a_rules = new_rule_store, a_grants = new_grant_cache,
                     a_classifier = new_bash_classifier, a_slugs = []\<rparr>"

text \<open>
  \<open>startup\<close>: \<open>Inl\<close> is a failed \<open>bind_section\<close>, after which the authorizer runs with no config rules.
\<close>

definition auth_startup :: "permissions_section py \<Rightarrow> authorizer \<Rightarrow> authorizer" where
  "auth_startup section a =
     (case section of
        Inl e \<Rightarrow> a
      | Inr s \<Rightarrow>
          a\<lparr>a_rules := bind_config s (a_rules a),
            a_classifier := (a_classifier a)\<lparr>enabled := bash_llm_judge_enabled s,
                                            fail_closed := bash_llm_judge_fail_closed s\<rparr>\<rparr>)"

definition auth_shutdown :: "authorizer \<Rightarrow> authorizer" where
  "auth_shutdown a = a\<lparr>a_grants := cache_clear (a_grants a)\<rparr>"

definition auth_on_session_open :: "string \<Rightarrow> authorizer \<Rightarrow> authorizer" where
  "auth_on_session_open sid a =
     a\<lparr>a_grants := cache_on_session_open sid (a_grants a),
       a_classifier := classifier_on_session_open sid (a_classifier a)\<rparr>"

definition auth_on_session_close :: "string \<Rightarrow> authorizer \<Rightarrow> authorizer" where
  "auth_on_session_close sid a =
     a\<lparr>a_grants := cache_on_session_close sid (a_grants a),
       a_classifier := classifier_on_session_close sid (a_classifier a)\<rparr>"

definition auth_grant ::
    "auth_env \<Rightarrow> int \<Rightarrow> tool \<Rightarrow> tool_input \<Rightarrow> authorize_context \<Rightarrow> authorizer \<Rightarrow> authorizer" where
  "auth_grant env now t inp ctx a =
     a\<lparr>a_grants := snd (cache_grant (e_signature env) now (session_id ctx) t inp (a_grants a))\<rparr>"

section \<open>The pool filter\<close>

definition rule_blocks_tool_name :: "permission_rule \<Rightarrow> string \<Rightarrow> bool" where
  "rule_blocks_tool_name r name =
     (let target = rv_tool_name (rule_value r)
      in if target = name then True
         else if target = ''mcp__*'' then py_startswith name mcp_prefix
         else if is_server_name target then py_startswith name (target @ ''__'')
         else False)"

definition filter_denied_tools :: "authorizer \<Rightarrow> string list \<Rightarrow> string list" where
  "filter_denied_tools a names =
     filter (\<lambda>name. list_ex (\<lambda>r. behavior r = Deny \<and> rv_content (rule_value r) = None
                              \<and> rule_blocks_tool_name r name)
                     (snapshot (a_rules a))) names"

section \<open>authorize\<close>

definition rule_reason :: "permission_rule \<Rightarrow> decision_reason" where
  "rule_reason r = ReasonRuleMatched (rule_id r) (behavior r) (raw_dsl r) (source_value (source r))"

definition risk_reason :: "permission_suggestion \<Rightarrow> tool \<Rightarrow> decision_reason" where
  "risk_reason sg t = ReasonDefaultRisk (sg_risk sg) (sg_reason sg) (t_name t)"

definition warning_mark :: string where
  "warning_mark = [CHR '' '', em_dash, CHR '' '', warning_sign, CHR '' '']"

definition build_ask_message :: "tool \<Rightarrow> tool_input \<Rightarrow> string \<Rightarrow> string py" where
  "build_ask_message t inp reason =
     ebind (user_facing_name t inp) (\<lambda>desc.
     ebind (activity_description t inp) (\<lambda>hint.
     ebind (Inr (case hint of
                   Some h \<Rightarrow> if h \<noteq> [] then desc @ '': '' @ h @ '' ('' @ reason @ '')''
                             else desc @ '' ('' @ reason @ '')''
                 | None \<Rightarrow> desc @ '' ('' @ reason @ '')'')) (\<lambda>base.
     ebind (destructive_warning t inp) (\<lambda>warning.
       Inr (case warning of
              Some w \<Rightarrow> if w \<noteq> [] then base @ warning_mark @ w else base
            | None \<Rightarrow> base)))))"

definition ask_buttons :: "bool \<Rightarrow> suggestion_btn list" where
  "ask_buttons destructive =
     [\<lparr>btn_label = ''Allow once'', btn_outcome = AllowOnce\<rparr>] @
     (if \<not> destructive then [\<lparr>btn_label = ''Allow always'', btn_outcome = AllowAlways\<rparr>] else []) @
     [\<lparr>btn_label = ''Deny'', btn_outcome = DenyCall\<rparr>]"

text \<open>The last step of \<open>_handle_ask\<close>: the prompt itself.\<close>

definition prompt_user :: "engine_outcome \<Rightarrow> tool \<Rightarrow> tool_input \<Rightarrow> permission_decision py" where
  "prompt_user outcome t inp =
     ebind (build_ask_message t inp (sg_reason (suggestion outcome))) (\<lambda>message.
       Inr (PermissionAsk message
              (case matched_rule outcome of
                 Some r \<Rightarrow> rule_reason r
               | None \<Rightarrow> risk_reason (suggestion outcome) t)
              (ask_buttons (outcome_destructive outcome))))"

definition SHELL_TOOL_NAMES :: "string list" where
  "SHELL_TOOL_NAMES = [''Bash'', ''PowerShell'']"

definition command_text :: "auth_env \<Rightarrow> tool_input \<Rightarrow> string" where
  "command_text env inp =
     (case map_of inp ''command'' of None \<Rightarrow> [] | Some (JStr s) \<Rightarrow> s | Some v \<Rightarrow> e_str env v)"

text \<open>
  \<open>ReasonBashClassifier(verdict=..., model_used=model_ref)\<close>: constructing the reason validates
  \<open>model_used\<close> against \<open>str | None\<close> and may raise.
\<close>

definition classifier_reason :: "auth_env \<Rightarrow> verdict \<Rightarrow> model_ref option \<Rightarrow> decision_reason py" where
  "classifier_reason env v model =
     (case model of
        None \<Rightarrow> Inr (ReasonBashClassifier v None)
      | Some m \<Rightarrow> ebind (e_model_used env m) (\<lambda>s. Inr (ReasonBashClassifier v (Some s))))"

definition handle_ask ::
    "auth_env \<Rightarrow> engine_outcome \<Rightarrow> tool \<Rightarrow> tool_input \<Rightarrow> authorize_context \<Rightarrow> authorizer
       \<Rightarrow> permission_decision py \<times> authorizer" where
  "handle_ask env outcome t inp ctx a =
     (if mode ctx = MAuto \<and> sg_risk (suggestion outcome) = Low
      then (Inr (PermissionAllow (ReasonMode MAuto)), a)
      else if mode ctx = MDontAsk
      then (Inr (PermissionDeny ''dont_ask mode: only pre-approved tools are allowed''
                   (ReasonMode MDontAsk)), a)
      else if should_avoid_prompts ctx
      then (Inr (PermissionDeny ''no interactive channel available for permission request''
                   ReasonNoPrompt), a)
      else if t_name t \<in> set SHELL_TOOL_NAMES \<and> enabled (a_classifier a)
      then (let model = e_judge_model env;
                (v, b') = classify (e_judge env) (session_id ctx) (command_text env inp) (cwd ctx)
                            model (a_classifier a);
                a' = a\<lparr>a_classifier := b'\<rparr>
            in (case v of
                  Inl e \<Rightarrow> (Inl e, a')
                | Inr Safe \<Rightarrow>
                    (ebind (classifier_reason env Safe model) (\<lambda>r. Inr (PermissionAllow r)), a')
                | Inr Unsafe \<Rightarrow>
                    (ebind (classifier_reason env Unsafe model) (\<lambda>r.
                       Inr (PermissionDeny ''bash command classified as unsafe'' r)), a')
                | Inr _ \<Rightarrow> (prompt_user outcome t inp, a')))
      else (prompt_user outcome t inp, a))"

definition apply_outcome ::
    "auth_env \<Rightarrow> engine_outcome \<Rightarrow> tool \<Rightarrow> tool_input \<Rightarrow> authorize_context \<Rightarrow> authorizer
       \<Rightarrow> permission_decision py \<times> authorizer" where
  "apply_outcome env outcome t inp ctx a =
     (let sg = suggestion outcome; matched = matched_rule outcome
      in if rule_behavior outcome = Some Deny
         then (case matched of
                 None \<Rightarrow> (Inl (PyExn ''AssertionError''), a)
               | Some r \<Rightarrow> (Inr (PermissionDeny (''tool call denied by rule '' @ rule_id r) (rule_reason r)), a))
         else if sg_default_decision sg = DDeny
         then (Inr (PermissionDeny (''tool call denied: '' @ sg_reason sg) (risk_reason sg t)), a)
         else if rule_behavior outcome = Some Ask \<or> sg_default_decision sg = DAsk
         then handle_ask env outcome t inp ctx a
         else if rule_behavior outcome = Some Allow
         then (case matched of
                 None \<Rightarrow> (Inl (PyExn ''AssertionError''), a)
               | Some r \<Rightarrow> (Inr (PermissionAllow (rule_reason r)), a))
         else if sg_default_decision sg = DAllow
         then (Inr (PermissionAllow (risk_reason sg t)), a)
         else handle_ask env outcome t inp ctx a)"

definition input_path :: "tool_input \<Rightarrow> string option" where
  "input_path inp =
     (let first = map_of inp ''file_path'';
          v = (case first of
                 Some j \<Rightarrow> if py_truthy j then first else map_of inp ''path''
               | None \<Rightarrow> map_of inp ''path'')
      in (case v of Some (JStr s) \<Rightarrow> if s \<noteq> [] then Some s else None | _ \<Rightarrow> None))"

definition is_plan_file_write ::
    "auth_env \<Rightarrow> tool \<Rightarrow> tool_input \<Rightarrow> authorize_context \<Rightarrow> slug_cache \<Rightarrow> bool \<times> slug_cache" where
  "is_plan_file_write env t inp ctx slugs =
     (case input_path inp of
        None \<Rightarrow> (False, slugs)
      | Some path \<Rightarrow>
          if \<not> (matches_name t ''Edit'' \<or> matches_name t ''Write'') then (False, slugs)
          else is_session_plan_file (e_plans env) path (session_id ctx) slugs)"

text \<open>What follows the plan-mode test of \<open>_authorize_impl\<close>: the other modes and the rules.\<close>

definition authorize_rest ::
    "auth_env \<Rightarrow> tool \<Rightarrow> tool_input \<Rightarrow> authorize_context \<Rightarrow> authorizer
       \<Rightarrow> permission_decision py \<times> authorizer" where
  "authorize_rest env t inp ctx a =
     (if mode ctx = MAcceptEdits \<and> t_kind t = KEdit
      then (Inr (PermissionAllow (ReasonMode MAcceptEdits)), a)
      else if mode ctx = MBypass then (Inr (PermissionAllow (ReasonMode MBypass)), a)
      else (case decide (snapshot (a_rules a)) t inp ctx of
              Inl e \<Rightarrow> (Inl e, a)
            | Inr outcome \<Rightarrow> apply_outcome env outcome t inp ctx a))"

definition authorize_impl ::
    "auth_env \<Rightarrow> tool \<Rightarrow> tool_input \<Rightarrow> authorize_context \<Rightarrow> authorizer
       \<Rightarrow> permission_decision py \<times> authorizer" where
  "authorize_impl env t inp ctx a =
     (case runtime_kill_denial (e_process env) t inp of
        Some message \<Rightarrow>
          (Inr (PermissionDeny message
                  (ReasonDefaultRisk High ''protected DeepCLI runtime lifecycle'' (t_name t))), a)
      | None \<Rightarrow>
          (case cache_check (e_signature env) (session_id ctx) t inp (a_grants a) of
             Some g \<Rightarrow>
               (Inr (PermissionAllow (ReasonSessionGrant (ge_granted_at g) (ge_signature g))), a)
           | None \<Rightarrow>
               if mode ctx = MPlan
               then (case is_read_only_call t inp ctx of
                       Inl e \<Rightarrow> (Inl e, a)
                     | Inr True \<Rightarrow> authorize_rest env t inp ctx a
                     | Inr False \<Rightarrow>
                         if matches_name t ''ExitPlanMode'' then authorize_rest env t inp ctx a
                         else
                           (let (writes_plan, slugs) = is_plan_file_write env t inp ctx (a_slugs a);
                                a' = a\<lparr>a_slugs := slugs\<rparr>
                            in if writes_plan
                               then (Inr (PermissionAllow (ReasonMode MPlan)), a')
                               else (Inr (PermissionDeny ''plan mode forbids side effects''
                                            (ReasonMode MPlan)), a')))
               else authorize_rest env t inp ctx a))"

text \<open>
  \<open>_fire_permission_hook\<close>: the event and message handed to \<open>hooks.fire\<close>, if any. What the
  hooks do cannot change the decision: their exceptions are swallowed.
\<close>

fun permission_hook :: "bool \<Rightarrow> permission_decision \<Rightarrow> (hook_event \<times> string) option" where
  "permission_hook False d = None"
| "permission_hook True (PermissionDeny m r) = Some (PERMISSION_DENIED, m)"
| "permission_hook True (PermissionAsk m r bs) = Some (PERMISSION_REQUESTED, m)"
| "permission_hook True (PermissionAllow r) = None"

definition authorize ::
    "auth_env \<Rightarrow> tool \<Rightarrow> tool_input \<Rightarrow> authorize_context \<Rightarrow> authorizer
       \<Rightarrow> permission_decision \<times> (hook_event \<times> string) option \<times> authorizer" where
  "authorize env t inp ctx a =
     (let (result, a') = authorize_impl env t inp ctx a;
          decision = (case result of
                        Inr d \<Rightarrow> d
                      | Inl e \<Rightarrow> PermissionDeny ''permission check failed''
                                  (ReasonFailClosed ''authorize_crash''))
      in (decision, permission_hook (e_hooks env) decision, a'))"

abbreviation decision_of ::
    "auth_env \<Rightarrow> tool \<Rightarrow> tool_input \<Rightarrow> authorize_context \<Rightarrow> authorizer \<Rightarrow> permission_decision" where
  "decision_of env t inp ctx a \<equiv> fst (authorize env t inp ctx a)"

section \<open>Lemmas\<close>

lemma decision_of_eq:
  "decision_of env t inp ctx a =
     (case fst (authorize_impl env t inp ctx a) of
        Inr d \<Rightarrow> d
      | Inl e \<Rightarrow> PermissionDeny ''permission check failed'' (ReasonFailClosed ''authorize_crash''))"
  by (simp add: authorize_def Let_def split: prod.splits)

text \<open>The calls that reach the rule engine: no guard hit, no grant, no deciding mode.\<close>

definition reaches_rules :: "auth_env \<Rightarrow> tool \<Rightarrow> tool_input \<Rightarrow> authorize_context \<Rightarrow> authorizer \<Rightarrow> bool" where
  "reaches_rules env t inp ctx a \<longleftrightarrow>
     runtime_kill_denial (e_process env) t inp = None \<and>
     cache_check (e_signature env) (session_id ctx) t inp (a_grants a) = None \<and>
     mode ctx \<noteq> MPlan \<and> mode ctx \<noteq> MBypass \<and> \<not> (mode ctx = MAcceptEdits \<and> t_kind t = KEdit)"

lemma authorize_impl_rules:
  assumes "reaches_rules env t inp ctx a"
  shows "authorize_impl env t inp ctx a =
           (case decide (snapshot (a_rules a)) t inp ctx of
              Inl e \<Rightarrow> (Inl e, a)
            | Inr outcome \<Rightarrow> apply_outcome env outcome t inp ctx a)"
  using assms by (auto simp: reaches_rules_def authorize_impl_def authorize_rest_def)

text \<open>The outcomes of the two halves of the flow, by case analysis on the code's branches.\<close>

lemma prompt_user_cases:
  "prompt_user outcome t inp = Inr d \<Longrightarrow>
     \<exists>m r. d = PermissionAsk m r (ask_buttons (outcome_destructive outcome))"
  by (auto simp: prompt_user_def ebind_Inr_iff)

lemma handle_ask_ask:
  "fst (handle_ask env outcome t inp ctx a) = Inr (PermissionAsk m r bs) \<Longrightarrow>
     bs = ask_buttons (outcome_destructive outcome)
     \<and> \<not> should_avoid_prompts ctx \<and> mode ctx \<noteq> MDontAsk"
  by (auto simp: handle_ask_def Let_def ebind_Inr_iff dest: prompt_user_cases
      split: if_splits prod.splits sum.splits verdict.splits)

lemma handle_ask_allow:
  "fst (handle_ask env outcome t inp ctx a) = Inr (PermissionAllow r) \<Longrightarrow>
     r = ReasonMode MAuto \<and> mode ctx = MAuto \<and> sg_risk (suggestion outcome) = Low
   \<or> (\<exists>m. r = ReasonBashClassifier Safe m) \<and> t_name t \<in> set SHELL_TOOL_NAMES
       \<and> fst (classify (e_judge env) (session_id ctx) (command_text env inp) (cwd ctx)
                (e_judge_model env) (a_classifier a)) = Inr Safe"
  by (auto simp: handle_ask_def Let_def ebind_Inr_iff classifier_reason_def dest: prompt_user_cases
      split: if_splits prod.splits sum.splits verdict.splits option.splits)

lemma apply_outcome_ask:
  "fst (apply_outcome env outcome t inp ctx a) = Inr (PermissionAsk m r bs) \<Longrightarrow>
     fst (handle_ask env outcome t inp ctx a) = Inr (PermissionAsk m r bs)"
  by (auto simp: apply_outcome_def Let_def split: if_splits option.splits)

lemma authorize_rest_ask:
  assumes "fst (authorize_rest env t inp ctx a) = Inr (PermissionAsk m r bs)"
  obtains outcome where "decide (snapshot (a_rules a)) t inp ctx = Inr outcome"
    "bs = ask_buttons (outcome_destructive outcome)"
    "\<not> should_avoid_prompts ctx" "mode ctx \<noteq> MDontAsk"
  using assms
  by (auto simp: authorize_rest_def split: if_splits sum.splits dest!: apply_outcome_ask handle_ask_ask)

lemma authorize_ask:
  assumes "decision_of env t inp ctx a = PermissionAsk m r bs"
  obtains outcome where "decide (snapshot (a_rules a)) t inp ctx = Inr outcome"
    "bs = ask_buttons (outcome_destructive outcome)"
    "\<not> should_avoid_prompts ctx" "mode ctx \<noteq> MDontAsk"
proof -
  have "fst (authorize_rest env t inp ctx a) = Inr (PermissionAsk m r bs)"
    using assms by (auto simp: decision_of_eq authorize_impl_def Let_def
        split: sum.splits option.splits if_splits bool.splits prod.splits)
  then show ?thesis by (rule authorize_rest_ask) (rule that)
qed

lemma decide_risk:
  "decide rules t inp ctx = Inr outcome \<Longrightarrow> default_risk t inp ctx = Inr (suggestion outcome)"
  by (auto simp: decide_def ebind_Inr_iff split: option.splits)

lemma apply_outcome_allow:
  "fst (apply_outcome env outcome t inp ctx a) = Inr (PermissionAllow r) \<Longrightarrow>
     fst (handle_ask env outcome t inp ctx a) = Inr (PermissionAllow r)
     \<or> sg_default_decision (suggestion outcome) = DAllow"
  by (cases "sg_default_decision (suggestion outcome)")
    (auto simp: apply_outcome_def Let_def split: if_splits option.splits)

lemma authorize_rest_allow:
  assumes "fst (authorize_rest env t inp ctx a) = Inr (PermissionAllow reason)"
  shows "reason = ReasonMode MAcceptEdits \<and> mode ctx = MAcceptEdits \<and> t_kind t = KEdit
      \<or> reason = ReasonMode MBypass \<and> mode ctx = MBypass
      \<or> reason = ReasonMode MAuto \<and> mode ctx = MAuto
          \<and> (\<exists>sg. default_risk t inp ctx = Inr sg \<and> sg_risk sg = Low)
      \<or> (\<exists>m. reason = ReasonBashClassifier Safe m) \<and> t_name t \<in> set SHELL_TOOL_NAMES
          \<and> fst (classify (e_judge env) (session_id ctx) (command_text env inp) (cwd ctx)
                   (e_judge_model env) (a_classifier a)) = Inr Safe
      \<or> (\<exists>sg. default_risk t inp ctx = Inr sg \<and> sg_default_decision sg = DAllow)"
proof (cases "mode ctx = MAcceptEdits \<and> t_kind t = KEdit \<or> mode ctx = MBypass")
  case True
  with assms show ?thesis by (auto simp: authorize_rest_def split: if_splits)
next
  case False
  with assms obtain outcome where o: "decide (snapshot (a_rules a)) t inp ctx = Inr outcome"
      "fst (apply_outcome env outcome t inp ctx a) = Inr (PermissionAllow reason)"
    by (auto simp: authorize_rest_def split: if_splits sum.splits)
  from apply_outcome_allow [OF o(2)] decide_risk [OF o(1)] show ?thesis
    using handle_ask_allow [of env outcome t inp ctx a reason] by auto
qed

lemma decide_destructive:
  "decide rules t inp ctx = Inr outcome \<Longrightarrow> is_destructive t inp = Inr (outcome_destructive outcome)"
  by (auto simp: decide_def ebind_Inr_iff split: option.splits)

lemma AllowAlways_button: "AllowAlways \<in> btn_outcome ` set (ask_buttons d) \<longleftrightarrow> \<not> d"
  by (auto simp: ask_buttons_def)

lemma once_and_deny_buttons:
  "AllowOnce \<in> btn_outcome ` set (ask_buttons d)" "DenyCall \<in> btn_outcome ` set (ask_buttons d)"
  by (auto simp: ask_buttons_def)

text \<open>Arbitration, once the engine has an outcome with a deny rule.\<close>

lemma apply_outcome_deny_rule:
  assumes "rule_behavior outcome = Some Deny" "matched_rule outcome = Some r"
  shows "apply_outcome env outcome t inp ctx a =
           (Inr (PermissionDeny (''tool call denied by rule '' @ rule_id r) (rule_reason r)), a)"
  using assms by (simp add: apply_outcome_def)

lemma deny_rule_denies:
  assumes "reaches_rules env t inp ctx a"
    and "matcher_total t inp p" "default_risk t inp ctx = Inr sg" "is_destructive t inp = Inr d"
    and "r \<in> set (snapshot (a_rules a))" "rule_applies t p r" "behavior r = Deny"
  shows "\<exists>m q. decision_of env t inp ctx a = PermissionDeny m (rule_reason q)
               \<and> q \<in> set (snapshot (a_rules a)) \<and> behavior q = Deny"
proof -
  have "first_with t p Deny (snapshot (a_rules a)) \<noteq> None"
    using assms(5-7) by (auto simp: first_with_None_iff)
  then obtain q where q: "first_with t p Deny (snapshot (a_rules a)) = Some q" by blast
  then have "effective_rule t p (snapshot (a_rules a)) = Some q" by (simp add: effective_rule_def)
  with q assms(1) have "decision_of env t inp ctx a =
      PermissionDeny (''tool call denied by rule '' @ rule_id q) (rule_reason q)"
    by (simp add: decision_of_eq authorize_impl_rules decide_effective [OF assms(2-4)]
        first_with_behavior apply_outcome_deny_rule)
  moreover have "q \<in> set (snapshot (a_rules a))" "behavior q = Deny"
    using q by (auto simp: first_with_def find_Some_iff)
  ultimately show ?thesis by blast
qed

lemma blocked_name_applies:
  "rv_content (rule_value r) = None \<Longrightarrow> rule_blocks_tool_name r (t_name t) \<Longrightarrow> rule_applies t p r"
  by (auto simp: rule_blocks_tool_name_def rule_applies_def rule_matches_tool_def matches_name_def
      Let_def split: if_splits)

text \<open>Dropping the allow rules from the store.\<close>

definition without_allow_rules :: "authorizer \<Rightarrow> authorizer" where
  "without_allow_rules a =
     a\<lparr>a_rules := \<lparr>config_rules = filter (\<lambda>r. behavior r \<noteq> Allow) (config_rules (a_rules a)),
                  flag_rules = filter (\<lambda>r. behavior r \<noteq> Allow) (flag_rules (a_rules a))\<rparr>\<rparr>"

lemma without_allow_rules_simps [simp]:
  "a_grants (without_allow_rules a) = a_grants a"
  "a_classifier (without_allow_rules a) = a_classifier a"
  "a_slugs (without_allow_rules a) = a_slugs a"
  "snapshot (a_rules (without_allow_rules a)) = filter (\<lambda>r. behavior r \<noteq> Allow) (snapshot (a_rules a))"
  by (simp_all add: without_allow_rules_def snapshot_def)

lemma effective_rule_filter:
  "effective_rule t p (filter (\<lambda>r. behavior r \<noteq> Allow) rules) =
     (case effective_rule t p rules of
        Some r \<Rightarrow> if behavior r = Allow then None else Some r
      | None \<Rightarrow> None)"
proof -
  have "first_with t p b (filter (\<lambda>r. behavior r \<noteq> Allow) rules) =
          (if b = Allow then None else first_with t p b rules)" for b
    by (induction rules) auto
  then show ?thesis
    by (auto simp: effective_rule_def dest: first_with_behavior split: option.splits)
qed

text \<open>An outcome with an allow rule and the same outcome with no rule decide alike.\<close>

lemma prompt_user_kind:
  "map_sum id decision_kind_of (prompt_user \<lparr>matched_rule = r, rule_behavior = b, suggestion = sg,
       outcome_destructive = d\<rparr> t inp) =
   map_sum id decision_kind_of (prompt_user \<lparr>matched_rule = None, rule_behavior = None, suggestion = sg,
       outcome_destructive = d\<rparr> t inp)"
  by (cases "build_ask_message t inp (sg_reason sg)") (simp_all add: prompt_user_def)

lemma handle_ask_kind:
  "map_sum id decision_kind_of (fst (handle_ask env \<lparr>matched_rule = r, rule_behavior = b, suggestion = sg,
       outcome_destructive = d\<rparr> t inp ctx a)) =
   map_sum id decision_kind_of (fst (handle_ask env \<lparr>matched_rule = None, rule_behavior = None,
       suggestion = sg, outcome_destructive = d\<rparr> t inp ctx (without_allow_rules a)))"
  by (simp add: handle_ask_def Let_def prompt_user_kind [of r b]
      split: prod.split sum.split verdict.split)

lemma apply_outcome_allow_inert:
  assumes "b = Some Allow"
  shows "map_sum id decision_kind_of (fst (apply_outcome env \<lparr>matched_rule = Some r, rule_behavior = b,
           suggestion = sg, outcome_destructive = d\<rparr> t inp ctx a)) =
         map_sum id decision_kind_of (fst (apply_outcome env \<lparr>matched_rule = None, rule_behavior = None,
           suggestion = sg, outcome_destructive = d\<rparr> t inp ctx (without_allow_rules a)))"
  using assms handle_ask_kind [of env "Some r" b sg d t inp ctx a]
  by (cases "sg_default_decision sg") (simp_all add: apply_outcome_def)

lemma apply_outcome_kind_store:
  "map_sum id decision_kind_of (fst (apply_outcome env outcome t inp ctx a)) =
   map_sum id decision_kind_of (fst (apply_outcome env outcome t inp ctx (without_allow_rules a)))"
proof -
  have "fst (handle_ask env outcome t inp ctx a) = fst (handle_ask env outcome t inp ctx (without_allow_rules a))"
    by (simp add: handle_ask_def Let_def split: prod.split sum.split verdict.split)
  then show ?thesis by (auto simp: apply_outcome_def Let_def split: option.splits)
qed

lemma authorize_rest_kind:
  assumes "matcher_total t inp p"
  shows "map_sum id decision_kind_of (fst (authorize_rest env t inp ctx a)) =
         map_sum id decision_kind_of (fst (authorize_rest env t inp ctx (without_allow_rules a)))"
proof (cases "\<exists>sg d. default_risk t inp ctx = Inr sg \<and> is_destructive t inp = Inr d")
  case True
  then obtain sg d where "default_risk t inp ctx = Inr sg" "is_destructive t inp = Inr d" by blast
  note eff = decide_effective [OF assms this]
  show ?thesis
  proof (cases "effective_rule t p (snapshot (a_rules a))")
    case None
    then show ?thesis
      using apply_outcome_kind_store [of env _ t inp ctx a]
      by (simp add: authorize_rest_def eff effective_rule_filter)
  next
    case (Some r)
    then show ?thesis
      using apply_outcome_kind_store [of env _ t inp ctx a]
        apply_outcome_allow_inert [of "Some Allow" env r sg d t inp ctx a]
      by (simp add: authorize_rest_def eff effective_rule_filter)
  qed
next
  case False
  obtain s s' where "scan_rules t inp (snapshot (a_rules a)) scan_init = Inr s"
      "scan_rules t inp (snapshot (a_rules (without_allow_rules a))) scan_init = Inr s'"
    using scan_rules_returns [OF assms] by metis
  with False show ?thesis
    by (cases "default_risk t inp ctx"; cases "is_destructive t inp")
      (auto simp: authorize_rest_def decide_def)
qed

lemma kind_of_result:
  "map_sum id decision_kind_of x = map_sum id decision_kind_of y \<Longrightarrow>
     decision_kind_of (case x of Inr d \<Rightarrow> d | Inl e \<Rightarrow> PermissionDeny m r) =
     decision_kind_of (case y of Inr d \<Rightarrow> d | Inl e \<Rightarrow> PermissionDeny m r)"
  by (cases x; cases y) auto

section \<open>Reachable states\<close>

text \<open>Everything the kernel calls on an authorizer, config reloads included.\<close>

inductive auth_reachable :: "authorizer \<Rightarrow> bool" where
  ar_new: "auth_reachable new_authorizer"
| ar_startup: "auth_reachable a \<Longrightarrow> auth_reachable (auth_startup section a)"
| ar_shutdown: "auth_reachable a \<Longrightarrow> auth_reachable (auth_shutdown a)"
| ar_reload: "auth_reachable a \<Longrightarrow> auth_reachable (a\<lparr>a_rules := rules_on_change sec (a_rules a)\<rparr>)"
| ar_flags: "auth_reachable a \<Longrightarrow> auth_reachable (a\<lparr>a_rules := load_flag_layer al de ak (a_rules a)\<rparr>)"
| ar_open: "auth_reachable a \<Longrightarrow> auth_reachable (auth_on_session_open sid a)"
| ar_close: "auth_reachable a \<Longrightarrow> auth_reachable (auth_on_session_close sid a)"
| ar_grant: "auth_reachable a \<Longrightarrow> auth_reachable (auth_grant env now t inp ctx a)"
| ar_authorize: "auth_reachable a \<Longrightarrow> auth_reachable (snd (snd (authorize env t inp ctx a)))"

definition auth_inv :: "authorizer \<Rightarrow> bool" where
  "auth_inv a \<longleftrightarrow> store_ok (a_rules a) \<and> classifier_inv (a_classifier a) \<and> slugs_ok (a_slugs a)
     \<and> (\<forall>sid b sig g. map_of (a_grants a) sid = Some b \<longrightarrow> map_of b sig = Some g \<longrightarrow> ge_signature g = sig)"

lemma classifier_inv_cong:
  "counters b = counters b' \<Longrightarrow> classifier_inv b = classifier_inv b'"
  by (simp add: classifier_inv_def session_counters_def)

text \<open>\<open>authorize\<close> itself writes only the denial counters and the slug cache.\<close>

lemma handle_ask_state:
  "snd (handle_ask env outcome t inp ctx a) = a
   \<or> snd (handle_ask env outcome t inp ctx a) =
       a\<lparr>a_classifier := snd (classify (e_judge env) (session_id ctx) (command_text env inp) (cwd ctx)
                               (e_judge_model env) (a_classifier a))\<rparr>"
  by (auto simp: handle_ask_def Let_def split: prod.splits sum.splits verdict.splits)

lemma authorize_rest_state:
  "snd (authorize_rest env t inp ctx a) = a
   \<or> snd (authorize_rest env t inp ctx a) =
       a\<lparr>a_classifier := snd (classify (e_judge env) (session_id ctx) (command_text env inp) (cwd ctx)
                               (e_judge_model env) (a_classifier a))\<rparr>"
  using handle_ask_state [of env _ t inp ctx a]
  by (auto simp: authorize_rest_def apply_outcome_def Let_def split: sum.splits option.splits)

lemma authorize_state:
  "snd (snd (authorize env t inp ctx a)) = a
   \<or> snd (snd (authorize env t inp ctx a)) =
       a\<lparr>a_classifier := snd (classify (e_judge env) (session_id ctx) (command_text env inp) (cwd ctx)
                               (e_judge_model env) (a_classifier a))\<rparr>
   \<or> snd (snd (authorize env t inp ctx a)) =
       a\<lparr>a_slugs := snd (is_plan_file_write env t inp ctx (a_slugs a))\<rparr>"
proof -
  have "snd (snd (authorize env t inp ctx a)) = snd (authorize_impl env t inp ctx a)"
    by (simp add: authorize_def Let_def split: prod.splits)
  moreover have "snd (authorize_impl env t inp ctx a) = a
     \<or> snd (authorize_impl env t inp ctx a) = snd (authorize_rest env t inp ctx a)
     \<or> snd (authorize_impl env t inp ctx a) = a\<lparr>a_slugs := snd (is_plan_file_write env t inp ctx (a_slugs a))\<rparr>"
    by (auto simp: authorize_impl_def Let_def split: option.splits sum.splits bool.splits prod.splits)
  ultimately show ?thesis using authorize_rest_state [of env t inp ctx a] by metis
qed

lemma slugs_ok_plan_write: "slugs_ok s \<Longrightarrow> slugs_ok (snd (is_plan_file_write env t inp ctx s))"
  using get_plan_slug_ok [of s "e_plans env" "session_id ctx"]
  by (auto simp: is_plan_file_write_def is_session_plan_file_def Let_def split: option.splits prod.splits)

lemma auth_inv_grants:
  assumes "auth_inv a"
  shows "auth_inv (auth_grant env now t inp ctx a)"
  using assms
  by (auto simp: auth_inv_def auth_grant_def cache_grant_def Let_def split: if_splits option.splits)

lemma auth_reachable_inv: "auth_reachable a \<Longrightarrow> auth_inv a"
proof (induction rule: auth_reachable.induct)
  case ar_new
  show ?case
    by (simp add: auth_inv_def new_authorizer_def new_rule_store_def new_grant_cache_def store_ok_def
        layer_ok_def classifier_inv_def session_counters_def new_bash_classifier_def slugs_ok_def)
next
  case (ar_startup a sec)
  then show ?case
    by (auto simp: auth_inv_def auth_startup_def store_ok_def bind_config_def parse_section_def
        layer_ok_build_rules classifier_inv_def session_counters_def split: sum.splits)
next
  case (ar_open a sid)
  then show ?case
    by (auto simp: auth_inv_def auth_on_session_open_def classifier_inv_def denials.bucket_open
        grants.bucket_open split: if_splits option.splits)
next
  case (ar_close a sid)
  then show ?case
    by (auto simp: auth_inv_def auth_on_session_close_def classifier_inv_def denials.bucket_close
        grants.bucket_close split: if_splits)
next
  case (ar_authorize a env t inp ctx)
  then show ?case
    using authorize_state [of env t inp ctx a]
    by (auto simp: auth_inv_def classifier_inv_classify slugs_ok_plan_write)
next
  case (ar_grant a env now t inp ctx)
  then show ?case by (blast intro: auth_inv_grants)
qed (auto simp: auth_inv_def auth_shutdown_def cache_clear_def store_ok_def rules_on_change_def
      load_flag_layer_def parse_section_def layer_ok_build_rules)

section \<open>Concrete environment for the instances\<close>

definition demo_env :: auth_env where
  "demo_env =
     \<lparr>e_signature = \<lparr>orjson_dumps = (\<lambda>inp. Inr (concat (map fst inp))), repr_sorted_items = (\<lambda>inp. []),
                     sha256_hexdigest = (\<lambda>s. s)\<rparr>,
      e_judge = demo_judge, e_process = demo_process, e_plans = demo_plans,
      e_judge_model = Some demo_model, e_model_used = (\<lambda>m. Inl (PyExn ''ValidationError'')),
      e_hooks = True, e_str = (\<lambda>v. [])\<rparr>"

text \<open>An authorizer that has read one deny rule for the tool \<open>Echo\<close> from its config.\<close>

definition demo_section :: permissions_section where
  "demo_section = \<lparr>sec_allow = [''Bash''], sec_deny = [''Echo''], sec_ask = [],
                   bash_llm_judge_enabled = True, bash_llm_judge_fail_closed = True, bash_safe_commands = []\<rparr>"

definition demo_auth :: authorizer where
  "demo_auth = auth_startup (Inr demo_section) new_authorizer"

section \<open>Properties\<close>



text \<open>
  The two deny filters agree: a tool name that \<open>filter_denied_tools\<close> removes from the
  tool pool is also denied by \<open>authorize()\<close> for every input, when no guard, grant or mode
  decides the call first.
\<close>

theorem filtered_tool_is_denied:
  assumes "t_name t \<in> set (filter_denied_tools a names)"
    and "reaches_rules env t inp ctx a"
    and "matcher_total t inp p" "default_risk t inp ctx = Inr sg" "is_destructive t inp = Inr d"
  shows "decision_kind_of (decision_of env t inp ctx a) = DDeny"
proof -
  from assms(1) obtain r where r: "r \<in> set (snapshot (a_rules a))" "behavior r = Deny"
      "rv_content (rule_value r) = None" "rule_blocks_tool_name r (t_name t)"
    by (auto simp: filter_denied_tools_def list_ex_iff)
  from deny_rule_denies [OF assms(2-5) r(1) blocked_name_applies [OF r(3,4)] r(2)]
  show ?thesis by auto
qed

theorem filtered_tool_is_denied_witness:
  "decision_kind_of (decision_of demo_env echo_tool [] demo_ctx demo_auth) = DDeny"
  by (rule filtered_tool_is_denied [where names = "[''Echo'', ''Read'']", OF _ _ echo_tool_contract])
    code_simp+

text \<open>
  The runtime guard has the last word: a call it refuses is denied with its message in
  every mode, \<open>bypass\<close> included, and even with a session grant for that exact call.
\<close>

theorem runtime_guard_dominates:
  assumes "runtime_kill_denial (e_process env) t inp = Some message"
  shows "decision_of env t inp ctx a =
           PermissionDeny message
             (ReasonDefaultRisk High ''protected DeepCLI runtime lifecycle'' (t_name t))
         \<and> snd (snd (authorize env t inp ctx a)) = a"
  using assms by (simp add: authorize_def authorize_impl_def Let_def)

theorem runtime_guard_dominates_witness:
  "decision_kind_of
     (decision_of demo_env demo_shell [(''command'', JStr ''kill 42'')] (demo_ctx\<lparr>mode := MBypass\<rparr>)
        (auth_grant demo_env 5 demo_shell [(''command'', JStr ''kill 42'')] demo_ctx demo_auth)) = DDeny"
proof -
  have "runtime_kill_denial (e_process demo_env) demo_shell [(''command'', JStr ''kill 42'')]
      = Some RUNTIME_DENY_MESSAGE"
    by code_simp
  from runtime_guard_dominates [OF this] show ?thesis by simp
qed

text \<open>
  An unreachable user is never asked: with \<open>should_avoid_prompts\<close>, or in \<open>dont_ask\<close> mode,
  no call in any state of the authorizer returns an ask.
\<close>

theorem no_prompt_when_unreachable:
  assumes "should_avoid_prompts ctx \<or> mode ctx = MDontAsk"
  shows "decision_kind_of (decision_of env t inp ctx a) \<noteq> DAsk"
proof
  assume "decision_kind_of (decision_of env t inp ctx a) = DAsk"
  then obtain m r bs where "decision_of env t inp ctx a = PermissionAsk m r bs"
    by (cases "decision_of env t inp ctx a") auto
  then show False by (rule authorize_ask) (use assms in auto)
qed

theorem no_prompt_when_unreachable_witness:
  "decision_kind_of (decision_of demo_env demo_shell [(''command'', JStr ''ls'')]
     (demo_ctx\<lparr>should_avoid_prompts := True\<rparr>) demo_auth) \<noteq> DAsk"
  by (rule no_prompt_when_unreachable) (simp add: demo_ctx_def)

text \<open>
  A prompt never offers \<open>allow_always\<close> for a destructive call and offers it for every
  other call; \<open>allow_once\<close> and \<open>deny\<close> are always offered. With the grant cache fed by that
  button only, no destructive call obtains a standing grant.
\<close>

theorem destructive_never_allow_always:
  assumes "decision_of env t inp ctx a = PermissionAsk m r bs"
  shows "(AllowAlways \<in> btn_outcome ` set bs \<longleftrightarrow> is_destructive t inp = Inr False)
       \<and> AllowOnce \<in> btn_outcome ` set bs \<and> DenyCall \<in> btn_outcome ` set bs"
  using assms
proof (rule authorize_ask)
  fix outcome
  assume "decide (snapshot (a_rules a)) t inp ctx = Inr outcome"
    and bs: "bs = ask_buttons (outcome_destructive outcome)"
  then have "is_destructive t inp = Inr (outcome_destructive outcome)" by (blast intro: decide_destructive)
  with bs show ?thesis using AllowAlways_button once_and_deny_buttons by auto
qed

definition rm_tool :: tool where
  "rm_tool = echo_tool\<lparr>t_name := ''Remove'', t_aliases := [], is_destructive := (\<lambda>inp. Inr True),
     default_risk := (\<lambda>inp ctx. Inr \<lparr>sg_risk = High, sg_default_decision = DAsk, sg_reason = ''removes''\<rparr>)\<rparr>"

theorem destructive_never_allow_always_witness:
  "AllowAlways \<notin> btn_outcome ` set (ask_buttons True)"
proof -
  have "decision_of demo_env rm_tool [] demo_ctx demo_auth =
      PermissionAsk ''Echo (removes)'' (ReasonDefaultRisk High ''removes'' ''Remove'') (ask_buttons True)"
    by code_simp
  from destructive_never_allow_always [OF this] show ?thesis by (simp add: rm_tool_def)
qed





text \<open>
  C11. Allow rules are inert: for every call and every state, deleting all allow rules from the
  store leaves the kind of the decision (allow, ask or deny) unchanged. An allow rule is only
  consulted after the tool's own suggestion was neither deny nor ask, so it never turns a
  prompt, or a denial of \<open>dont_ask\<close> mode, into an allow.
\<close>

theorem allow_rules_inert:
  assumes "matcher_total t inp p"
  shows "decision_kind_of (decision_of env t inp ctx (without_allow_rules a)) =
         decision_kind_of (decision_of env t inp ctx a)"
proof -
  have "map_sum id decision_kind_of (fst (authorize_impl env t inp ctx (without_allow_rules a))) =
        map_sum id decision_kind_of (fst (authorize_impl env t inp ctx a))"
    using authorize_rest_kind [OF assms, of env ctx a]
    by (auto simp: authorize_impl_def Let_def split: option.split sum.split bool.split prod.split)
  then show ?thesis unfolding decision_of_eq by (rule kind_of_result)
qed

theorem allow_rules_inert_witness:
  "decision_kind_of (decision_of demo_env demo_shell [(''command'', JStr ''make'')]
       (demo_ctx\<lparr>mode := MDontAsk\<rparr>) demo_auth) = DDeny
   \<and> list_ex (\<lambda>r. behavior r = Allow \<and> rule_matches_tool r demo_shell) (snapshot (a_rules demo_auth))
   \<and> decision_kind_of (decision_of demo_env demo_shell [(''command'', JStr ''make'')]
       (demo_ctx\<lparr>mode := MDontAsk\<rparr>) (without_allow_rules demo_auth)) = DDeny"
proof -
  have "matcher_total demo_shell [(''command'', JStr ''make'')] (\<lambda>c. False)"
    by (simp add: matcher_total_def demo_shell_def)
  note allow_rules_inert [OF this, of demo_env "demo_ctx\<lparr>mode := MDontAsk\<rparr>" demo_auth]
  moreover have "decision_kind_of (decision_of demo_env demo_shell [(''command'', JStr ''make'')]
       (demo_ctx\<lparr>mode := MDontAsk\<rparr>) demo_auth) = DDeny"
    "list_ex (\<lambda>r. behavior r = Allow \<and> rule_matches_tool r demo_shell) (snapshot (a_rules demo_auth))"
    by code_simp+
  ultimately show ?thesis by simp
qed

text \<open>
  C10. Session grants: after \<open>grant\<close> of a call, \<open>authorize\<close> allows that call in that session by
  the grant, in every mode and against every rule, unless the runtime guard refuses it; a call
  with another signature or in another session finds exactly the grants it had before; and
  closing the session forgets the grant.
\<close>

theorem grant_scope:
  assumes "runtime_kill_denial (e_process env) t inp = None" "session_id ctx' = session_id ctx"
  shows "decision_of env t inp ctx' (auth_grant env now t inp ctx a) =
           PermissionAllow (ReasonSessionGrant now (compute_signature (e_signature env) t inp))
       \<and> (sid \<noteq> session_id ctx \<or> compute_signature (e_signature env) t' inp' \<noteq> compute_signature (e_signature env) t inp
            \<longrightarrow> cache_check (e_signature env) sid t' inp' (a_grants (auth_grant env now t inp ctx a)) =
                cache_check (e_signature env) sid t' inp' (a_grants a))
       \<and> cache_check (e_signature env) (session_id ctx) t inp
           (a_grants (auth_on_session_close (session_id ctx) (auth_grant env now t inp ctx a))) = None"
proof -
  let ?c = "snd (cache_grant (e_signature env) now (session_id ctx) t inp (a_grants a))"
  have grants: "a_grants (auth_grant env now t inp ctx a) = ?c" by (simp add: auth_grant_def)
  have at: "ge_granted_at (fst (cache_grant (e_signature env) now (session_id ctx) t inp (a_grants a))) = now"
    by (simp add: cache_grant_def Let_def)
  show ?thesis
    using assms gs.check_grant gs.grant_entry_signature gs.grant_then_close at
    by (auto simp: decision_of_eq authorize_impl_def grants auth_on_session_close_def)
qed

theorem grant_scope_witness:
  "decision_of demo_env echo_tool [] (demo_ctx\<lparr>mode := MPlan\<rparr>)
     (auth_grant demo_env 7 echo_tool [] demo_ctx demo_auth) =
   PermissionAllow (ReasonSessionGrant 7 (compute_signature (e_signature demo_env) echo_tool []))"
proof -
  have "runtime_kill_denial (e_process demo_env) echo_tool [] = None"
    "session_id (demo_ctx\<lparr>mode := MPlan\<rparr>) = session_id demo_ctx" by code_simp+
  from grant_scope [OF this] show ?thesis by blast
qed

text \<open>
  The classifier's verdict cannot be recorded: pydantic rejects the \<open>ModelRef\<close> that is
  handed to the string field \<open>model_used\<close>, so when the judge answers safe for a
  shell command that would be asked, \<open>authorize\<close> fails closed with a crash denial instead of
  allowing the command.
\<close>

theorem safe_verdict_crashes:
  assumes "e_model_used env model = Inl exn" "e_judge_model env = Some model"
    and "reaches_rules env t inp ctx a" "mode ctx \<noteq> MDontAsk" "mode ctx \<noteq> MAuto" "\<not> should_avoid_prompts ctx"
    and "decide (snapshot (a_rules a)) t inp ctx = Inr outcome"
    and "rule_behavior outcome = None" "sg_default_decision (suggestion outcome) = DAsk"
    and "t_name t \<in> set SHELL_TOOL_NAMES" "enabled (a_classifier a)"
    and "fst (classify (e_judge env) (session_id ctx) (command_text env inp) (cwd ctx)
                (Some model) (a_classifier a)) = Inr Safe"
  shows "decision_of env t inp ctx a =
           PermissionDeny ''permission check failed'' (ReasonFailClosed ''authorize_crash'')"
proof -
  have "fst (handle_ask env outcome t inp ctx a) = Inl exn"
    using assms by (auto simp: handle_ask_def Let_def classifier_reason_def split: prod.splits)
  then show ?thesis
    using assms by (auto simp: decision_of_eq authorize_impl_rules apply_outcome_def)
qed

theorem safe_verdict_crashes_witness:
  "decision_of demo_env demo_shell [(''command'', JStr ''ls'')] demo_ctx (auth_startup (Inr (demo_section\<lparr>sec_allow := []\<rparr>)) new_authorizer) =
     PermissionDeny ''permission check failed'' (ReasonFailClosed ''authorize_crash'')"
  by (rule safe_verdict_crashes [where model = demo_model and exn = "PyExn ''ValidationError''"
        and outcome = "\<lparr>matched_rule = None, rule_behavior = None,
          suggestion = \<lparr>sg_risk = Medium, sg_default_decision = DAsk, sg_reason = ''shell''\<rparr>,
          outcome_destructive = False\<rparr>"]) code_simp+



text \<open>
  A judge's answer that is valid JSON but not an object (a list, a string, a number) is
  not read as unknown: \<open>_parse_verdict\<close> raises, \<open>classify\<close> leaves the counters as they were and
  raises, whatever \<open>fail_closed\<close> says.
\<close>

theorem non_object_verdict_raises:
  assumes "orjson_loads env (strip_fence raw) = Inr v" "\<forall>d. v \<noteq> JDict d"
    and "stream_to_text env model command w = Inr raw"
    and "session_counters b sid = Some c" "\<not> budget_exceeded c" "enabled b"
  shows "classify env sid command w (Some model) b = (Inl (PyExn ''AttributeError''), b)"
proof -
  have "parse_verdict env raw = Inl (PyExn ''AttributeError'')"
    using assms(1,2) by (cases v) (auto simp: parse_verdict_def)
  with assms(3-6) show ?thesis
    by (simp add: classify_def session_counters_def dict_setdefault_def)
qed

theorem non_object_verdict_raises_witness:
  "classify (demo_judge\<lparr>orjson_loads := (\<lambda>s. Inr (JList []))\<rparr>) ''s'' ''ls'' ''/'' (Some demo_model)
     (classifier_on_session_open ''s'' new_bash_classifier) =
   (Inl (PyExn ''AttributeError''), classifier_on_session_open ''s'' new_bash_classifier)"
  by (rule non_object_verdict_raises [where raw = "''x''" and v = "JList []" and c = new_counters])
    (simp, simp, code_simp+)

end
