(* ===== verification/Tool_Execution.thy ===== *)
theory Tool_Execution
  imports Authorizer Conversation_History
begin

text \<open>
  Execution of tool calls (\<open>orchestrator/tools_exec/\<close>): the partition into batches, the
  authorization round trip with the user, the pipeline of one call (validation, authorization,
  pre-use hook, call, post hooks, result mapping) and the merging of concurrent queues. The
  executor's own state is the authorizer, the queued reminders, the working directory, the files
  reported to the skill manager and, as a trace, the inputs handed to \<open>tool.call\<close>. The tools,
  the user's answer and the hooks are arguments; the text of an exception stands for \<open>str(exc)\<close>.
\<close>

section \<open>Tools, requests and events\<close>

datatype tool_event =
    ToolProgress "result_part list"
  | ToolPassthrough string
  | ToolResult "result_part list" "string py option"

text \<open>
  A tool's event stream is the list of its events and the way it ends. The second component of
  \<open>ToolResult\<close> is the context modifier: the working directory it yields, or its exception.
\<close>

datatype call_end = CallDone | CallRaised string | CallCancelled

record exec_tool = tool +
  validate_input :: "tool_input \<Rightarrow> unit py"
  is_concurrency_safe :: bool
  max_result_size_chars :: nat
  execution_metadata :: "tool_input \<Rightarrow> json option py"
  call_tool :: "tool_input \<Rightarrow> tool_event list \<times> call_end"

record tool_use =
  tu_id :: string
  tu_name :: string
  tu_input :: tool_input

definition use_block :: "tool_use \<Rightarrow> assistant_content" where
  "use_block tc = ToolUseContent (tu_id tc) (tu_name tc) (tu_input tc)"

datatype option_kind = KindAllowOnce | KindAllowAlways | KindRejectOnce

record permission_option =
  option_id :: string
  option_name :: string
  opt_kind :: option_kind

record permission_request =
  req_tool_use_id :: string
  req_tool_name :: string
  req_tool_title :: string
  req_input_summary :: string
  req_risk_level :: risk
  req_tool_input :: tool_input
  req_options :: "permission_option list"

datatype response_decision = RespAllowOnce | RespAllowAlways | RespReject

record permission_response =
  resp_decision :: response_decision
  resp_updated_input :: "tool_input option"

datatype orch_event =
    ToolCallStart string string tool_kind "string option" "json option"
  | ToolCallProgress string "result_part list"
  | ToolCallResult string "result_part list"
  | ToolCallError string string
  | PassthroughEvent string

type_synonym event_pair = "orch_event \<times> user_content option"

record exec_env =
  x_auth :: auth_env
  x_now :: int
  x_on_permission :: "permission_request \<Rightarrow> permission_response py"
  x_hooks :: "hook_registry option"
  x_lookup :: "(string \<Rightarrow> exec_tool option) option"
  x_session_id :: string
  x_agent_depth :: nat
  x_avoid_prompts :: "bool py option"
  x_mode :: permission_mode

record exec_state =
  xs_authorizer :: "authorizer option"
  xs_cwd :: string
  xs_reminders :: "string list"
  xs_touched :: "string list"
  xs_called :: "(string \<times> tool_input) list"

section \<open>Batches\<close>

definition call_is_safe :: "(string \<Rightarrow> exec_tool option) option \<Rightarrow> tool_use \<Rightarrow> bool" where
  "call_is_safe lookup tc =
     (case lookup of
        None \<Rightarrow> False
      | Some f \<Rightarrow> (case f (tu_name tc) of None \<Rightarrow> False | Some t \<Rightarrow> is_concurrency_safe t))"

text \<open>The loop with its accumulator \<open>safe_acc\<close>; the batches come out in order.\<close>

fun partition_loop ::
    "(string \<Rightarrow> exec_tool option) option \<Rightarrow> tool_use list \<Rightarrow> tool_use list \<Rightarrow> tool_use list list" where
  "partition_loop lookup safe_acc [] = (if safe_acc \<noteq> [] then [safe_acc] else [])"
| "partition_loop lookup safe_acc (tc # tcs) =
     (if call_is_safe lookup tc then partition_loop lookup (safe_acc @ [tc]) tcs
      else (if safe_acc \<noteq> [] then [safe_acc] else []) @ [tc] # partition_loop lookup [] tcs)"

definition partition_tool_calls ::
    "(string \<Rightarrow> exec_tool option) option \<Rightarrow> tool_use list \<Rightarrow> tool_use list list" where
  "partition_tool_calls lookup tcs = partition_loop lookup [] tcs"

section \<open>Results\<close>

definition error_tuple :: "tool_use \<Rightarrow> string \<Rightarrow> event_pair" where
  "error_tuple tc message =
     (ToolCallError (tu_id tc) message,
      Some (ToolResultContent (tu_id tc) (ResultText message) True))"

definition error_unknown_tool :: "tool_use \<Rightarrow> event_pair list" where
  "error_unknown_tool tc =
     [(ToolCallStart (tu_id tc) (tu_name tc) KOther None None, None),
      error_tuple tc (''tool '' @ py_repr_str (tu_name tc) @ '' is not registered'')]"

fun part_text :: "result_part \<Rightarrow> string option" where
  "part_text (PartText t) = Some t"
| "part_text (PartImage m d) = None"

definition coerce_content :: "result_part list \<Rightarrow> result_content" where
  "coerce_content blocks =
     (if list_all (\<lambda>b. part_text b \<noteq> None) blocks
      then ResultText (py_join [CHR 0x0A] (map (\<lambda>b. the (part_text b)) blocks))
      else ResultParts blocks)"

fun apply_result_budget :: "result_content \<Rightarrow> nat \<Rightarrow> result_content" where
  "apply_result_budget (ResultText s) budget =
     (if length s \<le> budget then ResultText s
      else ResultText (take budget s @ [CHR 0x0A, CHR 0x0A] @ ''[tool result truncated '' @ [em_dash] @ '' '' @
             py_str_nat (length s) @ '' chars, kept first '' @ py_str_nat budget @ '' chars]''))"
| "apply_result_budget (ResultParts ps) budget = ResultParts ps"

section \<open>Authorization\<close>

fun risk_from_decision :: "permission_decision \<Rightarrow> risk" where
  "risk_from_decision (PermissionAsk m (ReasonDefaultRisk r a b) bs) = r"
| "risk_from_decision (PermissionDeny m (ReasonDefaultRisk r a b)) = r"
| "risk_from_decision (PermissionAllow (ReasonDefaultRisk r a b)) = r"
| "risk_from_decision _ = Medium"

fun option_from_suggestion :: "suggestion_btn \<Rightarrow> permission_option" where
  "option_from_suggestion btn =
     (case btn_outcome btn of
        AllowOnce \<Rightarrow> \<lparr>option_id = ''allow_once'',
          option_name = (if btn_label btn \<noteq> [] then btn_label btn else ''Allow once''), opt_kind = KindAllowOnce\<rparr>
      | AllowAlways \<Rightarrow> \<lparr>option_id = ''allow_always'',
          option_name = (if btn_label btn \<noteq> [] then btn_label btn else ''Allow always''), opt_kind = KindAllowAlways\<rparr>
      | DenyCall \<Rightarrow> \<lparr>option_id = ''reject'',
          option_name = (if btn_label btn \<noteq> [] then btn_label btn else ''Reject''), opt_kind = KindRejectOnce\<rparr>)"

definition permission_options_from_suggestions :: "suggestion_btn list \<Rightarrow> permission_option list" where
  "permission_options_from_suggestions = map option_from_suggestion"

definition should_avoid :: "exec_env \<Rightarrow> bool" where
  "should_avoid x =
     (case x_avoid_prompts x of None \<Rightarrow> False | Some (Inl e) \<Rightarrow> False | Some (Inr b) \<Rightarrow> b)"

definition build_authorize_context :: "exec_env \<Rightarrow> exec_state \<Rightarrow> authorize_context" where
  "build_authorize_context x st =
     \<lparr>session_id = x_session_id x, agent_depth = x_agent_depth x, mode = x_mode x, cwd = xs_cwd st,
      should_avoid_prompts = should_avoid x\<rparr>"

definition permission_request_for ::
    "exec_tool \<Rightarrow> tool_use \<Rightarrow> string \<Rightarrow> string \<Rightarrow> decision_reason \<Rightarrow> suggestion_btn list \<Rightarrow> permission_request" where
  "permission_request_for t tc title message reason buttons =
     \<lparr>req_tool_use_id = tu_id tc, req_tool_name = t_name t, req_tool_title = title,
      req_input_summary = message, req_risk_level = risk_from_decision (PermissionAsk message reason buttons),
      req_tool_input = tu_input tc, req_options = permission_options_from_suggestions buttons\<rparr>"

text \<open>
  \<open>_authorize\<close>: the decision with its \<open>updated_input\<close>, or the exception of
  \<open>user_facing_name\<close>. \<open>authorizer.authorize\<close> itself never raises.
\<close>

definition authorize_call ::
    "exec_env \<Rightarrow> exec_tool \<Rightarrow> tool_use \<Rightarrow> authorize_context \<Rightarrow> exec_state
       \<Rightarrow> (permission_decision \<times> tool_input option) py \<times> exec_state" where
  "authorize_call x t tc ctx st =
     (case xs_authorizer st of
        None \<Rightarrow> (Inr (PermissionAllow (ReasonFailClosed ''authorizer_unavailable''), None), st)
      | Some a \<Rightarrow>
          let (decision, hook, a') = authorize (x_auth x) (tool.truncate t) (tu_input tc) ctx a;
              st' = st\<lparr>xs_authorizer := Some a'\<rparr>
          in (case decision of
                PermissionAsk message reason buttons \<Rightarrow>
                  (case user_facing_name t (tu_input tc) of
                     Inl e \<Rightarrow> (Inl e, st')
                   | Inr title \<Rightarrow>
                       (case x_on_permission x (permission_request_for t tc title message reason buttons) of
                          Inl e \<Rightarrow> (Inr (PermissionDeny ''no interactive channel available'' ReasonNoPrompt, None), st')
                        | Inr response \<Rightarrow>
                            if resp_decision response = RespReject
                            then (Inr (PermissionDeny ''user rejected permission request''
                                         (ReasonFailClosed ''user_reject''), None), st')
                            else (Inr (PermissionAllow (ReasonFailClosed ''user_allow''), resp_updated_input response),
                                  if resp_decision response = RespAllowAlways
                                  then st'\<lparr>xs_authorizer :=
                                         Some (auth_grant (x_auth x) (x_now x) (tool.truncate t) (tu_input tc) ctx a')\<rparr>
                                  else st')))
              | _ \<Rightarrow> (Inr (decision, None), st')))"

section \<open>One call\<close>

definition fire_tool_hook ::
    "exec_env \<Rightarrow> hook_event \<Rightarrow> string \<Rightarrow> tool_input \<Rightarrow> string option \<Rightarrow> string option \<Rightarrow> exec_state
       \<Rightarrow> bool \<times> tool_input \<times> exec_state" where
  "fire_tool_hook x ev name inp output err st =
     (case x_hooks x of
        None \<Rightarrow> (False, inp, st)
      | Some reg \<Rightarrow>
          let (blocked, ctx) = fire reg \<lparr>h_ambient = \<lparr>am_session_id = x_session_id x, am_cwd = xs_cwd st,
                   am_agent_depth = x_agent_depth x, am_mode = x_mode x\<rparr>,
                 h_event = ev, h_tool_name = Some name, h_tool_input = inp,
                 h_tool_output = output, h_error_message = err, h_user_text = None, h_message_count = None,
                 h_token_estimate = None, h_stop_reason = None, h_messages = []\<rparr>
          in (blocked, h_tool_input ctx, st\<lparr>xs_reminders := xs_reminders st @ h_messages ctx\<rparr>))"

definition FILE_MUTATING_TOOLS :: "string list" where
  "FILE_MUTATING_TOOLS = [''Edit'', ''FileEdit'', ''Write'', ''FileWrite'']"

definition notify_file_touched :: "tool_input \<Rightarrow> exec_state \<Rightarrow> exec_state" where
  "notify_file_touched inp st =
     (case input_path inp of None \<Rightarrow> st | Some p \<Rightarrow> st\<lparr>xs_touched := xs_touched st @ [p]\<rparr>)"

text \<open>\<open>updated or original\<close>: an empty dictionary is falsy.\<close>

definition or_input :: "tool_input option \<Rightarrow> tool_input \<Rightarrow> tool_input" where
  "or_input updated inp = (case updated of Some (p # ps) \<Rightarrow> p # ps | _ \<Rightarrow> inp)"

fun progress_pairs :: "string \<Rightarrow> tool_event list \<Rightarrow> event_pair list" where
  "progress_pairs i [] = []"
| "progress_pairs i (ToolProgress ps # es) = (ToolCallProgress i ps, None) # progress_pairs i es"
| "progress_pairs i (ToolPassthrough s # es) = (PassthroughEvent s, None) # progress_pairs i es"
| "progress_pairs i (ToolResult ps m # es) = progress_pairs i es"

fun final_result :: "tool_event list \<Rightarrow> (result_part list \<times> string py option) option" where
  "final_result [] = None"
| "final_result (ToolResult ps m # es) =
     (case final_result es of None \<Rightarrow> Some (ps, m) | Some r \<Rightarrow> Some r)"
| "final_result (_ # es) = final_result es"

datatype run_end = Finished | Raised | Cancelled

text \<open>The end of \<open>_run_one\<close>, once the tool has produced its final result.\<close>

definition deliver_result ::
    "exec_env \<Rightarrow> exec_tool \<Rightarrow> tool_use \<Rightarrow> tool_input \<Rightarrow> result_part list \<Rightarrow> string py option \<Rightarrow> exec_state
       \<Rightarrow> event_pair \<times> exec_state" where
  "deliver_result x t tc eff blocks modifier st =
     (let coerced = coerce_content blocks;
          (blocked, inp', st1) = fire_tool_hook x POST_TOOL_USE (t_name t) eff
             (case coerced of ResultText s \<Rightarrow> Some s | ResultParts ps \<Rightarrow> None) None st;
          st2 = (case modifier of Some (Inr new_cwd) \<Rightarrow> st1\<lparr>xs_cwd := new_cwd\<rparr> | _ \<Rightarrow> st1);
          st3 = (if t_name t \<in> set FILE_MUTATING_TOOLS then notify_file_touched eff st2 else st2)
      in ((ToolCallResult (tu_id tc) blocks,
           Some (ToolResultContent (tu_id tc) (apply_result_budget coerced (max_result_size_chars t)) False)), st3))"

text \<open>From the start event on: the authorized call itself.\<close>

definition run_authorized ::
    "exec_env \<Rightarrow> exec_tool \<Rightarrow> tool_use \<Rightarrow> tool_input \<Rightarrow> exec_state
       \<Rightarrow> event_pair list \<times> run_end \<times> exec_state" where
  "run_authorized x t tc eff st =
     (case (user_facing_name t eff, execution_metadata t eff) of
        (Inl e, _) \<Rightarrow> ([], Raised, st)
      | (_, Inl e) \<Rightarrow> ([], Raised, st)
      | (Inr title, Inr meta) \<Rightarrow>
          let raw = (case orjson_dumps (e_signature (x_auth x)) eff of Inl e \<Rightarrow> None | Inr s \<Rightarrow> Some (take 2000 s));
              start = (ToolCallStart (tu_id tc) title (t_kind t) raw meta, None);
              (events, ending) = call_tool t eff;
              st1 = st\<lparr>xs_called := xs_called st @ [(t_name t, eff)]\<rparr>;
              pre = start # progress_pairs (tu_id tc) events
          in (case ending of
                CallCancelled \<Rightarrow> (pre, Cancelled, st1)
              | CallRaised msg \<Rightarrow>
                  (let (blocked, inp', st2) = fire_tool_hook x POST_TOOL_FAILURE (t_name t) eff None (Some msg) st1
                   in (pre @ [error_tuple tc (''tool execution failed: '' @ msg)], Finished, st2))
              | CallDone \<Rightarrow>
                  (case final_result events of
                     None \<Rightarrow> (pre @ [error_tuple tc ''tool produced no result''], Finished, st1)
                   | Some (blocks, modifier) \<Rightarrow>
                       (let (p, st2) = deliver_result x t tc eff blocks modifier st1
                        in (pre @ [p], Finished, st2)))))"

fun exn_text :: "py_exn \<Rightarrow> string" where
  "exn_text (PyExn s) = s"

definition run_one ::
    "exec_env \<Rightarrow> exec_tool \<Rightarrow> tool_use \<Rightarrow> authorize_context \<Rightarrow> exec_state
       \<Rightarrow> event_pair list \<times> run_end \<times> exec_state" where
  "run_one x t tc ctx st =
     (case validate_input t (tu_input tc) of
        Inl e \<Rightarrow> ([error_tuple tc (''invalid input: '' @ exn_text e)], Finished, st)
      | Inr _ \<Rightarrow>
          (case authorize_call x t tc ctx st of
             (Inl e, st1) \<Rightarrow> ([], Raised, st1)
           | (Inr (PermissionAllow reason, updated), st1) \<Rightarrow>
               (let eff = or_input updated (tu_input tc);
                    (blocked, inp', st2) = fire_tool_hook x PRE_TOOL_USE (t_name t) eff None None st1
                in if blocked
                   then ([error_tuple tc ''pre_tool_use hook blocked execution''], Finished, st2)
                   else run_authorized x t tc (or_input (Some inp') eff) st2)
           | (Inr (PermissionDeny message reason, updated), st1) \<Rightarrow> ([error_tuple tc message], Finished, st1)
           | (Inr (PermissionAsk message reason buttons, updated), st1) \<Rightarrow>
               ([error_tuple tc message], Finished, st1)))"

text \<open>
  \<open>_execute_single\<close> and \<open>_run_one_to_queue\<close>: what reaches the queue of one call. An exception of
  \<open>_run_one\<close> is swallowed, the pairs already produced stay.
\<close>

definition execute_call :: "exec_env \<Rightarrow> tool_use \<Rightarrow> exec_state \<Rightarrow> event_pair list \<times> run_end \<times> exec_state" where
  "execute_call x tc st =
     (case (case x_lookup x of None \<Rightarrow> None | Some f \<Rightarrow> f (tu_name tc)) of
        None \<Rightarrow> (error_unknown_tool tc, Finished, st)
      | Some t \<Rightarrow> run_one x t tc (build_authorize_context x st) st)"

section \<open>Merging the queues of a batch\<close>

text \<open>
  \<open>_merge_queues\<close>: at each step any queue that has an item delivers its first one; the merge ends
  when all queues have delivered their sentinel.
\<close>

inductive merge_queues :: "'a list list \<Rightarrow> 'a list \<Rightarrow> bool" where
  merge_done: "list_all (\<lambda>q. q = []) qs \<Longrightarrow> merge_queues qs []"
| merge_item: "i < length qs \<Longrightarrow> qs ! i = y # q \<Longrightarrow> merge_queues (qs[i := q]) out \<Longrightarrow>
    merge_queues qs (y # out)"

text \<open>
  The output of one batch: each call runs from some state (the concurrent calls of a batch share
  the authorizer, so the state a call meets depends on the schedule), and the queues are merged.
\<close>

definition batch_output :: "exec_env \<Rightarrow> tool_use list \<Rightarrow> event_pair list \<Rightarrow> bool" where
  "batch_output x batch out \<longleftrightarrow>
     (\<exists>qs. list_all2 (\<lambda>tc q. \<exists>st. q = fst (execute_call x tc st)) batch qs \<and> merge_queues qs out)"

inductive results_output :: "exec_env \<Rightarrow> tool_use list list \<Rightarrow> event_pair list \<Rightarrow> bool" where
  results_none: "results_output x [] []"
| results_batch: "batch_output x batch out \<Longrightarrow> results_output x batches out2 \<Longrightarrow>
    results_output x (batch # batches) (out @ out2)"

definition pair_results :: "event_pair list \<Rightarrow> user_content list" where
  "pair_results ps = List.map_filter snd ps"

section \<open>Batches keep the order of the calls\<close>

lemma partition_loop_concat: "concat (partition_loop lookup acc tcs) = acc @ tcs"
  by (induction lookup acc tcs rule: partition_loop.induct) auto

lemma partition_loop_batches:
  "list_all (call_is_safe lookup) acc \<Longrightarrow> b \<in> set (partition_loop lookup acc tcs) \<Longrightarrow>
     b \<noteq> [] \<and> (list_all (call_is_safe lookup) b \<or> (\<exists>tc. b = [tc] \<and> \<not> call_is_safe lookup tc))"
  by (induction lookup acc tcs rule: partition_loop.induct) (auto split: if_splits)

text \<open>No two neighbouring batches are both concurrent: safe runs are grouped maximally.\<close>

fun no_adjacent :: "('a \<Rightarrow> bool) \<Rightarrow> 'a list \<Rightarrow> bool" where
  "no_adjacent P (y # z # zs) \<longleftrightarrow> \<not> (P y \<and> P z) \<and> no_adjacent P (z # zs)"
| "no_adjacent P _ \<longleftrightarrow> True"

lemma partition_loop_maximal:
  "no_adjacent (list_all (call_is_safe lookup)) (partition_loop lookup acc tcs)"
proof (induction lookup acc tcs rule: partition_loop.induct)
  case (2 lookup acc tc tcs)
  show ?case
  proof (cases "call_is_safe lookup tc")
    case False
    have "no_adjacent (list_all (call_is_safe lookup)) ([tc] # partition_loop lookup [] tcs)"
      using 2(2) [OF False] False by (cases "partition_loop lookup [] tcs") auto
    then show ?thesis using False by simp
  qed (use 2 in simp)
qed simp

text \<open>
  Batching of the tool calls of one response: the batches, read one after the other, are the
  calls in the model's order; a batch has several calls only when all of them are calls of
  concurrency-safe tools; and no two neighbouring batches could have been merged.
\<close>

theorem partition_tool_calls_correct:
  "concat (partition_tool_calls lookup tcs) = tcs \<and>
   (\<forall>b. b \<in> set (partition_tool_calls lookup tcs) \<longrightarrow>
      b \<noteq> [] \<and> (length b > 1 \<longrightarrow> list_all (call_is_safe lookup) b)) \<and>
   no_adjacent (list_all (call_is_safe lookup)) (partition_tool_calls lookup tcs)"
proof -
  have "b \<noteq> [] \<and> (length b > 1 \<longrightarrow> list_all (call_is_safe lookup) b)"
    if "b \<in> set (partition_tool_calls lookup tcs)" for b
    using partition_loop_batches [of lookup "[]" b tcs] that by (auto simp: partition_tool_calls_def)
  then show ?thesis
    by (simp add: partition_tool_calls_def partition_loop_concat partition_loop_maximal)
qed

section \<open>Every finished call has exactly one result\<close>

lemma pair_results_simps [simp]:
  "pair_results [] = []" "pair_results ((e, None) # ps) = pair_results ps"
  "pair_results ((e, Some r) # ps) = r # pair_results ps"
  "pair_results (ps @ qs) = pair_results ps @ pair_results qs"
  by (simp_all add: pair_results_def List.map_filter_def)

lemma pair_results_error [simp]:
  "pair_results (error_tuple tc m # ps) = ToolResultContent (tu_id tc) (ResultText m) True # pair_results ps"
  by (simp add: error_tuple_def)

lemma pair_results_progress [simp]: "pair_results (progress_pairs i es) = []"
  by (induction i es rule: progress_pairs.induct) auto

definition one_result :: "tool_use \<Rightarrow> event_pair list \<Rightarrow> bool" where
  "one_result tc ps \<longleftrightarrow> (\<exists>c e. pair_results ps = [ToolResultContent (tu_id tc) c e])"

lemma deliver_result_result:
  "deliver_result x t tc eff blocks m st = (p, st') \<Longrightarrow>
     \<exists>e c. p = (e, Some (ToolResultContent (tu_id tc) c False))"
  by (auto simp: deliver_result_def Let_def split: prod.splits)

lemma run_authorized_results:
  assumes "run_authorized x t tc eff st = (ps, r, st')"
  shows "(r = Finished \<longrightarrow> one_result tc ps) \<and> (r \<noteq> Finished \<longrightarrow> pair_results ps = [])"
  using assms
  by (auto simp: run_authorized_def one_result_def Let_def dest!: deliver_result_result
      split: sum.splits prod.splits call_end.splits option.splits)

lemma run_one_results:
  assumes "run_one x t tc ctx st = (ps, r, st')"
  shows "(r = Finished \<longrightarrow> one_result tc ps) \<and> (r \<noteq> Finished \<longrightarrow> pair_results ps = [])"
  using assms
  by (auto simp: run_one_def one_result_def Let_def dest!: run_authorized_results
      split: sum.splits prod.splits permission_decision.splits if_splits)

lemma execute_call_results:
  assumes "execute_call x tc st = (ps, r, st')"
  shows "(r = Finished \<longrightarrow> one_result tc ps) \<and> (r \<noteq> Finished \<longrightarrow> pair_results ps = [])"
proof (cases "case x_lookup x of None \<Rightarrow> None | Some f \<Rightarrow> f (tu_name tc)")
  case None
  with assms have "ps = error_unknown_tool tc" "r = Finished" by (simp_all add: execute_call_def)
  then show ?thesis by (auto simp: error_unknown_tool_def one_result_def)
next
  case (Some t)
  with assms show ?thesis by (auto simp: execute_call_def dest: run_one_results)
qed

section \<open>Nothing runs without permission\<close>

text \<open>The call was allowed: by the authorizer, or by the user it asked.\<close>

definition permitted :: "exec_env \<Rightarrow> exec_tool \<Rightarrow> tool_use \<Rightarrow> authorize_context \<Rightarrow> exec_state \<Rightarrow> bool" where
  "permitted x t tc ctx st =
     (case xs_authorizer st of
        None \<Rightarrow> True
      | Some a \<Rightarrow>
          (case decision_of (x_auth x) (tool.truncate t) (tu_input tc) ctx a of
             PermissionAllow r \<Rightarrow> True
           | PermissionDeny m r \<Rightarrow> False
           | PermissionAsk m r bs \<Rightarrow>
               (case user_facing_name t (tu_input tc) of
                  Inl e \<Rightarrow> False
                | Inr title \<Rightarrow>
                    (case x_on_permission x (permission_request_for t tc title m r bs) of
                       Inl e \<Rightarrow> False
                     | Inr response \<Rightarrow> resp_decision response \<noteq> RespReject))))"

lemma authorize_call_permitted:
  assumes "authorize_call x t tc ctx st = (res, st')"
  shows "permitted x t tc ctx st \<longleftrightarrow> (\<exists>r u. res = Inr (PermissionAllow r, u))"
    and "xs_called st' = xs_called st"
  using assms
  by (auto simp: authorize_call_def permitted_def Let_def
      split: option.splits prod.splits permission_decision.splits sum.splits if_splits)

lemma fire_tool_hook_called [simp]:
  "xs_called (snd (snd (fire_tool_hook x ev name inp out err st))) = xs_called st"
  by (auto simp: fire_tool_hook_def Let_def split: option.splits prod.splits)

lemma fire_tool_hook_called':
  "fire_tool_hook x ev name inp out err st = (b, i, st') \<Longrightarrow> xs_called st' = xs_called st"
  using fire_tool_hook_called [of x ev name inp out err st] by simp

lemma notify_called [simp]: "xs_called (notify_file_touched inp st) = xs_called st"
  by (simp add: notify_file_touched_def split: option.splits)

lemma deliver_called: "deliver_result x t tc eff bs m st = (p, st') \<Longrightarrow> xs_called st' = xs_called st"
  by (auto simp: deliver_result_def Let_def dest!: fire_tool_hook_called'
      split: prod.splits option.splits sum.splits if_splits)

lemma run_authorized_called:
  assumes "run_authorized x t tc eff st = (ps, r, st')"
  shows "xs_called st' = xs_called st \<or> xs_called st' = xs_called st @ [(t_name t, eff)]"
  using assms
  by (auto simp: run_authorized_def Let_def dest!: deliver_called fire_tool_hook_called'
      split: sum.splits prod.splits call_end.splits option.splits)

lemma run_one_called:
  assumes "run_one x t tc ctx st = (ps, r, st')" "xs_called st' \<noteq> xs_called st"
  shows "validate_input t (tu_input tc) = Inr () \<and> permitted x t tc ctx st \<and>
         (\<exists>eff. xs_called st' = xs_called st @ [(t_name t, eff)])"
proof -
  obtain res st1 where a: "authorize_call x t tc ctx st = (res, st1)" by (cases "authorize_call x t tc ctx st")
  note p = authorize_call_permitted [OF a]
  from assms a p show ?thesis
    by (auto simp: run_one_def Let_def dest!: run_authorized_called fire_tool_hook_called'
        split: sum.splits prod.splits permission_decision.splits if_splits)
qed


section \<open>Answering every call of a response\<close>

lemma merge_queues_mset: "merge_queues qs out \<Longrightarrow> mset out = mset (concat qs)"
proof (induction rule: merge_queues.induct)
  case (merge_done qs)
  then show ?case by (auto simp: list_all_iff)
next
  case (merge_item i qs y q out)
  have "qs = take i qs @ (y # q) # drop (Suc i) qs"
    using merge_item(1,2) by (metis id_take_nth_drop)
  moreover have "qs[i := q] = take i qs @ q # drop (Suc i) qs"
    using merge_item(1) by (simp add: upd_conv_take_nth_drop)
  ultimately have "mset (concat qs) = add_mset y (mset (concat (qs[i := q])))"
    by (metis (no_types, lifting) append_Cons concat.simps(2) concat_append mset.simps(2) mset_append
        union_mset_add_mset_left union_mset_add_mset_right)
  with merge_item show ?case by simp
qed

lemma merge_queues_exists: "\<exists>out. merge_queues qs out"
proof (induction "length (concat qs)" arbitrary: qs)
  case 0
  then have "list_all (\<lambda>q. q = []) qs" by (simp add: list_all_iff)
  then show ?case by (blast intro: merge_done)
next
  case (Suc n)
  then have "\<exists>q \<in> set qs. q \<noteq> []" by (metis concat_eq_Nil_conv list.size(3) nat.distinct(1))
  then obtain i where i: "i < length qs" "qs ! i \<noteq> []" by (metis in_set_conv_nth)
  then obtain y q where yq: "qs ! i = y # q" by (cases "qs ! i") auto
  have "qs = take i qs @ (y # q) # drop (Suc i) qs" using i(1) yq by (metis id_take_nth_drop)
  moreover have "qs[i := q] = take i qs @ q # drop (Suc i) qs" using i(1) by (simp add: upd_conv_take_nth_drop)
  ultimately have "length (concat qs) = Suc (length (concat (qs[i := q])))"
    by (metis (no_types, lifting) append_Cons concat.simps(2) concat_append length_Cons length_append add_Suc_right)
  with Suc(2) have "n = length (concat (qs[i := q]))" by simp
  from Suc(1) [OF this] obtain out where "merge_queues (qs[i := q]) out" by blast
  with i yq show ?case by (blast intro: merge_item)
qed

text \<open>A tool that neither raises outside its body nor is cancelled.\<close>

definition settles :: "exec_tool \<Rightarrow> bool" where
  "settles t \<longleftrightarrow> (\<forall>inp. (\<exists>s. user_facing_name t inp = Inr s) \<and> (\<exists>m. execution_metadata t inp = Inr m) \<and>
                        snd (call_tool t inp) \<noteq> CallCancelled)"

lemma authorize_call_settles:
  assumes "settles t" shows "\<exists>d st'. authorize_call x t tc ctx st = (Inr d, st')"
proof -
  obtain title where "user_facing_name t (tu_input tc) = Inr title" using assms by (auto simp: settles_def)
  then show ?thesis
    by (auto simp: authorize_call_def Let_def
        split: option.splits prod.splits permission_decision.splits sum.splits)
qed

lemma run_authorized_settles:
  assumes "settles t" "run_authorized x t tc eff st = (ps, r, st')" shows "r = Finished"
proof -
  obtain title meta where "user_facing_name t eff = Inr title" "execution_metadata t eff = Inr meta"
    and "snd (call_tool t eff) \<noteq> CallCancelled" using assms(1) unfolding settles_def by blast
  with assms(2) show ?thesis
    by (auto simp: run_authorized_def Let_def split: prod.splits call_end.splits option.splits)
qed

lemma run_one_settles:
  assumes "settles t" "run_one x t tc ctx st = (ps, r, st')" shows "r = Finished"
proof -
  obtain d st1 where "authorize_call x t tc ctx st = (Inr d, st1)" using authorize_call_settles [OF assms(1)] by blast
  with assms(2) run_authorized_settles [OF assms(1)] show ?thesis
    by (cases d) (auto simp: run_one_def Let_def split: sum.splits prod.splits permission_decision.splits if_splits)
qed

lemma execute_call_settles:
  assumes "\<forall>f t. x_lookup x = Some f \<and> f (tu_name tc) = Some t \<longrightarrow> settles t"
  shows "one_result tc (fst (execute_call x tc st))"
proof -
  obtain ps r st' where e: "execute_call x tc st = (ps, r, st')" by (cases "execute_call x tc st")
  have "r = Finished"
    using e assms run_one_settles by (fastforce simp: execute_call_def split: option.splits)
  with execute_call_results [OF e] show ?thesis by (simp add: e)
qed

lemma pair_results_concat: "mset out = mset (concat qs) \<Longrightarrow>
  mset (pair_results out) = mset (concat (map pair_results qs))"
proof -
  assume m: "mset out = mset (concat qs)"
  have e: "pair_results ps = map (\<lambda>p. the (snd p)) (filter (\<lambda>p. snd p \<noteq> None) ps)" for ps
    by (simp add: pair_results_def List.map_filter_def comp_def)
  have "mset (pair_results out) = mset (pair_results (concat qs))"
    unfolding e mset_map mset_filter m ..
  also have "pair_results (concat qs) = concat (map pair_results qs)" by (induction qs) auto
  finally show ?thesis .
qed

definition all_settle :: "exec_env \<Rightarrow> tool_use list \<Rightarrow> bool" where
  "all_settle x tcs \<longleftrightarrow> (\<forall>tc \<in> set tcs. \<forall>f t. x_lookup x = Some f \<and> f (tu_name tc) = Some t \<longrightarrow> settles t)"

lemma batch_results:
  assumes "batch_output x batch out" "all_settle x batch"
  shows "mset (result_ids (pair_results out)) = mset (map tu_id batch) \<and> list_all is_result (pair_results out)"
proof -
  from assms(1) obtain qs where qs: "list_all2 (\<lambda>tc q. \<exists>st. q = fst (execute_call x tc st)) batch qs"
    and "merge_queues qs out" by (auto simp: batch_output_def)
  have "list_all2 one_result batch qs"
  proof (rule list.rel_mono_strong [OF qs])
    fix tc q assume "tc \<in> set batch" "q \<in> set qs" "\<exists>st. q = fst (execute_call x tc st)"
    then show "one_result tc q" using assms(2) execute_call_settles by (auto simp: all_settle_def)
  qed
  then have one: "result_ids (concat (map pair_results qs)) = map tu_id batch \<and>
      list_all is_result (concat (map pair_results qs))"
    by (induction rule: list_all2_induct) (auto simp: one_result_def)
  have m: "mset (pair_results out) = mset (concat (map pair_results qs))"
    using pair_results_concat [OF merge_queues_mset [OF \<open>merge_queues qs out\<close>]] .
  have ids: "result_ids bs = map hd (filter (\<lambda>i. i \<noteq> []) (map result_id bs))" for bs
  proof (induction bs)
    case (Cons b bs)
    then show ?case by (cases b) auto
  qed simp
  have "mset (result_ids (pair_results out)) = mset (result_ids (concat (map pair_results qs)))"
    unfolding ids mset_map mset_filter m ..
  moreover have "set (pair_results out) = set (concat (map pair_results qs))" using m by (rule mset_eq_setD)
  ultimately show ?thesis using one by (simp add: list_all_iff)
qed

lemma results_output_ids:
  assumes "results_output x batches out" "all_settle x (concat batches)"
  shows "mset (result_ids (pair_results out)) = mset (map tu_id (concat batches)) \<and> list_all is_result (pair_results out)"
  using assms
proof (induction rule: results_output.induct)
  case (results_batch x batch out batches out2)
  then have "all_settle x batch" "all_settle x (concat batches)" by (auto simp: all_settle_def)
  with results_batch batch_results [OF results_batch(1)] show ?case by simp
qed simp

lemma results_output_exists: "\<exists>out. results_output x batches out"
proof (induction batches)
  case (Cons batch batches)
  have "list_all2 (\<lambda>tc q. \<exists>st. q = fst (execute_call x tc st)) batch (map (\<lambda>tc. fst (execute_call x tc undefined)) batch)"
    by (auto simp: list_all2_conv_all_nth)
  with merge_queues_exists have "\<exists>out. batch_output x batch out" unfolding batch_output_def by blast
  with Cons show ?case by (blast intro: results_batch)
qed (blast intro: results_none)

lemma use_ids_assistant_blocks:
  "use_ids (assistant_blocks txt thoughts (map use_block tcs)) = map tu_id tcs"
proof -
  have "use_ids (map use_block tcs) = map tu_id tcs" by (induction tcs) (auto simp: use_block_def)
  then show ?thesis by (auto simp: assistant_blocks_def split: option.splits)
qed

text \<open>
  C14. A turn leaves no call unanswered. Whatever the schedule of the concurrent calls, the states
  they meet, the decisions, the answers of the user, the hooks and the failures of the tools,
  executing the calls of one response yields exactly one result per call, so a well-paired
  history stays well paired after the assistant message and the results are appended. It needs
  that no tool raises in \<open>user_facing_name\<close> or \<open>execution_metadata\<close> (which run outside the
  pipeline's handlers) and that no call is cancelled.
\<close>

theorem tool_turn_keeps_pairing:
  assumes "well_paired (messages h)" "all_settle x tcs"
    and "results_output x (partition_tool_calls (x_lookup x) tcs) out"
  shows "mset (result_ids (pair_results out)) = mset (map tu_id tcs) \<and>
    well_paired (messages (append_tool_results fl (pair_results out)
      (append_assistant fl txt thoughts (map use_block tcs) h)))"
proof -
  have c: "concat (partition_tool_calls (x_lookup x) tcs) = tcs"
    by (simp add: partition_tool_calls_def partition_loop_concat)
  with results_output_ids [OF assms(3)] assms(2)
  have ids: "mset (result_ids (pair_results out)) = mset (map tu_id tcs)" and res: "list_all is_result (pair_results out)"
    by simp_all
  let ?c = "assistant_blocks txt thoughts (map use_block tcs)"
  have "well_paired (messages (append_tool_results fl (pair_results out)
      (append_assistant fl txt thoughts (map use_block tcs) h)))"
  proof (cases "pair_results out = []")
    case True
    with ids have "map tu_id tcs = []" by simp
    then have "use_ids ?c = []" unfolding use_ids_assistant_blocks .
    then have "paired_from [] [AssistantMessage ?c]" by simp
    with True assms(1) show ?thesis
      by (auto simp: append_tool_results_def append_assistant_def push_message_def Let_def well_paired_def
          intro: paired_from_appendI)
  next
    case False
    from False res ids have "tcs \<noteq> []" by (cases "pair_results out"; cases "hd (pair_results out)") auto
    then have "?c \<noteq> []" by (simp add: assistant_blocks_def)
    with False well_paired_assistant_answered [OF assms(1), of "pair_results out" ?c] ids res show ?thesis
      by (simp add: use_ids_assistant_blocks append_tool_results_def append_assistant_def push_message_def Let_def)
  qed
  with ids show ?thesis by blast
qed

section \<open>An answer that was not offered\<close>

lemma auth_grant_allows:
  assumes "runtime_kill_denial (e_process env) t inp = None" "session_id ctx' = session_id ctx"
  shows "decision_of env t inp ctx' (auth_grant env now t inp ctx a) =
           PermissionAllow (ReasonSessionGrant now (compute_signature (e_signature env) t inp))"
proof -
  have "ge_granted_at (fst (cache_grant (e_signature env) now (session_id ctx) t inp (a_grants a))) = now"
    by (simp add: cache_grant_def Let_def)
  with assms gs.check_grant gs.grant_entry_signature show ?thesis
    by (simp add: decision_of_eq authorize_impl_def auth_grant_def)
qed

lemma asked_not_guarded:
  "decision_of env t inp ctx a = PermissionAsk m r bs \<Longrightarrow> runtime_kill_denial (e_process env) t inp = None"
  by (cases "runtime_kill_denial (e_process env) t inp") (auto simp: decision_of_eq authorize_impl_def)

text \<open>
  An \<open>allow_always\<close> answer is honoured whether or not it was offered: for a destructive call
  the prompt has no such button, yet when the answer is \<open>allow_always\<close> the grant is stored, and
  every later identical call of the session is allowed without a prompt.
\<close>

theorem unoffered_allow_always_is_granted:
  assumes "xs_authorizer st = Some a"
    and "decision_of (x_auth x) (tool.truncate t) (tu_input tc) ctx a = PermissionAsk m r bs"
    and "is_destructive t (tu_input tc) = Inr True"
    and "user_facing_name t (tu_input tc) = Inr title"
    and "x_on_permission x (permission_request_for t tc title m r bs) = Inr response"
    and "resp_decision response = RespAllowAlways"
  shows "KindAllowAlways \<notin> opt_kind ` set (req_options (permission_request_for t tc title m r bs)) \<and>
    (\<exists>a'. xs_authorizer (snd (authorize_call x t tc ctx st)) = Some a' \<and>
      (\<forall>ctx'. session_id ctx' = session_id ctx \<longrightarrow>
         decision_of (x_auth x) (tool.truncate t) (tu_input tc) ctx' a' =
           PermissionAllow (ReasonSessionGrant (x_now x)
             (compute_signature (e_signature (x_auth x)) (tool.truncate t) (tu_input tc)))))"
proof
  from assms(2) obtain outcome where o: "decide (snapshot (a_rules a)) (tool.truncate t) (tu_input tc) ctx = Inr outcome"
    "bs = ask_buttons (outcome_destructive outcome)" by (rule authorize_ask)
  have "is_destructive (tool.truncate t) (tu_input tc) = Inr True"
    using assms(3) by (simp add: tool.truncate_def)
  with decide_destructive [OF o(1)] o(2) have "bs = ask_buttons True" by simp
  then show "KindAllowAlways \<notin> opt_kind ` set (req_options (permission_request_for t tc title m r bs))"
    by (auto simp: permission_request_for_def permission_options_from_suggestions_def ask_buttons_def)
  obtain hook a1 where a1: "authorize (x_auth x) (tool.truncate t) (tu_input tc) ctx a = (PermissionAsk m r bs, hook, a1)"
    using assms(2) by (cases "authorize (x_auth x) (tool.truncate t) (tu_input tc) ctx a") auto
  have "xs_authorizer (snd (authorize_call x t tc ctx st)) =
      Some (auth_grant (x_auth x) (x_now x) (tool.truncate t) (tu_input tc) ctx a1)"
    using assms a1 by (simp add: authorize_call_def)
  then show "\<exists>a'. xs_authorizer (snd (authorize_call x t tc ctx st)) = Some a' \<and>
      (\<forall>ctx'. session_id ctx' = session_id ctx \<longrightarrow>
         decision_of (x_auth x) (tool.truncate t) (tu_input tc) ctx' a' =
           PermissionAllow (ReasonSessionGrant (x_now x)
             (compute_signature (e_signature (x_auth x)) (tool.truncate t) (tu_input tc))))"
    using auth_grant_allows asked_not_guarded [OF assms(2)] by blast
qed

section \<open>Witnesses\<close>

definition wipe_tool :: exec_tool where
  "wipe_tool = tool.extend (echo_tool\<lparr>t_name := ''Wipe'', is_destructive := (\<lambda>inp. Inr True),
       default_risk := (\<lambda>inp ctx. Inr \<lparr>sg_risk = High, sg_default_decision = DAsk, sg_reason = ''wipe''\<rparr>)\<rparr>)
     (exec_tool.fields (\<lambda>inp. Inr ()) False 10 (\<lambda>inp. Inr None)
        (\<lambda>inp. ([ToolProgress [], ToolResult [PartText ''all done now''] None], CallDone)))"

definition demo_exec :: exec_env where
  "demo_exec = \<lparr>x_auth = demo_env, x_now = 9,
     x_on_permission = (\<lambda>req. Inr \<lparr>resp_decision = RespAllowAlways, resp_updated_input = None\<rparr>),
     x_hooks = Some [], x_lookup = Some (\<lambda>n. if n = ''Wipe'' then Some wipe_tool else None),
     x_session_id = ''s1'', x_agent_depth = 0, x_avoid_prompts = None, x_mode = MDefault\<rparr>"

definition demo_state :: exec_state where
  "demo_state = \<lparr>xs_authorizer = Some demo_auth, xs_cwd = ''/w'', xs_reminders = [], xs_touched = [], xs_called = []\<rparr>"

definition demo_use :: tool_use where
  "demo_use = \<lparr>tu_id = ''u1'', tu_name = ''Wipe'', tu_input = []\<rparr>"

theorem partition_tool_calls_witness:
  "concat (partition_tool_calls (x_lookup demo_exec) [demo_use, demo_use]) = [demo_use, demo_use]"
  using partition_tool_calls_correct by blast


lemma wipe_settles: "settles wipe_tool"
  by (simp add: settles_def wipe_tool_def echo_tool_def tool.defs exec_tool.defs)

theorem tool_turn_keeps_pairing_witness:
  "\<exists>out. results_output demo_exec (partition_tool_calls (x_lookup demo_exec) [demo_use]) out \<and>
     well_paired (messages (append_tool_results (\<lambda>m e. []) (pair_results out)
       (append_assistant (\<lambda>m e. []) ''on it'' [] (map use_block [demo_use]) (new_history (\<lambda>m e. []) []))))"
proof -
  obtain out where out: "results_output demo_exec (partition_tool_calls (x_lookup demo_exec) [demo_use]) out"
    using results_output_exists by blast
  have "well_paired (messages (new_history (\<lambda>m e. []) []))" by code_simp
  moreover have "all_settle demo_exec [demo_use]"
    by (auto simp: all_settle_def demo_exec_def wipe_settles split: if_splits)
  ultimately show ?thesis using tool_turn_keeps_pairing out by blast
qed

theorem unoffered_allow_always_is_granted_witness:
  "\<exists>a'. xs_authorizer (snd (authorize_call demo_exec wipe_tool demo_use demo_ctx demo_state)) = Some a' \<and>
     is_allow (decision_of demo_env (tool.truncate wipe_tool) [] demo_ctx a')"
proof -
  obtain m r bs where ask: "decision_of (x_auth demo_exec) (tool.truncate wipe_tool) (tu_input demo_use) demo_ctx demo_auth
      = PermissionAsk m r bs"
  proof -
    have "decision_kind_of (decision_of (x_auth demo_exec) (tool.truncate wipe_tool) (tu_input demo_use) demo_ctx demo_auth) = DAsk"
      by code_simp
    then show ?thesis using that
      by (cases "decision_of (x_auth demo_exec) (tool.truncate wipe_tool) (tu_input demo_use) demo_ctx demo_auth") auto
  qed
  have w: "is_destructive wipe_tool (tu_input demo_use) = Inr True" "user_facing_name wipe_tool (tu_input demo_use) = Inr ''Echo''"
    by (simp_all add: wipe_tool_def echo_tool_def tool.defs)
  have u: "x_on_permission demo_exec req = Inr \<lparr>resp_decision = RespAllowAlways, resp_updated_input = None\<rparr>" for req
    by (simp add: demo_exec_def)
  have "xs_authorizer demo_state = Some demo_auth" by (simp add: demo_state_def)
  from unoffered_allow_always_is_granted [OF this ask w u] show ?thesis
    by (fastforce simp: demo_exec_def demo_use_def)
qed

end
