(* ===== verification/Query_Loop.thy ===== *)
theory Query_Loop
  imports Compaction Tool_Execution
begin

text \<open>
  The query loop (\<open>orchestrator/loop/engine.py\<close>, \<open>loop/steps.py\<close>, \<open>reminders.py\<close>): one user prompt
  from the prompt-submit hook to the last event. What the provider answers is an argument: one
  \<open>provider_reply\<close> per request, so the loop recurses over the list of replies and a list that is
  too short is the outcome \<open>Starved\<close>; the theorems say how many replies are enough. How the tool
  calls of a response are executed is the argument \<open>qe_tools\<close> (see \<open>Tool_Execution\<close>), with the
  mode a tool has set through its \<open>set_mode\<close> callback, if any. The system
  prompt, the tool schemas and the dumps for debugging are not represented.
\<close>

section \<open>State\<close>

datatype stop_reason =
  StopEndTurn | StopMaxTurns | StopCancelled | StopError | StopHookBlocked | StopBudgetExceeded

datatype query_event =
    EvUserPromptBlocked
  | EvSnapshot "message list"
  | EvAppend message
  | EvText string
  | EvThought string
  | EvCompaction int int
  | EvError string "string option"
  | EvCancelled
  | EvTool orch_event

datatype stream_end =
  StreamDone | PromptTooLong string | MediaSize string | ProviderFailed string | StreamCancelled

text \<open>
  One reply: the chunks delivered, how the stream ended, after how many event pairs the tool
  execution is cancelled (\<open>None\<close>: not at all), and the task notifications drained after it.
\<close>

record provider_reply =
  r_chunks :: "llm_chunk list"
  r_end :: stream_end
  r_tool_cut :: "nat option"
  r_notifications :: "string list"

record turn_state =
  tn_index :: int
  tn_reactive :: nat
  tn_override :: "int option"
  tn_max_tokens :: nat
  tn_transient :: nat
  tn_protocol :: nat

definition new_turn :: turn_state where
  "new_turn = \<lparr>tn_index = 0, tn_reactive = 0, tn_override = None, tn_max_tokens = 0, tn_transient = 0, tn_protocol = 0\<rparr>"

definition start_next_iteration :: "turn_state \<Rightarrow> turn_state" where
  "start_next_iteration tn = tn\<lparr>tn_index := tn_index tn + 1\<rparr>"

definition rewind_retry_iteration :: "turn_state \<Rightarrow> turn_state" where
  "rewind_retry_iteration tn = tn\<lparr>tn_index := tn_index tn - 1\<rparr>"

record stream_acc =
  sa_text :: "string list"
  sa_thoughts :: "(string \<times> string) list"
  sa_calls :: "tool_use list"
  sa_stop :: "string option"

definition has_sampled_output :: "stream_acc \<Rightarrow> bool" where
  "has_sampled_output acc \<longleftrightarrow> sa_text acc \<noteq> [] \<or> sa_calls acc \<noteq> []"

record orch =
  q_history :: history
  q_exec :: exec_state
  q_mode :: permission_mode
  q_stop :: stop_reason
  q_in :: int
  q_out :: int

record query_env =
  qe_session_id :: string
  qe_depth :: nat
  qe_float :: float_repr
  qe_summarizer :: summarizer
  qe_keep :: nat
  qe_threshold :: int
  qe_hooks :: "hook_registry option"
  qe_reminder_block :: "string \<Rightarrow> string"
  qe_tools :: "permission_mode \<Rightarrow> tool_use list \<Rightarrow> exec_state
                 \<Rightarrow> event_pair list \<times> exec_state \<times> permission_mode option"

definition MAX_TRANSIENT_STREAM_RETRIES :: nat where "MAX_TRANSIENT_STREAM_RETRIES = 2"
definition MAX_REACTIVE_RETRIES :: nat where "MAX_REACTIVE_RETRIES = 2"
definition MAX_OUTPUT_TOKEN_RETRIES :: nat where "MAX_OUTPUT_TOKEN_RETRIES = 3"
definition MAX_TOKENS_ESCALATED :: int where "MAX_TOKENS_ESCALATED = 64000"

definition TRANSIENT_STREAM_ERROR_CODES :: "string list" where
  "TRANSIENT_STREAM_ERROR_CODES = [''transient_transport'']"

definition INTERRUPTED_TOOL_RESULT :: string where
  "INTERRUPTED_TOOL_RESULT = ''Interrupted before tool result was recorded''"

section \<open>Steps\<close>

definition queue_reminders :: "string list \<Rightarrow> orch \<Rightarrow> orch" where
  "queue_reminders rs o' = o'\<lparr>q_exec := (q_exec o')\<lparr>xs_reminders := xs_reminders (q_exec o') @ rs\<rparr>\<rparr>"

definition fire_query_hook ::
    "query_env \<Rightarrow> hook_event \<Rightarrow> string option \<Rightarrow> nat option \<Rightarrow> int option \<Rightarrow> string option \<Rightarrow> orch
       \<Rightarrow> bool \<times> string option \<times> orch" where
  "fire_query_hook env ev user_text n_messages estimate stop_reason o' =
     (case qe_hooks env of
        None \<Rightarrow> (False, user_text, o')
      | Some reg \<Rightarrow>
          let (blocked, ctx) = fire reg \<lparr>h_ambient = \<lparr>am_session_id = qe_session_id env, am_cwd = xs_cwd (q_exec o'),
                   am_agent_depth = qe_depth env, am_mode = q_mode o'\<rparr>,
                 h_event = ev, h_tool_name = None, h_tool_input = [],
                 h_tool_output = None, h_error_message = None, h_user_text = user_text,
                 h_message_count = n_messages, h_token_estimate = estimate, h_stop_reason = stop_reason,
                 h_messages = []\<rparr>
          in (blocked, h_user_text ctx, queue_reminders (h_messages ctx) o'))"

definition format_reminders :: "(string \<Rightarrow> string) \<Rightarrow> string list \<Rightarrow> string" where
  "format_reminders block rs = py_join [CHR 0x0A, CHR 0x0A] (map block rs) @ [CHR 0x0A, CHR 0x0A]"

definition default_reminder_block :: "string \<Rightarrow> string" where
  "default_reminder_block r = ''<system-reminder>'' @ [CHR 0x0A] @ r @ [CHR 0x0A] @ ''</system-reminder>''"

definition extract_text :: "string list \<Rightarrow> string" where
  "extract_text texts = py_join '' '' texts"

definition to_text_content :: "(string \<Rightarrow> string) \<Rightarrow> string list \<Rightarrow> string list \<Rightarrow> string list" where
  "to_text_content block rs texts =
     (let result = (if rs \<noteq> [] then [format_reminders block rs] else []) @ texts
      in if result = [] then [[]] else result)"

text \<open>
  \<open>setup_turn\<close>: drains the queued reminders and the messages of a parent agent, and fires the
  prompt-submit hook. Returns the prompt text, the reminders and whether the hook blocked.
\<close>

definition setup_turn ::
    "query_env \<Rightarrow> string list \<Rightarrow> string list \<Rightarrow> orch \<Rightarrow> string \<times> string list \<times> bool \<times> orch" where
  "setup_turn env parent_messages prompt o' =
     (let reminders = xs_reminders (q_exec o') @
            map (\<lambda>m. ''Message from parent agent:'' @ [CHR 0x0A] @ m) parent_messages;
          o1 = o'\<lparr>q_exec := (q_exec o')\<lparr>xs_reminders := []\<rparr>\<rparr>;
          prompt_text = (if reminders \<noteq> [] then format_reminders (qe_reminder_block env) reminders else [])
                          @ extract_text prompt;
          (blocked, user_text, o2) = fire_query_hook env USER_PROMPT_SUBMIT (Some prompt_text) None None None o1
      in if blocked then (prompt_text, reminders, True, o2\<lparr>q_stop := StopHookBlocked\<rparr>)
         else (case user_text of Some t \<Rightarrow> t | None \<Rightarrow> prompt_text, reminders, False, o2))"

definition prepare_history :: "query_env \<Rightarrow> history \<Rightarrow> query_event list \<times> history" where
  "prepare_history env h =
     (let fl = qe_float env;
          h1 = snd (snip_read_only_results fl (qe_keep env) h);
          h2 = (if token_count h1 > qe_threshold env then snd (remove_read_only_pairs fl (qe_keep env) h1) else h1)
      in if token_count h2 > qe_threshold env
         then (let h3 = compact fl (qe_summarizer env) (qe_keep env) h2
               in ([EvCompaction (token_count h2) (token_count h3), EvSnapshot (messages h3)], h3))
         else ([], h2))"

text \<open>The chunk loop. \<open>Some\<close> in the last component is a \<open>StreamError\<close> chunk, which ends it.\<close>

fun consume :: "llm_chunk list \<Rightarrow> stream_acc \<Rightarrow> orch
    \<Rightarrow> query_event list \<times> stream_acc \<times> orch \<times> (string \<times> string option) option" where
  "consume [] acc o' = ([], acc, o', None)"
| "consume (TextChunk t # cs) acc o' =
     (let (evs, r) = consume cs (acc\<lparr>sa_text := sa_text acc @ [t]\<rparr>) o' in (EvText t # evs, r))"
| "consume (ThoughtChunk t s # cs) acc o' =
     (let (evs, r) = consume cs (acc\<lparr>sa_thoughts := sa_thoughts acc @ [(t, s)]\<rparr>) o'
      in (if t \<noteq> [] then EvThought t # evs else evs, r))"
| "consume (ToolUseChunk i n inp # cs) acc o' =
     consume cs (acc\<lparr>sa_calls := sa_calls acc @ [\<lparr>tu_id = i, tu_name = n, tu_input = inp\<rparr>]\<rparr>) o'"
| "consume (UsageChunk input_tokens output_tokens reason # cs) acc o' =
     consume cs (acc\<lparr>sa_stop := reason\<rparr>)
       (o'\<lparr>q_history := update_token_count input_tokens output_tokens (q_history o'),
          q_in := q_in o' + input_tokens, q_out := q_out o' + output_tokens\<rparr>)"
| "consume (StreamError m c # cs) acc o' = ([], acc, o', Some (m, c))"

definition is_tool_protocol_error :: "string \<Rightarrow> bool" where
  "is_tool_protocol_error exc =
     (let message = py_lower exc;
          missing_result = py_contains message ''tool_calls'' \<and> py_contains message ''tool messages'' \<and>
            (py_contains message ''must be followed'' \<or> py_contains message ''insufficient tool messages'');
          orphan_tool = py_contains message (''role '' @ [CHR 0x27] @ ''tool'' @ [CHR 0x27]) \<and>
            py_contains message ''preceding message'' \<and> py_contains message ''tool_calls''
      in missing_result \<or> orphan_tool)"

fun tool_permission_mode :: "permission_mode \<Rightarrow> permission_mode" where
  "tool_permission_mode MPlan = MPlan"
| "tool_permission_mode MBypass = MBypass"
| "tool_permission_mode _ = MDefault"

datatype stop_action = DoRetry | DoBudget | DoStop

definition handle_stop ::
    "query_env \<Rightarrow> string option \<Rightarrow> nat \<Rightarrow> int option \<Rightarrow> orch \<Rightarrow> stop_action \<times> orch" where
  "handle_stop env last_stop max_tokens_retries token_budget o' =
     (if last_stop = Some ''max_tokens'' \<and> max_tokens_retries < MAX_OUTPUT_TOKEN_RETRIES
      then (DoRetry, o'\<lparr>q_history := snd (pop_last_assistant (qe_float env) (q_history o'))\<rparr>)
      else (let stop = (case last_stop of Some s \<Rightarrow> if s \<noteq> [] then s else ''end_turn'' | None \<Rightarrow> ''end_turn'');
                (b, t, o1) = fire_query_hook env STOP None (Some (length (messages (q_history o'))))
                   (Some (token_count (q_history o'))) (Some stop) o'
            in (case token_budget of
                  Some n \<Rightarrow> if q_in o1 + q_out o1 \<ge> n then (DoBudget, o1) else (DoStop, o1)
                | None \<Rightarrow> (DoStop, o1))))"

definition budget_message :: "orch \<Rightarrow> int \<Rightarrow> string" where
  "budget_message o' n =
     ''Token budget exceeded: '' @ py_str_int (q_in o' + q_out o') @ '' tokens used, budget was '' @ py_str_int n"

text \<open>The \<open>except asyncio.CancelledError\<close> handler.\<close>

definition cancel_query :: "query_env \<Rightarrow> orch \<Rightarrow> query_event list \<times> orch" where
  "cancel_query env o' =
     (let (orphans, h) = append_interrupted_tool_results (qe_float env) ''Interrupted by user'' (q_history o')
      in ((if orphans \<noteq> [] then [EvAppend (last (messages h))] else []) @ [EvCancelled],
          o'\<lparr>q_history := h, q_stop := StopCancelled\<rparr>))"

text \<open>Events and recorded kinds of an executed response.\<close>

fun record_kinds :: "event_pair list \<Rightarrow> history \<Rightarrow> history" where
  "record_kinds [] h = h"
| "record_kinds ((ToolCallStart i title k raw meta, r) # ps) h = record_kinds ps (record_tool_kind i k h)"
| "record_kinds (p # ps) h = record_kinds ps h"

text \<open>
  The events of an iteration, the state after it, and the turn state to go on with (\<open>None\<close>: the
  query has ended).
\<close>

type_synonym step_result = "query_event list \<times> orch \<times> turn_state option"

definition finish_error :: "string \<Rightarrow> string option \<Rightarrow> orch \<Rightarrow> step_result" where
  "finish_error m c o' = ([EvError m c], o'\<lparr>q_stop := StopError\<rparr>, None)"

definition handle_stream_error ::
    "string \<Rightarrow> string option \<Rightarrow> stream_acc \<Rightarrow> turn_state \<Rightarrow> orch \<Rightarrow> step_result" where
  "handle_stream_error m c acc tn o' =
     (if (case c of Some k \<Rightarrow> k \<in> set TRANSIENT_STREAM_ERROR_CODES | None \<Rightarrow> False)
          \<and> tn_transient tn < MAX_TRANSIENT_STREAM_RETRIES \<and> \<not> has_sampled_output acc
      then ([], o', Some (rewind_retry_iteration (tn\<lparr>tn_transient := tn_transient tn + 1\<rparr>)))
      else finish_error m c o')"

definition compact_now :: "query_env \<Rightarrow> orch \<Rightarrow> query_event list \<times> orch" where
  "compact_now env o' =
     (let h = compact (qe_float env) (qe_summarizer env) (qe_keep env) (q_history o')
      in ([EvCompaction (token_count (q_history o')) (token_count h)], o'\<lparr>q_history := h\<rparr>))"

definition handle_prompt_too_long :: "query_env \<Rightarrow> string \<Rightarrow> turn_state \<Rightarrow> orch \<Rightarrow> step_result" where
  "handle_prompt_too_long env m tn o' =
     (if tn_reactive tn \<ge> MAX_REACTIVE_RETRIES then finish_error m (Some ''prompt_too_long'') o'
      else (let (evs, o1) = compact_now env o'
            in (evs, o1, Some (rewind_retry_iteration (tn\<lparr>tn_reactive := tn_reactive tn + 1\<rparr>)))))"

definition handle_media_size :: "query_env \<Rightarrow> string \<Rightarrow> turn_state \<Rightarrow> orch \<Rightarrow> step_result" where
  "handle_media_size env m tn o' =
     (if tn_reactive tn \<ge> MAX_REACTIVE_RETRIES then finish_error m (Some ''media_size'') o'
      else (let (stripped, h) = strip_media (qe_float env) (q_history o');
                o1 = o'\<lparr>q_history := h\<rparr>;
                (evs, o2) = (if stripped > 0 then compact_now env o1 else ([], o1))
            in (evs, o2, Some (rewind_retry_iteration (tn\<lparr>tn_reactive := tn_reactive tn + 1\<rparr>)))))"

definition handle_provider_error :: "query_env \<Rightarrow> string \<Rightarrow> turn_state \<Rightarrow> orch \<Rightarrow> step_result" where
  "handle_provider_error env m tn o' =
     (if is_tool_protocol_error m \<and> tn_protocol tn < 1
      then (let (repaired, h) = repair_orphan_tool_results (qe_float env) INTERRUPTED_TOOL_RESULT (q_history o');
                o1 = o'\<lparr>q_history := h\<rparr>
            in if repaired \<noteq> []
               then ([EvSnapshot (messages h)], o1,
                     Some (rewind_retry_iteration (tn\<lparr>tn_protocol := tn_protocol tn + 1\<rparr>)))
               else finish_error m None o1)
      else finish_error m None o')"

text \<open>After a complete stream: the assistant message, then the stop branch or the tools.\<close>

definition append_reply :: "query_env \<Rightarrow> stream_acc \<Rightarrow> orch \<Rightarrow> query_event list \<times> orch" where
  "append_reply env acc o' =
     (let o1 = (if has_sampled_output acc then snd (snd (fire_query_hook env POST_SAMPLING None None None None o')) else o');
          h = append_assistant (qe_float env) (concat (sa_text acc)) (sa_thoughts acc)
                (map use_block (sa_calls acc)) (q_history o1)
      in (if length (messages h) > length (messages (q_history o1)) then [EvAppend (last (messages h))] else [],
          o1\<lparr>q_history := h\<rparr>))"

definition finish_reply ::
    "query_env \<Rightarrow> int option \<Rightarrow> stream_acc \<Rightarrow> turn_state \<Rightarrow> orch \<Rightarrow> step_result" where
  "finish_reply env token_budget acc tn o' =
     (case handle_stop env (sa_stop acc) (tn_max_tokens tn) token_budget o' of
        (DoRetry, o1) \<Rightarrow>
          ([], o1, Some (tn\<lparr>tn_max_tokens := tn_max_tokens tn + 1, tn_override := Some MAX_TOKENS_ESCALATED\<rparr>))
      | (DoBudget, o1) \<Rightarrow>
          ([EvError (budget_message o1 (case token_budget of Some n \<Rightarrow> n | None \<Rightarrow> 0)) (Some ''token_budget_exceeded'')],
           o1\<lparr>q_stop := StopBudgetExceeded\<rparr>, None)
      | (DoStop, o1) \<Rightarrow> ([], o1\<lparr>q_stop := StopEndTurn\<rparr>, None))"

definition run_tools ::
    "query_env \<Rightarrow> provider_reply \<Rightarrow> stream_acc \<Rightarrow> turn_state \<Rightarrow> orch \<Rightarrow> step_result" where
  "run_tools env r acc tn o' =
     (let (pairs, xs, new_mode) = qe_tools env (tool_permission_mode (q_mode o')) (sa_calls acc) (q_exec o');
          seen = (case r_tool_cut r of None \<Rightarrow> pairs | Some k \<Rightarrow> take k pairs);
          o1 = o'\<lparr>q_exec := xs, q_history := record_kinds seen (q_history o'),
                  q_mode := (case new_mode of None \<Rightarrow> q_mode o' | Some m \<Rightarrow> m)\<rparr>;
          evs = map (\<lambda>p. EvTool (fst p)) seen
      in (case r_tool_cut r of
            Some k \<Rightarrow> (let (cevs, o2) = cancel_query env o1 in (evs @ cevs, o2, None))
          | None \<Rightarrow>
              (let o2 = queue_reminders (r_notifications r) o1;
                   h = append_tool_results (qe_float env) (pair_results pairs) (q_history o2)
               in (evs @ (if length (messages h) > length (messages (q_history o2))
                          then [EvAppend (last (messages h))] else []),
                   o2\<lparr>q_history := h\<rparr>, Some tn))))"

text \<open>What follows the chunk loop: its error chunk, its exception, or the complete reply.\<close>

definition after_stream ::
    "query_env \<Rightarrow> int option \<Rightarrow> provider_reply \<Rightarrow> stream_acc \<Rightarrow> (string \<times> string option) option
       \<Rightarrow> turn_state \<Rightarrow> orch \<Rightarrow> step_result" where
  "after_stream env token_budget r acc err tn o' =
     (case err of
        Some (m, c) \<Rightarrow> handle_stream_error m c acc tn o'
      | None \<Rightarrow>
          (case r_end r of
             PromptTooLong m \<Rightarrow> handle_prompt_too_long env m tn o'
           | MediaSize m \<Rightarrow> handle_media_size env m tn o'
           | ProviderFailed m \<Rightarrow> handle_provider_error env m tn o'
           | StreamCancelled \<Rightarrow> (let (cevs, o1) = cancel_query env o' in (cevs, o1, None))
           | StreamDone \<Rightarrow>
               (let (aevs, o1) = append_reply env acc o';
                    (tevs, o2, next) = (if sa_calls acc = [] then finish_reply env token_budget acc tn o1
                                        else run_tools env r acc tn o1)
                in (aevs @ tevs, o2, next))))"

text \<open>One iteration after the turn check, given the provider's reply; also the request sent.\<close>

definition query_step ::
    "query_env \<Rightarrow> int option \<Rightarrow> provider_reply \<Rightarrow> turn_state \<Rightarrow> orch
       \<Rightarrow> message list \<times> step_result" where
  "query_step env token_budget r tn o0 =
     (let (pevs, h) = prepare_history env (q_history o0);
          (sevs, acc, o1, err) =
            consume (r_chunks r) \<lparr>sa_text = [], sa_thoughts = [], sa_calls = [], sa_stop = None\<rparr> (o0\<lparr>q_history := h\<rparr>);
          (evs, o2, next) = after_stream env token_budget r acc err tn o1
      in (messages h, pevs @ sevs @ evs, o2, next))"

datatype query_outcome = Ended | Starved

text \<open>The \<open>while True\<close> loop: events, requests sent, final state and outcome.\<close>

fun query_loop ::
    "query_env \<Rightarrow> nat \<Rightarrow> int option \<Rightarrow> provider_reply list \<Rightarrow> turn_state \<Rightarrow> orch
       \<Rightarrow> query_event list \<times> message list list \<times> orch \<times> query_outcome" where
  "query_loop env max_turns token_budget [] tn o' =
     (if max_turns > 0 \<and> tn_index tn + 1 > int max_turns
      then ([], [], o'\<lparr>q_stop := StopMaxTurns\<rparr>, Ended)
      else ([], [], o', Starved))"
| "query_loop env max_turns token_budget (r # rs) tn o' =
     (if max_turns > 0 \<and> tn_index tn + 1 > int max_turns
      then ([], [], o'\<lparr>q_stop := StopMaxTurns\<rparr>, Ended)
      else (case query_step env token_budget r (start_next_iteration tn) o' of
              (req, evs, o1, None) \<Rightarrow> (evs, [req], o1, Ended)
            | (req, evs, o1, Some tn1) \<Rightarrow>
                (let (evs2, reqs, o2, out) = query_loop env max_turns token_budget rs tn1 o1
                 in (evs @ evs2, req # reqs, o2, out))))"

definition run_query ::
    "query_env \<Rightarrow> string list \<Rightarrow> string list \<Rightarrow> nat \<Rightarrow> int option \<Rightarrow> provider_reply list \<Rightarrow> orch
       \<Rightarrow> query_event list \<times> message list list \<times> orch \<times> query_outcome" where
  "run_query env parent_messages prompt max_turns token_budget replies o0 =
     (let (prompt_text, reminders, blocked, o1) = setup_turn env parent_messages prompt (o0\<lparr>q_in := 0, q_out := 0\<rparr>)
      in if blocked then ([EvUserPromptBlocked], [], o1, Ended)
         else (let (repaired, h) = repair_orphan_tool_results (qe_float env) INTERRUPTED_TOOL_RESULT (q_history o1);
                   h2 = append_user (qe_float env) (to_text_content (qe_reminder_block env) reminders prompt) h;
                   (evs, reqs, o2, out) = query_loop env max_turns token_budget replies new_turn (o1\<lparr>q_history := h2\<rparr>)
               in ((if repaired \<noteq> [] then [EvSnapshot (messages h)] else []) @ [EvAppend (last (messages h2))] @ evs,
                   reqs, o2, out)))"

section \<open>The loop is bounded\<close>

text \<open>The retry budgets, and what an iteration spends of them.\<close>

definition turn_ok :: "turn_state \<Rightarrow> bool" where
  "turn_ok tn \<longleftrightarrow> tn_transient tn \<le> 2 \<and> tn_reactive tn \<le> 2 \<and> tn_protocol tn \<le> 1 \<and> tn_max_tokens tn \<le> 3"

definition spent :: "turn_state \<Rightarrow> int" where
  "spent tn = tn_index tn + int (tn_transient tn + tn_reactive tn + tn_protocol tn)"

definition retries :: "turn_state \<Rightarrow> nat" where
  "retries tn = tn_transient tn + tn_reactive tn + tn_protocol tn + tn_max_tokens tn"

lemmas turn_defs = turn_ok_def spent_def retries_def rewind_retry_iteration_def start_next_iteration_def
  MAX_TRANSIENT_STREAM_RETRIES_def MAX_REACTIVE_RETRIES_def MAX_OUTPUT_TOKEN_RETRIES_def

lemmas error_step_defs = handle_stream_error_def handle_prompt_too_long_def handle_media_size_def
  handle_provider_error_def finish_error_def

text \<open>How an iteration that goes on changes the turn state.\<close>

definition turn_step :: "turn_state \<Rightarrow> turn_state \<Rightarrow> bool" where
  "turn_step tn tn1 \<longleftrightarrow> turn_ok tn1 \<and> spent tn1 = spent tn \<and> retries tn1 = Suc (retries tn)"

lemma error_steps:
  "turn_ok tn \<Longrightarrow> handle_stream_error m c acc tn o' = (evs, o1, Some tn1) \<Longrightarrow> turn_step tn tn1"
  "turn_ok tn \<Longrightarrow> handle_prompt_too_long env m tn o' = (evs, o1, Some tn1) \<Longrightarrow> turn_step tn tn1"
  "turn_ok tn \<Longrightarrow> handle_media_size env m tn o' = (evs, o1, Some tn1) \<Longrightarrow> turn_step tn tn1"
  "turn_ok tn \<Longrightarrow> handle_provider_error env m tn o' = (evs, o1, Some tn1) \<Longrightarrow> turn_step tn tn1"
  by (auto simp: turn_step_def error_step_defs turn_defs Let_def split: if_splits prod.splits)

lemma finish_reply_step:
  "turn_ok tn \<Longrightarrow> finish_reply env b acc tn o' = (evs, o1, Some tn1) \<Longrightarrow> turn_step tn tn1"
  by (auto simp: turn_step_def finish_reply_def handle_stop_def turn_defs Let_def
      split: if_splits prod.splits stop_action.splits option.splits)

lemma run_tools_step: "run_tools env r acc tn o' = (evs, o1, Some tn1) \<Longrightarrow> tn1 = tn"
  by (auto simp: run_tools_def Let_def split: prod.splits option.splits)

fun is_tool_chunk :: "llm_chunk \<Rightarrow> bool" where
  "is_tool_chunk (ToolUseChunk i n inp) = True"
| "is_tool_chunk _ = False"

definition calls_tool :: "provider_reply \<Rightarrow> bool" where
  "calls_tool r = list_ex is_tool_chunk (r_chunks r)"

lemma consume_calls:
  "consume cs acc o' = (evs, acc1, o1, err) \<Longrightarrow> \<not> list_ex is_tool_chunk cs \<Longrightarrow> sa_calls acc1 = sa_calls acc"
  by (induction cs acc o' arbitrary: evs acc1 o1 err rule: consume.induct) (auto split: prod.splits)

lemma query_step_turn:
  assumes "query_step env b r tn o' = (req, evs, o1, Some tn1)" "turn_ok tn"
  shows "turn_step tn tn1 \<or> calls_tool r \<and> tn1 = tn"
proof -
  let ?acc0 = "\<lparr>sa_text = [], sa_thoughts = [], sa_calls = [], sa_stop = None\<rparr>"
  obtain pevs h where p: "prepare_history env (q_history o') = (pevs, h)"
    by (cases "prepare_history env (q_history o')")
  obtain sevs acc o2 err where c: "consume (r_chunks r) ?acc0 (o'\<lparr>q_history := h\<rparr>) = (sevs, acc, o2, err)"
    by (cases "consume (r_chunks r) ?acc0 (o'\<lparr>q_history := h\<rparr>)") auto
  have tools: "sa_calls acc \<noteq> [] \<Longrightarrow> calls_tool r"
    using consume_calls [OF c] by (auto simp: calls_tool_def)
  show ?thesis
  proof (cases err)
    case (Some e)
    with assms p c show ?thesis
      by (cases e) (auto simp: query_step_def after_stream_def dest!: error_steps(1) [OF assms(2)] split: prod.splits)
  next
    case None
    with assms p c tools show ?thesis
      by (cases "r_end r")
         (auto simp: query_step_def after_stream_def dest!: error_steps(2-4) [OF assms(2)] finish_reply_step [OF assms(2)] run_tools_step
           split: prod.splits if_splits)
  qed
qed

lemma start_next_ok: "turn_ok (start_next_iteration tn) = turn_ok tn"
  "spent (start_next_iteration tn) = spent tn + 1" "retries (start_next_iteration tn) = retries tn"
  by (simp_all add: turn_defs)

lemma query_loop_turns:
  assumes "query_loop env max_turns b rs tn o' = (evs, reqs, o1, out)" "turn_ok tn" "0 < max_turns"
  shows "(out = Starved \<longrightarrow> spent tn + int (length rs) \<le> int max_turns + 4) \<and>
         (reqs \<noteq> [] \<longrightarrow> spent tn + int (length reqs) \<le> int max_turns + 5)"
  using assms
proof (induction env max_turns b rs tn o' arbitrary: evs reqs o1 out rule: query_loop.induct)
  case (1 env max_turns b tn o')
  then show ?case by (auto simp: turn_defs split: if_splits)
next
  case (2 env max_turns b r rs tn o')
  show ?case
  proof (cases "max_turns > 0 \<and> tn_index tn + 1 > int max_turns")
    case True
    with 2 show ?thesis by auto
  next
    case False
    with 2 have low: "spent tn \<le> int max_turns + 4" by (auto simp: turn_defs)
    obtain req evs1 oa nxt where s: "query_step env b r (start_next_iteration tn) o' = (req, evs1, oa, nxt)"
      by (cases "query_step env b r (start_next_iteration tn) o'") auto
    show ?thesis
    proof (cases nxt)
      case None
      with 2 False s low show ?thesis by auto
    next
      case (Some tn1)
      from query_step_turn [of env b r "start_next_iteration tn" o' req evs1 oa tn1] s Some 2
      have tn1: "turn_ok tn1" "spent tn1 = spent tn + 1"
        by (auto simp: turn_step_def start_next_ok)
      obtain evs2 reqs2 ob out2 where l: "query_loop env max_turns b rs tn1 oa = (evs2, reqs2, ob, out2)"
        by (cases "query_loop env max_turns b rs tn1 oa") auto
      from 2(1) [OF False s [symmetric] refl refl Some l tn1(1)] 2(4) tn1(2) low
      show ?thesis using 2(2) False s Some l by auto
    qed
  qed
qed

lemma query_loop_retries:
  assumes "query_loop env max_turns b rs tn o' = (evs, reqs, o1, out)" "turn_ok tn"
    and "list_all (\<lambda>r. \<not> calls_tool r) rs"
  shows "(out = Starved \<longrightarrow> retries tn + length rs \<le> 8) \<and> (reqs \<noteq> [] \<longrightarrow> retries tn + length reqs \<le> 9)"
  using assms
proof (induction env max_turns b rs tn o' arbitrary: evs reqs o1 out rule: query_loop.induct)
  case (1 env max_turns b tn o')
  then show ?case by (auto simp: turn_defs split: if_splits)
next
  case (2 env max_turns b r rs tn o')
  show ?case
  proof (cases "max_turns > 0 \<and> tn_index tn + 1 > int max_turns")
    case True
    with 2 show ?thesis by auto
  next
    case False
    obtain req evs1 oa nxt where s: "query_step env b r (start_next_iteration tn) o' = (req, evs1, oa, nxt)"
      by (cases "query_step env b r (start_next_iteration tn) o'") auto
    from 2(3) have low: "retries tn \<le> 8" by (simp add: turn_defs)
    show ?thesis
    proof (cases nxt)
      case None
      with 2 False s low show ?thesis by auto
    next
      case (Some tn1)
      from query_step_turn [of env b r "start_next_iteration tn" o' req evs1 oa tn1] s Some 2
      have tn1: "turn_ok tn1" "retries tn1 = Suc (retries tn)"
        by (auto simp: turn_step_def start_next_ok)
      obtain evs2 reqs2 ob out2 where l: "query_loop env max_turns b rs tn1 oa = (evs2, reqs2, ob, out2)"
        by (cases "query_loop env max_turns b rs tn1 oa") auto
      from 2(1) [OF False s [symmetric] refl refl Some l tn1(1)] 2(4) tn1(2) low
      show ?thesis using 2(2) False s Some l by auto
    qed
  qed
qed

lemma new_turn_ok: "turn_ok new_turn" "spent new_turn = 0" "retries new_turn = 0"
  by (simp_all add: turn_defs new_turn_def)

lemma run_query_cases:
  assumes "run_query env pm prompt max_turns b replies o0 = (evs, reqs, o1, out)"
  obtains "evs = [EvUserPromptBlocked]" "reqs = []" "out = Ended" "messages (q_history o1) = messages (q_history o0)"
  | o2 evs2 reminders where "query_loop env max_turns b replies new_turn o2 = (evs2, reqs, o1, out)"
      "q_history o2 = append_user (qe_float env) (to_text_content (qe_reminder_block env) reminders prompt)
         (snd (repair_orphan_tool_results (qe_float env) INTERRUPTED_TOOL_RESULT (q_history o0)))"
      "EvAppend (last (messages (q_history o2))) \<in> set evs"
proof -
  obtain ptext reminders blocked oa where st: "setup_turn env pm prompt (o0\<lparr>q_in := 0, q_out := 0\<rparr>) = (ptext, reminders, blocked, oa)"
    by (cases "setup_turn env pm prompt (o0\<lparr>q_in := 0, q_out := 0\<rparr>)") auto
  have h: "q_history oa = q_history o0"
    using st by (auto simp: setup_turn_def fire_query_hook_def queue_reminders_def Let_def
        split: option.splits prod.splits if_splits)
  show ?thesis
  proof (cases blocked)
    case True
    with assms st h show ?thesis by (auto simp: run_query_def intro: that(1))
  next
    case False
    obtain repaired hr where r: "repair_orphan_tool_results (qe_float env) INTERRUPTED_TOOL_RESULT (q_history o0) = (repaired, hr)"
      by (cases "repair_orphan_tool_results (qe_float env) INTERRUPTED_TOOL_RESULT (q_history o0)")
    let ?h2 = "append_user (qe_float env) (to_text_content (qe_reminder_block env) reminders prompt) hr"
    obtain evs2 reqs2 ob out2 where l: "query_loop env max_turns b replies new_turn (oa\<lparr>q_history := ?h2\<rparr>) = (evs2, reqs2, ob, out2)"
      by (cases "query_loop env max_turns b replies new_turn (oa\<lparr>q_history := ?h2\<rparr>)") auto
    with assms st h r False have "reqs2 = reqs" "ob = o1" "out2 = out" "EvAppend (last (messages ?h2)) \<in> set evs"
      by (auto simp: run_query_def)
    with l r that(2) [of "oa\<lparr>q_history := ?h2\<rparr>" evs2 reminders] show ?thesis by simp
  qed
qed

text \<open>
  C1. A query always comes to an end. With a turn limit \<open>max_turns > 0\<close> at most
  \<open>max_turns + 5\<close> requests are sent to the provider, whatever it answers (two transient retries,
  two reactive compactions and one protocol repair can be added to the turns), and that many
  replies are enough to finish; without a limit, a provider that calls no tools is asked at most
  nine times.
\<close>

theorem query_terminates:
  assumes "run_query env pm prompt max_turns b replies o0 = (evs, reqs, o1, out)"
  shows "(0 < max_turns \<longrightarrow> length reqs \<le> max_turns + 5 \<and> (max_turns + 5 \<le> length replies \<longrightarrow> out = Ended)) \<and>
         (list_all (\<lambda>r. \<not> calls_tool r) replies \<longrightarrow> length reqs \<le> 9 \<and> (9 \<le> length replies \<longrightarrow> out = Ended))"
proof (rule run_query_cases [OF assms])
  fix o2 evs2 reminders
  assume l: "query_loop env max_turns b replies new_turn o2 = (evs2, reqs, o1, out)"
  have e: "out = Ended \<longleftrightarrow> out \<noteq> Starved" by (cases out) auto
  show ?thesis
    using query_loop_turns [OF l new_turn_ok(1)] query_loop_retries [OF l new_turn_ok(1)]
    by (cases "reqs = []") (auto simp: new_turn_ok e)
qed auto

section \<open>Requests answer every tool use\<close>

text \<open>
  Half of the provider protocol, which survives every pass of the compactor: before the next
  assistant message, and at the end, every tool use has a result.
\<close>

fun answered_from :: "string list \<Rightarrow> message list \<Rightarrow> bool" where
  "answered_from p [] \<longleftrightarrow> p = []"
| "answered_from p (AssistantMessage c # ms) \<longleftrightarrow> p = [] \<and> answered_from (use_ids c) ms"
| "answered_from p (UserMessage c # ms) \<longleftrightarrow> answered_from (filter (\<lambda>i. i \<notin> set (result_ids c)) p) ms"

definition all_answered :: "message list \<Rightarrow> bool" where
  "all_answered ms = answered_from [] ms"

lemma answered_mono: "answered_from p ms \<Longrightarrow> set q \<subseteq> set p \<Longrightarrow> answered_from q ms"
proof (induction p ms arbitrary: q rule: answered_from.induct)
  case (3 p c ms)
  from 3(2,3) 3(1) [of "filter (\<lambda>i. i \<notin> set (result_ids c)) q"] show ?case by auto
qed auto

lemma answered_user [simp]: "answered_from [] (UserMessage c # ms) = answered_from [] ms"
  by simp

lemma answered_plain_user: "result_ids c = [] \<Longrightarrow> answered_from p (UserMessage c # ms) = answered_from p ms"
  by simp

lemma answered_drop: "answered_from p ms \<Longrightarrow> answered_from [] (drop n ms)"
proof (induction p ms arbitrary: n rule: answered_from.induct)
  case (2 p c ms)
  then show ?case by (cases n) (auto)
next
  case (3 p c ms)
  then show ?case by (cases n) (auto intro: answered_mono)
qed simp

lemma answered_append_cong:
  "answered_from p (xs @ ys) \<Longrightarrow> (\<And>q. answered_from q ys \<Longrightarrow> answered_from q zs) \<Longrightarrow> answered_from p (xs @ zs)"
  by (induction p xs rule: answered_from.induct) auto

lemma answered_appendI: "answered_from p xs \<Longrightarrow> answered_from [] ys \<Longrightarrow> answered_from p (xs @ ys)"
  by (induction p xs rule: answered_from.induct) auto

lemma answered_butlast: "answered_from p (xs @ [AssistantMessage c]) \<Longrightarrow> answered_from p xs"
  by (induction p xs rule: answered_from.induct) auto

lemma paired_answered: "paired_from p ms \<Longrightarrow> answered_from p ms"
proof (induction p ms rule: paired_from.induct)
  case (3 p c ms)
  then obtain r where r: "answer p (result_ids c) = Some r" "paired_from r ms"
    by (auto simp: paired_from.simps(3) split: option.splits)
  have "mset p = mset (result_ids c) + mset r" using answer_mset [OF r(1)] .
  then have "set p = set (result_ids c) \<union> set r" by (metis set_mset_mset set_mset_union)
  with 3(1) [OF r(1)] r 3(2) show ?case
    by (auto simp: paired_from.simps(3) intro: answered_mono)
qed auto

lemma answered_shape: "map shape ms = map shape ms' \<Longrightarrow> answered_from p ms \<Longrightarrow> answered_from p ms'"
proof (induction p ms arbitrary: ms' rule: answered_from.induct)
  case (1 p)
  then show ?case by simp
next
  case (2 p c ms)
  from 2(2) obtain d ns where d: "ms' = AssistantMessage d # ns" "use_ids d = use_ids c" "map shape ms = map shape ns"
    by (cases ms') (auto simp: shape_Inl)
  from 2(1) [OF d(3)] 2(3) show ?case by (simp add: d(1,2))
next
  case (3 p c ms)
  from 3(2) obtain d ns where d: "ms' = UserMessage d # ns" "result_ids d = result_ids c" "map shape ms = map shape ns"
    by (cases ms') (auto simp: shape_Inr)
  from 3(1) [OF d(3)] 3(3) show ?case by (simp add: d(1,2))
qed

lemma answered_drop_pairs: "answered_from p (xs @ ys) \<Longrightarrow> answered_from p (drop_pairs h xs @ ys)"
proof (induction h xs arbitrary: p rule: drop_pairs.induct)
  case (1 h m n ms)
  show ?case
  proof (cases "removable h m n")
    case True
    then obtain c d where mn: "m = AssistantMessage c" "n = UserMessage d"
      by (auto simp: removable_def split: message.splits)
    with 1(3) have "p = []" "answered_from [] (ms @ ys)" by (auto intro: answered_mono)
    with 1(1) True show ?thesis by simp
  next
    case False
    with 1 show ?thesis by (cases m) auto
  qed
qed auto

lemma snip_answered: "all_answered (messages h) \<Longrightarrow> all_answered (messages (snd (snip_read_only_results fl keep h)))"
  unfolding all_answered_def by (rule answered_shape [OF snip_shape [symmetric]])

lemma strip_answered: "all_answered (messages h) \<Longrightarrow> all_answered (messages (snd (strip_media fl h)))"
  unfolding all_answered_def by (rule answered_shape [OF strip_shape [symmetric]])

lemma compact_answered: "all_answered (messages h) \<Longrightarrow> all_answered (messages (compact fl sm keep h))"
proof (cases "find_compaction_boundary keep h = 0")
  case False
  assume "all_answered (messages h)"
  moreover obtain header where "messages (compact fl sm keep h) =
      UserMessage [TextContent header] # drop (find_compaction_boundary keep h) (messages h)"
    using compact_messages [OF False] by blast
  ultimately show ?thesis by (simp add: all_answered_def answered_drop)
qed (simp add: compact_def)

lemma microcompact_answered:
  "all_answered (messages h) \<Longrightarrow> all_answered (messages (snd (remove_read_only_pairs fl keep h)))"
proof (rule microcompact_cases [of fl keep h])
  fix p ps b
  assume a: "all_answered (messages h)"
    and ps: "removable_pairs h b 0 = p # ps" and b: "b \<le> length (messages h)"
    and h': "messages (snd (remove_read_only_pairs fl keep h)) =
         take p (messages h) @ removed_marker (length (removable_pairs h b 0)) #
         drop_pairs h (drop p (take b (messages h))) @ drop b (messages h)"
  have p: "p < b" using pair_indices_Min [OF ps] by blast
  have split: "drop p (messages h) = drop p (take b (messages h)) @ drop b (messages h)"
    using p b by (metis append_take_drop_id drop_append diff_is_0_eq drop0 length_take less_imp_le min.absorb2)
  have step: "answered_from q (removed_marker n # drop_pairs h (drop p (take b (messages h))) @ drop b (messages h))"
    if "answered_from q (drop p (messages h))" for q n
    using that answered_drop_pairs [of q "drop p (take b (messages h))" "drop b (messages h)" h]
    by (simp add: split removed_marker_def)
  have "answered_from [] (take p (messages h) @ drop p (messages h))" using a by (simp add: all_answered_def)
  from answered_append_cong [OF this step] show ?thesis by (simp add: all_answered_def h')
qed simp

lemma repair_answered: "all_answered (messages (snd (repair_orphan_tool_results fl reason h)))"
proof -
  have "paired_from [] (messages (snd (repair_orphan_tool_results fl reason h)))"
    using repair_loop_paired [of "[]" reason "messages h"] repair_loop_none [of reason "[]" "messages h"]
    by (auto simp: repair_messages)
  then show ?thesis unfolding all_answered_def by (rule paired_answered)
qed

lemma append_user_answered: "all_answered (messages h) \<Longrightarrow> all_answered (messages (append_user fl ts h))"
  by (simp add: append_user_def push_message_def all_answered_def answered_appendI)

lemma prepare_answered:
  assumes "all_answered (messages h)" "prepare_history env h = (evs, h')"
  shows "all_answered (messages h')"
  using assms snip_answered microcompact_answered compact_answered
  by (auto simp: prepare_history_def Let_def split: if_splits)

lemma answered_no_pending: "answered_from p ms \<Longrightarrow> pending_tool_use_ids ms = []"
proof -
  have none: "last_assistant ms = None \<Longrightarrow> answered_from q ms \<Longrightarrow> set q \<subseteq> set (concat (map message_results ms))" for q ms
    by (induction q ms rule: answered_from.induct) (auto split: option.splits)
  have some: "last_assistant ms = Some (c, rs) \<Longrightarrow> answered_from q ms \<Longrightarrow>
      set (use_ids c) \<subseteq> set (concat (map message_results rs))" for q ms c rs
  proof (induction q ms rule: answered_from.induct)
    case (2 q d ms)
    then show ?case using none [of ms "use_ids c"] by (auto split: option.splits)
  qed (auto split: option.splits)
  assume "answered_from p ms"
  with some show ?thesis
    by (fastforce simp: pending_tool_use_ids_def Let_def filter_empty_conv split: option.splits)
qed

text \<open>A history whose last message is an assistant message with unanswered tool uses.\<close>

definition open_turn :: "string list \<Rightarrow> message list \<Rightarrow> bool" where
  "open_turn ids ms \<longleftrightarrow> (\<exists>xs c. ms = xs @ [AssistantMessage c] \<and> answered_from [] xs \<and> use_ids c = ids)"

lemma answered_close:
  assumes "open_turn ids ms" "set ids \<subseteq> set (result_ids rs)"
  shows "all_answered (ms @ [UserMessage rs])"
proof -
  from assms obtain xs c where "ms = xs @ [AssistantMessage c]" "answered_from [] xs" "use_ids c = ids"
    by (auto simp: open_turn_def)
  moreover have "answered_from [] [AssistantMessage c, UserMessage rs]"
    using assms(2) \<open>use_ids c = ids\<close> by (auto simp: filter_empty_conv)
  ultimately show ?thesis unfolding all_answered_def by (simp only: append_assoc append.simps answered_appendI)
qed

lemma cancel_answered:
  assumes "all_answered (messages (q_history o')) \<or> open_turn ids (messages (q_history o'))"
    and "cancel_query env o' = (evs, o1)"
  shows "all_answered (messages (q_history o1))"
proof -
  let ?h = "q_history o'"
  have h: "q_history o1 = snd (append_interrupted_tool_results (qe_float env) ''Interrupted by user'' ?h)"
    using assms(2) by (auto simp: cancel_query_def Let_def split: prod.splits)
  show ?thesis
  proof (cases "pending_tool_use_ids (messages ?h) = []")
    case True
    have "all_answered (messages ?h)"
    proof (cases "all_answered (messages ?h)")
      case False
      with assms(1) obtain xs c where x: "messages ?h = xs @ [AssistantMessage c]" "answered_from [] xs"
        by (auto simp: open_turn_def)
      with True have "use_ids c = []" by (simp add: pending_tool_use_ids_def last_assistant_last)
      with x show ?thesis by (simp add: all_answered_def answered_appendI)
    qed
    with True show ?thesis by (simp add: h append_interrupted_messages)
  next
    case False
    with assms(1) answered_no_pending have "open_turn ids (messages ?h)" by (auto simp: all_answered_def)
    moreover from this have "pending_tool_use_ids (messages ?h) = ids"
      by (auto simp: open_turn_def pending_tool_use_ids_def last_assistant_last)
    ultimately show ?thesis using False answered_close by (simp add: h append_interrupted_messages Let_def)
  qed
qed

text \<open>The tools of a query are run by the executor of \<open>Tool_Execution\<close>, and every tool settles.\<close>

definition runs_executor :: "query_env \<Rightarrow> exec_env \<Rightarrow> bool" where
  "runs_executor env x \<longleftrightarrow>
     (\<forall>m calls xs. results_output (x\<lparr>x_mode := m\<rparr>) (partition_tool_calls (x_lookup x) calls)
        (fst (qe_tools env m calls xs))) \<and>
     (\<forall>f n t. x_lookup x = Some f \<and> f n = Some t \<longrightarrow> settles t)"

lemma tools_cover:
  assumes "runs_executor env x"
  shows "set (map tu_id calls) \<subseteq> set (result_ids (pair_results (fst (qe_tools env m calls xs))))"
proof -
  have out: "results_output (x\<lparr>x_mode := m\<rparr>) (partition_tool_calls (x_lookup x) calls) (fst (qe_tools env m calls xs))"
    and "all_settle (x\<lparr>x_mode := m\<rparr>) (concat (partition_tool_calls (x_lookup x) calls))"
    using assms unfolding runs_executor_def all_settle_def by auto
  from results_output_ids [OF this] have "mset (result_ids (pair_results (fst (qe_tools env m calls xs)))) = mset (map tu_id calls)"
    by (simp add: partition_tool_calls_def partition_loop_concat)
  then show ?thesis by (metis mset_eq_setD order_refl)
qed

lemma consume_messages:
  "consume cs acc o' = (evs, acc1, o1, err) \<Longrightarrow> messages (q_history o1) = messages (q_history o')"
  by (induction cs acc o' arbitrary: evs acc1 o1 err rule: consume.induct)
     (auto simp: update_token_count_def split: prod.splits)

lemma record_kinds_messages [simp]: "messages (record_kinds ps h) = messages h"
  by (induction ps h rule: record_kinds.induct) (auto simp: record_tool_kind_def)

lemma queue_reminders_history [simp]: "q_history (queue_reminders rs o') = q_history o'"
  by (simp add: queue_reminders_def)

lemma fire_query_hook_history:
  "fire_query_hook env ev t n e s o' = (b, u, o1) \<Longrightarrow> q_history o1 = q_history o'"
  by (auto simp: fire_query_hook_def split: option.splits prod.splits)

lemma append_reply_history:
  assumes "append_reply env acc o' = (evs, o1)"
  shows "q_history o1 = append_assistant (qe_float env) (concat (sa_text acc)) (sa_thoughts acc)
           (map use_block (sa_calls acc)) (q_history o')"
  using assms
  by (auto simp: append_reply_def Let_def fire_query_hook_def split: if_splits option.splits prod.splits)

lemma append_reply_open:
  assumes "append_reply env acc o' = (evs, o1)" "all_answered (messages (q_history o'))"
  shows "(sa_calls acc = [] \<longrightarrow> all_answered (messages (q_history o1))) \<and>
         (sa_calls acc \<noteq> [] \<longrightarrow> open_turn (map tu_id (sa_calls acc)) (messages (q_history o1)))"
proof -
  let ?c = "assistant_blocks (concat (sa_text acc)) (sa_thoughts acc) (map use_block (sa_calls acc))"
  have ids: "use_ids ?c = map tu_id (sa_calls acc)" by (rule use_ids_assistant_blocks)
  have m: "messages (q_history o1) = messages (q_history o') @ (if ?c = [] then [] else [AssistantMessage ?c])"
    by (simp add: append_reply_history [OF assms(1)] append_assistant_def push_message_def Let_def)
  have "?c \<noteq> []" if "sa_calls acc \<noteq> []" using that by (simp add: assistant_blocks_def)
  with ids m assms(2) show ?thesis
    by (auto simp: open_turn_def all_answered_def intro!: answered_appendI)
qed

lemma pop_answered: "all_answered (messages h) \<Longrightarrow> all_answered (messages (snd (pop_last_assistant fl h)))"
proof (cases "messages h \<noteq> [] \<and> \<not> is_user (last (messages h))")
  case True
  assume a: "all_answered (messages h)"
  from True obtain c where "last (messages h) = AssistantMessage c" by (cases "last (messages h)") auto
  with True a have "answered_from [] (butlast (messages h) @ [AssistantMessage c])"
    by (metis all_answered_def append_butlast_last_id)
  with True show ?thesis by (auto simp: pop_last_assistant_def all_answered_def dest: answered_butlast)
qed (auto simp: pop_last_assistant_def)

lemma finish_reply_answered:
  assumes "finish_reply env b acc tn o' = (evs, o1, nxt)" "all_answered (messages (q_history o'))"
  shows "all_answered (messages (q_history o1))"
  using assms pop_answered
  by (auto simp: finish_reply_def handle_stop_def Let_def dest!: fire_query_hook_history
      split: if_splits prod.splits stop_action.splits option.splits)

lemma run_tools_answered:
  assumes "run_tools env r acc tn o' = (evs, o1, nxt)" "runs_executor env x"
    and "open_turn (map tu_id (sa_calls acc)) (messages (q_history o'))" "sa_calls acc \<noteq> []"
  shows "all_answered (messages (q_history o1))"
proof -
  obtain pairs xs nm where t: "qe_tools env (tool_permission_mode (q_mode o')) (sa_calls acc) (q_exec o') = (pairs, xs, nm)"
    by (cases "qe_tools env (tool_permission_mode (q_mode o')) (sa_calls acc) (q_exec o')")
  have cover: "set (map tu_id (sa_calls acc)) \<subseteq> set (result_ids (pair_results pairs))"
    using tools_cover [OF assms(2), of "sa_calls acc"] t by (metis fst_conv)
  show ?thesis
  proof (cases "r_tool_cut r")
    case (Some k)
    let ?o = "o'\<lparr>q_exec := xs, q_history := record_kinds (take k pairs) (q_history o'),
                q_mode := (case nm of None \<Rightarrow> q_mode o' | Some m \<Rightarrow> m)\<rparr>"
    obtain cevs o2 where c: "cancel_query env ?o = (cevs, o2)" by (cases "cancel_query env ?o")
    have "all_answered (messages (q_history o2))"
      by (rule cancel_answered [OF disjI2 c]) (use assms(3) in simp)
    with assms(1) t Some c show ?thesis by (auto simp: run_tools_def)
  next
    case None
    from cover assms(4) have "pair_results pairs \<noteq> []" by (cases "sa_calls acc") auto
    with assms(1) t None answered_close [OF assms(3) cover] show ?thesis
      by (auto simp: run_tools_def append_tool_results_def push_message_def Let_def)
  qed
qed

lemma error_steps_answered:
  assumes "all_answered (messages (q_history o'))"
  shows "handle_stream_error m c acc tn o' = (evs, o1, nxt) \<Longrightarrow> all_answered (messages (q_history o1))"
    "handle_prompt_too_long env m tn o' = (evs, o1, nxt) \<Longrightarrow> all_answered (messages (q_history o1))"
    "handle_media_size env m tn o' = (evs, o1, nxt) \<Longrightarrow> all_answered (messages (q_history o1))"
    "handle_provider_error env m tn o' = (evs, o1, nxt) \<Longrightarrow> all_answered (messages (q_history o1))"
  using assms compact_answered strip_answered [of "q_history o'" "qe_float env"]
    repair_answered [of "qe_float env" INTERRUPTED_TOOL_RESULT "q_history o'"]
  by (auto simp: error_step_defs compact_now_def Let_def split: if_splits prod.splits)

lemma query_step_answered:
  assumes "query_step env b r tn o' = (req, evs, o1, nxt)" "runs_executor env x"
    and "all_answered (messages (q_history o'))"
  shows "all_answered req \<and> all_answered (messages (q_history o1))"
proof -
  let ?acc0 = "\<lparr>sa_text = [], sa_thoughts = [], sa_calls = [], sa_stop = None\<rparr>"
  obtain pevs h where p: "prepare_history env (q_history o') = (pevs, h)"
    by (cases "prepare_history env (q_history o')")
  obtain sevs acc o2 err where c: "consume (r_chunks r) ?acc0 (o'\<lparr>q_history := h\<rparr>) = (sevs, acc, o2, err)"
    by (cases "consume (r_chunks r) ?acc0 (o'\<lparr>q_history := h\<rparr>)") auto
  have h: "all_answered (messages h)" using prepare_answered [OF assms(3) p] .
  have o2: "all_answered (messages (q_history o2))" using consume_messages [OF c] h by simp
  obtain aevs oa where a: "append_reply env acc o2 = (aevs, oa)" by (cases "append_reply env acc o2")
  note oa = append_reply_open [OF a o2]
  have "all_answered (messages (q_history o1))"
  proof (cases err)
    case (Some e)
    with assms(1) p c error_steps_answered(1) [OF o2] show ?thesis
      by (cases e) (auto simp: query_step_def after_stream_def split: prod.splits)
  next
    case None
    note steps = error_steps_answered(2-4) [OF o2] cancel_answered [OF disjI1 [OF o2]]
      finish_reply_answered [of env b acc tn oa] run_tools_answered [OF _ assms(2), of r acc tn oa]
    from None assms(1) p c a oa steps show ?thesis
      by (cases "r_end r") (auto simp: query_step_def after_stream_def split: prod.splits if_splits)
  qed
  moreover have "req = messages h" using assms(1) p c by (auto simp: query_step_def after_stream_def split: prod.splits)
  ultimately show ?thesis using h by simp
qed

lemma query_loop_answered:
  assumes "query_loop env max_turns b rs tn o' = (evs, reqs, o1, out)" "runs_executor env x"
    and "all_answered (messages (q_history o'))"
  shows "list_all all_answered reqs \<and> all_answered (messages (q_history o1))"
  using assms
proof (induction env max_turns b rs tn o' arbitrary: evs reqs o1 out rule: query_loop.induct)
  case (2 env max_turns b r rs tn o')
  show ?case
  proof (cases "max_turns > 0 \<and> tn_index tn + 1 > int max_turns")
    case False
    obtain req evs1 oa nxt where s: "query_step env b r (start_next_iteration tn) o' = (req, evs1, oa, nxt)"
      by (cases "query_step env b r (start_next_iteration tn) o'") auto
    note sa = query_step_answered [OF s 2(3,4)]
    show ?thesis
    proof (cases nxt)
      case (Some tn1)
      obtain evs2 reqs2 ob out2 where l: "query_loop env max_turns b rs tn1 oa = (evs2, reqs2, ob, out2)"
        by (cases "query_loop env max_turns b rs tn1 oa") auto
      from 2(1) [OF False s [symmetric] refl refl Some l 2(3)] sa show ?thesis
        using 2(2) False s Some l by auto
    qed (use 2(2) False s sa in auto)
  qed (use 2 in auto)
qed (auto split: if_splits)

text \<open>
  C3. In every request a query sends to the provider, each tool use is followed by its result
  before the next assistant message; and however the query ends (normally, by an error, at the
  turn limit, or cancelled while streaming or while tools run), the history it leaves has that
  property too. Only a query refused by the prompt hook leaves the history as it was.
\<close>

theorem query_requests_answered:
  assumes "runs_executor env x" "run_query env pm prompt max_turns b replies o0 = (evs, reqs, o1, out)"
  shows "list_all all_answered reqs \<and>
         (evs \<noteq> [EvUserPromptBlocked] \<longrightarrow> all_answered (messages (q_history o1))) \<and>
         (evs = [EvUserPromptBlocked] \<longrightarrow> messages (q_history o1) = messages (q_history o0))"
proof (rule run_query_cases [OF assms(2)])
  fix o2 evs2 reminders
  assume l: "query_loop env max_turns b replies new_turn o2 = (evs2, reqs, o1, out)"
    and h: "q_history o2 = append_user (qe_float env) (to_text_content (qe_reminder_block env) reminders prompt)
         (snd (repair_orphan_tool_results (qe_float env) INTERRUPTED_TOOL_RESULT (q_history o0)))"
    and e: "EvAppend (last (messages (q_history o2))) \<in> set evs"
  have "all_answered (messages (q_history o2))" by (simp add: h append_user_answered repair_answered)
  from query_loop_answered [OF l assms(1) this] e show ?thesis by auto
qed auto

section \<open>Permission modes that have no effect\<close>

text \<open>Two states that differ only in modes the executor cannot tell apart.\<close>

definition same_but_mode :: "orch \<Rightarrow> orch \<Rightarrow> bool" where
  "same_but_mode o1 o2 \<longleftrightarrow>
     o1\<lparr>q_mode := MDefault\<rparr> = o2\<lparr>q_mode := MDefault\<rparr> \<and>
     tool_permission_mode (q_mode o1) = tool_permission_mode (q_mode o2)"

lemma same_but_modeE:
  assumes "same_but_mode o1 o2"
  obtains m where "o2 = o1\<lparr>q_mode := m\<rparr>" "tool_permission_mode m = tool_permission_mode (q_mode o1)"
proof -
  have "o2 = o1\<lparr>q_mode := q_mode o2\<rparr>"
    using assms by (cases o1; cases o2) (simp add: same_but_mode_def)
  with assms that show ?thesis by (simp add: same_but_mode_def)
qed

lemma same_but_modeI: "tool_permission_mode m = tool_permission_mode (q_mode o1) \<Longrightarrow> same_but_mode o1 (o1\<lparr>q_mode := m\<rparr>)"
  by (simp add: same_but_mode_def)

lemma queue_reminders_mode: "queue_reminders rs (o'\<lparr>q_mode := m\<rparr>) = (queue_reminders rs o')\<lparr>q_mode := m\<rparr>"
  by (simp add: queue_reminders_def)

text \<open>The mode is part of the ambient context of a hook; \<open>mode_blind\<close>: no hook looks at it.\<close>

definition set_mode_of :: "permission_mode \<Rightarrow> hook_ctx \<Rightarrow> hook_ctx" where
  "set_mode_of m ctx = ctx\<lparr>h_ambient := (h_ambient ctx)\<lparr>am_mode := m\<rparr>\<rparr>"

definition mode_blind :: "query_env \<Rightarrow> bool" where
  "mode_blind env \<longleftrightarrow>
     (\<forall>reg m ctx. qe_hooks env = Some reg \<longrightarrow>
        fire reg (set_mode_of m ctx) = (fst (fire reg ctx), set_mode_of m (snd (fire reg ctx))))"

lemma mode_blindD:
  assumes "mode_blind env" "qe_hooks env = Some reg"
  shows "fst (fire reg (set_mode_of m ctx)) = fst (fire reg ctx)"
    "h_user_text (snd (fire reg (set_mode_of m ctx))) = h_user_text (snd (fire reg ctx))"
    "h_messages (snd (fire reg (set_mode_of m ctx))) = h_messages (snd (fire reg ctx))"
  using assms by (simp_all add: mode_blind_def) (simp_all add: set_mode_of_def)

lemma fire_query_hook_mode:
  "mode_blind env \<Longrightarrow> fire_query_hook env ev t n e s (o'\<lparr>q_mode := m\<rparr>) =
     (case fire_query_hook env ev t n e s o' of (b, u, o1) \<Rightarrow> (b, u, o1\<lparr>q_mode := m\<rparr>))"
  "fire_query_hook env ev t n e s o' = (b, u, o1) \<Longrightarrow> q_mode o1 = q_mode o'"
proof -
  let ?ctx = "\<lparr>h_ambient = \<lparr>am_session_id = qe_session_id env, am_cwd = xs_cwd (q_exec o'),
      am_agent_depth = qe_depth env, am_mode = q_mode o'\<rparr>, h_event = ev, h_tool_name = None, h_tool_input = [],
      h_tool_output = None, h_error_message = None, h_user_text = t, h_message_count = n,
      h_token_estimate = e, h_stop_reason = s, h_messages = []\<rparr>"
  assume blind: "mode_blind env"
  show "fire_query_hook env ev t n e s (o'\<lparr>q_mode := m\<rparr>) =
     (case fire_query_hook env ev t n e s o' of (b, u, o1) \<Rightarrow> (b, u, o1\<lparr>q_mode := m\<rparr>))"
  proof (cases "qe_hooks env")
    case (Some reg)
    have "fire_query_hook env ev t n e s (o'\<lparr>q_mode := m\<rparr>) =
        (case fire reg (set_mode_of m ?ctx) of (b, c) \<Rightarrow> (b, h_user_text c, queue_reminders (h_messages c) (o'\<lparr>q_mode := m\<rparr>)))"
      by (simp add: fire_query_hook_def Some set_mode_of_def)
    also have "\<dots> = (case fire reg ?ctx of (b, c) \<Rightarrow> (b, h_user_text c, (queue_reminders (h_messages c) o')\<lparr>q_mode := m\<rparr>))"
      by (simp add: split_def mode_blindD [OF blind Some] queue_reminders_mode)
    also have "\<dots> = (case fire_query_hook env ev t n e s o' of (b, u, o1) \<Rightarrow> (b, u, o1\<lparr>q_mode := m\<rparr>))"
      by (simp add: fire_query_hook_def Some split_def Let_def)
    finally show ?thesis .
  qed (simp add: fire_query_hook_def)
qed (auto simp: fire_query_hook_def queue_reminders_def split: option.splits prod.splits)

lemma consume_keeps_mode: "consume cs acc o' = (evs, acc1, o1, err) \<Longrightarrow> q_mode o1 = q_mode o'"
  by (induction cs acc o' arbitrary: evs acc1 o1 err rule: consume.induct) (auto split: prod.splits)

lemma mode_update_commute:
  "o'\<lparr>q_mode := m, q_history := h\<rparr> = o'\<lparr>q_history := h, q_mode := m\<rparr>"
  "o'\<lparr>q_mode := m, q_exec := xs\<rparr> = o'\<lparr>q_exec := xs, q_mode := m\<rparr>"
  "o'\<lparr>q_mode := m, q_stop := sr\<rparr> = o'\<lparr>q_stop := sr, q_mode := m\<rparr>"
  "o'\<lparr>q_mode := m, q_in := i\<rparr> = o'\<lparr>q_in := i, q_mode := m\<rparr>"
  "o'\<lparr>q_mode := m, q_out := i\<rparr> = o'\<lparr>q_out := i, q_mode := m\<rparr>"
  by simp_all

lemma consume_mode:
  "consume cs acc (o'\<lparr>q_mode := m\<rparr>) =
     (case consume cs acc o' of (evs, acc1, o1, err) \<Rightarrow> (evs, acc1, o1\<lparr>q_mode := m\<rparr>, err))"
  by (induction cs acc o' rule: consume.induct) (auto simp: mode_update_commute Let_def split: prod.splits)

text \<open>Every step keeps the relation; \<open>lift_mode\<close> is what a changed mode does to its result.\<close>

definition lift_mode :: "permission_mode \<Rightarrow> step_result \<Rightarrow> step_result" where
  "lift_mode m r = (case r of (evs, o1, nxt) \<Rightarrow> (evs, o1\<lparr>q_mode := m\<rparr>, nxt))"

lemma error_steps_mode:
  "handle_stream_error x c acc tn (o'\<lparr>q_mode := m\<rparr>) = lift_mode m (handle_stream_error x c acc tn o')"
  "handle_prompt_too_long env x tn (o'\<lparr>q_mode := m\<rparr>) = lift_mode m (handle_prompt_too_long env x tn o')"
  "handle_media_size env x tn (o'\<lparr>q_mode := m\<rparr>) = lift_mode m (handle_media_size env x tn o')"
  "handle_provider_error env x tn (o'\<lparr>q_mode := m\<rparr>) = lift_mode m (handle_provider_error env x tn o')"
  by (auto simp: error_step_defs compact_now_def lift_mode_def Let_def mode_update_commute split: prod.splits)

lemma error_steps_keep_mode:
  "handle_stream_error x c acc tn o' = (evs, o1, nxt) \<Longrightarrow> q_mode o1 = q_mode o'"
  "handle_prompt_too_long env x tn o' = (evs, o1, nxt) \<Longrightarrow> q_mode o1 = q_mode o'"
  "handle_media_size env x tn o' = (evs, o1, nxt) \<Longrightarrow> q_mode o1 = q_mode o'"
  "handle_provider_error env x tn o' = (evs, o1, nxt) \<Longrightarrow> q_mode o1 = q_mode o'"
  by (auto simp: error_step_defs compact_now_def Let_def split: prod.splits if_splits)

lemma cancel_mode:
  "cancel_query env (o'\<lparr>q_mode := m\<rparr>) = (case cancel_query env o' of (evs, o1) \<Rightarrow> (evs, o1\<lparr>q_mode := m\<rparr>))"
  "cancel_query env o' = (evs, o1) \<Longrightarrow> q_mode o1 = q_mode o'"
  by (auto simp: cancel_query_def Let_def split: prod.splits)

lemma fire_query_hook_mode' [simp]: "q_mode (snd (snd (fire_query_hook env ev t n e s o'))) = q_mode o'"
  using fire_query_hook_mode(2) by (metis prod.collapse)

lemma append_reply_mode:
  "mode_blind env \<Longrightarrow> append_reply env acc (o'\<lparr>q_mode := m\<rparr>) = (case append_reply env acc o' of (evs, o1) \<Rightarrow> (evs, o1\<lparr>q_mode := m\<rparr>))"
  "append_reply env acc o' = (evs, o1) \<Longrightarrow> q_mode o1 = q_mode o'"
  by (auto simp: append_reply_def Let_def fire_query_hook_mode(1) mode_update_commute split: prod.splits)

lemma finish_reply_mode:
  "mode_blind env \<Longrightarrow> finish_reply env b acc tn (o'\<lparr>q_mode := m\<rparr>) = lift_mode m (finish_reply env b acc tn o')"
  "finish_reply env b acc tn o' = (evs, o1, nxt) \<Longrightarrow> q_mode o1 = q_mode o'"
  by (auto simp: finish_reply_def handle_stop_def lift_mode_def Let_def fire_query_hook_mode(1) budget_message_def
      mode_update_commute dest!: fire_query_hook_mode(2) split: prod.splits stop_action.splits option.splits if_splits)

lemma same_lift:
  assumes "f (o'\<lparr>q_mode := m\<rparr>) = lift_mode m (f o')" "\<And>evs o1 nxt. f o' = (evs, o1, nxt) \<Longrightarrow> q_mode o1 = q_mode o'"
    and "tool_permission_mode m = tool_permission_mode (q_mode o')" "f o' = (evs, o1, nxt)"
  shows "\<exists>o2. f (o'\<lparr>q_mode := m\<rparr>) = (evs, o2, nxt) \<and> same_but_mode o1 o2"
  using assms same_but_modeI [of m o1] by (auto simp: lift_mode_def)

lemma step_sims:
  assumes blind: "mode_blind env" and perm: "tool_permission_mode m = tool_permission_mode (q_mode o')"
  shows "handle_stream_error x c acc tn o' = (evs, o1, nxt) \<Longrightarrow>
      \<exists>o2. handle_stream_error x c acc tn (o'\<lparr>q_mode := m\<rparr>) = (evs, o2, nxt) \<and> same_but_mode o1 o2"
    "handle_prompt_too_long env x tn o' = (evs, o1, nxt) \<Longrightarrow>
      \<exists>o2. handle_prompt_too_long env x tn (o'\<lparr>q_mode := m\<rparr>) = (evs, o2, nxt) \<and> same_but_mode o1 o2"
    "handle_media_size env x tn o' = (evs, o1, nxt) \<Longrightarrow>
      \<exists>o2. handle_media_size env x tn (o'\<lparr>q_mode := m\<rparr>) = (evs, o2, nxt) \<and> same_but_mode o1 o2"
    "handle_provider_error env x tn o' = (evs, o1, nxt) \<Longrightarrow>
      \<exists>o2. handle_provider_error env x tn (o'\<lparr>q_mode := m\<rparr>) = (evs, o2, nxt) \<and> same_but_mode o1 o2"
    "finish_reply env b acc tn o' = (evs, o1, nxt) \<Longrightarrow>
      \<exists>o2. finish_reply env b acc tn (o'\<lparr>q_mode := m\<rparr>) = (evs, o2, nxt) \<and> same_but_mode o1 o2"
  by (rule same_lift [where f = "handle_stream_error x c acc tn", OF error_steps_mode(1) error_steps_keep_mode(1) perm], assumption+)
     (rule same_lift [where f = "handle_prompt_too_long env x tn", OF error_steps_mode(2) error_steps_keep_mode(2) perm], assumption+,
      rule same_lift [where f = "handle_media_size env x tn", OF error_steps_mode(3) error_steps_keep_mode(3) perm], assumption+,
      rule same_lift [where f = "handle_provider_error env x tn", OF error_steps_mode(4) error_steps_keep_mode(4) perm], assumption+,
      rule same_lift [where f = "finish_reply env b acc tn", OF finish_reply_mode(1) [OF blind] finish_reply_mode(2) perm], assumption+)

lemma run_tools_mode:
  assumes "tool_permission_mode m = tool_permission_mode (q_mode o')" "run_tools env r acc tn o' = (evs, o1, nxt)"
  shows "\<exists>o2. run_tools env r acc tn (o'\<lparr>q_mode := m\<rparr>) = (evs, o2, nxt) \<and> same_but_mode o1 o2"
proof -
  obtain pairs xs nm where t: "qe_tools env (tool_permission_mode (q_mode o')) (sa_calls acc) (q_exec o') = (pairs, xs, nm)"
    by (cases "qe_tools env (tool_permission_mode (q_mode o')) (sa_calls acc) (q_exec o')")
  let ?seen = "case r_tool_cut r of None \<Rightarrow> pairs | Some k \<Rightarrow> take k pairs"
  let ?o = "o'\<lparr>q_exec := xs, q_history := record_kinds ?seen (q_history o'), q_mode := (case nm of None \<Rightarrow> q_mode o' | Some m' \<Rightarrow> m')\<rparr>"
  let ?m = "case nm of None \<Rightarrow> m | Some m' \<Rightarrow> m'"
  have o: "o'\<lparr>q_mode := m, q_exec := xs, q_history := record_kinds ?seen (q_history o'), q_mode := ?m\<rparr> = ?o\<lparr>q_mode := ?m\<rparr>"
    by simp
  have perm: "tool_permission_mode ?m = tool_permission_mode (q_mode ?o)" using assms(1) by (simp split: option.splits)
  show ?thesis
  proof (cases "r_tool_cut r")
    case (Some k)
    obtain cevs o2 where c: "cancel_query env ?o = (cevs, o2)" by (cases "cancel_query env ?o")
    have "evs = map (\<lambda>p. EvTool (fst p)) ?seen @ cevs" "o1 = o2" "nxt = None"
      using assms(2) t Some c by (auto simp: run_tools_def Let_def)
    moreover have "run_tools env r acc tn (o'\<lparr>q_mode := m\<rparr>) = (map (\<lambda>p. EvTool (fst p)) ?seen @ cevs, o2\<lparr>q_mode := ?m\<rparr>, None)"
      using t assms(1) Some c o cancel_mode(1) [where env = env and o' = ?o and m = ?m] by (cases nm) (simp_all add: run_tools_def Let_def)
    moreover have "same_but_mode o2 (o2\<lparr>q_mode := ?m\<rparr>)"
      using perm cancel_mode(2) [OF c] by (intro same_but_modeI) simp
    ultimately show ?thesis by blast
  next
    case None
    with assms t o same_but_modeI [of ?m "o1"] perm show ?thesis
      by (cases nm) (auto simp: run_tools_def Let_def queue_reminders_def mode_update_commute)
  qed
qed

lemma query_step_mode:
  assumes blind: "mode_blind env" and perm: "tool_permission_mode m = tool_permission_mode (q_mode o')" "query_step env b r tn o' = (req, evs, o1, nxt)"
  shows "\<exists>o2. query_step env b r tn (o'\<lparr>q_mode := m\<rparr>) = (req, evs, o2, nxt) \<and> same_but_mode o1 o2"
proof -
  let ?acc0 = "\<lparr>sa_text = [], sa_thoughts = [], sa_calls = [], sa_stop = None\<rparr>"
  obtain pevs h where p: "prepare_history env (q_history o') = (pevs, h)"
    by (cases "prepare_history env (q_history o')")
  obtain sevs acc oc err where c: "consume (r_chunks r) ?acc0 (o'\<lparr>q_history := h\<rparr>) = (sevs, acc, oc, err)"
    by (cases "consume (r_chunks r) ?acc0 (o'\<lparr>q_history := h\<rparr>)") auto
  have cm: "consume (r_chunks r) ?acc0 (o'\<lparr>q_mode := m, q_history := h\<rparr>) = (sevs, acc, oc\<lparr>q_mode := m\<rparr>, err)"
    using consume_mode [where cs = "r_chunks r" and acc = ?acc0 and o' = "o'\<lparr>q_history := h\<rparr>" and m = m] c by (simp add: mode_update_commute)
  have oc: "tool_permission_mode m = tool_permission_mode (q_mode oc)"
    using consume_keeps_mode [OF c] perm by simp
  obtain aevs oa where a: "append_reply env acc oc = (aevs, oa)" by (cases "append_reply env acc oc")
  have am: "append_reply env acc (oc\<lparr>q_mode := m\<rparr>) = (aevs, oa\<lparr>q_mode := m\<rparr>)"
    using append_reply_mode(1) [OF blind, where acc = acc and o' = oc and m = m] a by simp
  have oa: "tool_permission_mode m = tool_permission_mode (q_mode oa)"
    using append_reply_mode(2) [OF a] oc by simp
  have step: "query_step env b r tn o' =
      (messages h, pevs @ sevs @ fst (after_stream env b r acc err tn oc), snd (after_stream env b r acc err tn oc))"
    "query_step env b r tn (o'\<lparr>q_mode := m\<rparr>) =
      (messages h, pevs @ sevs @ fst (after_stream env b r acc err tn (oc\<lparr>q_mode := m\<rparr>)),
       snd (after_stream env b r acc err tn (oc\<lparr>q_mode := m\<rparr>)))"
    using p c cm by (simp_all add: query_step_def split_def Let_def)
  have sim: "\<exists>o2. after_stream env b r acc err tn (oc\<lparr>q_mode := m\<rparr>) = (e, o2, n) \<and> same_but_mode oz o2" if "after_stream env b r acc err tn oc = (e, oz, n)" for e oz n
  proof (cases err)
    case (Some e)
    then obtain x cc where "err = Some (x, cc)" by (cases e) auto
    with that step_sims(1) [OF blind oc] show ?thesis by (simp add: after_stream_def)
  next
    case None
    have fin: "\<exists>o2. (case append_reply env acc (oc\<lparr>q_mode := m\<rparr>) of (aevs, oa) \<Rightarrow>
        case (if sa_calls acc = [] then finish_reply env b acc tn oa else run_tools env r acc tn oa) of
          (tevs, ot, next) \<Rightarrow> (aevs @ tevs, ot, next)) = (aevs @ tevs, o2, nx) \<and> same_but_mode ot o2"
      if "(if sa_calls acc = [] then finish_reply env b acc tn oa else run_tools env r acc tn oa) = (tevs, ot, nx)" for tevs ot nx
      using that am step_sims(5) [OF blind oa] run_tools_mode [OF oa]
      by (cases "sa_calls acc = []") (fastforce split: prod.splits)+
    show ?thesis
    proof (cases "r_end r")
      case StreamDone
      with None that a fin show ?thesis by (auto simp: after_stream_def split: prod.splits)
    next
      case StreamCancelled
      obtain cevs o2 where "cancel_query env oc = (cevs, o2)" by (cases "cancel_query env oc")
      with None that StreamCancelled cancel_mode(1) [where env = env and o' = oc and m = m] cancel_mode(2) oc
        same_but_modeI [of m o2] show ?thesis by (auto simp: after_stream_def)
    qed (use None that step_sims(2-4) [OF blind oc] in \<open>simp_all add: after_stream_def\<close>)
  qed
  from sim [of "fst (after_stream env b r acc err tn oc)" "fst (snd (after_stream env b r acc err tn oc))" "snd (snd (after_stream env b r acc err tn oc))"] show ?thesis
    using assms(3) unfolding step by auto
qed

lemma query_loop_mode:
  assumes "mode_blind env" "tool_permission_mode m = tool_permission_mode (q_mode o')"
    and "query_loop env max_turns b rs tn o' = (evs, reqs, o1, out)"
  shows "\<exists>o2. query_loop env max_turns b rs tn (o'\<lparr>q_mode := m\<rparr>) = (evs, reqs, o2, out) \<and> same_but_mode o1 o2"
  using assms
proof (induction env max_turns b rs tn o' arbitrary: m evs reqs o1 out rule: query_loop.induct)
  case (1 env max_turns b tn o')
  then show ?case by (auto simp: same_but_mode_def mode_update_commute split: if_splits)
next
  case (2 env max_turns b r rs tn o')
  show ?case
  proof (cases "max_turns > 0 \<and> tn_index tn + 1 > int max_turns")
    case True
    with 2(3,4) show ?thesis by (auto simp: same_but_mode_def mode_update_commute)
  next
    case False
    obtain req evs1 oa nxt where s: "query_step env b r (start_next_iteration tn) o' = (req, evs1, oa, nxt)"
      by (cases "query_step env b r (start_next_iteration tn) o'") auto
    from query_step_mode [OF 2(2,3) s] obtain ob where
      s': "query_step env b r (start_next_iteration tn) (o'\<lparr>q_mode := m\<rparr>) = (req, evs1, ob, nxt)"
      and "same_but_mode oa ob" by blast
    from this(2) obtain m' where ob: "ob = oa\<lparr>q_mode := m'\<rparr>" "tool_permission_mode m' = tool_permission_mode (q_mode oa)"
      by (rule same_but_modeE)
    show ?thesis
    proof (cases nxt)
      case None
      with 2(4) False s s' \<open>same_but_mode oa ob\<close> show ?thesis by auto
    next
      case (Some tn1)
      obtain evs2 reqs2 oz out2 where l: "query_loop env max_turns b rs tn1 oa = (evs2, reqs2, oz, out2)"
        by (cases "query_loop env max_turns b rs tn1 oa") auto
      from 2(1) [OF False s [symmetric] refl refl Some 2(2) ob(2) l] 2(4) False s s' Some l ob(1)
      show ?thesis by (auto split: prod.splits)
    qed
  qed
qed

lemma setup_turn_mode:
  "mode_blind env \<Longrightarrow> setup_turn env pm prompt (o'\<lparr>q_mode := m\<rparr>) =
     (case setup_turn env pm prompt o' of (t, rs, b, o1) \<Rightarrow> (t, rs, b, o1\<lparr>q_mode := m\<rparr>))"
  "setup_turn env pm prompt o' = (t, rs, blk, o1) \<Longrightarrow> q_mode o1 = q_mode o'"
  by (auto simp: setup_turn_def Let_def mode_update_commute fire_query_hook_mode(1)
      dest!: fire_query_hook_mode(2) split: prod.splits if_splits)

text \<open>
  The permission modes \<open>accept_edits\<close>, \<open>auto\<close> and \<open>dont_ask\<close> have no effect on a query: run in
  any of them, a query has the same events, sends the same requests and ends in the same state as
  in \<open>default\<close> mode, for every provider, tool and user and all hooks
  that do not look at the mode of their ambient context, because the loop hands the tool
  executor only \<open>plan\<close>, \<open>bypass\<close> or \<open>default\<close>. The authorizer's rules for the three modes are
  never reached from a query.
\<close>

theorem fine_grained_modes_have_no_effect:
  assumes "m \<in> {MAcceptEdits, MAuto, MDontAsk}" and blind: "mode_blind env"
    and "run_query env pm prompt max_turns b replies (o0\<lparr>q_mode := MDefault\<rparr>) = (evs, reqs, o1, out)"
  shows "\<exists>o2. run_query env pm prompt max_turns b replies (o0\<lparr>q_mode := m\<rparr>) = (evs, reqs, o2, out) \<and>
              o2\<lparr>q_mode := MDefault\<rparr> = o1\<lparr>q_mode := MDefault\<rparr>"
proof -
  let ?o = "o0\<lparr>q_in := 0, q_out := 0\<rparr>"
  obtain ptext reminders blocked oa where st: "setup_turn env pm prompt (?o\<lparr>q_mode := MDefault\<rparr>) = (ptext, reminders, blocked, oa)"
    by (cases "setup_turn env pm prompt (?o\<lparr>q_mode := MDefault\<rparr>)") auto
  have stm: "setup_turn env pm prompt (?o\<lparr>q_mode := m\<rparr>) = (ptext, reminders, blocked, oa\<lparr>q_mode := m\<rparr>)"
    using setup_turn_mode(1) [OF blind, where o' = "?o\<lparr>q_mode := MDefault\<rparr>" and pm = pm and prompt = prompt and m = m] st
    by simp
  have md: "q_mode oa = MDefault" using setup_turn_mode(2) [OF st] by simp
  obtain repaired hr where r: "repair_orphan_tool_results (qe_float env) INTERRUPTED_TOOL_RESULT (q_history oa) = (repaired, hr)"
    by (cases "repair_orphan_tool_results (qe_float env) INTERRUPTED_TOOL_RESULT (q_history oa)")
  let ?h = "append_user (qe_float env) (to_text_content (qe_reminder_block env) reminders prompt) hr"
  obtain levs lreqs oz lout where l: "query_loop env max_turns b replies new_turn (oa\<lparr>q_history := ?h\<rparr>) = (levs, lreqs, oz, lout)"
    by (cases "query_loop env max_turns b replies new_turn (oa\<lparr>q_history := ?h\<rparr>)") auto
  have "tool_permission_mode m = tool_permission_mode (q_mode (oa\<lparr>q_history := ?h\<rparr>))"
    using assms(1) md by auto
  from query_loop_mode [OF blind this l] obtain o2 where
    lm: "query_loop env max_turns b replies new_turn (oa\<lparr>q_history := ?h, q_mode := m\<rparr>) = (levs, lreqs, o2, lout)"
    and sm: "same_but_mode oz o2" by blast
  have eq: "o0\<lparr>q_mode := k, q_in := 0, q_out := 0\<rparr> = ?o\<lparr>q_mode := k\<rparr>" for k by simp
  show ?thesis
    using assms(3) st stm r l lm sm unfolding run_query_def eq
    by (auto simp: mode_update_commute same_but_mode_def split: if_splits)
qed

section \<open>Witnesses\<close>

text \<open>One schedule the executor may take: the calls one after the other.\<close>

fun run_calls :: "exec_env \<Rightarrow> tool_use list \<Rightarrow> exec_state \<Rightarrow> event_pair list \<times> exec_state" where
  "run_calls x [] st = ([], st)"
| "run_calls x (tc # tcs) st =
     (let (ps, r, st1) = execute_call x tc st; (qs, st2) = run_calls x tcs st1 in (ps @ qs, st2))"

lemma merge_in_order: "merge_queues qs (concat qs)"
proof (induction "length (concat qs)" arbitrary: qs)
  case 0
  then have "list_all (\<lambda>q. q = []) qs" "concat qs = []" by (simp_all add: list_all_iff)
  then show ?case using merge_done by metis
next
  case (Suc n)
  then obtain i where i: "i < length qs" "qs ! i \<noteq> []" "\<forall>j < i. qs ! j = []"
  proof -
    have "\<exists>i. i < length qs \<and> qs ! i \<noteq> []"
      using Suc(2) by (metis concat_eq_Nil_conv in_set_conv_nth list.size(3) nat.distinct(1))
    then have "\<exists>i. (i < length qs \<and> qs ! i \<noteq> []) \<and> (\<forall>j < i. \<not> (j < length qs \<and> qs ! j \<noteq> []))"
      by (rule exists_least_iff [THEN iffD1])
    then show ?thesis using that by (meson less_trans)
  qed
  then obtain y q where yq: "qs ! i = y # q" by (cases "qs ! i") auto
  have split: "qs = take i qs @ (y # q) # drop (Suc i) qs" using i(1) yq by (metis id_take_nth_drop)
  have upd: "qs[i := q] = take i qs @ q # drop (Suc i) qs" using i(1) by (simp add: upd_conv_take_nth_drop)
  have pre: "concat (take i qs) = []" using i(1,3) by (auto simp: in_set_conv_nth)
  have "concat qs = y # concat (qs[i := q])"
    by (subst split) (simp only: upd concat_append concat.simps pre append.simps)
  with Suc i yq show ?case using merge_item [of i qs y q "concat (qs[i := q])"] by simp
qed

lemma run_calls_append:
  "fst (run_calls x (tcs @ tcs') st) = fst (run_calls x tcs st) @ fst (run_calls x tcs' (snd (run_calls x tcs st)))"
  by (induction x tcs st rule: run_calls.induct) (auto simp: Let_def split: prod.splits)

lemma run_calls_batch: "batch_output x batch (fst (run_calls x batch st))"
proof -
  have "\<exists>qs. list_all2 (\<lambda>tc q. \<exists>st. q = fst (execute_call x tc st)) batch qs \<and> concat qs = fst (run_calls x batch st)"
  proof (induction x batch st rule: run_calls.induct)
    case (2 x tc tcs st)
    obtain ps r st1 where e: "execute_call x tc st = (ps, r, st1)" by (cases "execute_call x tc st")
    from 2 [OF e [symmetric] refl refl] obtain qs where
      "list_all2 (\<lambda>tc q. \<exists>st. q = fst (execute_call x tc st)) tcs qs" "concat qs = fst (run_calls x tcs st1)" by blast
    with e have "list_all2 (\<lambda>tc q. \<exists>st. q = fst (execute_call x tc st)) (tc # tcs) (ps # qs)"
        "concat (ps # qs) = fst (run_calls x (tc # tcs) st)"
      by (auto simp: Let_def split: prod.splits intro: exI [of _ st])
    then show ?case by blast
  qed simp
  then show ?thesis unfolding batch_output_def using merge_in_order by metis
qed

lemma run_calls_output: "results_output x batches (fst (run_calls x (concat batches) st))"
  by (induction batches arbitrary: st)
     (auto simp: run_calls_append intro: results_output.intros run_calls_batch)

definition demo_query :: query_env where
  "demo_query = \<lparr>qe_session_id = ''s1'', qe_depth = 0, qe_float = (\<lambda>m e. []), qe_summarizer = silent_summarizer, qe_keep = 5, qe_threshold = 160000,
     qe_hooks = None, qe_reminder_block = default_reminder_block,
     qe_tools = (\<lambda>m calls xs. let r = run_calls (demo_exec\<lparr>x_mode := m\<rparr>) calls xs in (fst r, snd r, None))\<rparr>"

definition demo_orch :: orch where
  "demo_orch = \<lparr>q_history = new_history (\<lambda>m e. []) [], q_exec = demo_state, q_mode = MDefault,
     q_stop = StopEndTurn, q_in = 0, q_out = 0\<rparr>"

definition tool_reply :: provider_reply where
  "tool_reply = \<lparr>r_chunks = [TextChunk ''on it'', ToolUseChunk ''u1'' ''Wipe'' []], r_end = StreamDone,
     r_tool_cut = None, r_notifications = []\<rparr>"

definition final_reply :: provider_reply where
  "final_reply = \<lparr>r_chunks = [TextChunk ''done''], r_end = StreamDone, r_tool_cut = None, r_notifications = []\<rparr>"

lemma demo_runs: "runs_executor demo_query demo_exec"
proof -
  have "results_output (demo_exec\<lparr>x_mode := m\<rparr>) (partition_tool_calls (x_lookup demo_exec) calls)
      (fst (qe_tools demo_query m calls xs))" for m calls xs
    using run_calls_output [of "demo_exec\<lparr>x_mode := m\<rparr>" "partition_tool_calls (x_lookup demo_exec) calls" xs]
    by (simp add: demo_query_def Let_def partition_tool_calls_def partition_loop_concat)
  then show ?thesis by (auto simp: runs_executor_def demo_exec_def wipe_settles split: if_splits)
qed

theorem query_terminates_witness:
  "snd (snd (snd (run_query demo_query [] [''hi''] 1 None (replicate 6 tool_reply) demo_orch))) = Ended"
proof -
  obtain evs reqs o1 out where r: "run_query demo_query [] [''hi''] 1 None (replicate 6 tool_reply) demo_orch = (evs, reqs, o1, out)"
    by (cases "run_query demo_query [] [''hi''] 1 None (replicate 6 tool_reply) demo_orch") auto
  from query_terminates [OF r] show ?thesis unfolding r by simp
qed

theorem query_requests_answered_witness:
  "length (fst (snd (run_query demo_query [] [''hi''] 0 None [tool_reply, final_reply] demo_orch))) = 2 \<and>
   list_all all_answered (fst (snd (run_query demo_query [] [''hi''] 0 None [tool_reply, final_reply] demo_orch)))"
proof -
  obtain evs reqs o1 out where r: "run_query demo_query [] [''hi''] 0 None [tool_reply, final_reply] demo_orch = (evs, reqs, o1, out)"
    by (cases "run_query demo_query [] [''hi''] 0 None [tool_reply, final_reply] demo_orch") auto
  have "length (fst (snd (run_query demo_query [] [''hi''] 0 None [tool_reply, final_reply] demo_orch))) = 2" by code_simp
  with query_requests_answered [OF demo_runs r] show ?thesis by (simp add: r)
qed

theorem fine_grained_modes_have_no_effect_witness:
  "fst (run_query demo_query [] [''hi''] 0 None [tool_reply, final_reply] (demo_orch\<lparr>q_mode := MDontAsk\<rparr>)) =
   fst (run_query demo_query [] [''hi''] 0 None [tool_reply, final_reply] (demo_orch\<lparr>q_mode := MDefault\<rparr>))"
proof -
  obtain evs reqs o1 out where r: "run_query demo_query [] [''hi''] 0 None [tool_reply, final_reply] (demo_orch\<lparr>q_mode := MDefault\<rparr>) = (evs, reqs, o1, out)"
    by (cases "run_query demo_query [] [''hi''] 0 None [tool_reply, final_reply] (demo_orch\<lparr>q_mode := MDefault\<rparr>)") auto
  have "MDontAsk \<in> {MAcceptEdits, MAuto, MDontAsk}" by simp
  moreover have "mode_blind demo_query" by (simp add: mode_blind_def demo_query_def)
  ultimately have "\<exists>o2. run_query demo_query [] [''hi''] 0 None [tool_reply, final_reply] (demo_orch\<lparr>q_mode := MDontAsk\<rparr>) = (evs, reqs, o2, out)"
    using fine_grained_modes_have_no_effect [OF _ _ r] by blast
  with r show ?thesis by auto
qed

end
