(* ===== verification/Session_Log.thy ===== *)
theory Session_Log
  imports Message_Serde Query_Loop
begin

text \<open>
  The session event log: the event types (\<open>persistence/event_schema.py\<close>), the single place that
  appends (\<open>persistence/event_writer.py\<close>), the dispatch of orchestrator events to log rows and
  client updates (\<open>client_stream/event_mapper.py\<close>), the mode changes (\<open>_apply_mode_change\<close>,
  \<open>_set_mode\<close>), the permission round trip (\<open>turns/permission.py\<close>), the log of a turn
  (\<open>turns/runner.py\<close>) and the reconstruction of a session from its log (\<open>lifecycle/load.py\<close>).
  The log is the list of rows; errors of the store are not represented. Event ids and times come
  from the environment.
\<close>

section \<open>Events\<close>

datatype event_body =
    SessionCreatedEvent "json list"
  | SessionLoadedEvent
  | UserMessageEvent "json list"
  | AgentMessageEvent string
  | AgentThoughtEvent string
  | PlanEvent "json list"
  | ToolCallEvent string string string "string option"
  | ToolCallUpdateEvent string string "json list"
  | SubAgentSpawnedEvent string string string
  | SubAgentCompletedEvent string string
  | PermissionRequestEvent string string string risk
  | PermissionResponseEvent string response_decision
  | ModeChangedEvent string "string option"
  | ConfigOptionChangedEvent string string "(string \<times> string) list"
  | AvailableCommandsChangedEvent "json list"
  | SessionInfoChangedEvent "string option"
  | TurnStartedEvent
  | TurnCompletedEvent string int int
  | TurnCancelledEvent
  | ConversationMessageEvent json
  | ConversationSnapshotEvent "json list"

record session_event =
  ev_id :: string
  ev_parent :: "string option"
  ev_time :: int
  ev_cwd :: string
  ev_branch :: "string option"
  ev_body :: event_body

section \<open>Reading the log\<close>

record loaded_state =
  ld_cwd :: string
  ld_branch :: "string option"
  ld_mode :: "string option"
  ld_config :: "(string, string) dict"
  ld_mcp :: "json list"
  ld_title :: "string option"
  ld_created :: int
  ld_updated :: int
  ld_last_event :: "string option"
  ld_history :: "message list"

definition empty_loaded :: "string \<Rightarrow> int \<Rightarrow> loaded_state" where
  "empty_loaded here now = \<lparr>ld_cwd = here, ld_branch = None, ld_mode = None, ld_config = [], ld_mcp = [],
     ld_title = None, ld_created = now, ld_updated = now, ld_last_event = None, ld_history = []\<rparr>"

definition replace_history_from_snapshot :: "float_repr \<Rightarrow> json list \<Rightarrow> loaded_state \<Rightarrow> loaded_state" where
  "replace_history_from_snapshot fl rows st =
     (case py_map (deserialize_message fl) rows of Inl e \<Rightarrow> st | Inr ms \<Rightarrow> st\<lparr>ld_history := ms\<rparr>)"

text \<open>The collapse of an assistant message that was popped for a retry.\<close>

definition append_collapsing :: "message \<Rightarrow> message list \<Rightarrow> message list" where
  "append_collapsing m ms =
     (if ms \<noteq> [] \<and> \<not> is_user (last ms) \<and> \<not> is_user m then butlast ms @ [m] else ms @ [m])"

definition append_history_message :: "float_repr \<Rightarrow> json \<Rightarrow> loaded_state \<Rightarrow> loaded_state" where
  "append_history_message fl row st =
     (case deserialize_message fl row of
        Inl e \<Rightarrow> st
      | Inr m \<Rightarrow> st\<lparr>ld_history := append_collapsing m (ld_history st)\<rparr>)"

definition apply_event :: "float_repr \<Rightarrow> session_event \<Rightarrow> loaded_state \<Rightarrow> loaded_state" where
  "apply_event fl e st0 =
     (let st = st0\<lparr>ld_last_event := Some (ev_id e), ld_updated := ev_time e\<rparr>
      in case ev_body e of
           SessionCreatedEvent servers \<Rightarrow>
             st\<lparr>ld_cwd := ev_cwd e, ld_branch := ev_branch e, ld_mcp := servers, ld_created := ev_time e\<rparr>
         | ModeChangedEvent m from \<Rightarrow> st\<lparr>ld_mode := Some m\<rparr>
         | ConfigOptionChangedEvent i v full \<Rightarrow>
             if i \<noteq> [] then st\<lparr>ld_config := dict_set i v (ld_config st)\<rparr> else st
         | SessionInfoChangedEvent (Some t) \<Rightarrow> if t \<noteq> [] then st\<lparr>ld_title := Some t\<rparr> else st
         | ConversationSnapshotEvent rows \<Rightarrow> replace_history_from_snapshot fl rows st
         | ConversationMessageEvent row \<Rightarrow> append_history_message fl row st
         | _ \<Rightarrow> st)"

definition reconstruct_state :: "float_repr \<Rightarrow> string \<Rightarrow> int \<Rightarrow> session_event list \<Rightarrow> loaded_state" where
  "reconstruct_state fl here now events = fold (apply_event fl) events (empty_loaded here now)"

section \<open>The live session\<close>

datatype update =
    UserMessageChunk string
  | AgentMessageChunk string
  | AgentThoughtChunk string
  | AcpToolCallStart string string string "string option"
  | ToolCallUpdateNotification string string "json list"
  | ToolLocationsNotification string "json list"
  | AcpPlanUpdate "json list"
  | CurrentModeUpdate string
  | ConfigOptionUpdate "(string \<times> string) list"
  | AvailableCommandsUpdate "json list"
  | SessionInfoUpdate "string option"
  | UsageUpdate int int

record live_session =
  s_cwd :: string
  s_branch :: "string option"
  s_title :: "string option"
  s_mode :: "string option"
  s_config :: "(string, string) dict"
  s_senders :: "string list"
  s_last_event :: "string option"
  s_updated :: int
  s_pre_plan :: "string option"
  s_exited_plan :: bool
  s_needs_exit :: bool
  s_pending_modes :: "(string option \<times> string) list"
  s_depth :: nat
  s_orch_mode :: string
  s_log :: "session_event list"
  s_sent :: "(string \<times> update) list"

text \<open>
  The environment: the id and the time of the \<open>n\<close>-th event, which connections accept a
  notification, the title source in the session's database record, the UTF-8 length of a text,
  the file name a text is spilled to, if it can be written, and the inline limit.
\<close>

record log_env =
  le_uuid :: "nat \<Rightarrow> string"
  le_now :: "nat \<Rightarrow> int"
  le_alive :: "string \<Rightarrow> bool"
  le_title_source :: "string option"
  le_utf8_len :: "string \<Rightarrow> nat"
  le_spill :: "string \<Rightarrow> string option"
  le_inline_limit :: nat

definition write_event :: "log_env \<Rightarrow> event_body \<Rightarrow> live_session \<Rightarrow> live_session" where
  "write_event env body s =
     (let n = length (s_log s); i = ''ev_'' @ le_uuid env n;
          e = \<lparr>ev_id = i, ev_parent = s_last_event s, ev_time = le_now env n, ev_cwd = s_cwd s,
               ev_branch = s_branch s, ev_body = body\<rparr>
      in s\<lparr>s_log := s_log s @ [e], s_last_event := Some i, s_updated := le_now env n\<rparr>)"

definition broadcast :: "log_env \<Rightarrow> update \<Rightarrow> live_session \<Rightarrow> live_session" where
  "broadcast env u s =
     (let live = filter (le_alive env) (s_senders s)
      in s\<lparr>s_sent := s_sent s @ map (\<lambda>c. (c, u)) live, s_senders := live\<rparr>)"

fun drain_modes :: "log_env \<Rightarrow> (string option \<times> string) list \<Rightarrow> live_session \<Rightarrow> live_session" where
  "drain_modes env [] s = s"
| "drain_modes env ((old, new) # cs) s =
     drain_modes env cs (broadcast env (CurrentModeUpdate new) (write_event env (ModeChangedEvent new old) s))"

definition drain_pending_mode_changes :: "log_env \<Rightarrow> live_session \<Rightarrow> live_session" where
  "drain_pending_mode_changes env s = drain_modes env (s_pending_modes s) (s\<lparr>s_pending_modes := []\<rparr>)"

section \<open>Mode changes\<close>

definition VALID_MODE_IDS :: "string list" where
  "VALID_MODE_IDS = [''default'', ''plan'', ''bypass'', ''accept_edits'', ''auto'', ''dont_ask'']"

definition MODE_CONFIG_ID :: string where "MODE_CONFIG_ID = ''mode''"

text \<open>A client's \<open>session/set_mode\<close> (and \<open>session/set_config_option\<close> of the mode).\<close>

definition apply_mode_change :: "log_env \<Rightarrow> string \<Rightarrow> live_session \<Rightarrow> live_session py" where
  "apply_mode_change env mode_id s =
     (if mode_id \<notin> set VALID_MODE_IDS then Inl (PyExn ''InvalidParams'')
      else let old = (case s_mode s of Some m \<Rightarrow> if m \<noteq> [] then m else ''default'' | None \<Rightarrow> ''default'');
               s1 = s\<lparr>s_mode := Some mode_id, s_config := dict_set MODE_CONFIG_ID mode_id (s_config s),
                      s_orch_mode := mode_id\<rparr>;
               s2 = write_event env (ModeChangedEvent mode_id (Some old)) s1;
               full = s_config s2;
               s3 = write_event env (ConfigOptionChangedEvent MODE_CONFIG_ID mode_id full) s2;
               s4 = broadcast env (CurrentModeUpdate mode_id) s3
           in Inr (broadcast env (ConfigOptionUpdate full) s4))"

text \<open>The \<open>_set_mode\<close> closure that tools call; an unknown mode raises after the session changed.\<close>

definition set_mode :: "string \<Rightarrow> live_session \<Rightarrow> unit py \<times> live_session" where
  "set_mode mode0 s =
     (let old = s_mode s;
          restore = mode0 = ''restore'';
          new = (if restore then (case s_pre_plan s of Some m \<Rightarrow> if m \<noteq> [] then m else ''default'' | None \<Rightarrow> ''default'')
                 else mode0);
          s1 = (if restore then s\<lparr>s_pre_plan := None\<rparr> else s);
          entered = (new = ''plan'' \<and> old \<noteq> Some ''plan'');
          exited = (old = Some ''plan'' \<and> new \<noteq> ''plan'');
          s2 = (if entered then s1\<lparr>s_pre_plan := old, s_needs_exit := False\<rparr>
                else if exited then s1\<lparr>s_exited_plan := True, s_needs_exit := True\<rparr> else s1);
          s3 = s2\<lparr>s_mode := Some new\<rparr>
      in if new \<notin> set VALID_MODE_IDS then (Inl (PyExn ''ValueError''), s3)
         else (Inr (), s3\<lparr>s_orch_mode := new, s_pending_modes := s_pending_modes s3 @ [(old, new)]\<rparr>))"

section \<open>Orchestrator events\<close>

datatype session_output =
    FromQuery query_event
  | ToolDiff string string string string
  | ToolLocations string "json list"
  | PlanUpdate "json list"
  | ModeChanged string
  | ConfigOptionChanged "(string \<times> string) list"
  | SessionInfoChanged "string option"
  | AvailableCommandsChanged "json list"
  | SubAgentStart string string string
  | SubAgentEnd string string

definition text_block :: "string \<Rightarrow> json" where
  "text_block t = JDict [(''type'', JStr ''text''), (''text'', JStr t)]"

text \<open>\<open>ContentBlock.model_dump()\<close> of the blocks of a tool result.\<close>

fun dump_part :: "result_part \<Rightarrow> json" where
  "dump_part (PartText t) = text_block t"
| "dump_part (PartImage m d) = JDict [(''type'', JStr ''image''), (''data'', JStr d), (''mime_type'', JStr m)]"

fun block_text :: "json \<Rightarrow> string list" where
  "block_text (JDict d) =
     (if map_of d ''type'' = Some (JStr ''text'')
      then (case map_of d ''text'' of Some (JStr t) \<Rightarrow> [t] | _ \<Rightarrow> [[]]) else [])"
| "block_text _ = []"

definition maybe_spill :: "log_env \<Rightarrow> json list \<Rightarrow> json list" where
  "maybe_spill env content =
     (let inline = py_join '' '' (concat (map block_text content))
      in if le_utf8_len env inline \<le> le_inline_limit env then content
         else (case le_spill env inline of
                 None \<Rightarrow> content
               | Some path \<Rightarrow> [JDict [(''type'', JStr ''spilled''), (''path'', JStr path),
                    (''size'', JInt (int (length inline))), (''preview'', JStr (take 200 inline))]]))"

definition emit_tool_update :: "log_env \<Rightarrow> string \<Rightarrow> string \<Rightarrow> json list \<Rightarrow> json list \<Rightarrow> live_session \<Rightarrow> live_session" where
  "emit_tool_update env i status content persisted s =
     broadcast env (ToolCallUpdateNotification i status content) (write_event env (ToolCallUpdateEvent i status persisted) s)"

definition acp_tool_kind :: "string \<Rightarrow> string" where
  "acp_tool_kind k =
     (if k \<in> {''read'', ''edit'', ''execute'', ''search'', ''fetch'', ''think'', ''delete'', ''move'', ''other''}
      then k else ''other'')"

fun handle_tool_event :: "log_env \<Rightarrow> (tool_kind \<Rightarrow> string) \<Rightarrow> orch_event \<Rightarrow> live_session \<Rightarrow> live_session" where
  "handle_tool_event env kn (ToolCallStart i title k raw meta) s =
     (let kind = acp_tool_kind (kn k)
      in broadcast env (AcpToolCallStart i title kind raw) (write_event env (ToolCallEvent i title kind raw) s))"
| "handle_tool_event env kn (ToolCallProgress i ps) s =
     (let c = map dump_part ps in emit_tool_update env i ''in_progress'' c c s)"
| "handle_tool_event env kn (ToolCallResult i ps) s =
     (let c = map dump_part ps in emit_tool_update env i ''completed'' c (maybe_spill env c) s)"
| "handle_tool_event env kn (ToolCallError i m) s =
     (let c = [text_block m] in emit_tool_update env i ''failed'' c c s)"
| "handle_tool_event env kn (PassthroughEvent x) s = s"

text \<open>
  \<open>_handle_orchestrator_event\<close>: the text and thought buffers of the turn, then the session.
\<close>

type_synonym buffers = "string list \<times> string list"

fun handle_output ::
    "log_env \<Rightarrow> (tool_kind \<Rightarrow> string) \<Rightarrow> session_output \<Rightarrow> buffers \<times> live_session \<Rightarrow> buffers \<times> live_session" where
  "handle_output env kn (FromQuery (EvText t)) ((tx, th), s) = ((tx @ [t], th), broadcast env (AgentMessageChunk t) s)"
| "handle_output env kn (FromQuery (EvThought t)) ((tx, th), s) = ((tx, th @ [t]), broadcast env (AgentThoughtChunk t) s)"
| "handle_output env kn (FromQuery (EvTool e)) (b, s) = (b, handle_tool_event env kn e s)"
| "handle_output env kn (FromQuery (EvAppend m)) (b, s) =
     (b, if s_depth s = 0 then write_event env (ConversationMessageEvent (serialize_message m)) s else s)"
| "handle_output env kn (FromQuery (EvSnapshot ms)) (b, s) =
     (b, if s_depth s = 0 then write_event env (ConversationSnapshotEvent (map serialize_message ms)) s else s)"
| "handle_output env kn (FromQuery (EvError m c)) ((tx, th), s) =
     (let t = ''Error: '' @ m in ((tx @ [t], th), broadcast env (AgentMessageChunk t) s))"
| "handle_output env kn (FromQuery (EvCompaction x y)) (b, s) = (b, s)"
| "handle_output env kn (FromQuery EvCancelled) (b, s) = (b, s)"
| "handle_output env kn (FromQuery EvUserPromptBlocked) (b, s) = (b, s)"
| "handle_output env kn (ToolDiff i path old new) (b, s) =
     (let c = [JDict [(''type'', JStr ''diff''), (''path'', JStr path), (''old_text'', JStr old), (''new_text'', JStr new)]]
      in (b, emit_tool_update env i ''completed'' c c s))"
| "handle_output env kn (ToolLocations i ls) (b, s) = (b, broadcast env (ToolLocationsNotification i ls) s)"
| "handle_output env kn (PlanUpdate es) (b, s) = (b, broadcast env (AcpPlanUpdate es) (write_event env (PlanEvent es) s))"
| "handle_output env kn (ModeChanged m) (b, s) =
     (b, broadcast env (CurrentModeUpdate m) (write_event env (ModeChangedEvent m (s_mode s)) (s\<lparr>s_mode := Some m\<rparr>)))"
| "handle_output env kn (ConfigOptionChanged full) (b, s) =
     (b, broadcast env (ConfigOptionUpdate full)
           (write_event env (ConfigOptionChangedEvent [] [] full)
             (s\<lparr>s_config := fold (\<lambda>(k, v). dict_set k v) full (s_config s)\<rparr>)))"
| "handle_output env kn (SessionInfoChanged t) (b, s) =
     (b, if t \<noteq> None \<and> le_title_source env = Some ''user'' then s
         else broadcast env (SessionInfoUpdate t)
                (write_event env (SessionInfoChangedEvent t) (if t \<noteq> None then s\<lparr>s_title := t\<rparr> else s)))"
| "handle_output env kn (AvailableCommandsChanged cs) (b, s) =
     (b, broadcast env (AvailableCommandsUpdate cs) (write_event env (AvailableCommandsChangedEvent cs) s))"
| "handle_output env kn (SubAgentStart i ty d) (b, s) =
     (b, broadcast env (AgentMessageChunk []) (write_event env (SubAgentSpawnedEvent i ty d) (s\<lparr>s_depth := s_depth s + 1\<rparr>)))"
| "handle_output env kn (SubAgentEnd i r) (b, s) =
     (b, broadcast env (AgentMessageChunk []) (write_event env (SubAgentCompletedEvent i r) (s\<lparr>s_depth := s_depth s - 1\<rparr>)))"

section \<open>Permission round trip\<close>

datatype client_reply =
    ReplySelected string "tool_input option"
  | ReplyCancelled
  | ReplyFailed

definition on_permission ::
    "log_env \<Rightarrow> (string \<Rightarrow> permission_request \<Rightarrow> client_reply) \<Rightarrow> permission_request \<Rightarrow> live_session
       \<Rightarrow> permission_response \<times> live_session" where
  "on_permission env ask req s =
     (let s1 = write_event env (PermissionRequestEvent (req_tool_use_id req) (req_tool_name req)
                  (req_input_summary req) (req_risk_level req)) s
      in case s_senders s1 of
           [] \<Rightarrow> (\<lparr>resp_decision = RespReject, resp_updated_input = None\<rparr>, s1)
         | sender # _ \<Rightarrow>
             (let (decision, upd) =
                    (case ask sender req of
                       ReplySelected opt u \<Rightarrow>
                         (if opt = ''allow_once'' then RespAllowOnce
                          else if opt = ''allow_always'' then RespAllowAlways else RespReject, u)
                     | ReplyCancelled \<Rightarrow> (RespReject, None)
                     | ReplyFailed \<Rightarrow> (RespReject, None))
              in (\<lparr>resp_decision = decision, resp_updated_input = upd\<rparr>,
                  write_event env (PermissionResponseEvent (req_tool_use_id req) decision) s1)))"

section \<open>The log of a turn\<close>

text \<open>
  \<open>_run_turn_core\<close>: what it writes, given the prompt blocks, the events of the query, whether the
  task is cancelled from outside instead of by an event, the title derived from the prompt, and
  the token usage. \<open>gen.ag_return\<close> does not exist on an asynchronous generator, so the
  \<open>getattr\<close> yields \<open>None\<close> and the stop reason of the orchestrator is never read.
\<close>

definition turn_stop_reason :: "session_output list \<Rightarrow> bool \<Rightarrow> string" where
  "turn_stop_reason outs cancelled =
     (if cancelled then ''cancelled''
      else fold (\<lambda>e r. case e of FromQuery EvCancelled \<Rightarrow> ''cancelled'' | FromQuery (EvError m c) \<Rightarrow> ''error'' | _ \<Rightarrow> r)
             outs ''end_turn'')"

definition begin_turn_log :: "log_env \<Rightarrow> json list \<Rightarrow> string option \<Rightarrow> live_session \<Rightarrow> live_session" where
  "begin_turn_log env prompt title s =
     (let s1 = write_event env (UserMessageEvent prompt) s;
          s2 = (if s_title s1 = None then s1\<lparr>s_title := title\<rparr> else s1)
      in drain_pending_mode_changes env (write_event env TurnStartedEvent s2))"

definition end_turn_log :: "log_env \<Rightarrow> buffers \<Rightarrow> bool \<Rightarrow> string \<Rightarrow> int \<Rightarrow> int \<Rightarrow> live_session \<Rightarrow> live_session" where
  "end_turn_log env buffers cancelled reason input_tokens output_tokens s =
     (let (texts, thoughts) = buffers;
          s1 = (if cancelled then write_event env TurnCancelledEvent s else s);
          s2 = (if texts \<noteq> [] then write_event env (AgentMessageEvent (concat texts)) s1 else s1);
          s3 = (if thoughts \<noteq> [] then write_event env (AgentThoughtEvent (concat thoughts)) s2 else s2);
          s4 = write_event env (TurnCompletedEvent reason input_tokens output_tokens) s3
      in (broadcast env (UsageUpdate input_tokens output_tokens) s4)\<lparr>s_depth := 0\<rparr>)"

definition run_turn_core ::
    "log_env \<Rightarrow> (tool_kind \<Rightarrow> string) \<Rightarrow> json list \<Rightarrow> string option \<Rightarrow> session_output list \<Rightarrow> bool \<Rightarrow> int \<Rightarrow> int
       \<Rightarrow> live_session \<Rightarrow> string \<times> live_session" where
  "run_turn_core env kn prompt title outs cancelled input_tokens output_tokens s =
     (let (buffers, s1) = fold (handle_output env kn) outs (([], []), begin_turn_log env prompt title s);
          reason = turn_stop_reason outs cancelled
      in (reason, end_turn_log env buffers cancelled reason input_tokens output_tokens s1))"

section \<open>Loading a session\<close>

definition create_session :: "log_env \<Rightarrow> string \<Rightarrow> string option \<Rightarrow> json list \<Rightarrow> live_session" where
  "create_session env dir branch servers =
     write_event env (SessionCreatedEvent servers)
       \<lparr>s_cwd = dir, s_branch = branch, s_title = None, s_mode = None, s_config = [], s_senders = [],
        s_last_event = None, s_updated = 0, s_pre_plan = None, s_exited_plan = False, s_needs_exit = False,
        s_pending_modes = [], s_depth = 0, s_orch_mode = ''default'', s_log = [], s_sent = []\<rparr>"

text \<open>\<open>_load_from_disk\<close>; \<open>worktree\<close> is the working tree Git restores for the session, if any.\<close>

definition load_from_disk :: "float_repr \<Rightarrow> string \<Rightarrow> int \<Rightarrow> string option \<Rightarrow> session_event list \<Rightarrow> live_session" where
  "load_from_disk fl here now worktree events =
     (let st = reconstruct_state fl here now events;
          restored = (case ld_mode st of
                        Some m \<Rightarrow> if m \<noteq> [] then Some m else map_of (ld_config st) MODE_CONFIG_ID
                      | None \<Rightarrow> map_of (ld_config st) MODE_CONFIG_ID);
          restored = (case restored of Some m \<Rightarrow> if m \<noteq> [] then Some m else None | None \<Rightarrow> None)
      in \<lparr>s_cwd = (case worktree of Some w \<Rightarrow> w | None \<Rightarrow> ld_cwd st), s_branch = ld_branch st, s_title = ld_title st,
          s_mode = (case restored of Some m \<Rightarrow> Some m | None \<Rightarrow> ld_mode st),
          s_config = (case restored of Some m \<Rightarrow> dict_set MODE_CONFIG_ID m (ld_config st) | None \<Rightarrow> ld_config st),
          s_senders = [], s_last_event = ld_last_event st, s_updated = ld_updated st,
          s_pre_plan = None, s_exited_plan = False, s_needs_exit = False, s_pending_modes = [], s_depth = 0,
          s_orch_mode = (case restored of Some m \<Rightarrow> m | None \<Rightarrow> ''default''), s_log = events, s_sent = []\<rparr>)"

section \<open>Sessions as sequences of operations\<close>

datatype session_op =
    ClientMode string
  | ToolMode string
  | StartTurn "json list" "string option"
  | Output session_output
  | AskClient permission_request
  | EndTurn buffers bool string int int

inductive session_step ::
    "log_env \<Rightarrow> (tool_kind \<Rightarrow> string) \<Rightarrow> live_session \<Rightarrow> session_op \<Rightarrow> live_session \<Rightarrow> bool" for env kn where
  client_mode: "apply_mode_change env m s = Inr s' \<Longrightarrow> session_step env kn s (ClientMode m) s'"
| tool_mode: "set_mode m s = (Inr (), s') \<Longrightarrow> session_step env kn s (ToolMode m) s'"
| start_turn: "session_step env kn s (StartTurn p t) (begin_turn_log env p t s)"
| query_output: "session_step env kn s (Output e) (snd (handle_output env kn e (b, s)))"
| ask_client: "session_step env kn s (AskClient req) (snd (on_permission env ask req s))"
| end_turn: "session_step env kn s (EndTurn b c r i j) (end_turn_log env b c r i j s)"

inductive session_run ::
    "log_env \<Rightarrow> (tool_kind \<Rightarrow> string) \<Rightarrow> live_session \<Rightarrow> session_op list \<Rightarrow> live_session \<Rightarrow> bool" for env kn where
  session_nil: "session_run env kn s [] s"
| session_cons: "session_step env kn s a s1 \<Longrightarrow> session_run env kn s1 as s2 \<Longrightarrow> session_run env kn s (a # as) s2"

lemma session_run_inv:
  assumes "session_run env kn s as s'" "P s"
    and "\<And>s a s'. a \<in> set as \<Longrightarrow> session_step env kn s a s' \<Longrightarrow> P s \<Longrightarrow> P s'"
  shows "P s'"
  using assms by (induction rule: session_run.induct) auto

section \<open>The log is a chain\<close>

text \<open>
  Every operation is a sequence of appends and of changes elsewhere: an invariant that survives
  both survives the operation.
\<close>

definition same_log :: "live_session \<Rightarrow> live_session \<Rightarrow> bool" where
  "same_log s s' \<longleftrightarrow> s_log s' = s_log s \<and> s_last_event s' = s_last_event s \<and> s_updated s' = s_updated s
     \<and> s_cwd s' = s_cwd s \<and> s_branch s' = s_branch s"

inductive writes :: "log_env \<Rightarrow> live_session \<Rightarrow> live_session \<Rightarrow> bool" for env where
  writes_same: "same_log s s' \<Longrightarrow> writes env s s'"
| writes_event: "writes env s s1 \<Longrightarrow> writes env s (write_event env body s1)"
| writes_other: "writes env s s1 \<Longrightarrow> same_log s1 s' \<Longrightarrow> writes env s s'"

lemma same_log_refl [intro]: "same_log s s"
  by (simp add: same_log_def)

lemma writes_refl [intro]: "writes env s s"
  by (auto intro: writes_same)

lemma broadcast_same: "same_log s (broadcast env u s)"
  by (simp add: broadcast_def same_log_def Let_def)

lemma writes_trans: "writes env s1 s2 \<Longrightarrow> writes env s s1 \<Longrightarrow> writes env s s2"
  by (induction rule: writes.induct) (auto intro: writes.intros)


lemmas writes_steps = writes_event writes_other [OF _ broadcast_same]

lemma drain_writes: "writes env s (drain_modes env cs s)"
proof (induction cs arbitrary: s)
  case (Cons c cs)
  obtain old new where c: "c = (old, new)" by (cases c)
  have "writes env s (broadcast env (CurrentModeUpdate new) (write_event env (ModeChangedEvent new old) s))"
    by (intro writes_steps writes_refl)
  from writes_trans [OF Cons this] show ?case by (simp add: c)
qed auto

lemma drain_pending_writes: "writes env s (drain_pending_mode_changes env s)"
  unfolding drain_pending_mode_changes_def
  by (rule writes_trans [OF drain_writes]) (simp add: writes_same same_log_def)

lemma tool_event_writes: "writes env s (handle_tool_event env kn e s)"
  by (cases e) (auto simp: emit_tool_update_def Let_def intro!: writes_steps)

lemma output_writes: "writes env s (snd (handle_output env kn e (b, s)))"
proof -
  have upd: "writes env s (s\<lparr>s_mode := m\<rparr>)" "writes env s (s\<lparr>s_config := c\<rparr>)" "writes env s (s\<lparr>s_title := t\<rparr>)"
    "writes env s (s\<lparr>s_depth := k\<rparr>)" for m c t k by (simp_all add: writes_same same_log_def)
  obtain tx th where b: "b = (tx, th)" by (cases b)
  show ?thesis
  proof (cases e)
    case (FromQuery q)
    then show ?thesis
      by (cases q) (auto simp: b tool_event_writes Let_def intro!: writes_steps writes_same [OF broadcast_same])
  qed (auto simp: emit_tool_update_def Let_def intro!: writes_steps upd)
qed

lemma permission_writes: "writes env s (snd (on_permission env ask req s))"
  by (auto simp: on_permission_def Let_def split: list.splits prod.splits intro!: writes_steps)

lemma begin_turn_writes: "writes env s (begin_turn_log env p t s)"
proof -
  let ?s1 = "write_event env (UserMessageEvent p) s"
  have "writes env s (if s_title ?s1 = None then ?s1\<lparr>s_title := t\<rparr> else ?s1)"
    by (auto intro!: writes_steps writes_refl writes_other [where ?s1.0 = ?s1] simp: same_log_def)
  then have "writes env s (write_event env TurnStartedEvent (if s_title ?s1 = None then ?s1\<lparr>s_title := t\<rparr> else ?s1))"
    by (rule writes_event)
  from writes_trans [OF drain_pending_writes this] show ?thesis by (simp add: begin_turn_log_def Let_def)
qed

lemma end_turn_writes: "writes env s (end_turn_log env b c r i j s)"
proof -
  obtain tx th where b: "b = (tx, th)" by (cases b)
  let ?s1 = "if c then write_event env TurnCancelledEvent s else s"
  let ?s2 = "if tx \<noteq> [] then write_event env (AgentMessageEvent (concat tx)) ?s1 else ?s1"
  let ?s3 = "if th \<noteq> [] then write_event env (AgentThoughtEvent (concat th)) ?s2 else ?s2"
  have "writes env s ?s1" by (auto intro: writes_steps)
  then have "writes env s ?s2" by (auto intro: writes_steps)
  then have "writes env s ?s3" by (auto intro: writes_steps)
  then have "writes env s (broadcast env (UsageUpdate i j) (write_event env (TurnCompletedEvent r i j) ?s3))"
    by (intro writes_steps)
  then have "writes env s ((broadcast env (UsageUpdate i j) (write_event env (TurnCompletedEvent r i j) ?s3))\<lparr>s_depth := 0\<rparr>)"
    by (rule writes_other) (simp add: same_log_def)
  then show ?thesis by (simp add: end_turn_log_def b Let_def)
qed

lemma client_mode_writes: "apply_mode_change env m s = Inr s' \<Longrightarrow> writes env s s'"
proof -
  assume "apply_mode_change env m s = Inr s'"
  moreover have "writes env s (s\<lparr>s_mode := Some m, s_config := dict_set MODE_CONFIG_ID m (s_config s), s_orch_mode := m\<rparr>)"
    by (simp add: writes_same same_log_def)
  ultimately show ?thesis by (auto simp: apply_mode_change_def Let_def split: if_splits intro!: writes_steps)
qed

lemma set_mode_same: "same_log s (snd (set_mode m s))"
  by (simp add: set_mode_def same_log_def Let_def)

lemma step_writes: "session_step env kn s a s' \<Longrightarrow> writes env s s'"
proof (induction rule: session_step.induct)
  case (tool_mode m s s')
  then show ?case using set_mode_same [of s m] by (simp add: writes_same)
qed (simp_all add: client_mode_writes begin_turn_writes output_writes permission_writes end_turn_writes)

fun linked :: "string option \<Rightarrow> session_event list \<Rightarrow> bool" where
  "linked p [] = True"
| "linked p (e # es) = (ev_parent e = p \<and> linked (Some (ev_id e)) es)"

lemma linked_snoc:
  "linked p (es @ [e]) \<longleftrightarrow> linked p es \<and> ev_parent e = (if es = [] then p else Some (ev_id (last es)))"
  by (induction p es rule: linked.induct) auto

text \<open>What the log tells about the session is what the session says.\<close>

definition log_ok :: "float_repr \<Rightarrow> string \<Rightarrow> int \<Rightarrow> live_session \<Rightarrow> bool" where
  "log_ok fl here now s \<longleftrightarrow>
     (let st = reconstruct_state fl here now (s_log s)
      in s_log s \<noteq> [] \<and> linked None (s_log s) \<and> s_last_event s = Some (ev_id (last (s_log s))) \<and>
         ld_last_event st = s_last_event s \<and> ld_updated st = s_updated s \<and> ld_cwd st = s_cwd s \<and> ld_branch st = s_branch s)"

lemma reconstruct_snoc [simp]:
  "reconstruct_state fl here now (es @ [e]) = apply_event fl e (reconstruct_state fl here now es)"
  by (simp add: reconstruct_state_def)

lemma replace_history_fields [simp]:
  "ld_last_event (replace_history_from_snapshot fl rows st) = ld_last_event st"
  "ld_updated (replace_history_from_snapshot fl rows st) = ld_updated st"
  "ld_cwd (replace_history_from_snapshot fl rows st) = ld_cwd st"
  "ld_branch (replace_history_from_snapshot fl rows st) = ld_branch st"
  "ld_mode (replace_history_from_snapshot fl rows st) = ld_mode st"
  "ld_title (replace_history_from_snapshot fl rows st) = ld_title st"
  by (simp_all add: replace_history_from_snapshot_def split: sum.splits)

lemma append_history_fields [simp]:
  "ld_last_event (append_history_message fl row st) = ld_last_event st"
  "ld_updated (append_history_message fl row st) = ld_updated st"
  "ld_cwd (append_history_message fl row st) = ld_cwd st"
  "ld_branch (append_history_message fl row st) = ld_branch st"
  "ld_mode (append_history_message fl row st) = ld_mode st"
  "ld_title (append_history_message fl row st) = ld_title st"
  by (simp_all add: append_history_message_def split: sum.splits)

lemma apply_event_fields:
  "ld_last_event (apply_event fl e st) = Some (ev_id e)" "ld_updated (apply_event fl e st) = ev_time e"
  "ld_cwd st = ev_cwd e \<Longrightarrow> ld_cwd (apply_event fl e st) = ev_cwd e"
  "ld_branch st = ev_branch e \<Longrightarrow> ld_branch (apply_event fl e st) = ev_branch e"
  by (simp_all add: apply_event_def Let_def split: event_body.splits option.splits)

lemma write_log_ok:
  assumes "log_ok fl here now s"
  shows "log_ok fl here now (write_event env body s)"
  using assms
  by (simp add: log_ok_def write_event_def Let_def linked_snoc apply_event_fields)

lemma writes_log_ok: "writes env s s' \<Longrightarrow> log_ok fl here now s \<Longrightarrow> log_ok fl here now s'"
proof (induction rule: writes.induct)
  case (writes_event s s1 body)
  then show ?case by (simp add: write_log_ok)
qed (simp_all add: log_ok_def same_log_def Let_def)



section \<open>The mode in the log\<close>

definition mode_of_row :: "session_event \<Rightarrow> string option \<Rightarrow> string option" where
  "mode_of_row e m = (case ev_body e of ModeChangedEvent x from \<Rightarrow> Some x | _ \<Rightarrow> m)"

definition last_mode :: "session_event list \<Rightarrow> string option" where
  "last_mode es = fold mode_of_row es None"

lemma apply_event_mode: "ld_mode (apply_event fl e st) = mode_of_row e (ld_mode st)"
  by (simp add: apply_event_def mode_of_row_def Let_def split: event_body.splits option.splits)

lemma reconstruct_mode: "ld_mode (reconstruct_state fl here now es) = last_mode es"
proof -
  have "ld_mode (fold (apply_event fl) es st) = fold mode_of_row es (ld_mode st)" for st
    by (induction es arbitrary: st) (simp_all add: apply_event_mode)
  then show ?thesis by (simp add: reconstruct_state_def last_mode_def empty_loaded_def)
qed

abbreviation session_mode :: "live_session \<Rightarrow> string option" where
  "session_mode s \<equiv> last_mode (s_log s)"

lemma write_mode [simp]:
  "session_mode (write_event env body s) = (case body of ModeChangedEvent m from \<Rightarrow> Some m | _ \<Rightarrow> session_mode s)"
  by (cases body) (simp_all add: write_event_def Let_def last_mode_def mode_of_row_def)

text \<open>The fields that neither an append nor a broadcast touches.\<close>

lemma write_fields [simp]:
  "s_mode (write_event env body s) = s_mode s" "s_pending_modes (write_event env body s) = s_pending_modes s"
  "s_orch_mode (write_event env body s) = s_orch_mode s" "s_config (write_event env body s) = s_config s"
  "s_senders (write_event env body s) = s_senders s" "s_depth (write_event env body s) = s_depth s"
  "s_title (write_event env body s) = s_title s"
  by (simp_all add: write_event_def Let_def)

lemma broadcast_fields [simp]:
  "s_mode (broadcast env u s) = s_mode s" "s_pending_modes (broadcast env u s) = s_pending_modes s"
  "s_orch_mode (broadcast env u s) = s_orch_mode s" "s_log (broadcast env u s) = s_log s"
  "s_depth (broadcast env u s) = s_depth s"
  by (simp_all add: broadcast_def Let_def)

text \<open>The mode the log will show once the pending changes are written.\<close>

definition due_mode :: "live_session \<Rightarrow> string option" where
  "due_mode s = (if s_pending_modes s = [] then session_mode s else Some (snd (last (s_pending_modes s))))"

definition mode_config_row :: "session_event \<Rightarrow> bool" where
  "mode_config_row e \<longleftrightarrow> (\<exists>v full. ev_body e = ConfigOptionChangedEvent MODE_CONFIG_ID v full)"

definition modes_ok :: "live_session \<Rightarrow> bool" where
  "modes_ok s \<longleftrightarrow> due_mode s = s_mode s \<and>
     s_orch_mode s = (case s_mode s of Some m \<Rightarrow> m | None \<Rightarrow> ''default'') \<and>
     (\<forall>c \<in> set (s_pending_modes s). snd c \<in> set VALID_MODE_IDS) \<and>
     (\<forall>m. session_mode s = Some m \<longrightarrow> m \<in> set VALID_MODE_IDS) \<and>
     (session_mode s = None \<longrightarrow> list_all (\<lambda>e. \<not> mode_config_row e) (s_log s))"

text \<open>
  An orderly session: a client changes the mode only when no change by a tool waits to be written,
  and the orchestrator does not report a mode change of its own (nothing in the kernel does).
\<close>

fun orderly :: "live_session \<Rightarrow> session_op \<Rightarrow> bool" where
  "orderly s (ClientMode m) \<longleftrightarrow> s_pending_modes s = []"
| "orderly s (Output (ModeChanged m)) \<longleftrightarrow> False"
| "orderly s _ \<longleftrightarrow> True"

inductive orderly_run ::
    "log_env \<Rightarrow> (tool_kind \<Rightarrow> string) \<Rightarrow> live_session \<Rightarrow> session_op list \<Rightarrow> live_session \<Rightarrow> bool" for env kn where
  orderly_nil: "orderly_run env kn s [] s"
| orderly_cons: "orderly s a \<Longrightarrow> session_step env kn s a s1 \<Longrightarrow> orderly_run env kn s1 as s2
     \<Longrightarrow> orderly_run env kn s (a # as) s2"

definition quiet_body :: "event_body \<Rightarrow> bool" where
  "quiet_body b \<longleftrightarrow> (case b of ModeChangedEvent m f \<Rightarrow> False | ConfigOptionChangedEvent i v f \<Rightarrow> i \<noteq> MODE_CONFIG_ID | _ \<Rightarrow> True)"

lemma write_quiet: "quiet_body b \<Longrightarrow> modes_ok s \<Longrightarrow> modes_ok (write_event env b s)"
  by (auto simp: modes_ok_def due_mode_def quiet_body_def mode_config_row_def write_event_def Let_def last_mode_def
        mode_of_row_def split: event_body.splits)

lemma modes_ok_other:
  "modes_ok s \<Longrightarrow> modes_ok (broadcast env u s)" "modes_ok s \<Longrightarrow> modes_ok (s\<lparr>s_config := c\<rparr>)"
  "modes_ok s \<Longrightarrow> modes_ok (s\<lparr>s_title := t\<rparr>)" "modes_ok s \<Longrightarrow> modes_ok (s\<lparr>s_depth := k\<rparr>)"
  by (auto simp: modes_ok_def due_mode_def)

lemmas quiet_steps = write_quiet modes_ok_other

lemma drain_modes_ok:
  assumes "modes_ok s"
  shows "modes_ok (drain_pending_mode_changes env s) \<and> s_pending_modes (drain_pending_mode_changes env s) = []"
proof -
  have "s_pending_modes (drain_modes env cs u) = s_pending_modes u \<and> s_mode (drain_modes env cs u) = s_mode u \<and>
      s_orch_mode (drain_modes env cs u) = s_orch_mode u \<and>
      session_mode (drain_modes env cs u) = (if cs = [] then session_mode u else Some (snd (last cs))) \<and>
      (cs = [] \<longrightarrow> s_log (drain_modes env cs u) = s_log u)" for cs u
    by (induction cs arbitrary: u) auto
  from this [of "s_pending_modes s" "s\<lparr>s_pending_modes := []\<rparr>"] assms show ?thesis
    by (auto simp: drain_pending_mode_changes_def modes_ok_def due_mode_def split: if_splits)
qed

lemma client_mode_ok:
  assumes "apply_mode_change env m s = Inr s'" "s_pending_modes s = []"
  shows "modes_ok s' \<and> s_pending_modes s' = []"
  using assms by (auto simp: apply_mode_change_def modes_ok_def due_mode_def Let_def split: if_splits)

lemma set_mode_result:
  assumes "set_mode m s = (Inr (), s')"
  obtains new where "new \<in> set VALID_MODE_IDS" "s_mode s' = Some new" "s_orch_mode s' = new"
    "s_pending_modes s' = s_pending_modes s @ [(s_mode s, new)]" "s_log s' = s_log s"
proof -
  let ?new = "if m = ''restore'' then (case s_pre_plan s of Some x \<Rightarrow> if x \<noteq> [] then x else ''default'' | None \<Rightarrow> ''default'') else m"
  have "?new \<in> set VALID_MODE_IDS" using assms by (simp add: set_mode_def Let_def split: if_split_asm)
  then show thesis by (rule that) (use assms in \<open>auto simp: set_mode_def Let_def split: if_split_asm\<close>)
qed

lemma tool_mode_ok: "set_mode m s = (Inr (), s') \<Longrightarrow> modes_ok s \<Longrightarrow> modes_ok s'"
  by (erule set_mode_result) (auto simp: modes_ok_def due_mode_def)

lemma quiet_bodies [simp]:
  "quiet_body (ToolCallEvent a b c d)" "quiet_body (ToolCallUpdateEvent a b e)" "quiet_body (UserMessageEvent e)"
  "quiet_body TurnStartedEvent" "quiet_body TurnCancelledEvent" "quiet_body (AgentMessageEvent a)"
  "quiet_body (AgentThoughtEvent a)" "quiet_body (TurnCompletedEvent a i j)" "quiet_body (ConversationMessageEvent f)"
  "quiet_body (ConversationSnapshotEvent e)" "quiet_body (PlanEvent e)" "quiet_body (SessionInfoChangedEvent d)"
  "quiet_body (AvailableCommandsChangedEvent e)" "quiet_body (SubAgentSpawnedEvent a b c)"
  "quiet_body (SubAgentCompletedEvent a b)" "quiet_body (PermissionRequestEvent a b c r)"
  "quiet_body (PermissionResponseEvent a p)" "quiet_body (ConfigOptionChangedEvent [] [] g)"
  by (simp_all add: quiet_body_def MODE_CONFIG_ID_def)

lemma tool_event_modes: "modes_ok s \<Longrightarrow> modes_ok (handle_tool_event env kn e s)"
  by (cases e) (auto simp: emit_tool_update_def Let_def intro!: quiet_steps)

lemma output_modes_ok:
  assumes "modes_ok s" "orderly s (Output e)"
  shows "modes_ok (snd (handle_output env kn e (b, s)))"
proof -
  obtain tx th where b: "b = (tx, th)" by (cases b)
  show ?thesis
  proof (cases e)
    case (FromQuery q)
    with assms show ?thesis by (cases q) (auto simp: b tool_event_modes Let_def intro!: quiet_steps)
  qed (use assms in \<open>auto simp: emit_tool_update_def Let_def intro!: quiet_steps\<close>)
qed

lemma end_turn_modes: "modes_ok s \<Longrightarrow> modes_ok (end_turn_log env b c r i j s)"
  by (cases b) (auto simp: end_turn_log_def Let_def intro!: quiet_steps)

lemma begin_turn_modes:
  "modes_ok s \<Longrightarrow> modes_ok (begin_turn_log env p t s) \<and> s_pending_modes (begin_turn_log env p t s) = []"
  unfolding begin_turn_log_def Let_def by (rule drain_modes_ok) (auto intro!: quiet_steps)

lemma permission_modes: "modes_ok s \<Longrightarrow> modes_ok (snd (on_permission env ask req s))"
  by (auto simp: on_permission_def Let_def split: list.splits prod.splits intro!: quiet_steps)

lemma step_modes_ok: "session_step env kn s a s' \<Longrightarrow> orderly s a \<Longrightarrow> modes_ok s \<Longrightarrow> modes_ok s'"
  by (induction rule: session_step.induct)
     (auto simp: client_mode_ok tool_mode_ok begin_turn_modes output_modes_ok permission_modes end_turn_modes)

lemma orderly_run_modes: "orderly_run env kn s as s' \<Longrightarrow> modes_ok s \<Longrightarrow> modes_ok s'"
  by (induction rule: orderly_run.induct) (auto simp: step_modes_ok)

lemma reconstruct_config:
  "list_all (\<lambda>e. \<not> mode_config_row e) es \<Longrightarrow> map_of (ld_config (reconstruct_state fl here now es)) MODE_CONFIG_ID = None"
proof -
  have step: "\<not> mode_config_row e \<Longrightarrow> map_of (ld_config (apply_event fl e st)) MODE_CONFIG_ID = map_of (ld_config st) MODE_CONFIG_ID" for e st
    by (auto simp: apply_event_def mode_config_row_def replace_history_from_snapshot_def append_history_message_def Let_def
          split: event_body.splits option.splits sum.splits)
  have "list_all (\<lambda>e. \<not> mode_config_row e) es \<Longrightarrow>
      map_of (ld_config (fold (apply_event fl) es st)) MODE_CONFIG_ID = map_of (ld_config st) MODE_CONFIG_ID" for st
    by (induction es arbitrary: st) (auto simp: step)
  then show "list_all (\<lambda>e. \<not> mode_config_row e) es \<Longrightarrow> ?thesis"
    by (simp add: reconstruct_state_def empty_loaded_def)
qed


text \<open>
  A mode change by a tool is written at the start of the next turn, after a change the client
  makes in between: a session that a tool puts into plan mode and the client back into default
  mode runs in default mode, but its log, and with it the session after a reload, ends in plan
  mode. And a change by a tool that no later turn writes is lost: the reloaded session is in
  default mode.
\<close>

theorem late_mode_row_wins:
  "(\<exists>s. session_run env kn (create_session env dir branch servers)
          [ToolMode ''plan'', ClientMode ''default'', StartTurn [] None] s \<and>
        s_mode s = Some ''default'' \<and> s_orch_mode s = ''default'' \<and>
        s_orch_mode (load_from_disk fl here now worktree (s_log s)) = ''plan'') \<and>
   (\<exists>s. session_run env kn (create_session env dir branch servers) [ToolMode ''plan''] s \<and>
        s_orch_mode s = ''plan'' \<and> s_orch_mode (load_from_disk fl here now worktree (s_log s)) = ''default'')"
proof -
  let ?s0 = "create_session env dir branch servers"
  let ?s1 = "snd (set_mode ''plan'' ?s0)"
  have s1: "set_mode ''plan'' ?s0 = (Inr (), ?s1)" by (simp add: set_mode_def Let_def VALID_MODE_IDS_def)
  obtain s2 where s2: "apply_mode_change env ''default'' ?s1 = Inr s2"
    by (simp add: apply_mode_change_def VALID_MODE_IDS_def Let_def)
  let ?s3 = "begin_turn_log env [] None s2"
  have p1: "s_pending_modes ?s1 = [(None, ''plan'')]" "s_log ?s1 = s_log ?s0" "s_orch_mode ?s1 = ''plan''"
    by (simp_all add: set_mode_def VALID_MODE_IDS_def create_session_def Let_def)
  then have p2: "s_pending_modes s2 = [(None, ''plan'')]" "s_mode s2 = Some ''default''" "s_orch_mode s2 = ''default''"
    using s2 by (auto simp: apply_mode_change_def Let_def split: if_splits)
  then have s3: "s_mode ?s3 = Some ''default''" "s_orch_mode ?s3 = ''default''" "session_mode ?s3 = Some ''plan''"
    by (simp_all add: begin_turn_log_def drain_pending_mode_changes_def Let_def)
  have "session_run env kn ?s0 [ToolMode ''plan'', ClientMode ''default'', StartTurn [] None] ?s3"
    by (rule session_cons [OF tool_mode [OF s1] session_cons [OF client_mode [OF s2] session_cons [OF start_turn session_nil]]])
  moreover have "session_run env kn ?s0 [ToolMode ''plan''] ?s1" by (rule session_cons [OF tool_mode [OF s1] session_nil])
  moreover have "session_mode ?s1 = None" "list_all (\<lambda>e. \<not> mode_config_row e) (s_log ?s1)"
    unfolding p1(2) by (simp_all add: create_session_def write_event_def last_mode_def mode_of_row_def mode_config_row_def Let_def)
  then have "s_orch_mode (load_from_disk fl here now worktree (s_log ?s1)) = ''default''"
    by (simp add: load_from_disk_def reconstruct_mode reconstruct_config Let_def)
  moreover have "s_orch_mode (load_from_disk fl here now worktree (s_log ?s3)) = ''plan''"
    by (simp add: load_from_disk_def reconstruct_mode s3(3) Let_def)
  ultimately show ?thesis using s3(1,2) p1(3) by blast
qed


section \<open>Permission answers\<close>

text \<open>
  C33. The permission round trip fails closed and is on record. A call is approved only when a
  client is connected and selected exactly that option; no client, a failed request, a
  cancelled dialog and every other option are a rejection. The request is logged before the client
  is asked; the answer is logged after it, except when no client is connected: then the request
  has no answer in the log.
\<close>

theorem permission_fails_closed:
  assumes "on_permission env ask req s = (r, s')"
  shows "(resp_decision r \<noteq> RespReject \<longrightarrow>
            (\<exists>c cs u. s_senders s = c # cs \<and>
               ask c req = ReplySelected (if resp_decision r = RespAllowOnce then ''allow_once'' else ''allow_always'') u)) \<and>
         (\<exists>e1. ev_body e1 = PermissionRequestEvent (req_tool_use_id req) (req_tool_name req) (req_input_summary req) (req_risk_level req) \<and>
            (if s_senders s = [] then s_log s' = s_log s @ [e1] \<and> resp_updated_input r = None
             else \<exists>e2. ev_body e2 = PermissionResponseEvent (req_tool_use_id req) (resp_decision r) \<and> s_log s' = s_log s @ [e1, e2]))"
proof (cases "s_senders s")
  case Nil
  with assms show ?thesis by (auto simp: on_permission_def write_event_def Let_def)
next
  case (Cons c cs)
  with assms show ?thesis
    by (cases "ask c req") (auto simp: on_permission_def write_event_def Let_def split: if_splits)
qed


section \<open>Witnesses\<close>

definition demo_log :: log_env where
  "demo_log = \<lparr>le_uuid = (\<lambda>n. replicate n CHR ''0''), le_now = int, le_alive = (\<lambda>c. True), le_title_source = None,
     le_utf8_len = length, le_spill = (\<lambda>t. None), le_inline_limit = 100000\<rparr>"

abbreviation demo_kind :: "tool_kind \<Rightarrow> string" where
  "demo_kind k \<equiv> ''other''"

definition demo_session :: live_session where
  "demo_session = create_session demo_log ''/w'' None []"

lemma demo_plan: "session_run demo_log demo_kind demo_session [ToolMode ''plan'', StartTurn [] None] (begin_turn_log demo_log [] None (snd (set_mode ''plan'' demo_session)))"
  "orderly_run demo_log demo_kind demo_session [ToolMode ''plan'', StartTurn [] None] (begin_turn_log demo_log [] None (snd (set_mode ''plan'' demo_session)))"
proof -
  have s: "set_mode ''plan'' demo_session = (Inr (), snd (set_mode ''plan'' demo_session))"
    by (simp add: set_mode_def VALID_MODE_IDS_def Let_def)
  show "session_run demo_log demo_kind demo_session [ToolMode ''plan'', StartTurn [] None] (begin_turn_log demo_log [] None (snd (set_mode ''plan'' demo_session)))"
    by (rule session_cons [OF tool_mode [OF s] session_cons [OF start_turn session_nil]])
  show "orderly_run demo_log demo_kind demo_session [ToolMode ''plan'', StartTurn [] None] (begin_turn_log demo_log [] None (snd (set_mode ''plan'' demo_session)))"
    by (rule orderly_cons [OF _ tool_mode [OF s] orderly_cons [OF _ start_turn orderly_nil]]) simp_all
qed



definition demo_request :: permission_request where
  "demo_request = \<lparr>req_tool_use_id = ''u1'', req_tool_name = ''Wipe'', req_tool_title = ''Wipe'', req_input_summary = [],
     req_risk_level = High, req_tool_input = [], req_options = []\<rparr>"

theorem permission_fails_closed_witness:
  "resp_decision (fst (on_permission demo_log (\<lambda>c r. ReplySelected ''allow_once'' None) demo_request (demo_session\<lparr>s_senders := [''c'']\<rparr>))) = RespAllowOnce \<and>
   resp_decision (fst (on_permission demo_log (\<lambda>c r. ReplySelected ''allow_once'' None) demo_request demo_session)) = RespReject"
proof -
  let ?ask = "\<lambda>(c :: string) (r :: permission_request). ReplySelected ''allow_once'' None"
  obtain r s' where p: "on_permission demo_log ?ask demo_request demo_session = (r, s')"
    by (cases "on_permission demo_log ?ask demo_request demo_session")
  have "s_senders demo_session = []" by (simp add: demo_session_def create_session_def write_event_def Let_def)
  with permission_fails_closed [OF p] p
  have "resp_decision (fst (on_permission demo_log ?ask demo_request demo_session)) = RespReject" by auto
  moreover have "resp_decision (fst (on_permission demo_log ?ask demo_request (demo_session\<lparr>s_senders := [''c'']\<rparr>))) = RespAllowOnce"
    by (simp add: on_permission_def Let_def)
  ultimately show ?thesis by simp
qed

end
