(* ===== verification/Log_Replay.thy ===== *)
theory Log_Replay
  imports Session_Log
begin

text \<open>
  The history a session is rebuilt with, against the history its orchestrator had in memory: the
  query loop reports appended messages and rewritten histories as events, the session writes them
  to the log, and the loader folds the rows. The passes that change the history without a
  report (snipping, microcompaction, stripping media) are where the two may part; so is
  a reply popped for a retry.
\<close>

section \<open>Replaying the reports of a query\<close>

fun replay_event :: "query_event \<Rightarrow> message list \<Rightarrow> message list" where
  "replay_event (EvAppend m) r = append_collapsing m r"
| "replay_event (EvSnapshot ms) r = ms"
| "replay_event _ r = r"

definition replay :: "query_event list \<Rightarrow> message list \<Rightarrow> message list" where
  "replay evs r = fold replay_event evs r"

lemma replay_simps [simp]:
  "replay [] r = r" "replay (e # evs) r = replay evs (replay_event e r)"
  "replay (evs @ evs') r = replay evs' (replay evs r)"
  by (simp_all add: replay_def)

lemma replay_tools [simp]: "replay (map (\<lambda>p. EvTool (f p)) ps) r = r"
  by (induction ps) simp_all

lemma append_collapsing_user [simp]: "append_collapsing (UserMessage c) r = r @ [UserMessage c]"
  by (simp add: append_collapsing_def)

text \<open>The history in the log, and how a row changes it.\<close>

definition logged_history :: "float_repr \<Rightarrow> live_session \<Rightarrow> message list" where
  "logged_history fl s = ld_history (reconstruct_state fl [] 0 (s_log s))"

definition history_row :: "float_repr \<Rightarrow> event_body \<Rightarrow> message list \<Rightarrow> message list" where
  "history_row fl b h =
     (case b of
        ConversationSnapshotEvent rows \<Rightarrow> (case py_map (deserialize_message fl) rows of Inl e \<Rightarrow> h | Inr ms \<Rightarrow> ms)
      | ConversationMessageEvent row \<Rightarrow> (case deserialize_message fl row of Inl e \<Rightarrow> h | Inr m \<Rightarrow> append_collapsing m h)
      | _ \<Rightarrow> h)"

lemma write_history: "logged_history fl (write_event env b s) = history_row fl b (logged_history fl s)"
  by (cases b) (auto simp: logged_history_def write_event_def history_row_def apply_event_def Let_def
      replace_history_from_snapshot_def append_history_message_def split: option.splits sum.splits)

lemma broadcast_history [simp]: "logged_history fl (broadcast env u s) = logged_history fl s"
  by (simp add: logged_history_def)

lemma deserialize_rows [simp]: "py_map (deserialize_message fl) (map serialize_message ms) = Inr ms"
  by (rule py_map_inverse) simp

lemma tool_event_history:
  "logged_history fl (handle_tool_event env kn e s) = logged_history fl s" "s_depth (handle_tool_event env kn e s) = s_depth s"
  by (cases e; simp add: emit_tool_update_def write_history history_row_def Let_def)+

lemma output_history:
  assumes "s_depth s = 0"
  shows "logged_history fl (snd (handle_output env kn (FromQuery e) (b, s))) = replay_event e (logged_history fl s)"
    "s_depth (snd (handle_output env kn (FromQuery e) (b, s))) = 0"
proof -
  obtain tx th where b: "b = (tx, th)" by (cases b)
  show "logged_history fl (snd (handle_output env kn (FromQuery e) (b, s))) = replay_event e (logged_history fl s)"
    "s_depth (snd (handle_output env kn (FromQuery e) (b, s))) = 0"
    using assms by (cases e; simp add: b write_history history_row_def tool_event_history Let_def)+
qed

lemma outputs_history:
  "s_depth s = 0 \<Longrightarrow>
     logged_history fl (snd (fold (handle_output env kn) (map FromQuery evs) (b, s))) = replay evs (logged_history fl s)"
proof (induction evs arbitrary: b s)
  case (Cons e evs)
  obtain b1 s1 where h: "handle_output env kn (FromQuery e) (b, s) = (b1, s1)"
    by (cases "handle_output env kn (FromQuery e) (b, s)")
  from output_history(1) [OF Cons.prems, where env = env and kn = kn and e = e and b = b and fl = fl]
    output_history(2) [OF Cons.prems, where env = env and kn = kn and e = e and b = b] h
  have "s_depth s1 = 0" "logged_history fl s1 = replay_event e (logged_history fl s)" by simp_all
  with Cons.IH [of s1 b1] h show ?case by simp
qed simp

section \<open>Short conversations are not rewritten\<close>

definition users :: "message list \<Rightarrow> nat" where
  "users ms = length (filter is_user ms)"

lemma users_simps [simp]: "users [] = 0" "users (m # ms) = (if is_user m then Suc (users ms) else users ms)"
  "users (ms @ ms') = users ms + users ms'"
  by (simp_all add: users_def)

lemma length_user_indices: "length (user_indices ms) = users ms"
proof (induction ms rule: rev_induct)
  case (snoc m ms)
  have "user_indices (ms @ [m]) = user_indices ms @ (if is_user m then [length ms] else [])"
    by (auto simp: user_indices_def nth_append intro!: filter_cong)
  with snoc show ?case by simp
qed (simp add: user_indices_def)

lemma short_boundary: "users (messages h) \<le> keep \<Longrightarrow> find_compaction_boundary keep h = 0"
  by (simp add: find_compaction_boundary_def length_user_indices)

lemma short_passes:
  assumes "users (messages h) \<le> keep"
  shows "snip_read_only_results fl keep h = (0, h)" "remove_read_only_pairs fl keep h = (0, h)" "compact fl sm keep h = h"
  using short_boundary [OF assms]
  by (simp_all add: snip_read_only_results_def remove_read_only_pairs_def compact_def Let_def)

lemma short_prepare:
  assumes "users (messages h) \<le> qe_keep env"
  shows "prepare_history env h =
     (if token_count h > qe_threshold env then ([EvCompaction (token_count h) (token_count h), EvSnapshot (messages h)], h) else ([], h))"
  using short_passes [OF assms] by (simp add: prepare_history_def Let_def)

section \<open>Log and memory\<close>

text \<open>
  The log may have one assistant message more than the memory: a reply that was popped for a retry.
\<close>

definition mirrors :: "message list \<Rightarrow> message list \<Rightarrow> bool" where
  "mirrors r ms \<longleftrightarrow> r = ms \<or> (\<exists>c. r = ms @ [AssistantMessage c])"

definition at_user :: "message list \<Rightarrow> bool" where
  "at_user ms \<longleftrightarrow> ms \<noteq> [] \<and> is_user (last ms)"

lemma mirrors_assistant:
  "mirrors r ms \<Longrightarrow> at_user ms \<Longrightarrow> append_collapsing (AssistantMessage c) r = ms @ [AssistantMessage c]"
  by (auto simp: mirrors_def at_user_def append_collapsing_def)

lemma consume_replay: "consume cs acc o' = (evs, acc1, o1, err) \<Longrightarrow> replay evs r = r"
  by (induction cs acc o' arbitrary: evs acc1 o1 err rule: consume.induct) (auto split: prod.splits if_splits)

lemma append_reply_replay:
  assumes "append_reply env acc o' = (evs, o1)" "mirrors r (messages (q_history o'))" "at_user (messages (q_history o'))"
  shows "(messages (q_history o1) = messages (q_history o') \<and> replay evs r = r \<and> sa_calls acc = []) \<or>
         (\<exists>c. messages (q_history o1) = messages (q_history o') @ [AssistantMessage c] \<and> replay evs r = messages (q_history o1))"
proof -
  let ?c = "assistant_blocks (concat (sa_text acc)) (sa_thoughts acc) (map use_block (sa_calls acc))"
  have m: "messages (q_history o1) = messages (q_history o') @ (if ?c = [] then [] else [AssistantMessage ?c])"
    by (simp add: append_reply_history [OF assms(1)] append_assistant_def push_message_def Let_def)
  have evs: "evs = (if ?c = [] then [] else [EvAppend (AssistantMessage ?c)])"
    using assms(1)
    by (auto simp: append_reply_def Let_def append_assistant_def push_message_def fire_query_hook_def
        split: if_splits option.splits prod.splits)
  show ?thesis
  proof (cases "?c = []")
    case True
    with m evs show ?thesis by (auto simp: assistant_blocks_def)
  next
    case False
    with m evs mirrors_assistant [OF assms(2,3)] show ?thesis by auto
  qed
qed


lemma finish_reply_replay:
  assumes "finish_reply env b acc tn o' = (evs, o1, nxt)"
  shows "replay evs r = r \<and>
         messages (q_history o1) = (if nxt = None then messages (q_history o') else messages (snd (pop_last_assistant (qe_float env) (q_history o'))))"
  using assms
  by (auto simp: finish_reply_def handle_stop_def Let_def dest!: fire_query_hook_history
      split: if_splits prod.splits stop_action.splits option.splits)

lemma cancel_replay:
  assumes "cancel_query env o' = (evs, o1)"
  shows "replay evs (messages (q_history o')) = messages (q_history o1)"
    "all_answered (messages (q_history o')) \<Longrightarrow> replay evs r = r \<and> messages (q_history o1) = messages (q_history o')"
    "users (messages (q_history o1)) \<le> Suc (users (messages (q_history o')))"
  using assms answered_no_pending [of "[]" "messages (q_history o')"]
  by (auto simp: cancel_query_def append_interrupted_tool_results_def append_tool_results_def push_message_def
      all_answered_def Let_def split: if_splits)

lemma run_tools_replay:
  assumes "run_tools env r acc tn o' = (evs, o1, nxt)" "runs_executor env x" "sa_calls acc \<noteq> []"
  shows "replay evs (messages (q_history o')) = messages (q_history o1) \<and>
         (nxt \<noteq> None \<longrightarrow> at_user (messages (q_history o1))) \<and>
         users (messages (q_history o1)) \<le> Suc (users (messages (q_history o')))"
proof -
  obtain pairs xs nm where t: "qe_tools env (tool_permission_mode (q_mode o')) (sa_calls acc) (q_exec o') = (pairs, xs, nm)"
    by (cases "qe_tools env (tool_permission_mode (q_mode o')) (sa_calls acc) (q_exec o')")
  have "set (map tu_id (sa_calls acc)) \<subseteq> set (result_ids (pair_results pairs))"
    using tools_cover [OF assms(2), of "sa_calls acc"] t by (metis fst_conv)
  with assms(3) have ne: "pair_results pairs \<noteq> []" by (cases "sa_calls acc") (auto simp: result_ids_def)
  show ?thesis
  proof (cases "r_tool_cut r")
    case (Some k)
    let ?o = "o'\<lparr>q_exec := xs, q_history := record_kinds (take k pairs) (q_history o'),
                q_mode := (case nm of None \<Rightarrow> q_mode o' | Some m \<Rightarrow> m)\<rparr>"
    obtain cevs o2 where c: "cancel_query env ?o = (cevs, o2)" by (cases "cancel_query env ?o")
    from cancel_replay(1,3) [OF c] assms(1) t Some c show ?thesis by (auto simp: run_tools_def)
  next
    case None
    with assms(1) t ne show ?thesis
      by (auto simp: run_tools_def append_tool_results_def push_message_def at_user_def Let_def)
  qed
qed

text \<open>Replies whose recovery leaves the messages of a short conversation alone.\<close>

fun gentle_end :: "stream_end \<Rightarrow> bool" where
  "gentle_end (MediaSize m) \<longleftrightarrow> False"
| "gentle_end (ProviderFailed m) \<longleftrightarrow> \<not> is_tool_protocol_error m"
| "gentle_end _ \<longleftrightarrow> True"

lemma error_steps_replay:
  assumes "users (messages (q_history o')) \<le> qe_keep env"
  shows "handle_stream_error m c acc tn o' = (evs, o1, nxt) \<Longrightarrow> replay evs r = r \<and> messages (q_history o1) = messages (q_history o')"
    "handle_prompt_too_long env m tn o' = (evs, o1, nxt) \<Longrightarrow> replay evs r = r \<and> messages (q_history o1) = messages (q_history o')"
    "\<not> is_tool_protocol_error m \<Longrightarrow> handle_provider_error env m tn o' = (evs, o1, nxt) \<Longrightarrow>
       replay evs r = r \<and> messages (q_history o1) = messages (q_history o')"
  using short_passes(3) [OF assms]
  by (auto simp: error_step_defs compact_now_def Let_def split: if_splits prod.splits)

lemma pop_after_append:
  "messages h = ms @ [AssistantMessage c] \<Longrightarrow> messages (snd (pop_last_assistant fl h)) = ms"
  by (simp add: pop_last_assistant_def)

lemma pop_at_user: "at_user (messages h) \<Longrightarrow> snd (pop_last_assistant fl h) = h"
  by (simp add: pop_last_assistant_def at_user_def)

text \<open>What follows a complete stream.\<close>

lemma reply_replay:
  assumes a: "append_reply env acc o' = (aevs, oa)"
    and t: "(if sa_calls acc = [] then finish_reply env b acc tn oa else run_tools env r acc tn oa) = (tevs, o1, nxt)"
    and x: "runs_executor env x" and m: "mirrors l (messages (q_history o'))" "at_user (messages (q_history o'))"
  shows "mirrors (replay (aevs @ tevs) l) (messages (q_history o1)) \<and> (nxt \<noteq> None \<longrightarrow> at_user (messages (q_history o1))) \<and>
         users (messages (q_history o1)) \<le> Suc (users (messages (q_history o')))"
proof (cases "sa_calls acc = []")
  case True
  with t have f: "finish_reply env b acc tn oa = (tevs, o1, nxt)" by simp
  from append_reply_replay [OF a m] finish_reply_replay [OF f] m show ?thesis
    by (auto simp: mirrors_def pop_at_user pop_after_append [where h = "q_history oa"])
next
  case False
  with t have f: "run_tools env r acc tn oa = (tevs, o1, nxt)" by simp
  from append_reply_replay [OF a m] run_tools_replay [OF f x False] False show ?thesis
    by (auto simp: mirrors_def)
qed

lemma query_step_replay:
  assumes s: "query_step env b r tn o' = (req, evs, o1, nxt)" and x: "runs_executor env x" and g: "gentle_end (r_end r)"
    and k: "users (messages (q_history o')) \<le> qe_keep env" and ans: "all_answered (messages (q_history o'))"
    and m: "mirrors l (messages (q_history o'))" "at_user (messages (q_history o'))"
  shows "mirrors (replay evs l) (messages (q_history o1)) \<and> (nxt \<noteq> None \<longrightarrow> at_user (messages (q_history o1))) \<and>
         users (messages (q_history o1)) \<le> Suc (users (messages (q_history o')))"
proof -
  let ?acc0 = "\<lparr>sa_text = [], sa_thoughts = [], sa_calls = [], sa_stop = None\<rparr>"
  obtain pevs h where p: "prepare_history env (q_history o') = (pevs, h)" by (cases "prepare_history env (q_history o')")
  have h: "h = q_history o'" and pl: "mirrors (replay pevs l) (messages h)"
    using p m unfolding short_prepare [OF k] by (auto simp: mirrors_def split: if_splits)
  obtain sevs acc o2 err where c: "consume (r_chunks r) ?acc0 (o'\<lparr>q_history := h\<rparr>) = (sevs, acc, o2, err)"
    by (cases "consume (r_chunks r) ?acc0 (o'\<lparr>q_history := h\<rparr>)") auto
  have o2: "messages (q_history o2) = messages (q_history o')" using consume_messages [OF c] h by simp
  let ?l = "replay sevs (replay pevs l)"
  have l: "mirrors ?l (messages (q_history o2))" "at_user (messages (q_history o2))" "all_answered (messages (q_history o2))"
      "users (messages (q_history o2)) \<le> qe_keep env"
    using pl h m(2) ans k unfolding consume_replay [OF c] o2 by simp_all
  obtain es where es: "after_stream env b r acc err tn o2 = (es, o1, nxt)" and evs: "evs = pevs @ sevs @ es"
    using s p c by (auto simp: query_step_def split: prod.splits)
  have "mirrors (replay es ?l) (messages (q_history o1)) \<and> (nxt \<noteq> None \<longrightarrow> at_user (messages (q_history o1))) \<and>
      users (messages (q_history o1)) \<le> Suc (users (messages (q_history o2)))"
  proof (cases err)
    case (Some e)
    with es l error_steps_replay(1) [OF l(4), of _ _ acc tn es o1 nxt ?l] show ?thesis
      by (cases e) (auto simp: after_stream_def)
  next
    case None
    show ?thesis
    proof (cases "r_end r")
      case StreamDone
      obtain aevs oa where a: "append_reply env acc o2 = (aevs, oa)" by (cases "append_reply env acc o2")
      obtain tevs where t: "(if sa_calls acc = [] then finish_reply env b acc tn oa else run_tools env r acc tn oa) = (tevs, o1, nxt)"
        "es = aevs @ tevs" using es None StreamDone a by (auto simp: after_stream_def split: prod.splits)
      from reply_replay [OF a t(1) x l(1,2)] show ?thesis by (simp add: t(2))
    next
      case StreamCancelled
      obtain cevs oc where cq: "cancel_query env o2 = (cevs, oc)" by (cases "cancel_query env o2")
      with es None StreamCancelled have "es = cevs" "o1 = oc" "nxt = None" by (auto simp: after_stream_def)
      with cancel_replay(2) [OF cq l(3)] l(1) show ?thesis by simp
    qed (use es None g l error_steps_replay(2,3) [OF l(4), of _ tn es o1 nxt ?l] in \<open>auto simp: after_stream_def\<close>)
  qed
  then show ?thesis by (simp add: evs o2)
qed


lemma query_loop_replay:
  assumes "query_loop env max_turns b rs tn o' = (evs, reqs, o1, out)" "runs_executor env x"
    and "list_all (\<lambda>r. gentle_end (r_end r)) rs"
    and "users (messages (q_history o')) + length rs \<le> qe_keep env + 1" "all_answered (messages (q_history o'))"
    and "mirrors l (messages (q_history o'))" "at_user (messages (q_history o'))"
  shows "mirrors (replay evs l) (messages (q_history o1))"
  using assms
proof (induction env max_turns b rs tn o' arbitrary: l evs reqs o1 out rule: query_loop.induct)
  case (1 env max_turns b tn o')
  then show ?case by (auto split: if_splits)
next
  case (2 env max_turns b r rs tn o')
  show ?case
  proof (cases "max_turns > 0 \<and> tn_index tn + 1 > int max_turns")
    case True
    with 2(2,7) show ?thesis by auto
  next
    case False
    obtain req evs1 oa nxt where s: "query_step env b r (start_next_iteration tn) o' = (req, evs1, oa, nxt)"
      by (cases "query_step env b r (start_next_iteration tn) o'") auto
    have step: "mirrors (replay evs1 l) (messages (q_history oa))" "nxt \<noteq> None \<Longrightarrow> at_user (messages (q_history oa))"
      "users (messages (q_history oa)) \<le> Suc (users (messages (q_history o')))"
      using query_step_replay [OF s 2(3) _ _ 2(6-8)] 2(4,5) by auto
    have ans: "all_answered (messages (q_history oa))" using query_step_answered [OF s 2(3,6)] by simp
    show ?thesis
    proof (cases nxt)
      case None
      with 2(2) False s step(1) show ?thesis by auto
    next
      case (Some tn1)
      obtain evs2 reqs2 oz out2 where l2: "query_loop env max_turns b rs tn1 oa = (evs2, reqs2, oz, out2)"
        by (cases "query_loop env max_turns b rs tn1 oa") auto
      have "mirrors (replay evs2 (replay evs1 l)) (messages (q_history oz))"
        by (rule 2(1) [OF False s [symmetric] refl refl Some l2 2(3) _ _ ans step(1)]) (use 2(4,5) step Some in auto)
      with 2(2) False s Some l2 show ?thesis by auto
    qed
  qed
qed



section \<open>Stop reasons\<close>

definition map_orch_stop_reason :: "stop_reason \<Rightarrow> string" where
  "map_orch_stop_reason r =
     (case r of
        StopEndTurn \<Rightarrow> ''end_turn'' | StopMaxTurns \<Rightarrow> ''max_turn_requests'' | StopCancelled \<Rightarrow> ''cancelled''
      | StopError \<Rightarrow> ''error'' | _ \<Rightarrow> ''end_turn'')"

fun plain_event :: "query_event \<Rightarrow> bool" where
  "plain_event (EvError m c) \<longleftrightarrow> False"
| "plain_event EvCancelled \<longleftrightarrow> False"
| "plain_event _ \<longleftrightarrow> True"

lemma plain_stop_reason: "list_all plain_event evs \<Longrightarrow> turn_stop_reason (map FromQuery evs) False = ''end_turn''"
proof -
  have "list_all plain_event evs \<Longrightarrow>
      fold (\<lambda>e r. case e of FromQuery EvCancelled \<Rightarrow> ''cancelled'' | FromQuery (EvError m c) \<Rightarrow> ''error'' | _ \<Rightarrow> r)
        (map FromQuery evs) a = a" for a
  proof (induction evs)
    case (Cons e evs)
    then show ?case by (cases e) simp_all
  qed simp
  then show "list_all plain_event evs \<Longrightarrow> ?thesis" by (simp add: turn_stop_reason_def)
qed

lemma consume_plain: "consume cs acc o' = (evs, acc1, o1, err) \<Longrightarrow> list_all plain_event evs"
  by (induction cs acc o' arbitrary: evs acc1 o1 err rule: consume.induct) (auto split: prod.splits if_splits)

lemma prepare_plain: "prepare_history env h = (evs, h') \<Longrightarrow> list_all plain_event evs"
  by (auto simp: prepare_history_def Let_def split: if_splits)

lemma append_reply_plain: "append_reply env acc o' = (evs, o1) \<Longrightarrow> list_all plain_event evs"
  by (auto simp: append_reply_def Let_def)

lemma tools_plain: "list_all plain_event (map (\<lambda>p. EvTool (f p)) ps)"
  by (induction ps) simp_all

text \<open>An iteration that goes on reports neither an error nor a cancellation; one that ends sets the stop reason.\<close>

lemma run_tools_plain:
  assumes "run_tools env r acc tn o' = (evs, o1, nxt)"
  shows "nxt \<noteq> None \<Longrightarrow> list_all plain_event evs" "nxt = None \<Longrightarrow> q_stop o1 \<noteq> StopMaxTurns"
proof -
  obtain pairs xs nm where t: "qe_tools env (tool_permission_mode (q_mode o')) (sa_calls acc) (q_exec o') = (pairs, xs, nm)"
    by (cases "qe_tools env (tool_permission_mode (q_mode o')) (sa_calls acc) (q_exec o')")
  with assms show "nxt \<noteq> None \<Longrightarrow> list_all plain_event evs" "nxt = None \<Longrightarrow> q_stop o1 \<noteq> StopMaxTurns"
    by (auto simp: run_tools_def cancel_query_def tools_plain Let_def split: option.splits prod.splits)
qed

lemma finish_reply_plain:
  assumes "finish_reply env b acc tn o' = (evs, o1, nxt)"
  shows "nxt \<noteq> None \<Longrightarrow> list_all plain_event evs" "nxt = None \<Longrightarrow> q_stop o1 \<noteq> StopMaxTurns"
  using assms
  by (auto simp: finish_reply_def handle_stop_def Let_def split: if_splits prod.splits stop_action.splits option.splits)

lemma error_steps_plain:
  "handle_stream_error m c acc tn o' = (evs, o1, nxt) \<Longrightarrow> (nxt \<noteq> None \<longrightarrow> list_all plain_event evs) \<and> (nxt = None \<longrightarrow> q_stop o1 \<noteq> StopMaxTurns)"
  "handle_prompt_too_long env m tn o' = (evs, o1, nxt) \<Longrightarrow> (nxt \<noteq> None \<longrightarrow> list_all plain_event evs) \<and> (nxt = None \<longrightarrow> q_stop o1 \<noteq> StopMaxTurns)"
  "handle_media_size env m tn o' = (evs, o1, nxt) \<Longrightarrow> (nxt \<noteq> None \<longrightarrow> list_all plain_event evs) \<and> (nxt = None \<longrightarrow> q_stop o1 \<noteq> StopMaxTurns)"
  "handle_provider_error env m tn o' = (evs, o1, nxt) \<Longrightarrow> (nxt \<noteq> None \<longrightarrow> list_all plain_event evs) \<and> (nxt = None \<longrightarrow> q_stop o1 \<noteq> StopMaxTurns)"
  by (auto simp: error_step_defs compact_now_def Let_def split: if_splits prod.splits)

lemma query_step_plain:
  assumes "query_step env b r tn o' = (req, evs, o1, nxt)"
  shows "(nxt \<noteq> None \<longrightarrow> list_all plain_event evs) \<and> (nxt = None \<longrightarrow> q_stop o1 \<noteq> StopMaxTurns)"
proof -
  let ?acc0 = "\<lparr>sa_text = [], sa_thoughts = [], sa_calls = [], sa_stop = None\<rparr>"
  obtain pevs h where p: "prepare_history env (q_history o') = (pevs, h)" by (cases "prepare_history env (q_history o')")
  obtain sevs acc o2 err where c: "consume (r_chunks r) ?acc0 (o'\<lparr>q_history := h\<rparr>) = (sevs, acc, o2, err)"
    by (cases "consume (r_chunks r) ?acc0 (o'\<lparr>q_history := h\<rparr>)") auto
  obtain es where es: "after_stream env b r acc err tn o2 = (es, o1, nxt)" and evs: "evs = pevs @ sevs @ es"
    using assms p c by (auto simp: query_step_def split: prod.splits)
  have "(nxt \<noteq> None \<longrightarrow> list_all plain_event es) \<and> (nxt = None \<longrightarrow> q_stop o1 \<noteq> StopMaxTurns)"
  proof (cases err)
    case (Some e)
    with es error_steps_plain(1) show ?thesis by (cases e) (auto simp: after_stream_def)
  next
    case None
    show ?thesis
    proof (cases "r_end r")
      case StreamDone
      obtain aevs oa where a: "append_reply env acc o2 = (aevs, oa)" by (cases "append_reply env acc o2")
      obtain tevs where t: "(if sa_calls acc = [] then finish_reply env b acc tn oa else run_tools env r acc tn oa) = (tevs, o1, nxt)"
        "es = aevs @ tevs" using es None StreamDone a by (auto simp: after_stream_def split: prod.splits)
      from t append_reply_plain [OF a] show ?thesis
        using finish_reply_plain [of env b acc tn oa tevs o1 nxt] run_tools_plain [of env r acc tn oa tevs o1 nxt]
        by (auto split: if_splits)
    next
      case StreamCancelled
      with None es show ?thesis by (auto simp: after_stream_def cancel_query_def Let_def split: prod.splits)
    qed (use None es error_steps_plain(2-4) in \<open>auto simp: after_stream_def\<close>)
  qed
  then show ?thesis using consume_plain [OF c] prepare_plain [OF p] by (auto simp: evs)
qed

lemma query_loop_plain:
  "query_loop env max_turns b rs tn o' = (evs, reqs, o1, Ended) \<Longrightarrow> q_stop o1 = StopMaxTurns \<Longrightarrow> list_all plain_event evs"
proof (induction env max_turns b rs tn o' arbitrary: evs reqs o1 rule: query_loop.induct)
  case (2 env max_turns b r rs tn o')
  show ?case
  proof (cases "max_turns > 0 \<and> tn_index tn + 1 > int max_turns")
    case False
    obtain req evs1 oa nxt where s: "query_step env b r (start_next_iteration tn) o' = (req, evs1, oa, nxt)"
      by (cases "query_step env b r (start_next_iteration tn) o'") auto
    show ?thesis
    proof (cases nxt)
      case None
      with 2(2,3) False s query_step_plain [OF s] show ?thesis by auto
    next
      case (Some tn1)
      obtain evs2 reqs2 oz out2 where l: "query_loop env max_turns b rs tn1 oa = (evs2, reqs2, oz, out2)"
        by (cases "query_loop env max_turns b rs tn1 oa") auto
      with 2(2) False s Some have "oz = o1" "out2 = Ended" "evs = evs1 @ evs2" by auto
      with 2(1) [OF False s [symmetric] refl refl Some, of evs2 reqs2 o1] l 2(3) query_step_plain [OF s] Some show ?thesis by auto
    qed
  qed (use 2(2) in auto)
qed (auto split: if_splits)

text \<open>
  The turn limit is not reported. A query that the turn limit ends has the stop reason
  \<open>max_turns\<close>, which the protocol calls \<open>max_turn_requests\<close>; the turn that ran it ends with, logs
  and answers \<open>end_turn\<close>.
\<close>

theorem turn_limit_reported_as_end_turn:
  assumes "run_query env pm prompt max_turns budget replies o0 = (evs, reqs, o1, Ended)" "q_stop o1 = StopMaxTurns"
  shows "map_orch_stop_reason (q_stop o1) = ''max_turn_requests'' \<and>
         fst (run_turn_core lenv kn blocks title (map FromQuery evs) False i j s) = ''end_turn''"
proof -
  obtain ptext reminders blocked oa where st: "setup_turn env pm prompt (o0\<lparr>q_in := 0, q_out := 0\<rparr>) = (ptext, reminders, blocked, oa)"
    by (cases "setup_turn env pm prompt (o0\<lparr>q_in := 0, q_out := 0\<rparr>)") auto
  have "list_all plain_event evs"
    using assms st by (auto simp: run_query_def Let_def dest: query_loop_plain split: prod.splits if_splits)
  then show ?thesis
    using assms(2) plain_stop_reason by (simp add: map_orch_stop_reason_def run_turn_core_def Let_def split_def)
qed


section \<open>Witnesses\<close>

text \<open>A provider that runs out of output tokens and then fails.\<close>

definition cut_reply :: provider_reply where
  "cut_reply = \<lparr>r_chunks = [TextChunk ''half an ans'', UsageChunk 10 20 (Some ''max_tokens'')], r_end = StreamDone,
     r_tool_cut = None, r_notifications = []\<rparr>"

definition failed_reply :: provider_reply where
  "failed_reply = \<lparr>r_chunks = [StreamError ''overloaded'' None], r_end = StreamDone, r_tool_cut = None, r_notifications = []\<rparr>"

lemma demo_session_start: "s_depth demo_session = 0" "logged_history fl demo_session = []"
  by (simp_all add: demo_session_def create_session_def write_event_def logged_history_def reconstruct_state_def
      apply_event_def empty_loaded_def Let_def)

definition after_query :: "provider_reply list \<Rightarrow> query_event list \<times> message list" where
  "after_query replies =
     (let (evs, reqs, o1, out) = run_query demo_query [] [''hi''] 0 None replies demo_orch in (evs, messages (q_history o1)))"

text \<open>
  A reply that was popped for a retry stays in the log. When the reply runs out of output
  tokens and the retry fails, the log still has the half answer, which the session then shows the
  model after a reload, and the history in memory has not.
\<close>

theorem popped_reply_stays_in_log:
  "logged_history (qe_float demo_query)
     (snd (fold (handle_output demo_log demo_kind) (map FromQuery (fst (after_query [cut_reply, failed_reply]))) (([], []), demo_session)))
   = snd (after_query [cut_reply, failed_reply]) @ [AssistantMessage [AssistantText ''half an ans'']]"
proof -
  have "replay (fst (after_query [cut_reply, failed_reply])) [] =
      snd (after_query [cut_reply, failed_reply]) @ [AssistantMessage [AssistantText ''half an ans'']]" by code_simp
  then show ?thesis
    using outputs_history [OF demo_session_start(1), of "qe_float demo_query" demo_log demo_kind "fst (after_query [cut_reply, failed_reply])" "([], [])"]
    by (simp add: demo_session_start)
qed


theorem turn_limit_reported_as_end_turn_witness:
  "\<exists>evs reqs o1. run_query demo_query [] [''hi''] 1 None [tool_reply, tool_reply] demo_orch = (evs, reqs, o1, Ended) \<and>
     fst (run_turn_core demo_log demo_kind [] None (map FromQuery evs) False 0 0 demo_session) = ''end_turn''"
proof -
  obtain evs reqs o1 out where r: "run_query demo_query [] [''hi''] 1 None [tool_reply, tool_reply] demo_orch = (evs, reqs, o1, out)"
    by (cases "run_query demo_query [] [''hi''] 1 None [tool_reply, tool_reply] demo_orch") auto
  have "case run_query demo_query [] [''hi''] 1 None [tool_reply, tool_reply] demo_orch of
      (evs, reqs, o1, out) \<Rightarrow> q_stop o1 = StopMaxTurns \<and> out = Ended" by code_simp
  then have e: "q_stop o1 = StopMaxTurns" "out = Ended" unfolding r by simp_all
  from turn_limit_reported_as_end_turn [OF r [unfolded e(2)] e(1)] r e show ?thesis by auto
qed

end
