(* ===== verification/Turn_Queue.thy ===== *)
theory Turn_Queue
  imports Kernel_Prelude "HOL-Library.Multiset" "HOL-Library.Sublist"
begin

text \<open>
  How the turns of one session are admitted, queued, run, cancelled and answered
  (\<open>sessions/turns/runner.py\<close>, \<open>prompt\<close>, \<open>cancel\<close> and \<open>close_session\<close> of \<open>sessions/api/handlers.py\<close>,
  \<open>run_turn_for_gateway\<close> of \<open>sessions/api/gateway.py\<close>, \<open>_maybe_evict\<close> of
  \<open>sessions/lifecycle/runtime.py\<close>). The kernel is one asyncio loop: the code between two
  \<open>await\<close>s is one step, and between two steps any other task may run. A task that was created
  and has not run yet is in \<open>ts_dispatched\<close>; the loop starts tasks in the order of creation.
  What a turn does while it runs is the subject of \<open>Query_Loop\<close>; here it is running until it
  finishes or an exception leaves \<open>_run_turn_core\<close>.
\<close>

section \<open>State\<close>

text \<open>A prompt of a client or of a gateway. \<open>tr_collector\<close>: the gateway awaits the text as well.\<close>

record turn =
  tr_id :: nat
  tr_collector :: bool

datatype turn_answer = Finished | Cancelled | Failed

record turns =
  ts_in_flight :: "turn option"
  ts_queue :: "turn list"
  ts_dispatched :: "turn list"
  ts_running :: "turn list"
  ts_active :: bool
  ts_senders :: "string list"
  ts_evictions :: nat
  ts_teardowns :: nat
  ts_accepted :: "nat list"
  ts_started :: "nat list"
  ts_answers :: "(nat \<times> turn_answer) list"
  ts_collected :: "nat list"

definition new_session :: "string list \<Rightarrow> turns" where
  "new_session connections = \<lparr>ts_in_flight = None, ts_queue = [], ts_dispatched = [], ts_running = [],
     ts_active = True, ts_senders = connections, ts_evictions = 0, ts_teardowns = 0,
     ts_accepted = [], ts_started = [], ts_answers = [], ts_collected = []\<rparr>"

section \<open>Operations\<close>

definition accept :: "turn \<Rightarrow> turns \<Rightarrow> turns" where
  "accept t s = s\<lparr>ts_accepted := ts_accepted s @ [tr_id t]\<rparr>"

definition answer :: "turn_answer \<Rightarrow> turn list \<Rightarrow> turns \<Rightarrow> turns" where
  "answer a ts s = s\<lparr>ts_answers := ts_answers s @ map (\<lambda>t. (tr_id t, a)) ts\<rparr>"

definition maybe_dispatch_next :: "turns \<Rightarrow> bool \<times> turns" where
  "maybe_dispatch_next s =
     (case ts_queue s of
        [] \<Rightarrow> (False, s)
      | t # q \<Rightarrow> (True, s\<lparr>ts_queue := q, ts_dispatched := ts_dispatched s @ [t]\<rparr>))"

definition enqueue_turn :: "turn \<Rightarrow> turns \<Rightarrow> turns" where
  "enqueue_turn t s =
     (let s1 = s\<lparr>ts_queue := ts_queue s @ [t]\<rparr>
      in if ts_in_flight s1 = None then snd (maybe_dispatch_next s1) else s1)"

text \<open>\<open>_run_turn_core\<close> up to its first \<open>await\<close>.\<close>

definition begin_turn :: "turn \<Rightarrow> turns \<Rightarrow> turns" where
  "begin_turn t s = s\<lparr>ts_in_flight := Some t, ts_running := ts_running s @ [t],
     ts_started := ts_started s @ [tr_id t]\<rparr>"

text \<open>\<open>prompt\<close>, once it is clear that the prompt is not the repetition of an earlier one.\<close>

definition admit_prompt :: "nat \<Rightarrow> turn \<Rightarrow> turns \<Rightarrow> turns py" where
  "admit_prompt max_queue_length t s =
     (if \<not> ts_active s then Inl (PyExn ''ResourceNotFoundError'')
      else if ts_in_flight s = None \<and> ts_queue s = [] then Inr (begin_turn t (accept t s))
      else if length (ts_queue s) \<ge> max_queue_length then Inl (PyExn ''InternalError'')
      else Inr (enqueue_turn t (accept t s)))"

definition gateway_turn :: "turn \<Rightarrow> turns \<Rightarrow> turns" where
  "gateway_turn t s = enqueue_turn t (accept t s)"

text \<open>The rest of the \<open>finally\<close> block of \<open>_run_turn_core\<close> after its last \<open>await\<close>.\<close>

definition finish_turn :: "turn \<Rightarrow> turn_answer \<Rightarrow> turns \<Rightarrow> turns" where
  "finish_turn t a s =
     (let s1 = answer a [t] (s\<lparr>ts_running := remove1 t (ts_running s),
                 ts_collected := (if tr_collector t then ts_collected s @ [tr_id t] else ts_collected s),
                 ts_in_flight := None\<rparr>);
          (dispatched, s2) = maybe_dispatch_next s1
      in if dispatched then s2 else s2\<lparr>ts_evictions := ts_evictions s2 + 1\<rparr>)"

text \<open>
  An exception or a cancellation in the part of \<open>_run_turn_core\<close> before its \<open>try\<close>, or an exception
  of an event write in its \<open>finally\<close>: the turn is answered and nothing else is done.
\<close>

definition abort_turn :: "turn \<Rightarrow> turn_answer \<Rightarrow> turns \<Rightarrow> turns" where
  "abort_turn t a s = answer a [t] (s\<lparr>ts_running := remove1 t (ts_running s)\<rparr>)"

definition flush_queue :: "turns \<Rightarrow> turns" where
  "flush_queue s = answer Cancelled (ts_queue s) (s\<lparr>ts_queue := []\<rparr>)"

text \<open>
  \<open>cancel\<close>. The cancellation request to the running task shows in how that turn ends.
\<close>

definition cancel_turns :: "turns \<Rightarrow> turns" where
  "cancel_turns s =
     (if \<not> ts_active s then s
      else let s1 = flush_queue s in s1\<lparr>ts_evictions := ts_evictions s1 + 1\<rparr>)"

text \<open>
  \<open>close_session\<close> and \<open>_maybe_evict\<close> await \<open>_close_runtime\<close> before they take the session out of the
  session map: \<open>ts_teardowns\<close> counts those that are still to do so.
\<close>

definition close_session :: "string \<Rightarrow> turns \<Rightarrow> turns" where
  "close_session connection s =
     (if \<not> ts_active s then s
      else (flush_queue (s\<lparr>ts_in_flight := None\<rparr>))
             \<lparr>ts_senders := filter (\<lambda>c. c \<noteq> connection) (ts_senders s), ts_teardowns := ts_teardowns s + 1\<rparr>)"

definition maybe_evict :: "turns \<Rightarrow> turns" where
  "maybe_evict s =
     (if ts_active s \<and> ts_senders s = [] \<and> ts_in_flight s = None \<and> ts_queue s = []
      then s\<lparr>ts_teardowns := ts_teardowns s + 1\<rparr> else s)"

definition drop_session :: "turns \<Rightarrow> turns" where
  "drop_session s = s\<lparr>ts_active := False, ts_teardowns := ts_teardowns s - 1\<rparr>"

definition on_disconnect :: "string \<Rightarrow> turns \<Rightarrow> turns" where
  "on_disconnect connection s =
     (if ts_active s \<and> connection \<in> set (ts_senders s)
      then maybe_evict (s\<lparr>ts_senders := filter (\<lambda>c. c \<noteq> connection) (ts_senders s)\<rparr>) else s)"

section \<open>Steps\<close>

datatype action =
    Prompt turn
  | Gateway turn
  | StartTask
  | Finish turn turn_answer
  | Abort turn turn_answer
  | Cancel
  | Close string
  | Disconnect string
  | Evict
  | Drop

text \<open>
  The steps of a session, given \<open>max_queue_length\<close>. A new prompt has an id of its own; a rejected
  prompt changes nothing and is no step. Gateways load a session that is not in memory into a
  new session object, so they act on active sessions only.
\<close>

inductive turn_step :: "nat \<Rightarrow> turns \<Rightarrow> action \<Rightarrow> turns \<Rightarrow> bool" for n where
  prompt: "tr_id t \<notin> set (ts_accepted s) \<Longrightarrow> admit_prompt n t s = Inr s' \<Longrightarrow> turn_step n s (Prompt t) s'"
| gateway: "tr_id t \<notin> set (ts_accepted s) \<Longrightarrow> ts_active s \<Longrightarrow> turn_step n s (Gateway t) (gateway_turn t s)"
| start: "ts_dispatched s = t # ts \<Longrightarrow> turn_step n s StartTask (begin_turn t (s\<lparr>ts_dispatched := ts\<rparr>))"
| finish: "t \<in> set (ts_running s) \<Longrightarrow> turn_step n s (Finish t a) (finish_turn t a s)"
| abort: "t \<in> set (ts_running s) \<Longrightarrow> turn_step n s (Abort t a) (abort_turn t a s)"
| cancel: "turn_step n s Cancel (cancel_turns s)"
| close: "turn_step n s (Close c) (close_session c s)"
| disconnect: "turn_step n s (Disconnect c) (on_disconnect c s)"
| evict: "0 < ts_evictions s \<Longrightarrow> turn_step n s Evict (maybe_evict (s\<lparr>ts_evictions := ts_evictions s - 1\<rparr>))"
| drop: "0 < ts_teardowns s \<Longrightarrow> turn_step n s Drop (drop_session s)"

inductive_simps turn_step_simps:
  "turn_step n s (Prompt t) s'" "turn_step n s (Gateway t) s'" "turn_step n s StartTask s'"
  "turn_step n s (Finish t a) s'" "turn_step n s (Abort t a) s'" "turn_step n s Cancel s'"
  "turn_step n s (Close c) s'" "turn_step n s (Disconnect c) s'" "turn_step n s Evict s'"
  "turn_step n s Drop s'"

inductive turn_run :: "nat \<Rightarrow> turns \<Rightarrow> action list \<Rightarrow> turns \<Rightarrow> bool" for n where
  run_nil: "turn_run n s [] s"
| run_cons: "turn_step n s a s1 \<Longrightarrow> turn_run n s1 as s2 \<Longrightarrow> turn_run n s (a # as) s2"

inductive_simps turn_run_simps: "turn_run n s [] s'" "turn_run n s (a # as) s'"


lemmas turn_op_defs = admit_prompt_def accept_def begin_turn_def enqueue_turn_def maybe_dispatch_next_def
  gateway_turn_def finish_turn_def abort_turn_def answer_def flush_queue_def cancel_turns_def
  close_session_def maybe_evict_def on_disconnect_def drop_session_def Let_def

abbreviation ids :: "turn list \<Rightarrow> nat list" where
  "ids ts \<equiv> map tr_id ts"

section \<open>No turn is lost\<close>

text \<open>The turns a session has on its hands or has answered.\<close>

definition holdings :: "turns \<Rightarrow> nat multiset" where
  "holdings s = mset (ids (ts_queue s)) + mset (ids (ts_dispatched s)) + mset (ids (ts_running s))
     + mset (map fst (ts_answers s))"

definition conserved :: "turns \<Rightarrow> bool" where
  "conserved s \<longleftrightarrow> distinct (ts_accepted s) \<and> mset (ts_accepted s) = holdings s"

lemma dispatch_holdings [simp]: "holdings (snd (maybe_dispatch_next s)) = holdings s"
  by (auto simp: holdings_def maybe_dispatch_next_def split: list.splits)

lemma dispatch_accepted [simp]: "ts_accepted (snd (maybe_dispatch_next s)) = ts_accepted s"
  by (auto simp: maybe_dispatch_next_def split: list.splits)

lemma holdings_more [simp]:
  "holdings (s\<lparr>ts_in_flight := f\<rparr>) = holdings s" "holdings (s\<lparr>ts_evictions := k\<rparr>) = holdings s"
  "holdings (s\<lparr>ts_teardowns := k\<rparr>) = holdings s" "holdings (s\<lparr>ts_senders := cs\<rparr>) = holdings s"
  "holdings (s\<lparr>ts_active := b\<rparr>) = holdings s" "holdings (s\<lparr>ts_accepted := xs\<rparr>) = holdings s"
  "holdings (s\<lparr>ts_collected := xs\<rparr>) = holdings s" "holdings (s\<lparr>ts_started := xs\<rparr>) = holdings s"
  by (simp_all add: holdings_def)

lemma enqueue_conserved: "tr_id t \<notin> set (ts_accepted s) \<Longrightarrow> conserved s \<Longrightarrow> conserved (enqueue_turn t (accept t s))"
  by (auto simp: conserved_def enqueue_turn_def accept_def Let_def) (auto simp: holdings_def)

lemma answer_running:
  "t \<in> set (ts_running s) \<Longrightarrow> holdings (answer a [t] (s\<lparr>ts_running := remove1 t (ts_running s)\<rparr>)) = holdings s"
  by (auto simp: holdings_def answer_def insert_DiffM simp flip: image_mset_add_mset)

lemma flush_holdings [simp]: "holdings (flush_queue s) = holdings s"
  by (auto simp: holdings_def flush_queue_def answer_def comp_def)

lemma flush_accepted [simp]: "ts_accepted (flush_queue s) = ts_accepted s"
  by (simp add: flush_queue_def answer_def)

lemma finish_turn_eq:
  "finish_turn t a s =
     (let r = maybe_dispatch_next (answer a [t] (s\<lparr>ts_running := remove1 t (ts_running s)\<rparr>)
                \<lparr>ts_collected := (if tr_collector t then ts_collected s @ [tr_id t] else ts_collected s), ts_in_flight := None\<rparr>)
      in if fst r then snd r else (snd r)\<lparr>ts_evictions := ts_evictions (snd r) + 1\<rparr>)"
  by (cases s) (simp add: finish_turn_def answer_def Let_def split_def)

lemma step_conserved: "turn_step n s a s' \<Longrightarrow> conserved s \<Longrightarrow> conserved s'"
proof (induction rule: turn_step.induct)
  case (prompt t s s')
  then show ?case
    by (auto simp: admit_prompt_def enqueue_conserved split: if_splits)
       (auto simp: conserved_def begin_turn_def accept_def holdings_def)
next
  case (finish t s a)
  then have "holdings (finish_turn t a s) = holdings s" "ts_accepted (finish_turn t a s) = ts_accepted s"
    by (simp_all add: finish_turn_eq Let_def answer_running) (simp add: answer_def)
  with finish show ?case by (simp add: conserved_def)
next
  case (abort t s a)
  then show ?case by (simp add: conserved_def abort_turn_def answer_running) (simp add: answer_def)
next
  case (start s t ts)
  then show ?case by (simp add: conserved_def begin_turn_def holdings_def)
qed (simp_all add: gateway_turn_def enqueue_conserved,
     simp_all add: conserved_def cancel_turns_def close_session_def on_disconnect_def maybe_evict_def drop_session_def Let_def)

lemma run_induct_inv:
  assumes "turn_run n s as s'" "P s" "\<And>s a s'. turn_step n s a s' \<Longrightarrow> P s \<Longrightarrow> P s'"
  shows "P s'"
  using assms by (induction rule: turn_run.induct) auto



section \<open>Turns one after the other\<close>

text \<open>A prompt arrives calmly when no task waits for its start and the session is not being closed.\<close>

fun calm :: "turns \<Rightarrow> action \<Rightarrow> bool" where
  "calm s (Prompt t) \<longleftrightarrow> ts_dispatched s = [] \<and> ts_teardowns s = 0"
| "calm s (Gateway t) \<longleftrightarrow> ts_dispatched s = [] \<and> ts_teardowns s = 0"
| "calm s _ \<longleftrightarrow> True"

inductive calm_run :: "nat \<Rightarrow> turns \<Rightarrow> action list \<Rightarrow> turns \<Rightarrow> bool" for n where
  calm_nil: "calm_run n s [] s"
| calm_cons: "calm s a \<Longrightarrow> turn_step n s a s1 \<Longrightarrow> calm_run n s1 as s2 \<Longrightarrow> calm_run n s (a # as) s2"

inductive_simps calm_run_simps: "calm_run n s [] s'" "calm_run n s (a # as) s'"

definition line_up :: "turns \<Rightarrow> nat list" where
  "line_up s = ts_started s @ ids (ts_dispatched s) @ ids (ts_queue s)"

definition serial :: "turns \<Rightarrow> bool" where
  "serial s \<longleftrightarrow> length (ts_running s) + length (ts_dispatched s) \<le> 1 \<and>
     (ts_active s \<and> ts_teardowns s = 0 \<and> ts_in_flight s = None \<longrightarrow> ts_running s = [] \<and>
        (ts_dispatched s = [] \<longrightarrow> ts_queue s = []))"

lemma sole_turn:
  assumes "t \<in> set (ts_running s)" "length (ts_running s) + length (ts_dispatched s) \<le> 1"
  shows "ts_running s = [t]" "ts_dispatched s = []"
  using assms by (cases "ts_running s"; auto)+

lemma enqueue_serial:
  "serial s \<Longrightarrow> ts_dispatched s = [] \<Longrightarrow> ts_teardowns s = 0 \<Longrightarrow> ts_active s \<Longrightarrow> serial (enqueue_turn t (accept t s))"
  by (cases "ts_in_flight s") (simp_all add: serial_def accept_def enqueue_turn_def maybe_dispatch_next_def)

lemma finish_serial: "t \<in> set (ts_running s) \<Longrightarrow> serial s \<Longrightarrow> serial (finish_turn t a s)"
  using sole_turn [of t s]
  by (cases "ts_queue s") (simp_all add: serial_def finish_turn_def maybe_dispatch_next_def answer_def)

lemma abort_serial: "t \<in> set (ts_running s) \<Longrightarrow> serial s \<Longrightarrow> serial (abort_turn t a s)"
  using sole_turn [of t s] by (auto simp: serial_def abort_turn_def answer_def)

lemma flush_serial: "serial s \<Longrightarrow> serial (flush_queue s)"
  by (simp add: serial_def flush_queue_def answer_def)

lemma serial_more:
  "serial s \<Longrightarrow> serial (s\<lparr>ts_evictions := k\<rparr>)" "serial s \<Longrightarrow> serial (s\<lparr>ts_senders := cs\<rparr>)"
  "serial s \<Longrightarrow> serial (s\<lparr>ts_teardowns := Suc k\<rparr>)" "serial s \<Longrightarrow> serial (s\<lparr>ts_active := False\<rparr>)"
  "serial s \<Longrightarrow> serial (s\<lparr>ts_in_flight := f, ts_teardowns := Suc k\<rparr>)"
  "serial s \<Longrightarrow> serial (s\<lparr>ts_active := False, ts_teardowns := k\<rparr>)"
  by (auto simp: serial_def)

lemma evict_serial: "serial s \<Longrightarrow> serial (maybe_evict s)"
  by (simp add: maybe_evict_def serial_more)

lemma close_serial: "serial s \<Longrightarrow> serial (close_session c s)"
  by (simp add: close_session_def flush_queue_def answer_def serial_def)

lemma step_serial: "turn_step n s a s' \<Longrightarrow> calm s a \<Longrightarrow> serial s \<Longrightarrow> serial s'"
proof (induction rule: turn_step.induct)
  case (prompt t s s')
  then consider "ts_in_flight s = None" "ts_queue s = []" "s' = begin_turn t (accept t s)"
    | "s' = enqueue_turn t (accept t s)" "ts_active s" by (auto simp: admit_prompt_def split: if_splits)
  then show ?case
  proof cases
    case 1
    with prompt show ?thesis by (auto simp: serial_def begin_turn_def accept_def admit_prompt_def split: if_splits)
  qed (use prompt in \<open>simp add: enqueue_serial\<close>)
next
  case (start s t ts)
  then show ?case by (simp add: serial_def begin_turn_def)
qed (simp_all add: gateway_turn_def enqueue_serial finish_serial abort_serial cancel_turns_def flush_serial
      serial_more evict_serial on_disconnect_def drop_session_def close_serial Let_def)

lemma subseq_drop_end: "subseq (xs @ ys) zs \<Longrightarrow> subseq xs zs"
  by (meson subseq_order.trans prefixI prefix_imp_subseq)

text \<open>How a calm step changes the line of turns: a new prompt joins at the end, a flush drops the queue.\<close>

definition flushed :: "turns \<Rightarrow> action \<Rightarrow> nat list" where
  "flushed s a = (if ts_active s \<and> (a = Cancel \<or> (\<exists>c. a = Close c)) then ids (ts_queue s) else [])"

lemma step_line_up:
  assumes "turn_step n s a s'" "calm s a" "serial s"
  shows "\<exists>new. ts_accepted s' = ts_accepted s @ new \<and> line_up s' @ flushed s a = line_up s @ new"
  using assms
  by (induction rule: turn_step.induct)
     (auto simp: line_up_def flushed_def serial_def turn_op_defs split: if_splits list.splits)

lemma step_subseq:
  assumes "turn_step n s a s'" "calm s a" "serial s" "subseq (line_up s) (ts_accepted s)"
  shows "subseq (line_up s') (ts_accepted s')"
proof -
  obtain new where "ts_accepted s' = ts_accepted s @ new" "line_up s' @ flushed s a = line_up s @ new"
    using step_line_up [OF assms(1-3)] by blast
  moreover have "subseq (line_up s @ new) (ts_accepted s @ new)" using assms(4) by simp
  ultimately show ?thesis by (metis subseq_drop_end)
qed

lemma calm_run_induct_inv:
  assumes "calm_run n s as s'" "P s" "\<And>s a s'. a \<in> set as \<Longrightarrow> turn_step n s a s' \<Longrightarrow> calm s a \<Longrightarrow> P s \<Longrightarrow> P s'"
  shows "P s'"
  using assms by (induction rule: calm_run.induct) auto


section \<open>What goes wrong without calm\<close>

text \<open>
  Turns of a session can overlap and can run on a session that was evicted. Two gateway
  prompts that arrive before the loop starts the task of the first are both dispatched, and run
  at the same time; a gateway prompt that arrives while the eviction of the idle session is
  scheduled is dispatched, the eviction, which looks at the queue and the turn in flight only,
  tears the session down, and the turn then runs on it.
\<close>

theorem turns_can_overlap:
  "(\<exists>as s. turn_run n (new_session []) as s \<and> length (ts_running s) = 2) \<and>
   (\<exists>as s. turn_run n (new_session []) as s \<and> \<not> ts_active s \<and> ts_running s \<noteq> [])"
proof -
  let ?t = "\<lparr>tr_id = 0, tr_collector = True\<rparr>" and ?u = "\<lparr>tr_id = 1, tr_collector = True\<rparr>"
  have "\<exists>s. turn_run n (new_session []) [Gateway ?t, Gateway ?u, StartTask, StartTask] s \<and> length (ts_running s) = 2"
    by (simp add: turn_run_simps turn_step_simps turn_op_defs new_session_def)
  moreover have "\<exists>s. turn_run n (new_session []) [Gateway ?t, StartTask, Finish ?t Finished, Gateway ?u, Evict, Drop, StartTask] s
      \<and> \<not> ts_active s \<and> ts_running s \<noteq> []"
    by (simp add: turn_run_simps turn_step_simps turn_op_defs new_session_def)
  ultimately show ?thesis by blast
qed


lemma conserved_disjoint:
  assumes "conserved s"
  shows "set (ids (ts_queue s)) \<inter> fst ` set (ts_answers s) = {}"
    "set (ids (ts_running s)) \<inter> fst ` set (ts_answers s) = {}"
proof -
  have "mset (ts_accepted s) = mset (ids (ts_queue s) @ ids (ts_dispatched s) @ ids (ts_running s) @ map fst (ts_answers s))"
    using assms by (simp add: conserved_def holdings_def)
  then have "distinct (ids (ts_queue s) @ ids (ts_dispatched s) @ ids (ts_running s) @ map fst (ts_answers s))"
    by (rule mset_eq_imp_distinct_iff [THEN iffD1]) (use assms in \<open>simp add: conserved_def\<close>)
  then show "set (ids (ts_queue s)) \<inter> fst ` set (ts_answers s) = {}"
    "set (ids (ts_running s)) \<inter> fst ` set (ts_answers s) = {}" by auto
qed

lemma step_answers: "turn_step n s a s' \<Longrightarrow> set (ts_answers s) \<subseteq> set (ts_answers s')"
  by (induction rule: turn_step.induct) (auto simp: turn_op_defs split: if_splits list.splits)

text \<open>The text futures that a step resolves.\<close>

lemma step_collects:
  "turn_step n s a s' \<Longrightarrow> i \<in> set (ts_collected s') \<Longrightarrow> i \<in> set (ts_collected s) \<or>
     i \<in> set (ids (ts_running s)) \<and> i \<in> fst ` set (ts_answers s')"
  by (induction rule: turn_step.induct) (auto simp: turn_op_defs split: if_splits list.splits)

definition well_collected :: "turns \<Rightarrow> bool" where
  "well_collected s \<longleftrightarrow> conserved s \<and> set (ts_collected s) \<subseteq> fst ` set (ts_answers s)"

lemma step_collected: "turn_step n s a s' \<Longrightarrow> well_collected s \<Longrightarrow> well_collected s'"
  using step_conserved step_answers step_collects unfolding well_collected_def by (meson image_mono subset_iff)

text \<open>A turn answered as cancelled whose text future is open.\<close>

definition stranded :: "nat \<Rightarrow> turns \<Rightarrow> bool" where
  "stranded i s \<longleftrightarrow> conserved s \<and> (i, Cancelled) \<in> set (ts_answers s) \<and> i \<notin> set (ts_collected s)"

lemma step_stranded:
  assumes "turn_step n s a s'" "stranded i s"
  shows "stranded i s'"
proof -
  have "i \<in> fst ` set (ts_answers s)" using assms(2) by (force simp: stranded_def)
  with assms(2) have "i \<notin> set (ids (ts_running s))" using conserved_disjoint(2) by (auto simp: stranded_def)
  with assms step_conserved step_answers step_collects show ?thesis unfolding stranded_def by blast
qed

text \<open>
  A gateway prompt that is dropped from the queue by a cancel is answered as cancelled, but the
  future of its text is never resolved, so \<open>run_turn_for_gateway\<close>, which awaits the answer and then
  the text, never returns.
\<close>

theorem cancelled_gateway_turn_hangs:
  assumes "turn_run n (new_session cs) as s" "t \<in> set (ts_queue s)" "ts_active s" "turn_step n s Cancel s1"
    and "turn_run n s1 bs s2"
  shows "(tr_id t, Cancelled) \<in> set (ts_answers s2) \<and> tr_id t \<notin> set (ts_collected s2)"
proof -
  have start: "well_collected (new_session cs)"
    by (simp add: well_collected_def conserved_def holdings_def new_session_def)
  with assms(1) have "well_collected s" by (rule run_induct_inv) (rule step_collected)
  then have w: "conserved s" "set (ts_collected s) \<subseteq> fst ` set (ts_answers s)" by (simp_all add: well_collected_def)
  have "tr_id t \<notin> fst ` set (ts_answers s)" using conserved_disjoint(1) [OF w(1)] assms(2) by auto
  moreover have s1: "s1 = cancel_turns s" using assms(4) by (simp add: turn_step_simps)
  ultimately have "stranded (tr_id t) s1"
    using assms(2,3) w step_conserved [OF assms(4) w(1)]
    by (auto simp: stranded_def cancel_turns_def flush_queue_def answer_def Let_def)
  with assms(5) have "stranded (tr_id t) s2" by (rule run_induct_inv) (rule step_stranded)
  then show ?thesis by (simp add: stranded_def)
qed


section \<open>Witnesses\<close>

abbreviation demo_turn :: "nat \<Rightarrow> turn" where
  "demo_turn i \<equiv> \<lparr>tr_id = i, tr_collector = True\<rparr>"

text \<open>A client prompt, a gateway prompt behind it, and a cancel.\<close>

definition busy_session :: turns where
  "busy_session = enqueue_turn (demo_turn 1) (accept (demo_turn 1)
     (begin_turn (demo_turn 0) (accept (demo_turn 0) (new_session [''c'']))))"

lemma busy_run: "turn_run 8 (new_session [''c'']) [Prompt (demo_turn 0), Gateway (demo_turn 1)] busy_session"
  by (simp add: turn_run_simps turn_step_simps busy_session_def turn_op_defs new_session_def)




theorem cancelled_gateway_turn_hangs_witness:
  "\<exists>s1. turn_step 8 busy_session Cancel s1 \<and> (1, Cancelled) \<in> set (ts_answers s1) \<and> 1 \<notin> set (ts_collected s1)"
proof -
  let ?s1 = "cancel_turns busy_session"
  have c: "turn_step 8 busy_session Cancel ?s1" by (simp add: turn_step_simps)
  have "demo_turn 1 \<in> set (ts_queue busy_session)" "ts_active busy_session"
    by (simp_all add: busy_session_def turn_op_defs new_session_def)
  from cancelled_gateway_turn_hangs [OF busy_run this c run_nil] c show ?thesis by auto
qed

end
