(* ===== verification/Prompt_Retry.thy ===== *)
theory Prompt_Retry
  imports Turn_Queue
begin

text \<open>
  Prompts that a client repeats: \<open>prompt\<close> and \<open>_resolve_duplicate_prompt\<close> of \<open>sessions/api/handlers.py\<close> and
  \<open>find_turn_by_client_turn_id\<close> of \<open>sessions/store.py\<close>, on the queue of \<open>Turn_Queue\<close>. A client may give a prompt an
  id of its own and send it again with this id, after a lost connection for instance. The prompt then joins
  the turn that is in flight or queued, or is answered from the log. Reading the log is an \<open>await\<close>: other prompts may
  pass meanwhile. Turns are numbered; a row of the log has the number of its turn, the client's id and its kind.
\<close>

section \<open>The log\<close>

datatype turn_row = UserRow | StartedRow | CancelledRow | CompletedRow

type_synonym turn_log = "(nat \<times> string option \<times> turn_row) list"

datatype turn_lookup = NoTurn | IncompleteTurn | CompletedTurn

fun find_turn_from :: "bool \<Rightarrow> string \<Rightarrow> turn_log \<Rightarrow> turn_lookup" where
  "find_turn_from saw i [] = (if saw then IncompleteTurn else NoTurn)"
| "find_turn_from saw i ((n, c, kind) # rows) =
     (if c \<noteq> Some i then find_turn_from saw i rows
      else if kind = CompletedRow then CompletedTurn
      else find_turn_from True i rows)"

definition find_turn_by_client_turn_id :: "string \<Rightarrow> turn_log \<Rightarrow> turn_lookup" where
  "find_turn_by_client_turn_id i rows = find_turn_from False i rows"

section \<open>The session\<close>

text \<open>
  \<open>rt_client\<close>: the client's ids of the prompts; \<open>rt_looking\<close>: prompts whose lookup in the log is under way, with what was
  read, once it was; \<open>rt_joined\<close>: prompts that wait for the turn of an earlier one.
\<close>

record retries =
  rt_turns :: turns
  rt_client :: "(nat \<times> string) list"
  rt_looking :: "(nat \<times> turn_lookup option) list"
  rt_log :: turn_log
  rt_joined :: "(nat \<times> nat) list"

definition new_retries :: "string list \<Rightarrow> retries" where
  "new_retries connections =
     \<lparr>rt_turns = new_session connections, rt_client = [], rt_looking = [], rt_log = [], rt_joined = []\<rparr>"

definition client_of :: "retries \<Rightarrow> nat \<Rightarrow> string option" where
  "client_of s n = map_of (rt_client s) n"

text \<open>The turn in memory that a repeated prompt joins: the one in flight, or the first queued one with the id.\<close>

definition duplicate_in_memory :: "string \<Rightarrow> retries \<Rightarrow> nat option" where
  "duplicate_in_memory i s =
     (case ts_in_flight (rt_turns s) of
        Some t \<Rightarrow>
          if client_of s (tr_id t) = Some i then Some (tr_id t)
          else map_option tr_id (List.find (\<lambda>t. client_of s (tr_id t) = Some i) (ts_queue (rt_turns s)))
      | None \<Rightarrow> map_option tr_id (List.find (\<lambda>t. client_of s (tr_id t) = Some i) (ts_queue (rt_turns s))))"

definition plain_turn :: "nat \<Rightarrow> turn" where
  "plain_turn n = \<lparr>tr_id = n, tr_collector = False\<rparr>"

text \<open>The start of \<open>prompt\<close> for a prompt with an id: it joins a turn, or its lookup begins.\<close>

definition ask_again :: "nat \<Rightarrow> string \<Rightarrow> retries \<Rightarrow> retries" where
  "ask_again n i s =
     (case duplicate_in_memory i s of
        Some m \<Rightarrow> s\<lparr>rt_client := dict_set n i (rt_client s), rt_joined := rt_joined s @ [(n, m)]\<rparr>
      | None \<Rightarrow> s\<lparr>rt_client := dict_set n i (rt_client s), rt_looking := dict_set n None (rt_looking s)\<rparr>)"

definition lookup_read :: "nat \<Rightarrow> string \<Rightarrow> retries \<Rightarrow> retries" where
  "lookup_read n i s = s\<lparr>rt_looking := dict_set n (Some (find_turn_by_client_turn_id i (rt_log s))) (rt_looking s)\<rparr>"

text \<open>
  The rest of \<open>prompt\<close> after the lookup: the turn is replayed from the log, refused as incomplete, or admitted like
  any other prompt; a refused prompt leaves nothing behind.
\<close>

definition lookup_done :: "nat \<Rightarrow> nat \<Rightarrow> turn_lookup \<Rightarrow> retries \<Rightarrow> retries" where
  "lookup_done k n r s =
     (let s1 = s\<lparr>rt_looking := dict_pop n (rt_looking s)\<rparr>
      in case r of
           NoTurn \<Rightarrow>
             (case admit_prompt k (plain_turn n) (rt_turns s) of
                Inr ts \<Rightarrow> s1\<lparr>rt_turns := ts\<rparr>
              | Inl e \<Rightarrow> s1)
         | _ \<Rightarrow> s1)"

definition has_row :: "nat \<Rightarrow> turn_row \<Rightarrow> retries \<Rightarrow> bool" where
  "has_row n kind s \<longleftrightarrow> (\<exists>c. (n, c, kind) \<in> set (rt_log s))"

definition write_row :: "nat \<Rightarrow> turn_row \<Rightarrow> retries \<Rightarrow> retries" where
  "write_row n kind s = s\<lparr>rt_log := rt_log s @ [(n, client_of s n, kind)]\<rparr>"

text \<open>The kernel stops and comes back: the log stays, the rest is gone.\<close>

definition restart_session :: "string list \<Rightarrow> retries \<Rightarrow> retries" where
  "restart_session connections s =
     s\<lparr>rt_turns := (new_session connections)\<lparr>ts_accepted := ts_accepted (rt_turns s)\<rparr>, rt_looking := [], rt_joined := []\<rparr>"

definition number_free :: "nat \<Rightarrow> retries \<Rightarrow> bool" where
  "number_free n s \<longleftrightarrow> n \<notin> set (ts_accepted (rt_turns s)) \<and> n \<notin> set (map fst (rt_client s))"

datatype retry_event = Ask nat string | Other

inductive retry_step :: "nat \<Rightarrow> retries \<Rightarrow> retry_event \<Rightarrow> retries \<Rightarrow> bool" for k where
  ask: "number_free n s \<Longrightarrow> ts_active (rt_turns s) \<Longrightarrow> retry_step k s (Ask n i) (ask_again n i s)"
| plain: "number_free n s \<Longrightarrow> turn_step k (rt_turns s) (Prompt (plain_turn n)) ts \<Longrightarrow> retry_step k s Other (s\<lparr>rt_turns := ts\<rparr>)"
| gateway: "number_free n s \<Longrightarrow> tr_id t = n \<Longrightarrow> turn_step k (rt_turns s) (Gateway t) ts \<Longrightarrow> retry_step k s Other (s\<lparr>rt_turns := ts\<rparr>)"
| read: "map_of (rt_looking s) n = Some None \<Longrightarrow> client_of s n = Some i \<Longrightarrow> retry_step k s Other (lookup_read n i s)"
| resume: "map_of (rt_looking s) n = Some (Some r) \<Longrightarrow> retry_step k s Other (lookup_done k n r s)"
| user_row: "t \<in> set (ts_running (rt_turns s)) \<Longrightarrow> \<not> has_row (tr_id t) UserRow s \<Longrightarrow> retry_step k s Other (write_row (tr_id t) UserRow s)"
| more_rows: "has_row n UserRow s \<Longrightarrow> kind \<noteq> UserRow \<Longrightarrow> retry_step k s Other (write_row n kind s)"
| turn: "turn_step k (rt_turns s) a ts \<Longrightarrow> a \<in> {StartTask, Cancel, Evict, Drop} \<union> range Close \<union> range Disconnect
     \<Longrightarrow> retry_step k s Other (s\<lparr>rt_turns := ts\<rparr>)"
| aborts: "turn_step k (rt_turns s) (Abort t a) ts \<Longrightarrow> retry_step k s Other (s\<lparr>rt_turns := ts\<rparr>)"
| finishes: "turn_step k (rt_turns s) (Finish t a) ts \<Longrightarrow> has_row (tr_id t) CompletedRow s
     \<Longrightarrow> retry_step k s Other (s\<lparr>rt_turns := ts\<rparr>)"
| restarts: "retry_step k s Other (restart_session cs s)"

text \<open>
  A repeated prompt is timely if no other prompt with the id is being looked up, and its earlier turn, if it is not
  over, is the one in flight or waits in the queue: not a task that was dispatched and has not started.
\<close>

definition timely :: "string \<Rightarrow> retries \<Rightarrow> bool" where
  "timely i s \<longleftrightarrow> duplicate_in_memory i s \<noteq> None
     \<or> (\<forall>n. client_of s n = Some i \<longrightarrow> n \<notin> set (map fst (rt_looking s))
           \<and> n \<notin> set (ids (ts_dispatched (rt_turns s))) \<and> n \<notin> set (ids (ts_running (rt_turns s))))"

inductive retry_run :: "nat \<Rightarrow> retries \<Rightarrow> retries \<Rightarrow> bool" for k where
  retry_refl: "retry_run k s s"
| retry_more: "retry_run k s u \<Longrightarrow> retry_step k u ev v \<Longrightarrow> (\<forall>n i. ev = Ask n i \<longrightarrow> timely i u) \<Longrightarrow> retry_run k s v"

text \<open>How often the user message of a prompt with the id was taken up.\<close>

definition executions :: "string \<Rightarrow> retries \<Rightarrow> nat" where
  "executions i s = length (filter (\<lambda>(n, c, kind). c = Some i \<and> kind = UserRow) (rt_log s))"

section \<open>What a session has on its hands\<close>

definition live :: "turns \<Rightarrow> nat multiset" where
  "live s = mset (ids (ts_queue s)) + mset (ids (ts_dispatched s)) + mset (ids (ts_running s))"

lemma live_more [simp]:
  "live (s\<lparr>ts_in_flight := f\<rparr>) = live s" "live (s\<lparr>ts_evictions := k\<rparr>) = live s" "live (s\<lparr>ts_teardowns := k\<rparr>) = live s"
  "live (s\<lparr>ts_senders := cs\<rparr>) = live s" "live (s\<lparr>ts_active := b\<rparr>) = live s" "live (s\<lparr>ts_accepted := xs\<rparr>) = live s"
  "live (s\<lparr>ts_collected := xs\<rparr>) = live s" "live (s\<lparr>ts_started := xs\<rparr>) = live s" "live (s\<lparr>ts_answers := ys\<rparr>) = live s"
  "live (answer a ts s) = live s" "live (snd (maybe_dispatch_next s)) = live s" "live (accept t s) = live s"
  by (auto simp: live_def answer_def accept_def maybe_dispatch_next_def split: list.splits)

lemma live_enqueue: "live (enqueue_turn t s) = add_mset (tr_id t) (live s)"
proof -
  have "live (s\<lparr>ts_queue := ts_queue s @ [t]\<rparr>) = add_mset (tr_id t) (live s)" by (simp add: live_def)
  then show ?thesis by (simp add: enqueue_turn_def Let_def)
qed

lemma live_admit: "admit_prompt k t s = Inr s' \<Longrightarrow> live s' = add_mset (tr_id t) (live s)"
  by (auto simp: admit_prompt_def live_enqueue split: if_splits) (simp add: begin_turn_def live_def accept_def)

lemma accepted_admit: "admit_prompt k t s = Inr s' \<Longrightarrow> ts_accepted s' = ts_accepted s @ [tr_id t]"
  by (auto simp: admit_prompt_def begin_turn_def accept_def enqueue_turn_def maybe_dispatch_next_def Let_def split: if_splits list.splits)

lemma live_remove: "live (s\<lparr>ts_running := remove1 t (ts_running s)\<rparr>) \<subseteq># live s"
  by (simp add: live_def image_mset_subseteq_mono)

lemma live_flush: "live (flush_queue s) \<subseteq># live s"
  by (simp add: flush_queue_def live_def answer_def)

text \<open>Steps that admit nothing only take turns away.\<close>

fun admits :: "action \<Rightarrow> bool" where
  "admits (Prompt t) = True"
| "admits (Gateway t) = True"
| "admits a = False"

lemma live_finish: "live (finish_turn t a s) \<subseteq># live s"
proof -
  have "live (finish_turn t a s) = live (s\<lparr>ts_running := remove1 t (ts_running s)\<rparr>)"
    by (simp add: finish_turn_eq Let_def)
  then show ?thesis by (simp add: live_remove)
qed

lemma live_step:
  assumes "turn_step k s a s'" "\<not> admits a"
  shows "live s' \<subseteq># live s \<and> ts_accepted s' = ts_accepted s"
  using assms
proof (cases rule: turn_step.cases)
  case (start t ts)
  then show ?thesis by (simp add: begin_turn_def live_def)
next
  case (finish t b)
  then show ?thesis by (simp add: live_finish) (simp add: finish_turn_eq Let_def answer_def)
next
  case (abort t b)
  then show ?thesis by (simp add: abort_turn_def live_remove) (simp add: answer_def)
next
  case cancel
  then show ?thesis by (simp add: cancel_turns_def live_flush Let_def)
next
  case (close c)
  have "live (flush_queue (s\<lparr>ts_in_flight := None\<rparr>)) \<subseteq># live s" using live_flush [of "s\<lparr>ts_in_flight := None\<rparr>"] by simp
  with close show ?thesis by (simp add: close_session_def)
qed (use assms(2) in \<open>simp_all add: on_disconnect_def maybe_evict_def drop_session_def\<close>)

lemma live_gateway:
  "turn_step k s (Gateway t) s' \<Longrightarrow> live s' = add_mset (tr_id t) (live s) \<and> ts_accepted s' = ts_accepted s @ [tr_id t]"
  by (auto simp: turn_step_simps gateway_turn_def live_enqueue)
    (auto simp: enqueue_turn_def accept_def maybe_dispatch_next_def Let_def split: list.splits)

lemma live_prompt:
  "turn_step k s (Prompt t) s' \<Longrightarrow> live s' = add_mset (tr_id t) (live s) \<and> ts_accepted s' = ts_accepted s @ [tr_id t]"
  by (auto simp: turn_step_simps live_admit accepted_admit)

section \<open>Each prompt at most once\<close>

text \<open>The turns of a client's id that may still be executed.\<close>

definition pend :: "string \<Rightarrow> retries \<Rightarrow> nat multiset" where
  "pend i s = filter_mset (\<lambda>n. client_of s n = Some i \<and> \<not> has_row n UserRow s) (live (rt_turns s))"

definition numbers_ok :: "retries \<Rightarrow> bool" where
  "numbers_ok s \<longleftrightarrow>
     set_mset (live (rt_turns s)) \<subseteq> set (ts_accepted (rt_turns s))
     \<and> (\<forall>n c kind. (n, c, kind) \<in> set (rt_log s) \<longrightarrow> n \<in> set (ts_accepted (rt_turns s)))
     \<and> (\<forall>n. map_of (rt_looking s) n \<noteq> None \<longrightarrow> n \<in> set (map fst (rt_client s)) \<and> n \<notin> set (ts_accepted (rt_turns s)))"

definition once_ok :: "string \<Rightarrow> retries \<Rightarrow> bool" where
  "once_ok i s \<longleftrightarrow>
     size (pend i s) + executions i s \<le> 1
     \<and> (\<forall>n r. map_of (rt_looking s) n = Some r \<and> client_of s n = Some i \<longrightarrow>
          pend i s = {#} \<and> (r = Some NoTurn \<longrightarrow> executions i s = 0)
          \<and> (\<forall>m. map_of (rt_looking s) m \<noteq> None \<and> client_of s m = Some i \<longrightarrow> m = n))"

lemma find_turn_saw: "find_turn_from True i rows \<noteq> NoTurn"
proof (induction rows)
  case (Cons row rows)
  then show ?case by (cases row) simp
qed simp

lemma find_no_turn: "find_turn_from saw i rows = NoTurn \<Longrightarrow> (n, Some i, kind) \<notin> set rows"
proof (induction saw i rows arbitrary: rule: find_turn_from.induct)
  case (2 saw i m c k rows)
  show ?case
  proof (cases "c = Some i")
    case True
    with 2 show ?thesis by (simp add: find_turn_saw split: if_splits)
  next
    case False
    with 2 show ?thesis by auto
  qed
qed (simp split: if_splits)

lemma lookup_none: "find_turn_by_client_turn_id i (rt_log s) = NoTurn \<Longrightarrow> executions i s = 0"
  using find_no_turn by (auto simp: find_turn_by_client_turn_id_def executions_def filter_empty_conv)

lemma numbers_fewer:
  assumes "numbers_ok s" "live ts \<subseteq># live (rt_turns s)" "ts_accepted ts = ts_accepted (rt_turns s)"
  shows "numbers_ok (s\<lparr>rt_turns := ts\<rparr>)"
  using assms set_mset_mono [OF assms(2)] by (auto simp: numbers_ok_def)

lemma once_fewer:
  assumes "once_ok i s" "live ts \<subseteq># live (rt_turns s)"
  shows "once_ok i (s\<lparr>rt_turns := ts\<rparr>)"
proof -
  let ?u = "s\<lparr>rt_turns := ts\<rparr>"
  have e: "executions i ?u = executions i s" "client_of ?u = client_of s" "rt_looking ?u = rt_looking s"
    by (simp_all add: executions_def client_of_def fun_eq_iff)
  have p: "pend i ?u \<subseteq># pend i s"
    using assms(2) by (simp add: pend_def client_of_def has_row_def multiset_filter_mono)
  from size_mset_mono [OF p] have "size (pend i ?u) \<le> size (pend i s)" .
  moreover have "pend i s = {#} \<Longrightarrow> pend i ?u = {#}" using p by auto
  ultimately show ?thesis using assms(1) unfolding once_ok_def e by (intro conjI allI impI) (linarith, blast+)
qed

lemma once_admitted:
  assumes "once_ok i s" "live ts = add_mset n (live (rt_turns s))" "client_of s n \<noteq> Some i"
  shows "once_ok i (s\<lparr>rt_turns := ts\<rparr>)"
proof -
  have "pend i (s\<lparr>rt_turns := ts\<rparr>) = pend i s" using assms(2,3) by (simp add: pend_def client_of_def has_row_def)
  with assms(1) show ?thesis by (simp add: once_ok_def executions_def client_of_def)
qed

lemma dup_none_queue: "duplicate_in_memory i s = None \<Longrightarrow> t \<in> set (ts_queue (rt_turns s)) \<Longrightarrow> client_of s (tr_id t) \<noteq> Some i"
  by (auto simp: duplicate_in_memory_def find_None_iff split: option.splits if_splits)

lemma ask_numbers: "numbers_ok s \<Longrightarrow> number_free n s \<Longrightarrow> numbers_ok (ask_again n i s)"
  by (auto simp: numbers_ok_def number_free_def ask_again_def map_of_dict_set keys_dict_set split: option.splits if_splits)

lemma ask_client: "client_of (ask_again n i s) = (client_of s)(n \<mapsto> i)"
  by (auto simp: ask_again_def client_of_def map_of_dict_set fun_eq_iff split: option.splits)

lemma ask_frame: "rt_turns (ask_again n i s) = rt_turns s" "rt_log (ask_again n i s) = rt_log s"
  by (auto simp: ask_again_def split: option.splits)

lemma ask_once:
  assumes "once_ok j s" "numbers_ok s" "number_free n s" "timely i s"
  shows "once_ok j (ask_again n i s)"
proof -
  let ?u = "ask_again n i s"
  have free: "n \<notin># live (rt_turns s)" "map_of (rt_looking s) n = None" "client_of s n = None"
    using assms(2,3) by (auto simp: numbers_ok_def number_free_def client_of_def map_of_eq_None_iff)
  have p: "pend j ?u = pend j s"
    using free(1) by (auto simp: pend_def ask_frame has_row_def ask_client intro!: filter_mset_cong)
  have e: "executions j ?u = executions j s" by (simp add: executions_def ask_frame)
  show ?thesis
  proof (cases "duplicate_in_memory i s")
    case (Some m)
    then have l: "rt_looking ?u = rt_looking s" by (simp add: ask_again_def)
    have "client_of ?u m = client_of s m" if "map_of (rt_looking s) m \<noteq> None" for m
      using that free(2) by (auto simp: ask_client)
    with assms(1) p e l show ?thesis by (auto simp: once_ok_def)
  next
    case None
    then have l: "rt_looking ?u = dict_set n None (rt_looking s)" by (simp add: ask_again_def)
    show ?thesis
    proof (cases "j = i")
      case False
      then have "client_of ?u m = Some j \<longleftrightarrow> client_of s m = Some j" for m using free(3) by (auto simp: ask_client)
      moreover from this have "client_of ?u n \<noteq> Some j" using free(3) by simp
      ultimately show ?thesis using assms(1) False unfolding once_ok_def p e l
        by (auto simp: map_of_dict_set split: if_splits)
    next
      case True
      have no: "m \<notin> set (map fst (rt_looking s))" "m \<notin> set (ids (ts_dispatched (rt_turns s)))"
        "m \<notin> set (ids (ts_running (rt_turns s)))" if "client_of s m = Some i" for m
        using assms(4) None that by (auto simp: timely_def)
      have "pend i s = {#}"
      proof (rule multiset_eqI)
        fix m
        have "m \<notin># pend i s"
        proof
          assume "m \<in># pend i s"
          then have m: "client_of s m = Some i" "m \<in># live (rt_turns s)" by (auto simp: pend_def)
          with no [OF m(1)] obtain t where "t \<in> set (ts_queue (rt_turns s))" "tr_id t = m" by (auto simp: live_def)
          with dup_none_queue [OF None] m(1) show False by blast
        qed
        then show "count (pend i s) m = count {#} m" by (simp add: not_in_iff)
      qed
      moreover have "map_of (rt_looking s) m = None" if "client_of s m = Some i" for m
        using no(1) [OF that] by (simp add: map_of_eq_None_iff)
      ultimately show ?thesis using assms(1) True unfolding once_ok_def p e l
        by (auto simp: map_of_dict_set ask_client split: if_splits)
    qed
  qed
qed

lemma read_once:
  assumes "once_ok j s" "map_of (rt_looking s) n = Some None" "client_of s n = Some i"
  shows "once_ok j (lookup_read n i s)"
proof -
  let ?u = "lookup_read n i s"
  have f: "pend j ?u = pend j s" "executions j ?u = executions j s" "client_of ?u = client_of s"
    "rt_looking ?u = dict_set n (Some (find_turn_by_client_turn_id i (rt_log s))) (rt_looking s)"
    by (simp_all add: lookup_read_def pend_def executions_def client_of_def has_row_def fun_eq_iff)
  have "executions j s = 0" if "find_turn_by_client_turn_id i (rt_log s) = NoTurn" "client_of s n = Some j"
    using that assms(3) lookup_none by simp
  with assms show ?thesis unfolding once_ok_def f by (auto simp: map_of_dict_set split: if_splits)
qed

lemma read_numbers: "numbers_ok s \<Longrightarrow> map_of (rt_looking s) n = Some None \<Longrightarrow> numbers_ok (lookup_read n i s)"
  by (auto simp: numbers_ok_def lookup_read_def map_of_dict_set split: if_splits)

lemma done_forget:
  assumes "once_ok j s" "numbers_ok s"
  shows "once_ok j (s\<lparr>rt_looking := dict_pop n (rt_looking s)\<rparr>)" "numbers_ok (s\<lparr>rt_looking := dict_pop n (rt_looking s)\<rparr>)"
proof -
  let ?u = "s\<lparr>rt_looking := dict_pop n (rt_looking s)\<rparr>"
  have f: "pend j ?u = pend j s" "executions j ?u = executions j s" "client_of ?u = client_of s" "rt_looking ?u = dict_pop n (rt_looking s)"
    by (simp_all add: pend_def executions_def client_of_def has_row_def fun_eq_iff)
  show "once_ok j ?u" using assms(1) unfolding once_ok_def f by (auto simp: map_of_dict_pop split: if_splits)
  show "numbers_ok ?u" using assms(2) by (auto simp: numbers_ok_def map_of_dict_pop split: if_splits)
qed

lemma done_once:
  assumes "once_ok j s" "numbers_ok s" "map_of (rt_looking s) n = Some (Some r)"
  shows "once_ok j (lookup_done k n r s) \<and> numbers_ok (lookup_done k n r s)"
proof (cases "\<exists>ts. r = NoTurn \<and> admit_prompt k (plain_turn n) (rt_turns s) = Inr ts")
  case False
  then have "lookup_done k n r s = s\<lparr>rt_looking := dict_pop n (rt_looking s)\<rparr>"
    by (cases r; cases "admit_prompt k (plain_turn n) (rt_turns s)") (simp_all add: lookup_done_def)
  with done_forget [OF assms(1,2)] show ?thesis by simp
next
  case True
  then obtain ts where ts: "r = NoTurn" "admit_prompt k (plain_turn n) (rt_turns s) = Inr ts" by blast
  define u where "u = s\<lparr>rt_looking := dict_pop n (rt_looking s)\<rparr>"
  have u: "once_ok j u" "numbers_ok u" using done_forget [OF assms(1,2)] by (simp_all add: u_def)
  have d: "lookup_done k n r s = u\<lparr>rt_turns := ts\<rparr>" using ts by (simp add: lookup_done_def u_def)
  have l: "live ts = add_mset n (live (rt_turns u))" "ts_accepted ts = ts_accepted (rt_turns u) @ [n]"
    using live_admit [OF ts(2)] accepted_admit [OF ts(2)] by (simp_all add: u_def plain_turn_def)
  have "numbers_ok (u\<lparr>rt_turns := ts\<rparr>)"
    using u(2) l by (auto simp: numbers_ok_def u_def map_of_dict_pop split: if_splits)
  moreover have "once_ok j (u\<lparr>rt_turns := ts\<rparr>)"
  proof (cases "client_of s n = Some j")
    case False
    then show ?thesis using once_admitted [OF u(1) l(1)] by (simp add: u_def client_of_def)
  next
    case True
    with assms(1,3) ts(1) have z: "pend j s = {#}" "executions j s = 0"
      and only: "map_of (rt_looking s) m \<noteq> None \<and> client_of s m = Some j \<longrightarrow> m = n" for m
      unfolding once_ok_def by blast+
    have "pend j (u\<lparr>rt_turns := ts\<rparr>) \<subseteq># add_mset n (pend j s)"
      using l(1) by (simp add: pend_def client_of_def has_row_def u_def)
    with z(1) have "size (pend j (u\<lparr>rt_turns := ts\<rparr>)) \<le> 1" using size_mset_mono by fastforce
    moreover have "executions j (u\<lparr>rt_turns := ts\<rparr>) = 0" using z(2) by (simp add: executions_def u_def)
    ultimately show ?thesis using only
      by (auto simp: once_ok_def client_of_def u_def map_of_dict_pop split: if_splits)
  qed
  ultimately show ?thesis by (simp add: d)
qed

lemma user_row_once:
  assumes "once_ok j s" "numbers_ok s" "t \<in> set (ts_running (rt_turns s))" "\<not> has_row (tr_id t) UserRow s"
  shows "once_ok j (write_row (tr_id t) UserRow s) \<and> numbers_ok (write_row (tr_id t) UserRow s)"
proof
  let ?n = "tr_id t" let ?u = "write_row (tr_id t) UserRow s"
  have live: "?n \<in># live (rt_turns s)" using assms(3) by (simp add: live_def)
  have r: "has_row m UserRow ?u \<longleftrightarrow> m = ?n \<or> has_row m UserRow s" for m by (auto simp: has_row_def write_row_def)
  have f: "client_of ?u = client_of s" "rt_looking ?u = rt_looking s" "rt_turns ?u = rt_turns s"
    by (simp_all add: write_row_def client_of_def fun_eq_iff)
  have e: "executions j ?u = executions j s + (if client_of s ?n = Some j then 1 else 0)"
    by (simp add: executions_def write_row_def)
  have p: "pend j ?u = filter_mset (\<lambda>m. m \<noteq> ?n) (pend j s)"
    by (auto simp: pend_def f r filter_filter_mset intro!: filter_mset_cong)
  show "once_ok j ?u"
  proof (cases "client_of s ?n = Some j")
    case False
    then have "pend j ?u = pend j s" unfolding p by (auto simp: pend_def filter_mset_eq_conv)
    with False assms(1) show ?thesis unfolding once_ok_def f e by simp
  next
    case True
    with live assms(4) have in_p: "?n \<in># pend j s" by (simp add: pend_def)
    with assms(1) have s1: "pend j s = {#?n#}" "executions j s = 0"
    proof -
      have "size (pend j s) + executions j s \<le> 1" using assms(1) by (simp add: once_ok_def)
      moreover have "1 \<le> size (pend j s)"
        using in_p by (metis One_nat_def Suc_leI empty_iff nonempty_has_size set_mset_empty)
      ultimately have z: "size (pend j s) = 1" "executions j s = 0" by linarith+
      from size_1_singleton_mset [OF z(1)] obtain m where "pend j s = {#m#}" by blast
      with in_p z(2) show "pend j s = {#?n#}" "executions j s = 0" by simp_all
    qed
    then have "pend j ?u = {#}" by (simp add: p)
    moreover have "map_of (rt_looking s) m = None" if "client_of s m = Some j" for m
    proof (rule ccontr)
      assume "map_of (rt_looking s) m \<noteq> None"
      then obtain r where "map_of (rt_looking s) m = Some r" by blast
      with assms(1) s1(1) that show False unfolding once_ok_def by (metis add_mset_not_empty)
    qed
    ultimately show ?thesis using s1(2) True unfolding once_ok_def f e by auto
  qed
  show "numbers_ok ?u" using assms(2) live by (auto simp: numbers_ok_def write_row_def)
qed

lemma more_rows_once:
  assumes "once_ok j s" "numbers_ok s" "has_row n UserRow s" "kind \<noteq> UserRow"
  shows "once_ok j (write_row n kind s) \<and> numbers_ok (write_row n kind s)"
proof -
  let ?u = "write_row n kind s"
  have "has_row m UserRow ?u \<longleftrightarrow> has_row m UserRow s" for m using assms(4) by (auto simp: has_row_def write_row_def)
  then have f: "pend j ?u = pend j s" "executions j ?u = executions j s" "client_of ?u = client_of s" "rt_looking ?u = rt_looking s"
    using assms(4) by (auto simp: write_row_def client_of_def fun_eq_iff pend_def executions_def)
  have "once_ok j ?u" using assms(1) unfolding once_ok_def f .
  moreover have "numbers_ok ?u" using assms(2,3) by (auto simp: numbers_ok_def write_row_def has_row_def)
  ultimately show ?thesis ..
qed

lemma restart_once:
  assumes "once_ok j s" "numbers_ok s"
  shows "once_ok j (restart_session cs s) \<and> numbers_ok (restart_session cs s)"
proof -
  have "live ((new_session cs)\<lparr>ts_accepted := xs\<rparr>) = {#}" for xs by (simp add: live_def new_session_def)
  with assms show ?thesis
    by (auto simp: once_ok_def numbers_ok_def restart_session_def pend_def executions_def live_def new_session_def)
qed

lemma retry_step_once:
  assumes "retry_step k s ev v" "once_ok j s" "numbers_ok s" "\<forall>n i. ev = Ask n i \<longrightarrow> timely i s"
  shows "once_ok j v \<and> numbers_ok v"
  using assms(1)
proof cases
  case (ask n i)
  with assms show ?thesis by (simp add: ask_once ask_numbers)
next
  case (plain n ts)
  then have "client_of s n = None" by (simp add: number_free_def client_of_def map_of_eq_None_iff)
  with plain live_prompt [OF plain(4)] assms(2,3) show ?thesis
    by (auto simp: numbers_ok_def number_free_def plain_turn_def intro!: once_admitted [of _ _ _ n])
next
  case (gateway n t ts)
  then have "client_of s n = None" by (simp add: number_free_def client_of_def map_of_eq_None_iff)
  with gateway live_gateway [OF gateway(5)] assms(2,3) show ?thesis
    by (auto simp: numbers_ok_def number_free_def intro!: once_admitted [of _ _ _ n])
next
  case (read n i)
  with assms show ?thesis by (simp add: read_once read_numbers)
next
  case (resume n r)
  with assms show ?thesis by (simp add: done_once)
next
  case (user_row t)
  with assms show ?thesis by (simp add: user_row_once)
next
  case (more_rows n kind)
  with assms show ?thesis by (simp add: more_rows_once)
next
  case (turn a ts)
  then have "\<not> admits a" by auto
  from live_step [OF turn(3) this] turn assms show ?thesis by (simp add: once_fewer numbers_fewer)
next
  case (aborts t a ts)
  from live_step [OF aborts(3)] aborts assms show ?thesis by (simp add: once_fewer numbers_fewer)
next
  case (finishes t a ts)
  from live_step [OF finishes(3)] finishes assms show ?thesis by (simp add: once_fewer numbers_fewer)
next
  case (restarts cs)
  with assms show ?thesis by (simp add: restart_once)
qed

text \<open>
  C31. A prompt that a client repeats is executed at most once. If each repetition comes when no lookup for its id is
  under way and the earlier turn is in flight, queued or over, then in every interleaving with other prompts,
  gateways, cancellations, closings, failures and restarts of the kernel, the prompts with one client id are taken up at
  most once in all.
\<close>

theorem repeated_prompt_runs_once:
  assumes "retry_run k (new_retries cs) s"
  shows "executions i s \<le> 1"
proof -
  have "once_ok i s \<and> numbers_ok s" using assms
  proof (induction "new_retries cs" s rule: retry_run.induct)
    case retry_refl
    then show ?case
      by (simp add: once_ok_def numbers_ok_def new_retries_def pend_def executions_def live_def new_session_def)
  qed (use retry_step_once in blast)
  then show ?thesis by (simp add: once_ok_def)
qed

section \<open>Concrete runs\<close>

datatype retry_act = DoAsk nat string | DoRead nat | DoResume nat | DoStart | DoUserRow nat | DoRow nat turn_row | DoFinish nat

fun retry_act_step :: "retry_act \<Rightarrow> retries \<Rightarrow> (retry_event \<times> retries) option" where
  "retry_act_step (DoAsk n i) s = (if number_free n s \<and> ts_active (rt_turns s) then Some (Ask n i, ask_again n i s) else None)"
| "retry_act_step (DoRead n) s =
     (case (map_of (rt_looking s) n, client_of s n) of
        (Some None, Some i) \<Rightarrow> Some (Other, lookup_read n i s) | _ \<Rightarrow> None)"
| "retry_act_step (DoResume n) s =
     (case map_of (rt_looking s) n of Some (Some r) \<Rightarrow> Some (Other, lookup_done 5 n r s) | _ \<Rightarrow> None)"
| "retry_act_step DoStart s =
     (case ts_dispatched (rt_turns s) of
        t # ts \<Rightarrow> Some (Other, s\<lparr>rt_turns := begin_turn t ((rt_turns s)\<lparr>ts_dispatched := ts\<rparr>)\<rparr>) | [] \<Rightarrow> None)"
| "retry_act_step (DoUserRow n) s =
     (if plain_turn n \<in> set (ts_running (rt_turns s)) \<and> list_all (\<lambda>(m, c, kind). m \<noteq> n \<or> kind \<noteq> UserRow) (rt_log s)
      then Some (Other, write_row n UserRow s) else None)"
| "retry_act_step (DoRow n kind) s =
     (if list_ex (\<lambda>(m, c, r). m = n \<and> r = UserRow) (rt_log s) \<and> kind \<noteq> UserRow then Some (Other, write_row n kind s) else None)"
| "retry_act_step (DoFinish n) s =
     (if plain_turn n \<in> set (ts_running (rt_turns s)) \<and> list_ex (\<lambda>(m, c, r). m = n \<and> r = CompletedRow) (rt_log s)
      then Some (Other, s\<lparr>rt_turns := finish_turn (plain_turn n) Finished (rt_turns s)\<rparr>) else None)"

lemma retry_act_sound: "retry_act_step a s = Some (ev, v) \<Longrightarrow> retry_step 5 s ev v"
proof (cases a)
  case (DoUserRow n)
  assume "retry_act_step a s = Some (ev, v)"
  then have u: "plain_turn n \<in> set (ts_running (rt_turns s))" "\<not> has_row n UserRow s" "ev = Other" "v = write_row n UserRow s"
    using DoUserRow by (auto simp: has_row_def list_all_iff split: if_splits)
  from u(2) have "\<not> has_row (tr_id (plain_turn n)) UserRow s" by (simp add: plain_turn_def)
  from user_row [OF u(1) this] u(3,4) show ?thesis by (simp add: plain_turn_def)
next
  case (DoRow n kind)
  assume "retry_act_step a s = Some (ev, v)"
  with DoRow show ?thesis by (auto simp: has_row_def list_ex_iff split: if_splits intro!: more_rows)
next
  case (DoFinish n)
  assume "retry_act_step a s = Some (ev, v)"
  then have u: "plain_turn n \<in> set (ts_running (rt_turns s))" "has_row (tr_id (plain_turn n)) CompletedRow s" "ev = Other"
    "v = s\<lparr>rt_turns := finish_turn (plain_turn n) Finished (rt_turns s)\<rparr>"
    using DoFinish by (auto simp: has_row_def list_ex_iff plain_turn_def split: if_splits)
  from finishes [OF turn_step.finish [OF u(1)] u(2)] u(3,4) show ?thesis by blast
next
  case DoStart
  assume "retry_act_step a s = Some (ev, v)"
  with DoStart show ?thesis by (auto split: list.splits intro!: turn [OF turn_step.start])
qed (auto split: option.splits if_splits intro: ask read resume)

fun retry_acts :: "retry_act list \<Rightarrow> retries \<Rightarrow> retries option" where
  "retry_acts [] s = Some s"
| "retry_acts (a # as) s = (case retry_act_step a s of Some (ev, v) \<Rightarrow> retry_acts as v | None \<Rightarrow> None)"

text \<open>Whether every repetition in a run is timely.\<close>

definition timely_now :: "string \<Rightarrow> retries \<Rightarrow> bool" where
  "timely_now i s \<longleftrightarrow> duplicate_in_memory i s \<noteq> None
     \<or> list_all (\<lambda>n. client_of s n \<noteq> Some i)
         (map fst (rt_looking s) @ ids (ts_dispatched (rt_turns s)) @ ids (ts_running (rt_turns s)))"

fun timely_acts :: "retry_act list \<Rightarrow> retries \<Rightarrow> bool" where
  "timely_acts [] s = True"
| "timely_acts (a # as) s =
     (case retry_act_step a s of
        Some (ev, v) \<Rightarrow> (case a of DoAsk n i \<Rightarrow> timely_now i s | _ \<Rightarrow> True) \<and> timely_acts as v
      | None \<Rightarrow> True)"

lemma timely_now_timely: "timely_now i s \<Longrightarrow> timely i s"
  by (auto simp: timely_now_def timely_def list_all_iff)

lemma retry_run_front:
  "retry_run k u v \<Longrightarrow> retry_step k s ev u \<Longrightarrow> (\<forall>n i. ev = Ask n i \<longrightarrow> timely i s) \<Longrightarrow> retry_run k s v"
proof (induction rule: retry_run.induct)
  case (retry_refl u)
  then show ?case using retry_run.retry_refl retry_run.retry_more by blast
next
  case (retry_more u w ev' v)
  then show ?case using retry_run.retry_more by blast
qed

lemma retry_acts_run:
  "retry_acts as s = Some v \<Longrightarrow> timely_acts as s \<Longrightarrow> retry_run 5 s v"
proof (induction as arbitrary: s)
  case (Cons a as)
  then obtain ev u where u: "retry_act_step a s = Some (ev, u)" "retry_acts as u = Some v" by (auto split: option.splits)
  have "timely i s" if "ev = Ask n i" for n i
    using u(1) that Cons.prems(2) timely_now_timely by (cases a) (auto split: option.splits if_splits list.splits)
  with Cons.IH [OF u(2)] u(1) Cons.prems(2) retry_run_front [OF _ retry_act_sound [OF u(1)]] show ?case by simp
qed (simp add: retry_run.retry_refl)

text \<open>A prompt, its repetition while it runs, and one after it is over.\<close>

definition repeated :: "retry_act list" where
  "repeated = [DoAsk 0 ''a'', DoRead 0, DoResume 0, DoUserRow 0, DoAsk 1 ''a'', DoRow 0 StartedRow, DoRow 0 CompletedRow,
               DoFinish 0, DoAsk 2 ''a'', DoRead 2, DoResume 2]"

definition after_retries :: "retry_act list \<Rightarrow> retries" where
  "after_retries as = the (retry_acts as (new_retries []))"

theorem repeated_prompt_runs_once_witness:
  "executions ''a'' (after_retries repeated) = 1 \<and> rt_joined (after_retries repeated) = [(1, 0)]"
proof -
  have "retry_acts repeated (new_retries []) = Some (after_retries repeated)" by code_simp
  moreover have "timely_acts repeated (new_retries [])" by code_simp
  ultimately have "executions ''a'' (after_retries repeated) \<le> 1"
    by (intro repeated_prompt_runs_once [of 5 "[]"] retry_acts_run)
  moreover have "executions ''a'' (after_retries repeated) \<noteq> 0" "rt_joined (after_retries repeated) = [(1, 0)]" by code_simp+
  ultimately show ?thesis by simp
qed

section \<open>Repetitions that are executed again\<close>

text \<open>Two copies of a prompt that arrive together both find nothing in the log and are both executed.\<close>

lemma simultaneous_copies_run_twice:
  "executions ''a'' (after_retries [DoAsk 0 ''a'', DoAsk 1 ''a'', DoRead 0, DoRead 1, DoResume 0, DoResume 1,
     DoUserRow 0, DoRow 0 CompletedRow, DoFinish 0, DoStart, DoUserRow 1]) = 2"
  by code_simp

text \<open>So are a queued prompt and a copy that comes between the end of the turn before it and its own start.\<close>

lemma dispatched_copy_runs_twice:
  "executions ''a'' (after_retries [DoAsk 0 ''b'', DoRead 0, DoResume 0, DoUserRow 0, DoAsk 1 ''a'', DoRead 1, DoResume 1,
     DoRow 0 CompletedRow, DoFinish 0, DoAsk 2 ''a'', DoRead 2, DoStart, DoUserRow 1, DoResume 2,
     DoRow 1 CompletedRow, DoFinish 1, DoStart, DoUserRow 2]) = 2"
  by code_simp

end
