(* ===== verification/Cron_Tasks.thy ===== *)
theory Cron_Tasks
  imports Complex_Main Py_Regex
begin

text \<open>
  The data of the cron subsystem and its pure functions: \<open>schedule/types.py\<close>,
  \<open>schedule/schedule_parser.py\<close>, \<open>schedule/errors.py\<close> and the row mapping of \<open>schedule/store.py\<close>.
  Epoch seconds and durations are rationals: the rounding of Python's floats is left out.
  \<open>croniter\<close>, \<open>orjson\<close> and the local-time reading of an ISO timestamp are arguments.
\<close>

section \<open>Data\<close>

type_synonym secs = rat

datatype cron_task_status = Active | Paused | Expired | Completed | Deleted

datatype schedule_kind = Cron | Every | At | Delay

record schedule =
  sch_kind :: schedule_kind
  sch_expr :: string
  interval_seconds :: secs
  run_at :: secs

record repeat_config =
  max_count :: "int option"
  max_duration_seconds :: "secs option"
  repeat_until :: "secs option"

definition is_exhausted :: "repeat_config \<Rightarrow> int \<Rightarrow> secs \<Rightarrow> secs \<Rightarrow> bool" where
  "is_exhausted r fires created now \<longleftrightarrow>
     (case max_count r of None \<Rightarrow> False | Some n \<Rightarrow> n \<le> fires)
     \<or> (case max_duration_seconds r of None \<Rightarrow> False | Some d \<Rightarrow> d \<le> now - created)
     \<or> (case repeat_until r of None \<Rightarrow> False | Some u \<Rightarrow> u \<le> now)"

record delivery_config =
  dl_target :: string
  on_failure :: bool
  silent_pattern :: string

record failure_alert_config =
  al_after :: int
  al_cooldown :: secs
  al_target :: string

record cron_task =
  ct_id :: string
  ct_schedule :: schedule
  ct_prompt :: string
  ct_description :: string
  recurring :: bool
  durable :: bool
  ct_skills :: "string list"
  ct_model :: "string option"
  timeout_seconds :: secs
  inactivity_timeout_seconds :: secs
  ct_delivery :: delivery_config
  ct_session :: "string option"
  project_dir :: "string option"
  created_at :: secs
  last_fired_at :: "secs option"
  next_fire_at :: "secs option"
  ct_status :: cron_task_status
  fire_count :: int
  consecutive_failures :: int
  ct_repeat :: repeat_config
  max_age_seconds :: secs
  failure_alert :: "failure_alert_config option"
  last_failure_alert_at :: "secs option"
  running_by :: "string option"
  running_heartbeat :: "secs option"

record cron_execution =
  ex_id :: string
  ex_task :: string
  ex_session :: string
  started_at :: secs
  ended_at :: "secs option"
  duration_ms :: "secs option"
  ex_status :: string
  ex_error :: "string option"
  ex_stop_reason :: "string option"
  ex_summary :: "string option"
  delivery_status :: "string option"
  delivery_error :: "string option"

text \<open>
  What \<open>parse_schedule\<close> and \<open>compute_next_fire\<close> take from outside: whether \<open>croniter\<close> accepts an
  expression, its \<open>get_next\<close> from a start time, and \<open>_parse_iso\<close> with \<open>timestamp()\<close>, which reads
  a timestamp without an offset in the machine's time zone.
\<close>

record time_lib =
  croniter_ok :: "string \<Rightarrow> bool"
  croniter_next :: "string \<Rightarrow> secs \<Rightarrow> secs py"
  parse_iso :: "string \<Rightarrow> secs option"

section \<open>Schedule expressions\<close>

text \<open>\<open>pattern.match(text)\<close> for a pattern that ends in \<open>$\<close>, which also matches before a final newline.\<close>

definition re_match_end :: "regex \<Rightarrow> string \<Rightarrow> match_state option" where
  "re_match_end r text =
     List.find (\<lambda>m. rest m = [] \<or> rest m = [CHR 0x0A])
       (rmatch r \<lparr>prev = None, rest = text, groups = []\<rparr>)"

definition duration_re :: regex where
  "duration_re =
     rseq [RGroup ''1'' (rseq [rplus rdigit, ropt (rseq [rlit ''.'', rplus rdigit])]),
           RStar rspace,
           RGroup ''2'' (RChar (\<lambda>c. py_lower_char c \<in> {CHR ''s'', CHR ''m'', CHR ''h'', CHR ''d''}))]"

definition every_re :: regex where
  "every_re = rseq [rlit_ci ''every'', rplus rspace, duration_re]"

definition unit_multiplier :: "string \<Rightarrow> secs" where
  "unit_multiplier u =
     (if u = ''s'' then 1 else if u = ''m'' then 60 else if u = ''h'' then 3600 else 86400)"

text \<open>\<open>float(text)\<close> of the digits, or digits, point and digits, that the patterns capture.\<close>

definition py_float_of :: "string \<Rightarrow> rat" where
  "py_float_of s =
     (let whole = takeWhile (\<lambda>c. c \<noteq> CHR ''.'') s;
          frac = drop (Suc (length whole)) s
      in of_nat (py_int_of whole) + of_nat (py_int_of frac) / 10 ^ length frac)"

definition group_of :: "match_state \<Rightarrow> string \<Rightarrow> string" where
  "group_of m n = (case map_of (groups m) n of None \<Rightarrow> [] | Some g \<Rightarrow> g)"

definition duration_of :: "match_state \<Rightarrow> secs" where
  "duration_of m = py_float_of (group_of m ''1'') * unit_multiplier (py_lower (group_of m ''2''))"

definition mk_schedule :: "schedule_kind \<Rightarrow> schedule" where
  "mk_schedule k = \<lparr>sch_kind = k, sch_expr = [], interval_seconds = 0, run_at = 0\<rparr>"

definition parse_schedule :: "time_lib \<Rightarrow> secs \<Rightarrow> string \<Rightarrow> schedule py" where
  "parse_schedule lib now text =
     (let expr = py_strip text
      in if expr = [] then Inl (PyExn ''ValueError'')
         else case re_match_end every_re expr of
           Some m \<Rightarrow>
             (let seconds = duration_of m
              in if seconds < 1 then Inl (PyExn ''ValueError'')
                 else Inr ((mk_schedule Every)\<lparr>interval_seconds := seconds\<rparr>))
         | None \<Rightarrow>
             (case re_match_end duration_re expr of
                Some m \<Rightarrow>
                  (let seconds = duration_of m
                   in if seconds < 1 then Inl (PyExn ''ValueError'')
                      else Inr ((mk_schedule At)\<lparr>run_at := now + seconds\<rparr>))
              | None \<Rightarrow>
                  (case parse_iso lib expr of
                     Some t \<Rightarrow> Inr ((mk_schedule At)\<lparr>run_at := t\<rparr>)
                   | None \<Rightarrow>
                       if croniter_ok lib expr then Inr ((mk_schedule Cron)\<lparr>sch_expr := expr\<rparr>)
                       else Inl (PyExn ''ValueError''))))"

definition compute_next_fire :: "time_lib \<Rightarrow> schedule \<Rightarrow> secs \<Rightarrow> secs py" where
  "compute_next_fire lib sch from_time =
     (case sch_kind sch of
        Cron \<Rightarrow> croniter_next lib (sch_expr sch) from_time
      | Every \<Rightarrow> Inr (from_time + interval_seconds sch)
      | At \<Rightarrow> Inr (run_at sch)
      | Delay \<Rightarrow> Inl (PyExn ''ValueError''))"

text \<open>
  \<open>human_schedule\<close>. How \<open>f"{x:g}"\<close> prints a fraction and how a time prints in the machine's time zone
  are arguments.
\<close>

definition human_schedule :: "(rat \<Rightarrow> string) \<Rightarrow> (secs \<Rightarrow> string) \<Rightarrow> schedule \<Rightarrow> string" where
  "human_schedule fmt_g fmt_time sch =
     (case sch_kind sch of
        Cron \<Rightarrow> ''cron '' @ sch_expr sch
      | Every \<Rightarrow>
          (let secs = interval_seconds sch; mins = secs / 60; hours = secs / 3600
           in if secs < 60 then ''every '' @ py_str_int \<lfloor>secs\<rfloor> @ ''s''
              else if secs < 3600
              then ''every '' @ (if mins \<noteq> of_int \<lfloor>mins\<rfloor> then fmt_g mins else py_str_int \<lfloor>mins\<rfloor>) @ ''m''
              else ''every '' @ (if hours \<noteq> of_int \<lfloor>hours\<rfloor> then fmt_g hours else py_str_int \<lfloor>hours\<rfloor>) @ ''h'')
      | At \<Rightarrow> ''at '' @ fmt_time (run_at sch)
      | Delay \<Rightarrow> ''ScheduleKind.delay'')"

section \<open>Error classes and backoff\<close>

abbreviation rlits_ci :: "string list \<Rightarrow> regex" where
  "rlits_ci xs \<equiv> ralt (map rlit_ci xs)"

abbreviation rfill :: regex where
  "rfill \<equiv> RStar rany"

abbreviation rsep :: regex where
  "rsep \<equiv> RChar (\<lambda>c. c \<in> {CHR ''_'', CHR '' ''})"

definition TRANSIENT_PATTERNS :: "regex list" where
  "TRANSIENT_PATTERNS =
     [ralt [rseq [rlit_ci ''rate'', rsep, rlit_ci ''limit''], rlit_ci ''too many requests'',
            rlit_ci ''429'', rlit_ci ''resource has been exhausted''],
      ralt [rseq [RBound, rlit_ci ''529'', RBound], rlit_ci ''overloaded'', rlit_ci ''high demand'',
            rlit_ci ''capacity exceeded''],
      rlits_ci [''network'', ''econnreset'', ''econnrefused'', ''fetch failed'', ''socket''],
      rlits_ci [''timeout'', ''etimedout''],
      rseq [RBound, rlit ''5'', rdigit, rdigit, RBound]]"

definition PERMANENT_PATTERNS :: "regex list" where
  "PERMANENT_PATTERNS =
     [rlit_ci ''unsupported channel'', rlit_ci ''chat not found'',
      rseq [rlit_ci ''bot'', rfill, rlit_ci ''not'', rfill, rlit_ci ''member''],
      rlit_ci ''forbidden'',
      rseq [rlit_ci ''invalid'', rfill, rlit_ci ''api'', rsep, rlit_ci ''key''],
      rseq [rlit_ci ''authentication'', rfill, rlit_ci ''failed'']]"

definition any_search :: "regex list \<Rightarrow> string \<Rightarrow> bool" where
  "any_search rs s \<longleftrightarrow> list_ex (\<lambda>r. re_search r s \<noteq> None) rs"

definition is_transient_error :: "string \<Rightarrow> bool" where
  "is_transient_error error \<longleftrightarrow>
     error \<noteq> [] \<and> \<not> any_search PERMANENT_PATTERNS error \<and> any_search TRANSIENT_PATTERNS error"

definition BACKOFF_SCHEDULE_S :: "secs list" where
  "BACKOFF_SCHEDULE_S = [30, 60, 300, 900, 3600]"

definition ONESHOT_MAX_TRANSIENT_RETRIES :: int where
  "ONESHOT_MAX_TRANSIENT_RETRIES = 3"

definition backoff_delay :: "int \<Rightarrow> secs" where
  "backoff_delay failures =
     BACKOFF_SCHEDULE_S ! nat (max 0 (min (failures - 1) (int (length BACKOFF_SCHEDULE_S) - 1)))"

definition TRANSIENT_DELIVERY :: "regex list" where
  "TRANSIENT_DELIVERY =
     [rlits_ci [''econnreset'', ''econnrefused'', ''etimedout'', ''enotfound''],
      rlit_ci ''gateway not connected'', rlit_ci ''gateway closed'', rlit_ci ''network error'']"

definition PERMANENT_DELIVERY :: "regex list" where
  "PERMANENT_DELIVERY =
     [rlit_ci ''unsupported channel'', rlit_ci ''unknown channel'', rlit_ci ''chat not found'',
      rlit_ci ''bot was blocked'', rlit_ci ''forbidden'']"

definition is_transient_delivery_error :: "string \<Rightarrow> bool" where
  "is_transient_delivery_error error \<longleftrightarrow>
     error \<noteq> [] \<and> \<not> any_search PERMANENT_DELIVERY error \<and> any_search TRANSIENT_DELIVERY error"

section \<open>Rows\<close>

text \<open>One row of the table \<open>cron_tasks\<close>, a field per column.\<close>

record cron_row =
  rw_id :: string
  schedule_kind :: string
  schedule_expr :: string
  schedule_interval :: secs
  schedule_run_at :: secs
  rw_prompt :: string
  rw_description :: string
  rw_recurring :: int
  rw_durable :: int
  rw_skills :: string
  rw_model :: "string option"
  rw_timeout_seconds :: secs
  inactivity_timeout :: secs
  delivery_target :: string
  delivery_on_failure :: int
  delivery_silent_pattern :: string
  rw_session_id :: "string option"
  rw_project_dir :: "string option"
  rw_created_at :: secs
  rw_last_fired_at :: "secs option"
  rw_next_fire_at :: "secs option"
  rw_status :: string
  rw_fire_count :: int
  rw_consecutive_failures :: int
  rw_max_age_seconds :: secs
  repeat_max_count :: "int option"
  repeat_max_duration :: "secs option"
  rw_repeat_until :: "secs option"
  failure_alert_after :: "int option"
  failure_alert_cooldown :: "secs option"
  failure_alert_target :: "string option"
  rw_last_failure_alert_at :: "secs option"
  rw_running_by :: "string option"
  rw_running_heartbeat :: "secs option"

fun kind_value :: "schedule_kind \<Rightarrow> string" where
  "kind_value Cron = ''cron''"
| "kind_value Every = ''every''"
| "kind_value At = ''at''"
| "kind_value Delay = ''delay''"

definition ScheduleKind :: "string \<Rightarrow> schedule_kind py" where
  "ScheduleKind v =
     (case List.find (\<lambda>k. kind_value k = v) [Cron, Every, At, Delay] of
        None \<Rightarrow> Inl (PyExn ''ValueError'') | Some k \<Rightarrow> Inr k)"

fun status_value :: "cron_task_status \<Rightarrow> string" where
  "status_value Active = ''active''"
| "status_value Paused = ''paused''"
| "status_value Expired = ''expired''"
| "status_value Completed = ''completed''"
| "status_value Deleted = ''deleted''"

definition CronTaskStatus :: "string \<Rightarrow> cron_task_status py" where
  "CronTaskStatus v =
     (case List.find (\<lambda>k. status_value k = v) [Active, Paused, Expired, Completed, Deleted] of
        None \<Rightarrow> Inl (PyExn ''ValueError'') | Some k \<Rightarrow> Inr k)"

text \<open>\<open>_task_to_row\<close> and \<open>_row_to_task\<close>, given \<open>orjson.dumps\<close> and \<open>orjson.loads\<close> on lists of strings.\<close>

definition task_to_row :: "(string list \<Rightarrow> string) \<Rightarrow> cron_task \<Rightarrow> cron_row" where
  "task_to_row dumps t =
     \<lparr>rw_id = ct_id t,
      schedule_kind = kind_value (sch_kind (ct_schedule t)),
      schedule_expr = sch_expr (ct_schedule t),
      schedule_interval = interval_seconds (ct_schedule t),
      schedule_run_at = run_at (ct_schedule t),
      rw_prompt = ct_prompt t,
      rw_description = ct_description t,
      rw_recurring = of_bool (recurring t),
      rw_durable = of_bool (durable t),
      rw_skills = dumps (ct_skills t),
      rw_model = ct_model t,
      rw_timeout_seconds = timeout_seconds t,
      inactivity_timeout = inactivity_timeout_seconds t,
      delivery_target = dl_target (ct_delivery t),
      delivery_on_failure = of_bool (on_failure (ct_delivery t)),
      delivery_silent_pattern = silent_pattern (ct_delivery t),
      rw_session_id = ct_session t,
      rw_project_dir = project_dir t,
      rw_created_at = created_at t,
      rw_last_fired_at = last_fired_at t,
      rw_next_fire_at = next_fire_at t,
      rw_status = status_value (ct_status t),
      rw_fire_count = fire_count t,
      rw_consecutive_failures = consecutive_failures t,
      rw_max_age_seconds = max_age_seconds t,
      repeat_max_count = max_count (ct_repeat t),
      repeat_max_duration = max_duration_seconds (ct_repeat t),
      rw_repeat_until = repeat_until (ct_repeat t),
      failure_alert_after = map_option al_after (failure_alert t),
      failure_alert_cooldown = map_option al_cooldown (failure_alert t),
      failure_alert_target = map_option al_target (failure_alert t),
      rw_last_failure_alert_at = last_failure_alert_at t,
      rw_running_by = running_by t,
      rw_running_heartbeat = running_heartbeat t\<rparr>"

text \<open>\<open>x or d\<close> for a number or a string that may be \<open>None\<close>.\<close>

definition or_else :: "'a option \<Rightarrow> 'a \<Rightarrow> 'a \<Rightarrow> 'a" where
  "or_else x falsy d = (case x of None \<Rightarrow> d | Some v \<Rightarrow> if v = falsy then d else v)"

definition row_alert :: "cron_row \<Rightarrow> failure_alert_config option" where
  "row_alert r =
     map_option (\<lambda>n. \<lparr>al_after = n, al_cooldown = or_else (failure_alert_cooldown r) 0 3600,
                      al_target = or_else (failure_alert_target r) [] ''session''\<rparr>)
       (failure_alert_after r)"

definition row_to_task :: "(string \<Rightarrow> string list py) \<Rightarrow> cron_row \<Rightarrow> cron_task py" where
  "row_to_task loads r =
     ebind (ScheduleKind (schedule_kind r)) (\<lambda>kind.
     ebind (loads (rw_skills r)) (\<lambda>skills.
     ebind (CronTaskStatus (rw_status r)) (\<lambda>status.
       Inr \<lparr>ct_id = rw_id r,
            ct_schedule = \<lparr>sch_kind = kind, sch_expr = schedule_expr r,
                           interval_seconds = schedule_interval r, run_at = schedule_run_at r\<rparr>,
            ct_prompt = rw_prompt r,
            ct_description = rw_description r,
            recurring = (rw_recurring r \<noteq> 0),
            durable = (rw_durable r \<noteq> 0),
            ct_skills = skills,
            ct_model = rw_model r,
            timeout_seconds = rw_timeout_seconds r,
            inactivity_timeout_seconds = inactivity_timeout r,
            ct_delivery = \<lparr>dl_target = delivery_target r, on_failure = (delivery_on_failure r \<noteq> 0),
                           silent_pattern = delivery_silent_pattern r\<rparr>,
            ct_session = rw_session_id r,
            project_dir = rw_project_dir r,
            created_at = rw_created_at r,
            last_fired_at = rw_last_fired_at r,
            next_fire_at = rw_next_fire_at r,
            ct_status = status,
            fire_count = rw_fire_count r,
            consecutive_failures = rw_consecutive_failures r,
            ct_repeat = \<lparr>max_count = repeat_max_count r, max_duration_seconds = repeat_max_duration r,
                         repeat_until = rw_repeat_until r\<rparr>,
            max_age_seconds = rw_max_age_seconds r,
            failure_alert = row_alert r,
            last_failure_alert_at = rw_last_failure_alert_at r,
            running_by = rw_running_by r,
            running_heartbeat = rw_running_heartbeat r\<rparr>)))"

section \<open>Schedules\<close>

text \<open>The parser never hands out a \<^const>\<open>Delay\<close>, and an interval is at least a second.\<close>

lemma parse_schedule_kinds:
  assumes "parse_schedule lib now text = Inr sch"
  shows "sch_kind sch \<noteq> Delay" "sch_kind sch = Every \<Longrightarrow> 1 \<le> interval_seconds sch"
    "sch_kind sch = Cron \<Longrightarrow> croniter_ok lib (sch_expr sch)"
  using assms
  by (auto simp: parse_schedule_def mk_schedule_def Let_def split: if_splits option.splits)

text \<open>
  A fire computed for an interval lies strictly in the future, and at least a second away.
\<close>

lemma every_next_fire_later:
  assumes "parse_schedule lib now text = Inr sch" "sch_kind sch = Every"
  shows "\<exists>t. compute_next_fire lib sch from_time = Inr t \<and> from_time + 1 \<le> t"
  using parse_schedule_kinds(2) [OF assms] assms(2) by (simp add: compute_next_fire_def)

lemma find_concat_first: "List.find P (f x) = Some y \<Longrightarrow> List.find P (concat (map f (x # xs))) = Some y"
proof -
  have "List.find P as = Some y \<Longrightarrow> List.find P (as @ bs) = Some y" for as bs
    by (induction as) auto
  then show "List.find P (f x) = Some y \<Longrightarrow> ?thesis" by simp
qed

abbreviation at_end :: "match_state \<Rightarrow> bool" where
  "at_end m \<equiv> rest m = [] \<or> rest m = [CHR 0x0A]"

text \<open>A whole number with a unit is read as that number and that unit.\<close>

lemma duration_re_digits:
  assumes "rest s = ds @ [u]" "ds \<noteq> []" "list_all is_digit_char ds"
    "u \<in> {CHR ''s'', CHR ''m'', CHR ''h'', CHR ''d''}"
  shows "List.find at_end (rmatch duration_re s) =
           Some (s\<lparr>prev := Some u, rest := [], groups := (''2'', [u]) # (''1'', ds) # groups s\<rparr>)"
proof -
  have u: "\<not> is_digit_char u" "\<not> py_isspace u" "u \<noteq> CHR ''.''"
      "py_lower_char u \<in> {CHR ''s'', CHR ''m'', CHR ''h'', CHR ''d''}"
    using assms(4) by (auto simp: is_digit_char_def py_isspace_def py_lower_char_def)
  let ?s = "s\<lparr>prev := Some (last ds), rest := [u]\<rparr>"
  obtain ss where plus: "rmatch (rplus rdigit) s = ?s # ss"
    using rmatch_plus_greedy [of s ds "[u]" is_digit_char] assms u by (auto simp: rdigit_def)
  have opt: "rmatch (ropt (rseq [rlit ''.'', rplus rdigit])) ?s = [?s]"
    using u by (simp add: ropt_def rlit_def)
  obtain ss' where num: "rmatch (RGroup ''1'' (rseq [rplus rdigit, ropt (rseq [rlit ''.'', rplus rdigit])])) s
      = ?s\<lparr>groups := (''1'', ds) # groups s\<rparr> # ss'"
    using plus opt assms(1) by (simp add: rseq.simps(1) del: rseq.simps(2,3))
  have space: "rmatch (RStar rspace) (?s\<lparr>groups := g\<rparr>) = [?s\<lparr>groups := g\<rparr>]" for g
    using u by (simp add: rmatch.simps(5) rspace_def)
  show ?thesis
    unfolding duration_re_def rmatch_rseq_Cons num
    by (rule find_concat_first) (use u in \<open>simp add: space\<close>)
qed

lemma every_re_digits:
  assumes "ds \<noteq> []" "list_all is_digit_char ds" "u \<in> {CHR ''s'', CHR ''m'', CHR ''h'', CHR ''d''}"
  shows "re_match_end every_re (''every '' @ ds @ [u]) =
           Some \<lparr>prev = Some u, rest = [], groups = [(''2'', [u]), (''1'', ds)]\<rparr>"
proof -
  let ?s = "\<lparr>prev = None, rest = ''every '' @ ds @ [u], groups = []\<rparr> :: match_state"
  let ?s1 = "\<lparr>prev = Some (CHR ''y''), rest = CHR '' '' # ds @ [u], groups = []\<rparr> :: match_state"
  let ?s2 = "\<lparr>prev = Some (CHR '' ''), rest = ds @ [u], groups = []\<rparr> :: match_state"
  have lit: "rmatch (rlit_ci ''every'') ?s = [?s1]"
    using rmatch_rlit_ci_rest [of ?s "''every''" "'' '' @ ds @ [u]" "''every''"] by simp
  have "\<not> py_isspace (hd (ds @ [u]))"
    using assms by (cases ds) (auto simp: digit_not_space)
  then obtain ss where space: "rmatch (rplus rspace) ?s1 = ?s2 # ss"
    using rmatch_plus_greedy [of ?s1 "'' ''" "ds @ [u]" py_isspace]
    by (auto simp: rspace_def py_isspace_def)
  have "List.find at_end (rmatch duration_re ?s2) =
      Some \<lparr>prev = Some u, rest = [], groups = [(''2'', [u]), (''1'', ds)]\<rparr>"
    using duration_re_digits [of ?s2 ds u] assms by simp
  then have "List.find at_end (concat (map (rmatch duration_re) (?s2 # ss))) =
      Some \<lparr>prev = Some u, rest = [], groups = [(''2'', [u]), (''1'', ds)]\<rparr>"
    by (rule find_concat_first)
  then show ?thesis
    by (simp add: re_match_end_def every_re_def lit [simplified] space rmatch_rseq_Cons [of "rlit_ci ''every''"]
      del: rmatch_rseq_Cons)
qed

lemma parse_every_digits:
  assumes "u \<in> {CHR ''s'', CHR ''m'', CHR ''h'', CHR ''d''}" "1 \<le> n"
  shows "parse_schedule lib now (''every '' @ py_str_nat n @ [u]) =
           Inr ((mk_schedule Every)\<lparr>interval_seconds := of_nat n * unit_multiplier [u]\<rparr>)"
proof -
  let ?text = "''every '' @ py_str_nat n @ [u]"
  have u: "\<not> py_isspace u" "py_lower [u] = [u]"
    using assms(1) by (auto simp: py_isspace_def py_lower_def py_lower_char_def)
  have "py_strip ?text = ?text"
    by (rule py_strip_id) (use u in \<open>auto simp: py_isspace_def\<close>)
  moreover have "re_match_end every_re ?text =
      Some \<lparr>prev = Some u, rest = [], groups = [(''2'', [u]), (''1'', py_str_nat n)]\<rparr>"
    by (rule every_re_digits) (use assms py_str_nat_digits [of n] in auto)
  moreover have "py_float_of (py_str_nat n) = of_nat n"
  proof -
    have "\<forall>c\<in>set (py_str_nat n). c \<noteq> CHR ''.''"
      using py_str_nat_digits [of n] by (auto simp: list_all_iff is_digit_char_def)
    then have whole: "takeWhile (\<lambda>c. c \<noteq> CHR ''.'') (py_str_nat n) = py_str_nat n"
      by (simp only: takeWhile_eq_all_conv)
    show ?thesis unfolding py_float_of_def Let_def whole by (simp add: py_int_of_def [of "[]"])
  qed
  moreover have "(1::rat) \<le> of_nat n * unit_multiplier [u]"
  proof -
    have "(1::rat) \<le> of_nat n" using assms(2) by simp
    moreover have "1 \<le> unit_multiplier [u]" by (simp add: unit_multiplier_def)
    ultimately show ?thesis by (metis mult_mono mult_1 zero_le_one order_trans of_nat_0_le_iff)
  qed
  ultimately show ?thesis
    by (simp add: parse_schedule_def Let_def duration_of_def group_of_def u)
qed

text \<open>
  What \<open>human_schedule\<close> prints for a whole number of seconds below a minute, of minutes below an
  hour or of hours is read back as the same schedule.
\<close>

lemma human_schedule_roundtrip:
  assumes "1 \<le> n" "n < 60 \<or> (n < 3600 \<and> n mod 60 = 0) \<or> n mod 3600 = 0"
  shows "parse_schedule lib now
           (human_schedule fmt_g fmt_time ((mk_schedule Every)\<lparr>interval_seconds := of_nat n\<rparr>)) =
         Inr ((mk_schedule Every)\<lparr>interval_seconds := of_nat n\<rparr>)"
proof -
  let ?sch = "(mk_schedule Every)\<lparr>interval_seconds := of_nat n\<rparr>"
  consider (s) "n < 60" | (m) "\<not> n < 60" "n < 3600" "n mod 60 = 0" | (h) "\<not> n < 3600" "n mod 3600 = 0"
    using assms by force
  then show ?thesis
  proof cases
    case s
    then have "human_schedule fmt_g fmt_time ?sch = ''every '' @ py_str_nat n @ ''s''"
      by (simp add: human_schedule_def mk_schedule_def py_str_int_def)
    then show ?thesis using parse_every_digits [of "CHR ''s''" n] assms(1) by (simp add: unit_multiplier_def)
  next
    case m
    then obtain k where k: "n = 60 * k" "1 \<le> k" by (auto elim!: dvdE simp: mod_eq_0_iff_dvd)
    with m have "human_schedule fmt_g fmt_time ?sch = ''every '' @ py_str_nat k @ ''m''"
      by (simp add: human_schedule_def mk_schedule_def py_str_int_def Let_def)
    then show ?thesis using parse_every_digits [of "CHR ''m''" k] k by (simp add: unit_multiplier_def)
  next
    case h
    then obtain k where k: "n = 3600 * k" "1 \<le> k" by (auto elim!: dvdE simp: mod_eq_0_iff_dvd)
    with h have "human_schedule fmt_g fmt_time ?sch = ''every '' @ py_str_nat k @ ''h''"
      by (simp add: human_schedule_def mk_schedule_def py_str_int_def Let_def)
    then show ?thesis using parse_every_digits [of "CHR ''h''" k] k by (simp add: unit_multiplier_def)
  qed
qed

section \<open>Row round trip\<close>

lemma ScheduleKind_value [simp]: "ScheduleKind (kind_value k) = Inr k"
  by (cases k) (simp_all add: ScheduleKind_def)

lemma CronTaskStatus_value [simp]: "CronTaskStatus (status_value k) = Inr k"
  by (cases k) (simp_all add: CronTaskStatus_def)

definition alert_storable :: "failure_alert_config option \<Rightarrow> bool" where
  "alert_storable a = (case a of None \<Rightarrow> True | Some c \<Rightarrow> al_cooldown c \<noteq> 0 \<and> al_target c \<noteq> [])"

text \<open>What becomes of a failure alert: a cooldown of zero and an empty target are replaced.\<close>

definition stored_alert :: "failure_alert_config \<Rightarrow> failure_alert_config" where
  "stored_alert c = c\<lparr>al_cooldown := (if al_cooldown c = 0 then 3600 else al_cooldown c),
                      al_target := (if al_target c = [] then ''session'' else al_target c)\<rparr>"

lemma row_alert_stored: "row_alert (task_to_row dumps t) = map_option stored_alert (failure_alert t)"
  by (cases "failure_alert t") (simp_all add: row_alert_def task_to_row_def or_else_def stored_alert_def)

lemma stored_alert_id: "stored_alert c = c \<longleftrightarrow> al_cooldown c \<noteq> 0 \<and> al_target c \<noteq> []"
  by (cases c) (auto simp: stored_alert_def)

lemma row_to_task_stored:
  assumes "\<And>xs. loads (dumps xs) = Inr xs"
  shows "row_to_task loads (task_to_row dumps t) = Inr (t\<lparr>failure_alert := map_option stored_alert (failure_alert t)\<rparr>)"
proof -
  have 1: "row_to_task loads r = Inr t'"
    if "ScheduleKind (schedule_kind r) = Inr (sch_kind (ct_schedule t'))"
       "loads (rw_skills r) = Inr (ct_skills t')" "CronTaskStatus (rw_status r) = Inr (ct_status t')"
       "r = (task_to_row dumps t)" "t' = t\<lparr>failure_alert := map_option stored_alert (failure_alert t)\<rparr>" for r t'
    using that row_alert_stored [of dumps t]
    by (cases t; cases "ct_schedule t"; cases "ct_delivery t"; cases "ct_repeat t")
       (simp add: row_to_task_def task_to_row_def)
  show ?thesis by (rule 1) (simp_all add: assms task_to_row_def)
qed

text \<open>
  A task that is written to the database is read back unchanged exactly when its failure alert
  has a cooldown other than zero and a target that is not empty (or there is none), because
  \<open>_row_to_task\<close> takes \<open>0\<close> and \<open>""\<close> for missing values and puts an hour and \<open>session\<close> in their place.
\<close>

theorem cron_row_roundtrip:
  assumes "\<And>xs. loads (dumps xs) = Inr xs"
  shows "row_to_task loads (task_to_row dumps t) = Inr t \<longleftrightarrow> alert_storable (failure_alert t)"
  using stored_alert_id
  by (cases t) (auto simp: row_to_task_stored [OF assms] alert_storable_def split: option.splits)

text \<open>A stand-in for the two functions of \<open>orjson\<close>: every character marked, every string ended.\<close>

definition demo_dumps :: "string list \<Rightarrow> string" where
  "demo_dumps xs = concat (map (\<lambda>x. concat (map (\<lambda>c. [CHR 0x01, c]) x) @ [CHR 0x00]) xs)"

fun demo_loads :: "string \<Rightarrow> string \<Rightarrow> string list py" where
  "demo_loads cur [] = (if cur = [] then Inr [] else Inl (PyExn ''JSONDecodeError''))"
| "demo_loads cur [c] = (if c = CHR 0x00 then Inr [cur] else Inl (PyExn ''JSONDecodeError''))"
| "demo_loads cur (c # d # s) =
     (if c = CHR 0x00 then ebind (demo_loads [] (d # s)) (\<lambda>xs. Inr (cur # xs)) else demo_loads (cur @ [d]) s)"

lemma demo_loads_string:
  "demo_loads cur (concat (map (\<lambda>c. [CHR 0x01, c]) x) @ CHR 0x00 # s) = ebind (demo_loads [] s) (\<lambda>xs. Inr ((cur @ x) # xs))"
proof (induction x arbitrary: cur)
  case Nil
  show ?case by (cases s) auto
qed simp

lemma demo_loads_dumps: "demo_loads [] (demo_dumps xs) = Inr xs"
  by (induction xs) (simp_all add: demo_dumps_def demo_loads_string)

definition demo_alert :: "secs \<Rightarrow> cron_task" where
  "demo_alert cooldown =
     \<lparr>ct_id = ''t'', ct_schedule = mk_schedule Every, ct_prompt = ''report'', ct_description = [], recurring = True,
      durable = True, ct_skills = [''a'', ''b''], ct_model = None, timeout_seconds = 1800,
      inactivity_timeout_seconds = 600,
      ct_delivery = \<lparr>dl_target = ''none'', on_failure = True, silent_pattern = []\<rparr>,
      ct_session = None, project_dir = None, created_at = 0, last_fired_at = None, next_fire_at = Some 10,
      ct_status = Active, fire_count = 0, consecutive_failures = 0,
      ct_repeat = \<lparr>max_count = None, max_duration_seconds = None, repeat_until = None\<rparr>, max_age_seconds = 604800,
      failure_alert = Some \<lparr>al_after = 3, al_cooldown = cooldown, al_target = ''session''\<rparr>,
      last_failure_alert_at = None, running_by = None, running_heartbeat = None\<rparr>"

theorem cron_row_roundtrip_witness:
  "row_to_task (demo_loads []) (task_to_row demo_dumps (demo_alert 60)) = Inr (demo_alert 60)
   \<and> row_to_task (demo_loads []) (task_to_row demo_dumps (demo_alert 0)) \<noteq> Inr (demo_alert 0)"
  using cron_row_roundtrip [OF demo_loads_dumps, of "demo_alert 60"] cron_row_roundtrip [OF demo_loads_dumps, of "demo_alert 0"]
  by (simp add: demo_alert_def alert_storable_def)

end
