(* ===== verification/Cron_Store.thy ===== *)
theory Cron_Store
  imports Cron_Tasks
begin

text \<open>
  \<open>CronStore\<close> (\<open>schedule/store.py\<close>) and the claim statements of \<open>CronScheduler\<close>
  (\<open>schedule/scheduler.py\<close>). A store is what one kernel sees: the table of the database it shares
  with other kernels, and its own dictionary \<open>_memory\<close> of tasks that are not durable. Such a task
  is one mutable object that the dictionary, the scheduler and a running job refer to alike; the
  objects are kept in \<open>st_objects\<close> under their task id, also after \<open>remove\<close> has taken them out of the
  dictionary. What \<open>get\<close> returns for a row is a copy. An SQL statement is one atomic step.
\<close>

record cron_store =
  st_rows :: "(string, cron_row) dict"
  st_executions :: "cron_execution list"
  st_objects :: "(string, cron_task) dict"
  st_memory :: "string list"

section \<open>Tasks\<close>

text \<open>\<open>UPDATE cron_tasks SET f WHERE id = i AND p\<close>, with the number of rows it changed.\<close>

fun sql_update :: "string \<Rightarrow> (cron_row \<Rightarrow> bool) \<Rightarrow> (cron_row \<Rightarrow> cron_row) \<Rightarrow> (string, cron_row) dict
    \<Rightarrow> (string, cron_row) dict \<times> nat" where
  "sql_update i p f [] = ([], 0)"
| "sql_update i p f ((j, r) # d) =
     (if j = i then (if p r then ((j, f r) # d, 1) else ((j, r) # d, 0))
      else let (d', n) = sql_update i p f d in ((j, r) # d', n))"

abbreviation update_row :: "string \<Rightarrow> (cron_row \<Rightarrow> cron_row) \<Rightarrow> cron_store \<Rightarrow> cron_store" where
  "update_row i f st \<equiv> st\<lparr>st_rows := fst (sql_update i (\<lambda>_. True) f (st_rows st))\<rparr>"

definition update_object :: "string \<Rightarrow> (cron_task \<Rightarrow> cron_task) \<Rightarrow> cron_store \<Rightarrow> cron_store" where
  "update_object i f st =
     (case map_of (st_objects st) i of
        None \<Rightarrow> st
      | Some t \<Rightarrow> st\<lparr>st_objects := dict_set i (f t) (st_objects st)\<rparr>)"

definition store_add :: "(string list \<Rightarrow> string) \<Rightarrow> cron_task \<Rightarrow> cron_store \<Rightarrow> cron_store py" where
  "store_add dumps t st =
     (if \<not> durable t
      then Inr (st\<lparr>st_objects := dict_set (ct_id t) t (st_objects st),
                   st_memory := (if ct_id t \<in> set (st_memory st) then st_memory st
                                 else st_memory st @ [ct_id t])\<rparr>)
      else if map_of (st_rows st) (ct_id t) \<noteq> None then Inl (PyExn ''IntegrityError'')
      else Inr (st\<lparr>st_rows := dict_set (ct_id t) (task_to_row dumps t) (st_rows st)\<rparr>))"

definition store_remove :: "string \<Rightarrow> cron_store \<Rightarrow> bool \<times> cron_store" where
  "store_remove i st =
     (if i \<in> set (st_memory st)
      then (True, (update_object i (\<lambda>t. t\<lparr>ct_status := Deleted\<rparr>) st)\<lparr>st_memory := removeAll i (st_memory st)\<rparr>)
      else let (rows, n) = sql_update i (\<lambda>_. True) (\<lambda>r. r\<lparr>rw_status := status_value Deleted\<rparr>) (st_rows st)
           in (0 < n, st\<lparr>st_rows := rows\<rparr>))"

definition store_get :: "(string \<Rightarrow> string list py) \<Rightarrow> string \<Rightarrow> cron_store \<Rightarrow> cron_task option py" where
  "store_get loads i st =
     (if i \<in> set (st_memory st) then Inr (map_of (st_objects st) i)
      else case map_of (st_rows st) i of
             None \<Rightarrow> Inr None
           | Some r \<Rightarrow> ebind (row_to_task loads r) (\<lambda>t. Inr (Some t)))"

fun map_py :: "('a \<Rightarrow> 'b py) \<Rightarrow> 'a list \<Rightarrow> 'b list py" where
  "map_py f [] = Inr []"
| "map_py f (x # xs) = ebind (f x) (\<lambda>y. ebind (map_py f xs) (\<lambda>ys. Inr (y # ys)))"

definition memory_tasks :: "cron_store \<Rightarrow> cron_task list" where
  "memory_tasks st = List.map_filter (map_of (st_objects st)) (st_memory st)"

definition list_all_tasks :: "(string \<Rightarrow> string list py) \<Rightarrow> cron_store \<Rightarrow> cron_task list py" where
  "list_all_tasks loads st =
     ebind (map_py (row_to_task loads) (map snd (st_rows st))) (\<lambda>ts. Inr (ts @ memory_tasks st))"

definition list_active :: "(string \<Rightarrow> string list py) \<Rightarrow> cron_store \<Rightarrow> cron_task list py" where
  "list_active loads st =
     ebind (map_py (row_to_task loads)
              (filter (\<lambda>r. rw_status r = status_value Active) (map snd (st_rows st))))
       (\<lambda>ts. Inr (ts @ filter (\<lambda>t. ct_status t = Active) (memory_tasks st)))"

definition update_fired :: "string \<Rightarrow> secs \<Rightarrow> secs option \<Rightarrow> cron_store \<Rightarrow> cron_store" where
  "update_fired i fired_at next_at st =
     (if i \<in> set (st_memory st)
      then update_object i (\<lambda>t. t\<lparr>last_fired_at := Some fired_at, next_fire_at := next_at,
                                  fire_count := fire_count t + 1, consecutive_failures := 0\<rparr>) st
      else update_row i (\<lambda>r. r\<lparr>rw_last_fired_at := Some fired_at, rw_next_fire_at := next_at,
                               rw_fire_count := rw_fire_count r + 1, rw_consecutive_failures := 0\<rparr>) st)"

text \<open>
  \<open>update_status\<close>: an argument whose default is \<open>...\<close> is \<^const>\<open>None\<close> when it is left out, and
  \<open>Some v\<close> for the value \<open>v\<close>, which may be \<open>None\<close> itself.
\<close>

definition update_status :: "string \<Rightarrow> cron_task_status \<Rightarrow> secs option option \<Rightarrow> int option
    \<Rightarrow> secs option option \<Rightarrow> cron_store \<Rightarrow> cron_store" where
  "update_status i status next_at failures alert_at st =
     (if i \<in> set (st_memory st)
      then update_object i (\<lambda>t. t\<lparr>ct_status := status,
             next_fire_at := (case next_at of None \<Rightarrow> next_fire_at t | Some v \<Rightarrow> v),
             consecutive_failures := (case failures of None \<Rightarrow> consecutive_failures t | Some n \<Rightarrow> n),
             last_failure_alert_at := (case alert_at of None \<Rightarrow> last_failure_alert_at t | Some v \<Rightarrow> v)\<rparr>) st
      else update_row i (\<lambda>r. r\<lparr>rw_status := status_value status,
             rw_next_fire_at := (case next_at of None \<Rightarrow> rw_next_fire_at r | Some v \<Rightarrow> v),
             rw_consecutive_failures := (case failures of None \<Rightarrow> rw_consecutive_failures r | Some n \<Rightarrow> n),
             rw_last_failure_alert_at := (case alert_at of None \<Rightarrow> rw_last_failure_alert_at r | Some v \<Rightarrow> v)\<rparr>) st)"

section \<open>Execution records\<close>

definition add_execution :: "cron_execution \<Rightarrow> cron_store \<Rightarrow> cron_store py" where
  "add_execution e st =
     (if ex_id e \<in> ex_id ` set (st_executions st) then Inl (PyExn ''IntegrityError'')
      else Inr (st\<lparr>st_executions := st_executions st @ [e]\<rparr>))"

text \<open>\<open>update_execution\<close> writes the columns whose argument is not \<open>None\<close>.\<close>

definition update_execution :: "string \<Rightarrow> secs option \<Rightarrow> secs option \<Rightarrow> string option \<Rightarrow> string option
    \<Rightarrow> string option \<Rightarrow> string option \<Rightarrow> string option \<Rightarrow> string option \<Rightarrow> cron_store \<Rightarrow> cron_store" where
  "update_execution i ended dur status err stop summ dstatus derr st =
     (let keep = (\<lambda>new old. case new of None \<Rightarrow> old | Some v \<Rightarrow> Some v)
      in st\<lparr>st_executions := map (\<lambda>e. if ex_id e = i
           then e\<lparr>ended_at := (case ended of None \<Rightarrow> ended_at e | Some v \<Rightarrow> Some v),
                  duration_ms := (case dur of None \<Rightarrow> duration_ms e | Some v \<Rightarrow> Some v),
                  ex_status := (case status of None \<Rightarrow> ex_status e | Some v \<Rightarrow> v),
                  ex_error := keep err (ex_error e), ex_stop_reason := keep stop (ex_stop_reason e),
                  ex_summary := keep summ (ex_summary e),
                  delivery_status := keep dstatus (delivery_status e),
                  delivery_error := keep derr (delivery_error e)\<rparr>
           else e) (st_executions st)\<rparr>)"

text \<open>\<open>SELECT * FROM cron_executions WHERE task_id = ? ORDER BY started_at DESC LIMIT ?\<close>\<close>

definition list_executions :: "string \<Rightarrow> nat \<Rightarrow> cron_store \<Rightarrow> cron_execution list" where
  "list_executions i limit st =
     take limit (sort_key (\<lambda>e. - started_at e) (filter (\<lambda>e. ex_task e = i) (st_executions st)))"

definition prune_executions :: "secs \<Rightarrow> int \<Rightarrow> cron_store \<Rightarrow> nat \<times> cron_store" where
  "prune_executions now retention_days st =
     (let cutoff = now - of_int retention_days * 86400;
          kept = filter (\<lambda>e. \<not> started_at e < cutoff) (st_executions st)
      in (length (st_executions st) - length kept, st\<lparr>st_executions := kept\<rparr>))"

section \<open>Claims\<close>

definition HEARTBEAT_STALE_THRESHOLD_S :: secs where
  "HEARTBEAT_STALE_THRESHOLD_S = 120"

text \<open>
  \<open>_claim_tasks\<close> for one task: the task as the job sees it when the claim was won. The fields of a
  task that is not durable are set on the shared object.
\<close>

definition claim_task :: "string \<Rightarrow> secs \<Rightarrow> cron_task \<Rightarrow> cron_store \<Rightarrow> cron_task option \<times> cron_store" where
  "claim_task kernel_id now t st =
     (let mine = (\<lambda>t. t\<lparr>running_by := Some kernel_id, running_heartbeat := Some now\<rparr>)
      in if \<not> durable t then (Some (mine t), update_object (ct_id t) mine st)
         else let (rows, n) = sql_update (ct_id t)
                    (\<lambda>r. rw_running_by r = None \<and> rw_status r = status_value Active)
                    (\<lambda>r. r\<lparr>rw_running_by := Some kernel_id, rw_running_heartbeat := Some now\<rparr>) (st_rows st)
              in (if 0 < n then Some (mine t) else None, st\<lparr>st_rows := rows\<rparr>))"

definition release_task :: "string \<Rightarrow> string \<Rightarrow> cron_store \<Rightarrow> cron_store" where
  "release_task kernel_id i st =
     st\<lparr>st_rows := fst (sql_update i (\<lambda>r. rw_running_by r = Some kernel_id)
                     (\<lambda>r. r\<lparr>rw_running_by := None, rw_running_heartbeat := None\<rparr>) (st_rows st))\<rparr>"

definition heartbeat :: "string \<Rightarrow> secs \<Rightarrow> string \<Rightarrow> cron_store \<Rightarrow> cron_store" where
  "heartbeat kernel_id now i st =
     st\<lparr>st_rows := fst (sql_update i (\<lambda>r. rw_running_by r = Some kernel_id)
                     (\<lambda>r. r\<lparr>rw_running_heartbeat := Some now\<rparr>) (st_rows st))\<rparr>"

definition stale :: "secs \<Rightarrow> cron_row \<Rightarrow> bool" where
  "stale now r \<longleftrightarrow>
     rw_running_by r \<noteq> None
     \<and> (case rw_running_heartbeat r of None \<Rightarrow> False | Some h \<Rightarrow> h < now - HEARTBEAT_STALE_THRESHOLD_S)"

definition cleanup_stale_claims :: "secs \<Rightarrow> cron_store \<Rightarrow> cron_store" where
  "cleanup_stale_claims now st =
     st\<lparr>st_rows := map (\<lambda>(i, r). (i, if stale now r then r\<lparr>rw_running_by := None, rw_running_heartbeat := None\<rparr>
                                     else r)) (st_rows st)\<rparr>"

section \<open>Lemmas\<close>

lemma map_of_sql_update:
  "map_of (fst (sql_update i p f d)) j =
     (if j = i then map_option (\<lambda>r. if p r then f r else r) (map_of d i) else map_of d j)"
  by (induction i p f d rule: sql_update.induct) (auto simp: split_def Let_def)

lemma keys_sql_update [simp]: "map fst (fst (sql_update i p f d)) = map fst d"
  by (induction i p f d rule: sql_update.induct) (auto simp: split_def Let_def)

lemma sql_update_count:
  "snd (sql_update i p f d) = (case map_of d i of None \<Rightarrow> 0 | Some r \<Rightarrow> of_bool (p r))"
  by (induction i p f d rule: sql_update.induct) (auto simp: split_def Let_def split: option.splits)

lemma map_of_cleanup:
  "map_of (st_rows (cleanup_stale_claims now st)) i =
     map_option (\<lambda>r. if stale now r then r\<lparr>rw_running_by := None, rw_running_heartbeat := None\<rparr> else r)
       (map_of (st_rows st) i)"
  by (simp add: cleanup_stale_claims_def map_of_map comp_def)

text \<open>What \<open>loads\<close> makes of a row does not touch the columns the claim protocol reads.\<close>

lemma row_to_task_fields:
  assumes "row_to_task loads r = Inr t"
  shows "ct_id t = rw_id r" "durable t = (rw_durable r \<noteq> 0)" "running_by t = rw_running_by r"
    "recurring t = (rw_recurring r \<noteq> 0)" "created_at t = rw_created_at r"
    "fire_count t = rw_fire_count r" "max_count (ct_repeat t) = repeat_max_count r"
    "next_fire_at t = rw_next_fire_at r"
  using assms by (auto simp: row_to_task_def ebind_Inr_iff)

lemma row_to_task_status: "row_to_task loads r = Inr t \<Longrightarrow> status_value (ct_status t) = rw_status r"
  by (auto simp: row_to_task_def ebind_Inr_iff CronTaskStatus_def split: if_splits)

lemma map_py_set: "map_py f xs = Inr ys \<Longrightarrow> y \<in> set ys \<Longrightarrow> \<exists>x \<in> set xs. f x = Inr y"
proof (induction xs arbitrary: ys)
  case (Cons x xs)
  then show ?case by (auto simp: ebind_Inr_iff)
qed simp

end
