(* ===== verification/Cron_Scheduler.thy ===== *)
theory Cron_Scheduler
  imports Cron_Store
begin

text \<open>
  The scheduler (\<open>schedule/scheduler.py\<close>) and the operations of \<open>ScheduleManager\<close>
  (\<open>schedule/__init__.py\<close>), and the steps of several kernels that share one database. What a task
  does while it executes is outside: an execution ends with a \<^typ>\<open>cron_execution\<close> record.
\<close>

record cron_env =
  ce_time :: time_lib
  ce_loads :: "string \<Rightarrow> string list py"
  ce_dumps :: "string list \<Rightarrow> string"
  ce_max_concurrent :: nat
  ce_max_jobs :: nat

section \<open>After an execution\<close>

text \<open>The task a job refers to: its own copy of a row, or the shared object.\<close>

definition resolve :: "cron_store \<Rightarrow> cron_task \<Rightarrow> cron_task" where
  "resolve st t =
     (if durable t then t
      else case map_of (st_objects st) (ct_id t) of None \<Rightarrow> t | Some obj \<Rightarrow> obj)"

definition alert_due :: "cron_task \<Rightarrow> int \<Rightarrow> secs \<Rightarrow> bool" where
  "alert_due t failures now =
     (case failure_alert t of
        None \<Rightarrow> False
      | Some a \<Rightarrow> al_after a \<le> failures
          \<and> (case last_failure_alert_at t of None \<Rightarrow> True | Some l \<Rightarrow> al_cooldown a \<le> now - l))"

text \<open>
  \<open>_handle_failure\<close>. The executor that \<open>ScheduleManager\<close> builds always has a delivery router, and
  \<open>deliver_alert\<close> raises nothing.
\<close>

definition handle_failure :: "time_lib \<Rightarrow> secs \<Rightarrow> cron_task \<Rightarrow> string \<Rightarrow> cron_store \<Rightarrow> cron_store" where
  "handle_failure lib now task error st =
     (let t = resolve st task; i = ct_id t;
          failures = consecutive_failures t + 1;
          backoff_next = now + backoff_delay failures;
          alert = (\<lambda>st1. if alert_due t failures now
                         then update_status i (ct_status (resolve st1 task)) None None (Some (Some now)) st1
                         else st1)
      in if recurring t
         then (case compute_next_fire lib (ct_schedule t) now of
                 Inl _ \<Rightarrow>
                   if 3 \<le> failures then update_status i Paused (Some None) (Some failures) None st
                   else alert (update_status i Active (Some (Some (max (now + 300) backoff_next)))
                                 (Some failures) None st)
               | Inr natural_next \<Rightarrow>
                   alert (update_status i Active (Some (Some (max natural_next backoff_next)))
                            (Some failures) None st))
         else if is_transient_error error \<and> failures \<le> ONESHOT_MAX_TRANSIENT_RETRIES
         then alert (update_status i Active (Some (Some backoff_next)) (Some failures) None st)
         else alert (update_status i Paused (Some None) (Some failures) None st))"

text \<open>The part of \<open>_fire_task\<close> after a successful execution. It reads the repeat count of the task again.\<close>

definition settle_success :: "time_lib \<Rightarrow> secs \<Rightarrow> cron_task \<Rightarrow> cron_store \<Rightarrow> cron_store py" where
  "settle_success lib now task st =
     (let t = resolve st task; i = ct_id t
      in if recurring t
         then ebind (compute_next_fire lib (ct_schedule t) now) (\<lambda>next_at.
           let st1 = update_fired i now (Some next_at) st;
               t1 = resolve st1 task
           in Inr (if is_exhausted (ct_repeat t1) (fire_count t1 + 1) (created_at t1) now
                   then update_status i Completed (Some None) None None st1 else st1))
         else Inr (update_status i Completed (Some None) None None (update_fired i now None st)))"

definition execution_ok :: "cron_execution \<Rightarrow> bool" where
  "execution_ok e \<longleftrightarrow> ex_status e \<in> {''completed'', ''running''}"

text \<open>\<open>_fire_task\<close> from the end of the execution on.\<close>

definition settle_task :: "time_lib \<Rightarrow> string \<Rightarrow> secs \<Rightarrow> cron_task \<Rightarrow> cron_execution \<Rightarrow> cron_store \<Rightarrow> cron_store" where
  "settle_task lib kernel_id now task e st =
     (let st0 = (case add_execution e st of Inl _ \<Rightarrow> st | Inr st' \<Rightarrow> st');
          st1 = (if execution_ok e
                 then case settle_success lib now task st0 of
                        Inr st' \<Rightarrow> st'
                      | Inl (PyExn m) \<Rightarrow> handle_failure lib now task m st0
                 else handle_failure lib now task (or_else (ex_error e) [] ''unknown error'') st0)
      in release_task kernel_id (ct_id task) st1)"

section \<open>One tick of the loop\<close>

definition MAX_SLEEP_S :: secs where
  "MAX_SLEEP_S = 60"

definition is_due :: "secs \<Rightarrow> cron_task \<Rightarrow> bool" where
  "is_due now t =
     (case next_fire_at t of None \<Rightarrow> False | Some n \<Rightarrow> running_by t = None \<and> n \<le> now)"

fun soonest_fire :: "secs \<Rightarrow> cron_task list \<Rightarrow> secs option" where
  "soonest_fire now [] = None"
| "soonest_fire now (t # ts) =
     (case next_fire_at t of
        None \<Rightarrow> soonest_fire now ts
      | Some n \<Rightarrow>
          if running_by t \<noteq> None \<or> n \<le> now then soonest_fire now ts
          else case soonest_fire now ts of None \<Rightarrow> Some n | Some m \<Rightarrow> Some (min n m))"

definition sleep_delay :: "secs \<Rightarrow> secs option \<Rightarrow> secs" where
  "sleep_delay now soonest =
     max (case soonest of None \<Rightarrow> MAX_SLEEP_S | Some n \<Rightarrow> min (n - now) MAX_SLEEP_S) (1 / 10)"

definition is_expired :: "secs \<Rightarrow> cron_task \<Rightarrow> bool" where
  "is_expired now t \<longleftrightarrow> recurring t \<and> 0 < max_age_seconds t
     \<and> (case last_fired_at t of None \<Rightarrow> False | Some l \<Rightarrow> max_age_seconds t < now - l)"

definition expire_tasks :: "secs \<Rightarrow> cron_task list \<Rightarrow> cron_store \<Rightarrow> cron_store" where
  "expire_tasks now active st =
     fold (\<lambda>t. update_status (ct_id t) Expired (Some None) None None) (filter (is_expired now) active) st"

text \<open>\<open>_schedule_loop\<close> from the start of a tick to \<open>_fire_batch\<close>: the due tasks.\<close>

definition tick :: "cron_env \<Rightarrow> secs \<Rightarrow> cron_store \<Rightarrow> (cron_task list \<times> cron_store) py" where
  "tick env now st =
     (let st1 = cleanup_stale_claims now st
      in ebind (list_active (ce_loads env) st1) (\<lambda>active.
           Inr (filter (is_due now) active, expire_tasks now active st1)))"

section \<open>Catch-up at startup\<close>

definition is_missed :: "secs \<Rightarrow> cron_task \<Rightarrow> bool" where
  "is_missed now t =
     (case next_fire_at t of None \<Rightarrow> False | Some n \<Rightarrow> n < now \<and> running_by t = None)"

definition missed_tasks :: "cron_env \<Rightarrow> secs \<Rightarrow> cron_store \<Rightarrow> (cron_task list \<times> cron_store) py" where
  "missed_tasks env now st =
     (let st1 = cleanup_stale_claims now st
      in ebind (list_active (ce_loads env) st1) (\<lambda>active. Inr (filter (is_missed now) active, st1)))"

text \<open>
  One round of the loop of \<open>handle_startup_catchup\<close>; \<open>listed_at\<close> is its \<open>now\<close>, read once before the
  loop. The task is skipped to its next fire, or claimed and handed out to be fired.
\<close>

definition catch_up :: "time_lib \<Rightarrow> string \<Rightarrow> secs \<Rightarrow> secs \<Rightarrow> cron_task \<Rightarrow> cron_store \<Rightarrow> cron_task option \<times> cron_store" where
  "catch_up lib kernel_id listed_at now task st =
     (let t = resolve st task
      in if recurring t \<and> \<not> is_exhausted (ct_repeat t) (fire_count t) (created_at t) listed_at
         then (None, case compute_next_fire lib (ct_schedule t) listed_at of
                       Inl _ \<Rightarrow> st
                     | Inr n \<Rightarrow> update_status (ct_id t) Active (Some (Some n)) None None st)
         else claim_task kernel_id now task st)"

section \<open>Operations of the manager\<close>

record create_args =
  ca_expr :: string
  ca_prompt :: string
  ca_description :: string
  ca_recurring :: "bool option"
  ca_durable :: bool
  ca_skills :: "string list"
  ca_model :: "string option"
  ca_delivery :: string
  ca_repeat :: repeat_config
  ca_session :: "string option"
  ca_project :: "string option"

definition new_task :: "string \<Rightarrow> secs \<Rightarrow> create_args \<Rightarrow> schedule \<Rightarrow> bool \<Rightarrow> secs \<Rightarrow> cron_task" where
  "new_task new_id now a sch rec first_fire =
     \<lparr>ct_id = new_id, ct_schedule = sch, ct_prompt = ca_prompt a, ct_description = ca_description a,
      recurring = rec, durable = ca_durable a, ct_skills = ca_skills a, ct_model = ca_model a,
      timeout_seconds = 1800, inactivity_timeout_seconds = 600,
      ct_delivery = \<lparr>dl_target = ca_delivery a, on_failure = True, silent_pattern = []\<rparr>,
      ct_session = ca_session a, project_dir = ca_project a, created_at = now,
      last_fired_at = None, next_fire_at = Some first_fire, ct_status = Active,
      fire_count = 0, consecutive_failures = 0, ct_repeat = ca_repeat a, max_age_seconds = 604800,
      failure_alert = None, last_failure_alert_at = None, running_by = None, running_heartbeat = None\<rparr>"

definition create_task :: "cron_env \<Rightarrow> secs \<Rightarrow> string \<Rightarrow> create_args \<Rightarrow> cron_store \<Rightarrow> (cron_task \<times> cron_store) py" where
  "create_task env now new_id a st =
     ebind (list_active (ce_loads env) st) (\<lambda>active.
     if ce_max_jobs env \<le> length active then Inl (PyExn ''ValueError'')
     else ebind (parse_schedule (ce_time env) now (ca_expr a)) (\<lambda>sch.
       let rec = (case ca_recurring a of None \<Rightarrow> sch_kind sch \<in> {Cron, Every} | Some b \<Rightarrow> b)
       in if sch_kind sch = At \<and> rec then Inl (PyExn ''ValueError'')
          else ebind (if sch_kind sch = At then Inr (run_at sch) else compute_next_fire (ce_time env) sch now)
            (\<lambda>first_fire.
             let t = new_task new_id now a sch rec first_fire
             in ebind (store_add (ce_dumps env) t st) (\<lambda>st'. Inr (t, st')))))"

definition delete_task :: "string \<Rightarrow> cron_store \<Rightarrow> bool \<times> cron_store" where
  "delete_task i st = store_remove i st"

definition pause_task :: "cron_env \<Rightarrow> string \<Rightarrow> cron_store \<Rightarrow> (bool \<times> cron_store) py" where
  "pause_task env i st =
     ebind (store_get (ce_loads env) i st) (\<lambda>found.
       case found of
         None \<Rightarrow> Inr (False, st)
       | Some t \<Rightarrow> if ct_status t \<noteq> Active then Inr (False, st)
                   else Inr (True, update_status i Paused (Some None) None None st))"

definition resume_task :: "cron_env \<Rightarrow> secs \<Rightarrow> string \<Rightarrow> cron_store \<Rightarrow> (bool \<times> cron_store) py" where
  "resume_task env now i st =
     ebind (store_get (ce_loads env) i st) (\<lambda>found.
       case found of
         None \<Rightarrow> Inr (False, st)
       | Some t \<Rightarrow>
           if ct_status t \<noteq> Paused then Inr (False, st)
           else ebind (compute_next_fire (ce_time env) (ct_schedule t) now) (\<lambda>n.
             Inr (True, update_status i Active (Some (Some n)) (Some 0) None st)))"

section \<open>Several kernels\<close>

text \<open>
  A kernel is the memory side of its store and the places a task can be in: due in the current
  tick and not claimed yet, claimed and waiting for the semaphore of \<open>_fire_batch\<close>, executing in the
  batch, missed before the start and not yet looked at by the catch-up (\<open>kn_listed_at\<close> is the time of
  that list, once it is made), or executing for the catch-up.
\<close>

record cron_kernel =
  kn_objects :: "(string, cron_task) dict"
  kn_memory :: "string list"
  kn_due :: "cron_task list"
  kn_waiting :: "cron_task list"
  kn_batch :: "cron_task list"
  kn_missed :: "cron_task list"
  kn_listed_at :: "secs option"
  kn_catching :: "cron_task option"

definition idle_kernel :: cron_kernel where
  "idle_kernel = \<lparr>kn_objects = [], kn_memory = [], kn_due = [], kn_waiting = [], kn_batch = [],
     kn_missed = [], kn_listed_at = None, kn_catching = None\<rparr>"

text \<open>
  The world: the database, the kernels by their id, the clock, and as a record of what happened
  the ids given to tasks, the executions begun (kernel and task) and those that counted as successes (task).
\<close>

record cron_world =
  cw_rows :: "(string, cron_row) dict"
  cw_executions :: "cron_execution list"
  cw_kernels :: "string \<Rightarrow> cron_kernel"
  cw_now :: secs
  cw_ids :: "string list"
  cw_begun :: "(string \<times> string) list"
  cw_succeeded :: "string list"

definition empty_world :: "secs \<Rightarrow> cron_world" where
  "empty_world now = \<lparr>cw_rows = [], cw_executions = [], cw_kernels = (\<lambda>_. idle_kernel), cw_now = now, cw_ids = [],
     cw_begun = [], cw_succeeded = []\<rparr>"

definition view :: "cron_world \<Rightarrow> string \<Rightarrow> cron_store" where
  "view w k = \<lparr>st_rows = cw_rows w, st_executions = cw_executions w,
     st_objects = kn_objects (cw_kernels w k), st_memory = kn_memory (cw_kernels w k)\<rparr>"

definition put :: "string \<Rightarrow> cron_store \<Rightarrow> (cron_kernel \<Rightarrow> cron_kernel) \<Rightarrow> cron_world \<Rightarrow> cron_world" where
  "put k st f w = w\<lparr>cw_rows := st_rows st, cw_executions := st_executions st,
     cw_kernels := (cw_kernels w)(k := f (cw_kernels w k\<lparr>kn_objects := st_objects st, kn_memory := st_memory st\<rparr>))\<rparr>"

datatype cron_action =
    Pass secs
  | Create string string create_args
  | Remove string string
  | Pause string string
  | Resume string string
  | Scan string
  | Claim string
  | Start string
  | Beat string string
  | Finish string cron_task cron_execution
  | Startup string
  | CatchUp string
  | CatchFinish string cron_execution
  | Trigger string cron_execution
  | Crash string

text \<open>The tasks a kernel executes, and those it has claimed.\<close>

definition executing :: "cron_kernel \<Rightarrow> cron_task list" where
  "executing kn = kn_batch kn @ (case kn_catching kn of None \<Rightarrow> [] | Some t \<Rightarrow> [t])"

definition claimed :: "cron_kernel \<Rightarrow> cron_task list" where
  "claimed kn = kn_waiting kn @ executing kn"

definition begun :: "string \<Rightarrow> cron_task option \<Rightarrow> cron_world \<Rightarrow> cron_world" where
  "begun k t w = (case t of None \<Rightarrow> w | Some t \<Rightarrow> w\<lparr>cw_begun := cw_begun w @ [(k, ct_id t)]\<rparr>)"

text \<open>An execution that is counted: it succeeded, and the next fire of a recurring task can be computed.\<close>

definition counted :: "time_lib \<Rightarrow> secs \<Rightarrow> cron_task \<Rightarrow> cron_execution \<Rightarrow> cron_store \<Rightarrow> bool" where
  "counted lib now task e st \<longleftrightarrow> execution_ok e \<and>
     (let t = resolve st task in recurring t \<longrightarrow> \<not> isl (compute_next_fire lib (ct_schedule t) now))"

definition settled :: "cron_env \<Rightarrow> string \<Rightarrow> cron_task \<Rightarrow> cron_execution \<Rightarrow> (cron_kernel \<Rightarrow> cron_kernel)
    \<Rightarrow> cron_world \<Rightarrow> cron_world" where
  "settled env k t e f w =
     (let w1 = put k (settle_task (ce_time env) k (cw_now w) t e (view w k)) f w
      in if counted (ce_time env) (cw_now w) t e (view w k)
         then w1\<lparr>cw_succeeded := cw_succeeded w1 @ [ct_id t]\<rparr> else w1)"

text \<open>
  The id of a new task is a random UUID: no task was given it before. Between the statements
  of one operation of the manager, and between those that settle one execution, no other step
  is taken; between a tick's list of due tasks, its claims and the executions any other may be. The catch-up
  makes its list before the manager has served a request, so no task is in memory then.
\<close>

inductive cron_step :: "cron_env \<Rightarrow> cron_world \<Rightarrow> cron_action \<Rightarrow> cron_world \<Rightarrow> bool" for env where
  pass: "0 \<le> d \<Longrightarrow> cron_step env w (Pass d) (w\<lparr>cw_now := cw_now w + d\<rparr>)"
| create: "i \<notin> set (cw_ids w) \<Longrightarrow>
    create_task env (cw_now w) i a (view w k) = Inr (t, st) \<Longrightarrow>
    cron_step env w (Create k i a) (put k st id (w\<lparr>cw_ids := cw_ids w @ [i]\<rparr>))"
| remove: "delete_task i (view w k) = (ok, st) \<Longrightarrow> cron_step env w (Remove k i) (put k st id w)"
| pause: "pause_task env i (view w k) = Inr (ok, st) \<Longrightarrow> cron_step env w (Pause k i) (put k st id w)"
| resume: "resume_task env (cw_now w) i (view w k) = Inr (ok, st) \<Longrightarrow> cron_step env w (Resume k i) (put k st id w)"
| scan: "kn_due (cw_kernels w k) = [] \<Longrightarrow> kn_waiting (cw_kernels w k) = [] \<Longrightarrow> kn_batch (cw_kernels w k) = [] \<Longrightarrow>
    tick env (cw_now w) (view w k) = Inr (due, st) \<Longrightarrow>
    cron_step env w (Scan k) (put k st (\<lambda>kn. kn\<lparr>kn_due := due\<rparr>) w)"
| claim: "kn_due (cw_kernels w k) = t # ts \<Longrightarrow> claim_task k (cw_now w) t (view w k) = (won, st) \<Longrightarrow>
    cron_step env w (Claim k)
      (put k st (\<lambda>kn. kn\<lparr>kn_due := ts,
                         kn_waiting := kn_waiting kn @ (case won of None \<Rightarrow> [] | Some t \<Rightarrow> [t])\<rparr>) w)"
| start: "kn_due (cw_kernels w k) = [] \<Longrightarrow> kn_waiting (cw_kernels w k) = t # ts \<Longrightarrow>
    length (kn_batch (cw_kernels w k)) < ce_max_concurrent env \<Longrightarrow>
    cron_step env w (Start k)
      (begun k (Some t) (put k (view w k) (\<lambda>kn. kn\<lparr>kn_waiting := ts, kn_batch := kn_batch kn @ [t]\<rparr>) w))"
| beat: "t \<in> set (executing (cw_kernels w k)) \<Longrightarrow>
    cron_step env w (Beat k (ct_id t)) (put k (heartbeat k (cw_now w) (ct_id t) (view w k)) id w)"
| finish: "t \<in> set (kn_batch (cw_kernels w k)) \<Longrightarrow>
    cron_step env w (Finish k t e) (settled env k t e (\<lambda>kn. kn\<lparr>kn_batch := remove1 t (kn_batch kn)\<rparr>) w)"
| startup: "kn_listed_at (cw_kernels w k) = None \<Longrightarrow> kn_objects (cw_kernels w k) = [] \<Longrightarrow>
    missed_tasks env (cw_now w) (view w k) = Inr (ts, st) \<Longrightarrow>
    cron_step env w (Startup k) (put k st (\<lambda>kn. kn\<lparr>kn_missed := ts, kn_listed_at := Some (cw_now w)\<rparr>) w)"
| catchup: "kn_missed (cw_kernels w k) = t # ts \<Longrightarrow> kn_catching (cw_kernels w k) = None \<Longrightarrow>
    kn_listed_at (cw_kernels w k) = Some listed_at \<Longrightarrow>
    catch_up (ce_time env) k listed_at (cw_now w) t (view w k) = (won, st) \<Longrightarrow>
    cron_step env w (CatchUp k)
      (begun k won (put k st (\<lambda>kn. kn\<lparr>kn_missed := ts, kn_catching := won\<rparr>) w))"
| catchfinish: "kn_catching (cw_kernels w k) = Some t \<Longrightarrow>
    cron_step env w (CatchFinish k e) (settled env k t e (\<lambda>kn. kn\<lparr>kn_catching := None\<rparr>) w)"
| trigger: "add_execution e (view w k) = Inr st \<Longrightarrow> cron_step env w (Trigger k e) (put k st id w)"
| crash: "cron_step env w (Crash k) (w\<lparr>cw_kernels := (cw_kernels w)(k := idle_kernel)\<rparr>)"

inductive_simps cron_step_simps:
  "cron_step env w (Pass d) w'" "cron_step env w (Create k i a) w'" "cron_step env w (Remove k i) w'"
  "cron_step env w (Pause k i) w'" "cron_step env w (Resume k i) w'" "cron_step env w (Scan k) w'"
  "cron_step env w (Claim k) w'" "cron_step env w (Start k) w'" "cron_step env w (Beat k i) w'"
  "cron_step env w (Finish k t e) w'" "cron_step env w (Startup k) w'" "cron_step env w (CatchUp k) w'"
  "cron_step env w (CatchFinish k e) w'" "cron_step env w (Trigger k e) w'" "cron_step env w (Crash k) w'"

text \<open>A run whose states after each step all satisfy \<open>P\<close>, and whose steps satisfy \<open>Q\<close>.\<close>

inductive cron_run :: "cron_env \<Rightarrow> (cron_world \<Rightarrow> bool) \<Rightarrow> (cron_world \<Rightarrow> cron_action \<Rightarrow> bool)
    \<Rightarrow> cron_world \<Rightarrow> cron_action list \<Rightarrow> cron_world \<Rightarrow> bool" for env P Q where
  run_nil: "cron_run env P Q w [] w"
| run_cons: "Q w a \<Longrightarrow> cron_step env w a w1 \<Longrightarrow> P w1 \<Longrightarrow> cron_run env P Q w1 as w2 \<Longrightarrow>
    cron_run env P Q w (a # as) w2"

inductive_simps cron_run_simps: "cron_run env P Q w [] w'" "cron_run env P Q w (a # as) w'"

text \<open>No claimed task of a row has gone without a heartbeat for more than two minutes.\<close>

definition timely :: "cron_world \<Rightarrow> bool" where
  "timely w \<longleftrightarrow>
     (\<forall>k t r. t \<in> set (claimed (cw_kernels w k)) \<longrightarrow> map_of (cw_rows w) (ct_id t) = Some r \<longrightarrow> \<not> stale (cw_now w) r)"

section \<open>What the operations keep\<close>

text \<open>Rows and task objects that differ at most in what the claims and the repeat limit do not rest on.\<close>

definition claim_key :: "cron_row \<Rightarrow> string \<times> int \<times> string option \<times> secs option \<times> int option" where
  "claim_key r = (rw_id r, rw_durable r, rw_running_by r, rw_running_heartbeat r, repeat_max_count r)"

definition object_key :: "cron_task \<Rightarrow> string \<times> bool \<times> string option" where
  "object_key t = (ct_id t, durable t, running_by t)"

definition frame :: "cron_store \<Rightarrow> cron_store \<Rightarrow> bool" where
  "frame st st' \<longleftrightarrow>
     map_option claim_key \<circ> map_of (st_rows st') = map_option claim_key \<circ> map_of (st_rows st)
     \<and> map_option object_key \<circ> map_of (st_objects st') = map_option object_key \<circ> map_of (st_objects st)
     \<and> set (st_memory st') \<subseteq> set (st_memory st) \<and> (distinct (st_memory st) \<longrightarrow> distinct (st_memory st'))
     \<and> map fst (st_rows st') = map fst (st_rows st)"

named_theorems frames \<open>operations that leave the claims alone\<close>

lemma frame_refl [simp]: "frame st st"
  by (simp add: frame_def)

lemma frame_trans: "frame a b \<Longrightarrow> frame b c \<Longrightarrow> frame a c"
  unfolding frame_def by auto

lemma frame_update_row:
  assumes "\<And>r. claim_key (f r) = claim_key r"
  shows "frame st (update_row i f st)"
  using assms by (auto simp: frame_def map_of_sql_update option.map_comp comp_def fun_eq_iff)

lemma frame_update_object:
  assumes "\<And>t. object_key (f t) = object_key t"
  shows "frame st (update_object i f st)"
  using assms by (auto simp: frame_def update_object_def fun_eq_iff split: option.splits)

lemma frame_update_status [frames]: "frame st (update_status i status n c a st)"
  unfolding update_status_def
  by (auto intro!: frame_update_row frame_update_object simp: claim_key_def object_key_def)

lemma frame_update_fired [frames]: "frame st (update_fired i t n st)"
  unfolding update_fired_def
  by (auto intro!: frame_update_row frame_update_object simp: claim_key_def object_key_def)

lemma frame_remove [frames]: "delete_task i st = (ok, st') \<Longrightarrow> frame st st'"
  using frame_update_object [of "\<lambda>t. t\<lparr>ct_status := Deleted\<rparr>" st i]
    frame_update_row [of "\<lambda>r. r\<lparr>rw_status := status_value Deleted\<rparr>" st i]
  by (auto simp: delete_task_def store_remove_def split_def Let_def claim_key_def object_key_def frame_def distinct_removeAll split: if_splits)

lemma frame_add_execution [frames]: "add_execution e st = Inr st' \<Longrightarrow> frame st st'"
  using frame_refl [of st] unfolding frame_def add_execution_def by (simp split: if_splits) auto

lemma frame_update_twice [frames]:
  "frame st (update_status i status n c a (update_status j status' n' c' a' st))"
  by (rule frame_trans [OF frame_update_status frame_update_status])

lemma frame_handle_failure [frames]: "frame st (handle_failure lib now t m st)"
  unfolding handle_failure_def Let_def by (simp add: frames split: sum.splits)

lemma frame_settle_success [frames]: "settle_success lib now t st = Inr st' \<Longrightarrow> frame st st'"
  by (auto simp: settle_success_def Let_def ebind_Inr_iff
      intro: frames frame_trans [OF frame_update_fired frame_update_status] split: if_splits)

lemma frame_expire [frames]: "frame st (expire_tasks now ts st)"
proof -
  have "frame st (fold (\<lambda>t. update_status (ct_id t) Expired (Some None) None None) ts st)" for ts
  proof (induction ts arbitrary: st)
    case (Cons t ts)
    show ?case
      using frame_trans [OF frame_update_status Cons.IH] by simp
  qed simp
  then show ?thesis by (simp add: expire_tasks_def)
qed

text \<open>Settling an execution is a change of that kind followed by the release.\<close>

lemma settle_task_release:
  "\<exists>st1. frame st st1 \<and> settle_task lib k now t e st = release_task k (ct_id t) st1"
proof -
  define st0 where "st0 = (case add_execution e st of Inl _ \<Rightarrow> st | Inr st' \<Rightarrow> st')"
  have 0: "frame st st0"
    by (auto simp: st0_def intro: frames split: sum.splits)
  have "frame st0 (case settle_success lib now t st0 of Inr st' \<Rightarrow> st' | Inl (PyExn m) \<Rightarrow> handle_failure lib now t m st0)"
    by (auto intro: frames split: sum.splits py_exn.splits)
  then show ?thesis
    unfolding settle_task_def Let_def st0_def [symmetric]
    using frame_trans [OF 0] frame_handle_failure [of st0] by (cases "execution_ok e") (simp; blast)+
qed

lemma frame_pause [frames]: "pause_task env i st = Inr (ok, st') \<Longrightarrow> frame st st'"
  by (auto simp: pause_task_def ebind_Inr_iff intro: frames split: option.splits if_splits)

lemma frame_resume [frames]: "resume_task env now i st = Inr (ok, st') \<Longrightarrow> frame st st'"
  by (auto simp: resume_task_def ebind_Inr_iff intro: frames split: option.splits if_splits)

text \<open>The coarser relation that claiming and releasing keep as well.\<close>

definition store_shape :: "cron_store \<Rightarrow> cron_store \<Rightarrow> bool" where
  "store_shape st st' \<longleftrightarrow>
     map_option (\<lambda>r. (rw_id r, rw_durable r)) \<circ> map_of (st_rows st')
       = map_option (\<lambda>r. (rw_id r, rw_durable r)) \<circ> map_of (st_rows st)
     \<and> map_option (\<lambda>t. (ct_id t, durable t)) \<circ> map_of (st_objects st')
       = map_option (\<lambda>t. (ct_id t, durable t)) \<circ> map_of (st_objects st)
     \<and> set (st_memory st') \<subseteq> set (st_memory st) \<and> map fst (st_rows st') = map fst (st_rows st)"

lemma shape_refl [simp]: "store_shape st st"
  by (simp add: store_shape_def)

lemma shape_trans: "store_shape a b \<Longrightarrow> store_shape b c \<Longrightarrow> store_shape a c"
  unfolding store_shape_def by auto

lemma frame_shape:
  assumes "frame st st'"
  shows "store_shape st st'"
proof -
  have "map_option (\<lambda>r. (rw_id r, rw_durable r)) x = map_option (\<lambda>(i, d, _). (i, d)) (map_option claim_key x)" for x
    by (cases x) (simp_all add: claim_key_def)
  moreover have "map_option (\<lambda>t. (ct_id t, durable t)) x = map_option (\<lambda>(i, d, _). (i, d)) (map_option object_key x)" for x
    by (cases x) (simp_all add: object_key_def)
  ultimately show ?thesis
    using assms unfolding frame_def store_shape_def by (simp add: fun_eq_iff)
qed

lemma shape_sql_update:
  assumes "\<And>r. rw_id (f r) = rw_id r \<and> rw_durable (f r) = rw_durable r"
  shows "store_shape st (st\<lparr>st_rows := fst (sql_update i p f (st_rows st))\<rparr>)"
  using assms by (auto simp: store_shape_def map_of_sql_update option.map_comp comp_def fun_eq_iff intro: option.map_cong)

lemma shape_claim:
  assumes "claim_task k now t st = (won, st')"
  shows "store_shape st st'"
proof (cases "durable t")
  case True
  then show ?thesis
    using assms shape_sql_update [of "\<lambda>r. r\<lparr>rw_running_by := Some k, rw_running_heartbeat := Some now\<rparr>" st]
    by (auto simp: claim_task_def Let_def split_def)
next
  case False
  then show ?thesis
    using assms by (auto simp: claim_task_def update_object_def store_shape_def fun_eq_iff split: option.splits)
qed

lemma shape_release: "store_shape st (release_task k i st)"
  by (simp add: release_task_def shape_sql_update)

lemma shape_heartbeat: "store_shape st (heartbeat k now i st)"
  by (simp add: heartbeat_def shape_sql_update)

lemma shape_cleanup: "store_shape st (cleanup_stale_claims now st)"
  by (auto simp: store_shape_def map_of_cleanup option.map_comp comp_def fun_eq_iff intro: option.map_cong)
     (simp_all add: cleanup_stale_claims_def comp_def split_def)

lemma shape_settle: "store_shape st (settle_task lib k now t e st)"
  using settle_task_release [of st lib k now t e] by (metis frame_shape shape_release shape_trans)

section \<open>Well-formed worlds\<close>

definition known :: "cron_store \<Rightarrow> cron_task \<Rightarrow> bool" where
  "known st t \<longleftrightarrow> (if durable t then map_of (st_rows st) (ct_id t) \<noteq> None
                  else map_of (st_objects st) (ct_id t) \<noteq> None)"

definition wf_store :: "string set \<Rightarrow> cron_store \<Rightarrow> bool" where
  "wf_store ids st \<longleftrightarrow>
     (\<forall>i r. map_of (st_rows st) i = Some r \<longrightarrow> rw_id r = i \<and> rw_durable r \<noteq> 0 \<and> i \<in> ids)
     \<and> (\<forall>i t. map_of (st_objects st) i = Some t \<longrightarrow>
           ct_id t = i \<and> \<not> durable t \<and> i \<in> ids \<and> map_of (st_rows st) i = None)
     \<and> (\<forall>i \<in> set (st_memory st). map_of (st_objects st) i \<noteq> None)
     \<and> distinct (map fst (st_rows st))"

definition tasks :: "cron_kernel \<Rightarrow> cron_task list" where
  "tasks kn = kn_due kn @ kn_missed kn @ claimed kn"

definition wf_world :: "cron_world \<Rightarrow> bool" where
  "wf_world w \<longleftrightarrow> (\<forall>k. wf_store (set (cw_ids w)) (view w k) \<and> (\<forall>t \<in> set (tasks (cw_kernels w k)). known (view w k) t))"

lemma key_None: "map_option f \<circ> g = map_option f \<circ> h \<Longrightarrow> g i = None \<longleftrightarrow> h i = None"
  by (drule fun_cong [of _ _ i]) (cases "g i"; cases "h i"; simp)

lemma key_Some: "map_option f \<circ> g = map_option f \<circ> h \<Longrightarrow> g i = Some x \<Longrightarrow> \<exists>y. h i = Some y \<and> f x = f y"
  by (drule fun_cong [of _ _ i]) (cases "h i"; simp)

lemma shape_rows_None: "store_shape st st' \<Longrightarrow> map_of (st_rows st') i = None \<longleftrightarrow> map_of (st_rows st) i = None"
  unfolding store_shape_def by (elim conjE) (rule key_None)

lemma shape_objects_None: "store_shape st st' \<Longrightarrow> map_of (st_objects st') i = None \<longleftrightarrow> map_of (st_objects st) i = None"
  unfolding store_shape_def by (elim conjE) (rule key_None)

lemma shape_known: "store_shape st st' \<Longrightarrow> known st' t \<longleftrightarrow> known st t"
  by (simp add: known_def shape_rows_None shape_objects_None)

lemma shape_row:
  "store_shape st st' \<Longrightarrow> map_of (st_rows st') i = Some r' \<Longrightarrow>
     \<exists>r. map_of (st_rows st) i = Some r \<and> rw_id r' = rw_id r \<and> rw_durable r' = rw_durable r"
  unfolding store_shape_def by (elim conjE, drule (1) key_Some) simp

lemma shape_object:
  "store_shape st st' \<Longrightarrow> map_of (st_objects st') i = Some t' \<Longrightarrow>
     \<exists>t. map_of (st_objects st) i = Some t \<and> ct_id t' = ct_id t \<and> durable t' = durable t"
  unfolding store_shape_def by (elim conjE, drule (1) key_Some) simp

lemma shape_wf:
  assumes "store_shape st st'" "wf_store ids st"
  shows "wf_store ids st'"
  unfolding wf_store_def
proof (intro conjI allI impI ballI)
  fix i r assume "map_of (st_rows st') i = Some r"
  with shape_row [OF assms(1)] assms(2) show "rw_id r = i" "rw_durable r \<noteq> 0" "i \<in> ids"
    by (fastforce simp: wf_store_def)+
next
  fix i t assume "map_of (st_objects st') i = Some t"
  then obtain t0 where "map_of (st_objects st) i = Some t0" "ct_id t = ct_id t0" "durable t = durable t0"
    using shape_object [OF assms(1)] by blast
  with assms(2) show "ct_id t = i" "\<not> durable t" "i \<in> ids" "map_of (st_rows st') i = None"
    by (auto simp: wf_store_def shape_rows_None [OF assms(1)])
next
  fix i assume "i \<in> set (st_memory st')"
  then have "i \<in> set (st_memory st)" using assms(1) by (auto simp: store_shape_def)
  then show "map_of (st_objects st') i \<noteq> None"
    using assms(2) unfolding shape_objects_None [OF assms(1)] by (simp add: wf_store_def)
next
  show "distinct (map fst (st_rows st'))" using assms by (simp add: store_shape_def wf_store_def)
qed


lemma wf_rowsD: "wf_store ids st \<Longrightarrow> r \<in> set (map snd (st_rows st)) \<Longrightarrow> map_of (st_rows st) (rw_id r) = Some r \<and> rw_durable r \<noteq> 0"
  by (auto simp: wf_store_def)

lemma list_active_known:
  assumes "wf_store ids st" "list_active loads st = Inr ts" "t \<in> set ts"
  shows "known st t"
proof -
  from assms(2) obtain rs where
    rs: "map_py (row_to_task loads) (filter (\<lambda>r. rw_status r = status_value Active) (map snd (st_rows st))) = Inr rs"
      "ts = rs @ filter (\<lambda>t. ct_status t = Active) (memory_tasks st)"
    by (auto simp: list_active_def ebind_Inr_iff)
  show ?thesis
  proof (cases "t \<in> set rs")
    case True
    with rs(1) map_py_set obtain r where r: "r \<in> set (map snd (st_rows st))" "row_to_task loads r = Inr t"
      by fastforce
    with wf_rowsD [OF assms(1)] row_to_task_fields [OF r(2)] show ?thesis by (simp add: known_def)
  next
    case False
    with rs(2) assms(3) obtain i where "map_of (st_objects st) i = Some t"
      by (auto simp: memory_tasks_def List.map_filter_def)
    with assms(1) show ?thesis by (auto simp: wf_store_def known_def)
  qed
qed

definition keeps_store :: "(cron_kernel \<Rightarrow> cron_kernel) \<Rightarrow> bool" where
  "keeps_store f \<longleftrightarrow> (\<forall>kn. kn_objects (f kn) = kn_objects kn \<and> kn_memory (f kn) = kn_memory kn)"

lemma view_put: "keeps_store f \<Longrightarrow>
  view (put k st f w) j = (if j = k then st else (view w j)\<lparr>st_rows := st_rows st, st_executions := st_executions st\<rparr>)"
  by (cases st) (simp add: view_def put_def keeps_store_def)

lemma kernels_put: "j \<noteq> k \<Longrightarrow> cw_kernels (put k st f w) j = cw_kernels w j"
  by (simp add: put_def)

lemma ids_put [simp]: "cw_ids (put k st f w) = cw_ids w"
  by (simp add: put_def)

lemma rows_put [simp]: "cw_rows (put k st f w) = st_rows st"
  by (simp add: put_def)

lemma rows_view [simp]: "st_rows (view w k) = cw_rows w"
  by (simp add: view_def)

lemma shape_other: "store_shape (view w k) st \<Longrightarrow>
  store_shape (view w j) ((view w j)\<lparr>st_rows := st_rows st, st_executions := e\<rparr>)"
  by (auto simp: store_shape_def view_def)

lemma wf_put:
  assumes "wf_world w" "store_shape (view w k) st" "keeps_store f"
    "\<And>t. t \<in> set (tasks (f (cw_kernels w k\<lparr>kn_objects := st_objects st, kn_memory := st_memory st\<rparr>))) \<Longrightarrow> known st t"
  shows "wf_world (put k st f w)"
  unfolding wf_world_def
proof (intro allI conjI ballI)
  fix j
  show "wf_store (set (cw_ids (put k st f w))) (view (put k st f w) j)"
    using assms(1) shape_wf [OF assms(2)] shape_wf [OF shape_other [OF assms(2)]]
    by (auto simp: view_put [OF assms(3)] wf_world_def)
  fix t assume t: "t \<in> set (tasks (cw_kernels (put k st f w) j))"
  show "known (view (put k st f w) j) t"
  proof (cases "j = k")
    case True
    with t assms(4) show ?thesis by (simp add: view_put [OF assms(3)]) (simp add: put_def)
  next
    case False
    with t assms(1) show ?thesis
      by (simp add: view_put [OF assms(3)] kernels_put shape_known [OF shape_other [OF assms(2)]] wf_world_def)
  qed
qed

lemma wf_more [simp]:
  "wf_world (w\<lparr>cw_now := t\<rparr>) = wf_world w" "wf_world (w\<lparr>cw_begun := b\<rparr>) = wf_world w" "wf_world (w\<lparr>cw_succeeded := c\<rparr>) = wf_world w"
  by (simp_all add: wf_world_def view_def)

lemma wf_begun [simp]: "wf_world (begun k t w) = wf_world w"
  by (simp add: begun_def split: option.split)

lemma wf_settled: "wf_world (settled env k t e f w) =
    wf_world (put k (settle_task (ce_time env) k (cw_now w) t e (view w k)) f w)"
  by (simp add: settled_def Let_def)

text \<open>A kernel's lists of tasks without the store.\<close>

lemma tasks_store [simp]: "tasks (kn\<lparr>kn_objects := os, kn_memory := ms\<rparr>) = tasks kn"
  by (simp add: tasks_def claimed_def executing_def)

lemma wf_known: "wf_world w \<Longrightarrow> t \<in> set (tasks (cw_kernels w k)) \<Longrightarrow> known (view w k) t"
  by (simp add: wf_world_def)

lemma wf_put_more:
  assumes "wf_world w" "store_shape (view w k) st" "keeps_store f"
    "\<And>kn. set (tasks (f kn)) \<subseteq> set (tasks kn) \<union> N" "\<And>t. t \<in> N \<Longrightarrow> known st t"
  shows "wf_world (put k st f w)"
  using assms wf_known [OF assms(1)]
  by (intro wf_put) (auto simp: shape_known [OF assms(2)] dest: subsetD [OF assms(4)])

lemmas wf_put_fewer = wf_put_more [where N = "{}", simplified]

lemma wf_fresh:
  assumes "wf_store ids st" "i \<notin> ids"
  shows "map_of (st_rows st) i = None" "map_of (st_objects st) i = None"
proof -
  show "map_of (st_rows st) i = None"
    using assms by (cases "map_of (st_rows st) i") (auto simp: wf_store_def)
  show "map_of (st_objects st) i = None"
    using assms by (cases "map_of (st_objects st) i") (auto simp: wf_store_def)
qed

text \<open>A task added under a new id, as its kernel and as another kernel sees it.\<close>

lemma wf_store_row:
  assumes "wf_store ids st" "i \<notin> ids" "rw_id r = i" "rw_durable r \<noteq> 0"
  shows "wf_store (insert i ids) (st\<lparr>st_rows := dict_set i r (st_rows st), st_executions := e\<rparr>)"
proof -
  have "i \<notin> set (st_memory st)"
    using wf_fresh [OF assms(1,2)] assms(1) by (auto simp: wf_store_def)
  moreover have "t = t' \<Longrightarrow> map_of (st_objects st) j = Some t \<Longrightarrow> j \<noteq> i" for j t t'
    using wf_fresh [OF assms(1,2)] by auto
  ultimately show ?thesis
    using assms by (simp add: wf_store_def)
qed

lemma wf_store_object:
  assumes "wf_store ids st" "i \<notin> ids" "ct_id t = i" "\<not> durable t"
    "set ms \<subseteq> insert i (set (st_memory st))"
  shows "wf_store (insert i ids) (st\<lparr>st_objects := dict_set i t (st_objects st), st_memory := ms\<rparr>)"
  using assms wf_fresh [OF assms(1,2)] by (simp add: wf_store_def) (safe; fastforce)

lemma wf_store_mono: "wf_store ids st \<Longrightarrow> wf_store (insert i ids) (st\<lparr>st_executions := e\<rparr>)"
  by (simp add: wf_store_def)

lemma create_task_added:
  assumes "create_task env now i a st = Inr (t, st')"
  shows "store_add (ce_dumps env) t st = Inr st'" "ct_id t = i" "running_by t = None"
    "ct_repeat t = ca_repeat a" "fire_count t = 0"
  using assms by (auto simp: create_task_def ebind_Inr_iff Let_def new_task_def split: if_splits)

lemma known_mono:
  "known st t \<Longrightarrow> dom (map_of (st_rows st)) \<subseteq> dom (map_of (st_rows st')) \<Longrightarrow>
     dom (map_of (st_objects st)) \<subseteq> dom (map_of (st_objects st')) \<Longrightarrow> known st' t"
  by (auto simp: known_def split: if_splits)

lemma wf_create:
  assumes "wf_world w" "create_task env now i a (view w k) = Inr (t, st)" "i \<notin> set (cw_ids w)"
  shows "wf_world (put k st id (w\<lparr>cw_ids := cw_ids w @ [i]\<rparr>))"
proof -
  let ?w = "put k st id (w\<lparr>cw_ids := cw_ids w @ [i]\<rparr>)"
  note add = create_task_added(1,2) [OF assms(2)]
  have keep: "keeps_store id" by (simp add: keeps_store_def)
  have v: "view (w\<lparr>cw_ids := ids\<rparr>) j = view w j" for ids j by (simp add: view_def)
  have old: "wf_store (set (cw_ids w)) (view w j)" for j using assms(1) by (simp add: wf_world_def)
  have stores: "wf_store (insert i (set (cw_ids w))) (view ?w j)" for j
  proof (cases "durable t")
    case True
    with add have st: "st = (view w k)\<lparr>st_rows := dict_set i (task_to_row (ce_dumps env) t) (cw_rows w)\<rparr>"
      by (auto simp: store_add_def split: if_splits)
    have "wf_store (insert i (set (cw_ids w)))
        ((view w j)\<lparr>st_rows := dict_set i (task_to_row (ce_dumps env) t) (st_rows (view w j)), st_executions := cw_executions w\<rparr>)"
      by (rule wf_store_row [OF old assms(3)]) (use True add in \<open>simp_all add: task_to_row_def\<close>)
    with st show ?thesis by (simp add: view_put [OF keep] v) (auto simp: view_def)
  next
    case False
    with add have st: "st_rows st = cw_rows w" "st_executions st = cw_executions w"
        "\<exists>ms. st = (view w k)\<lparr>st_objects := dict_set i t (st_objects (view w k)), st_memory := ms\<rparr>
              \<and> set ms \<subseteq> insert i (set (st_memory (view w k)))"
      by (auto simp: store_add_def view_def split: if_splits)
    from st(3) obtain ms where "set ms \<subseteq> insert i (set (st_memory (view w k)))"
        "st = (view w k)\<lparr>st_objects := dict_set i t (st_objects (view w k)), st_memory := ms\<rparr>"
      by blast
    with wf_store_object [OF old assms(3) add(2) False] have "wf_store (insert i (set (cw_ids w))) st" by blast
    moreover have "(view w j)\<lparr>st_rows := cw_rows w, st_executions := cw_executions w\<rparr> = view w j"
      by (simp add: view_def)
    ultimately show ?thesis
      using wf_store_mono [OF old [of j], of i "cw_executions w"] st by (simp add: view_put [OF keep] v) (simp add: view_def)
  qed
  have "known (view ?w j) t'" if "t' \<in> set (tasks (cw_kernels w j))" for j t'
    by (rule known_mono [OF wf_known [OF assms(1) that]])
       (use add in \<open>auto simp: put_def store_add_def view_def split: if_splits\<close>)
  with stores show ?thesis
    by (simp add: wf_world_def insert_absorb) (auto simp: put_def)
qed


lemma keeps_store_simps [simp]:
  "keeps_store id" "keeps_store (\<lambda>kn. kn\<lparr>kn_due := d\<rparr>)" "keeps_store (\<lambda>kn. kn\<lparr>kn_due := d, kn_waiting := g kn\<rparr>)"
  "keeps_store (\<lambda>kn. kn\<lparr>kn_waiting := d, kn_batch := g kn\<rparr>)" "keeps_store (\<lambda>kn. kn\<lparr>kn_batch := g kn\<rparr>)"
  "keeps_store (\<lambda>kn. kn\<lparr>kn_missed := d, kn_listed_at := l\<rparr>)"
  "keeps_store (\<lambda>kn. kn\<lparr>kn_missed := d, kn_catching := c\<rparr>)" "keeps_store (\<lambda>kn. kn\<lparr>kn_catching := c\<rparr>)"
  by (simp_all add: keeps_store_def)

lemma shape_catch_up: "catch_up lib k l now t st = (won, st') \<Longrightarrow> store_shape st st'"
  by (auto simp: catch_up_def Let_def intro: frame_shape frames shape_claim split: if_splits sum.splits)

lemma shape_tick: "tick env now st = Inr (due, st') \<Longrightarrow> store_shape st st'"
  by (auto simp: tick_def Let_def ebind_Inr_iff intro: shape_trans [OF shape_cleanup frame_shape [OF frame_expire]])

lemma shape_missed: "missed_tasks env now st = Inr (ts, st') \<Longrightarrow> store_shape st st'"
  by (auto simp: missed_tasks_def Let_def ebind_Inr_iff shape_cleanup)

lemma tick_known:
  assumes "wf_store ids st" "tick env now st = Inr (due, st')" "t \<in> set due"
  shows "known st' t"
  using assms list_active_known [OF shape_wf [OF shape_cleanup assms(1)]]
  by (auto simp: tick_def Let_def ebind_Inr_iff shape_known [OF frame_shape [OF frame_expire]])

lemma missed_known:
  assumes "wf_store ids st" "missed_tasks env now st = Inr (ts, st')" "t \<in> set ts"
  shows "known st' t"
  using assms list_active_known [OF shape_wf [OF shape_cleanup assms(1)]]
  by (auto simp: missed_tasks_def Let_def ebind_Inr_iff)

lemma claim_won: "claim_task k now t st = (Some t', st') \<Longrightarrow> ct_id t' = ct_id t \<and> durable t' = durable t"
  by (auto simp: claim_task_def Let_def split_def split: if_splits)

lemma catch_up_won: "catch_up lib k l now t st = (Some t', st') \<Longrightarrow> claim_task k now t st = (Some t', st')"
  by (auto simp: catch_up_def Let_def split: if_splits)

lemma known_cong: "ct_id t' = ct_id t \<Longrightarrow> durable t' = durable t \<Longrightarrow> known st t' = known st t"
  by (simp add: known_def)

lemmas task_lists = tasks_def claimed_def executing_def

lemma wf_storeD: "wf_world w \<Longrightarrow> wf_store (set (cw_ids w)) (view w k)"
  by (simp add: wf_world_def)

lemma claim_known:
  "claim_task k now t st = (Some t', st') \<Longrightarrow> known st t \<Longrightarrow> known st' t'"
  using claim_won [of k now t st t' st'] shape_known [OF shape_claim, of k now t st "Some t'" st' t]
  by (cases "durable t") (simp_all add: known_def)

lemma wf_crash:
  assumes "wf_world w"
  shows "wf_world (w\<lparr>cw_kernels := (cw_kernels w)(k := idle_kernel)\<rparr>)" (is "wf_world ?w")
proof -
  have view: "view ?w j = (if j = k then (view w k)\<lparr>st_objects := [], st_memory := []\<rparr> else view w j)" for j
    by (simp add: view_def idle_kernel_def)
  have "wf_store (set (cw_ids w)) ((view w k)\<lparr>st_objects := [], st_memory := []\<rparr>)"
    using wf_storeD [OF assms, of k] by (simp add: wf_store_def)
  moreover have "tasks idle_kernel = []" by (simp add: task_lists idle_kernel_def)
  ultimately show ?thesis
    using assms unfolding wf_world_def view by simp
qed

lemma step_wf: "cron_step env w a w' \<Longrightarrow> wf_world w \<Longrightarrow> wf_world w'"
proof (induction rule: cron_step.induct)
  case (create i w a k t st)
  then show ?case by (simp add: wf_create)
next
  case (scan w k due st)
  then show ?case
    by (intro wf_put_more [where N = "set due"])
       (auto simp: shape_tick task_lists intro: tick_known [OF wf_storeD])
next
  case (claim w k t ts won st)
  then have "known (view w k) t" "\<And>ta. ta \<in> set ts \<Longrightarrow> known st ta"
    by (auto intro!: wf_known simp: tasks_def shape_known [OF shape_claim [OF claim(2)]])
  with claim show ?case
    by (intro wf_put_more [where N = "set_option won \<union> set ts"])
       (auto simp: shape_claim task_lists wf_known intro: claim_known split: option.splits)
next
  case (catchup w k t ts l won st)
  then have "known (view w k) t" "\<And>ta. ta \<in> set ts \<Longrightarrow> known st ta"
    by (auto intro!: wf_known simp: tasks_def shape_known [OF shape_catch_up [OF catchup(4)]])
  with catchup show ?case
    by (simp, intro wf_put_more [where N = "set_option won \<union> set ts"])
       (auto simp: shape_catch_up task_lists wf_known intro: claim_known [OF catch_up_won] split: option.splits)
next
  case (startup w k ts st)
  then show ?case
    by (intro wf_put_more [where N = "set ts"])
       (auto simp: shape_missed task_lists intro: missed_known [OF wf_storeD])
next
  case (start w k t ts)
  then have "known (view w k) t" by (auto intro!: wf_known simp: task_lists)
  with start show ?case
    by (simp, intro wf_put_more [where N = "insert t (set ts)"])
       (auto simp: task_lists wf_known split: option.splits)
next
  case (crash w k)
  then show ?case by (simp add: wf_crash)
qed (auto intro!: wf_put_fewer intro: frame_shape frames shape_settle shape_heartbeat
      simp: task_lists wf_settled dest: subsetD [OF set_remove1_subset] split: option.splits)


end
