(* ===== verification/Cron_Claims.thy ===== *)
theory Cron_Claims
  imports Cron_Scheduler "HOL-Library.Multiset"
begin

text \<open>
  What the claim protocol of the scheduler achieves when several kernels share one database, and
  where it does not.
\<close>

section \<open>Who holds a task\<close>

definition holder :: "(string, cron_row) dict \<Rightarrow> string \<Rightarrow> string option" where
  "holder rows i = Option.bind (map_of rows i) rw_running_by"

lemma holder_frame: "frame st st' \<Longrightarrow> holder (st_rows st') = holder (st_rows st)"
proof
  fix i
  assume "frame st st'"
  then have "map_option claim_key (map_of (st_rows st') i) = map_option claim_key (map_of (st_rows st) i)"
    by (simp add: frame_def fun_eq_iff)
  then show "holder (st_rows st') i = holder (st_rows st) i"
    by (cases "map_of (st_rows st) i"; cases "map_of (st_rows st') i") (simp_all add: holder_def claim_key_def)
qed

lemma holder_sql_update:
  "holder (fst (sql_update i p f rows)) j =
     (if j = i then Option.bind (map_of rows i) (\<lambda>r. rw_running_by (if p r then f r else r)) else holder rows j)"
  by (cases "map_of rows i") (simp_all add: holder_def map_of_sql_update)

lemma holder_release:
  "holder (st_rows (release_task k i st)) j =
     (if j = i \<and> holder (st_rows st) i = Some k then None else holder (st_rows st) j)"
  by (cases "map_of (st_rows st) i") (simp_all add: release_task_def holder_sql_update, simp_all add: holder_def)

lemma holder_heartbeat: "holder (st_rows (heartbeat k now i st)) = holder (st_rows st)"
  by (rule ext, cases "map_of (st_rows st) i") (simp_all add: heartbeat_def holder_sql_update, simp_all add: holder_def)

lemma holder_cleanup:
  "holder (st_rows (cleanup_stale_claims now st)) i =
     (case map_of (st_rows st) i of None \<Rightarrow> None | Some r \<Rightarrow> if stale now r then None else rw_running_by r)"
  by (simp add: holder_def map_of_cleanup split: option.split)

lemma holder_claim:
  assumes "claim_task k now t st = (won, st')"
  shows "holder (st_rows st') =
           (if won \<noteq> None \<and> durable t then (holder (st_rows st))(ct_id t := Some k) else holder (st_rows st))"
    and "won \<noteq> None \<Longrightarrow> durable t \<Longrightarrow> holder (st_rows st) (ct_id t) = None"
proof -
  show "holder (st_rows st') =
           (if won \<noteq> None \<and> durable t then (holder (st_rows st))(ct_id t := Some k) else holder (st_rows st))"
    using assms
    by (cases "map_of (st_rows st) (ct_id t)")
       (auto simp: claim_task_def Let_def split_def map_of_sql_update sql_update_count fun_eq_iff update_object_def
         holder_def split: if_splits option.splits)
  show "won \<noteq> None \<Longrightarrow> durable t \<Longrightarrow> holder (st_rows st) (ct_id t) = None"
    using assms
    by (cases "map_of (st_rows st) (ct_id t)")
       (auto simp: claim_task_def Let_def split_def sql_update_count holder_def split: if_splits)
qed

lemma holder_create:
  assumes "create_task env now i a st = Inr (t, st')" "map_of (st_rows st) i = None"
  shows "holder (st_rows st') = holder (st_rows st)"
  using create_task_added [OF assms(1)] assms(2)
  by (auto simp: store_add_def holder_def fun_eq_iff task_to_row_def split: if_splits)

lemma holder_settle:
  "holder (st_rows (settle_task lib k now t e st)) j =
     (if j = ct_id t \<and> holder (st_rows st) j = Some k then None else holder (st_rows st) j)"
proof -
  obtain st1 where "frame st st1" "settle_task lib k now t e st = release_task k (ct_id t) st1"
    using settle_task_release by blast
  then show ?thesis by (auto simp: holder_release holder_frame)
qed

lemma holder_catch_up:
  assumes "catch_up lib k l now t st = (won, st')"
  shows "holder (st_rows st') =
           (if won \<noteq> None \<and> durable t then (holder (st_rows st))(ct_id t := Some k) else holder (st_rows st))"
    and "won \<noteq> None \<Longrightarrow> durable t \<Longrightarrow> holder (st_rows st) (ct_id t) = None"
  using assms holder_claim [of k now t st won st'] holder_frame [OF frame_update_status]
  by (auto simp: catch_up_def Let_def split: if_splits sum.splits)

section \<open>A claim is exclusive\<close>

text \<open>Every claimed task of a row is held by its kernel, once.\<close>

definition exclusive :: "cron_world \<Rightarrow> bool" where
  "exclusive w \<longleftrightarrow> (\<forall>k.
     (\<forall>t \<in> set (claimed (cw_kernels w k)). durable t \<longrightarrow> holder (cw_rows w) (ct_id t) = Some k)
     \<and> distinct (map ct_id (filter durable (claimed (cw_kernels w k)))))"

lemma exclusive_putI:
  assumes "exclusive w"
    and "\<And>t. t \<in> set (claimed kn') \<Longrightarrow> durable t \<Longrightarrow> holder (st_rows st) (ct_id t) = Some k"
    and "distinct (map ct_id (filter durable (claimed kn')))"
    and "\<And>j t. j \<noteq> k \<Longrightarrow> holder (cw_rows w) (ct_id t) = Some j \<Longrightarrow> t \<in> set (claimed (cw_kernels w j)) \<Longrightarrow>
           durable t \<Longrightarrow> holder (st_rows st) (ct_id t) = Some j"
    and "kn' = f (cw_kernels w k\<lparr>kn_objects := st_objects st, kn_memory := st_memory st\<rparr>)"
  shows "exclusive (put k st f w)"
  using assms unfolding exclusive_def by (auto simp: put_def)

text \<open>The three ways a step can change what a kernel has claimed.\<close>

lemma exclusive_same:
  assumes "exclusive w" "holder (st_rows st) = holder (cw_rows w)" "mset (claimed kn') = mset (claimed (cw_kernels w k))"
    "kn' = f (cw_kernels w k\<lparr>kn_objects := st_objects st, kn_memory := st_memory st\<rparr>)"
  shows "exclusive (put k st f w)"
proof (rule exclusive_putI [where kn' = kn', OF assms(1)])
  show "\<And>t. t \<in> set (claimed kn') \<Longrightarrow> durable t \<Longrightarrow> holder (st_rows st) (ct_id t) = Some k"
    using assms(1-3) by (simp add: exclusive_def mset_eq_setD [OF assms(3)])
  have "mset (map ct_id (filter durable (claimed kn'))) = mset (map ct_id (filter durable (claimed (cw_kernels w k))))"
    using assms(3) by simp
  then show "distinct (map ct_id (filter durable (claimed kn')))"
    using assms(1) mset_eq_imp_distinct_iff by (fastforce simp: exclusive_def)
qed (simp add: assms(2), rule assms(4))

lemma exclusive_gain:
  assumes "exclusive w" "mset (claimed kn') = add_mset t (mset (claimed (cw_kernels w k)))"
    "holder (st_rows st) = (if durable t then (holder (cw_rows w))(ct_id t := Some k) else holder (cw_rows w))"
    "durable t \<Longrightarrow> holder (cw_rows w) (ct_id t) = None"
    "kn' = f (cw_kernels w k\<lparr>kn_objects := st_objects st, kn_memory := st_memory st\<rparr>)"
  shows "exclusive (put k st f w)"
proof (rule exclusive_putI [where kn' = kn', OF assms(1)])
  have set: "set (claimed kn') = insert t (set (claimed (cw_kernels w k)))"
    using assms(2) by (metis set_mset_add_mset_insert set_mset_mset)
  then show "\<And>t'. t' \<in> set (claimed kn') \<Longrightarrow> durable t' \<Longrightarrow> holder (st_rows st) (ct_id t') = Some k"
    using assms(1,3) by (fastforce simp: exclusive_def)
  have "mset (filter durable (claimed kn')) = filter_mset durable (add_mset t (mset (claimed (cw_kernels w k))))"
    using assms(2) by (metis mset_filter)
  then have "mset (map ct_id (filter durable (claimed kn'))) =
      mset ((if durable t then [ct_id t] else []) @ map ct_id (filter durable (claimed (cw_kernels w k))))"
    by (simp add: mset_filter)
  moreover have "ct_id t \<notin> ct_id ` set (filter durable (claimed (cw_kernels w k)))" if "durable t"
    using assms(1,4) that by (auto simp: exclusive_def)
  moreover from this have "distinct ((if durable t then [ct_id t] else []) @ map ct_id (filter durable (claimed (cw_kernels w k))))"
    using assms(1) by (auto simp: exclusive_def)
  ultimately show "distinct (map ct_id (filter durable (claimed kn')))"
    by (metis mset_eq_imp_distinct_iff)
  show "\<And>j t'. j \<noteq> k \<Longrightarrow> holder (cw_rows w) (ct_id t') = Some j \<Longrightarrow> holder (st_rows st) (ct_id t') = Some j"
    using assms(3,4) by auto
qed (rule assms(5))

lemma exclusive_lose:
  assumes "exclusive w" "mset (claimed (cw_kernels w k)) = add_mset t (mset (claimed kn'))"
    "\<And>j. holder (st_rows st) j =
       (if j = ct_id t \<and> holder (cw_rows w) j = Some k then None else holder (cw_rows w) j)"
    "\<not> durable t \<Longrightarrow> holder (cw_rows w) (ct_id t) = None"
    "kn' = f (cw_kernels w k\<lparr>kn_objects := st_objects st, kn_memory := st_memory st\<rparr>)"
  shows "exclusive (put k st f w)"
proof (rule exclusive_putI [where kn' = kn', OF assms(1)])
  have "mset (filter durable (claimed (cw_kernels w k))) = filter_mset durable (add_mset t (mset (claimed kn')))"
    using assms(2) by (metis mset_filter)
  then have "mset (map ct_id (filter durable (claimed (cw_kernels w k)))) =
      mset ((if durable t then [ct_id t] else []) @ map ct_id (filter durable (claimed kn')))"
    by (simp add: mset_filter)
  moreover have "distinct (map ct_id (filter durable (claimed (cw_kernels w k))))"
    using assms(1) by (simp add: exclusive_def)
  ultimately have dist: "distinct ((if durable t then [ct_id t] else []) @ map ct_id (filter durable (claimed kn')))"
    by (metis mset_eq_imp_distinct_iff)
  then show "distinct (map ct_id (filter durable (claimed kn')))" by simp
  fix t' assume t': "t' \<in> set (claimed kn')" "durable t'"
  then have "t' \<in> set (claimed (cw_kernels w k))"
    using assms(2) by (metis insert_iff set_mset_add_mset_insert set_mset_mset)
  then have hold: "holder (cw_rows w) (ct_id t') = Some k" using assms(1) t' by (simp add: exclusive_def)
  have "ct_id t' \<noteq> ct_id t"
  proof (cases "durable t")
    case True
    from t' have "ct_id t' \<in> ct_id ` set (filter durable (claimed kn'))" by simp
    with dist True show ?thesis by auto
  next
    case False
    with assms(4) hold show ?thesis by auto
  qed
  with hold show "holder (st_rows st) (ct_id t') = Some k" by (simp add: assms(3))
qed (simp add: assms(3), rule assms(5))

lemma exclusive_more [simp]:
  "exclusive (w\<lparr>cw_now := t\<rparr>) = exclusive w" "exclusive (w\<lparr>cw_begun := b\<rparr>) = exclusive w"
  "exclusive (w\<lparr>cw_succeeded := c\<rparr>) = exclusive w" "exclusive (w\<lparr>cw_ids := i\<rparr>) = exclusive w"
  "exclusive (begun k won w) = exclusive w"
  "exclusive (settled env k t' e f w) = exclusive (put k (settle_task (ce_time env) k (cw_now w) t' e (view w k)) f w)"
  by (simp_all add: exclusive_def begun_def settled_def Let_def split: option.split)

lemma holder_tick:
  assumes "tick env (cw_now w) (view w k) = Inr (due, st) \<or> missed_tasks env (cw_now w) (view w k) = Inr (due, st)"
    "timely w" "exclusive w" "t \<in> set (claimed (cw_kernels w j))" "durable t"
  shows "holder (st_rows st) (ct_id t) = holder (cw_rows w) (ct_id t)"
proof -
  have "holder (st_rows st) = holder (st_rows (cleanup_stale_claims (cw_now w) (view w k)))"
    using assms(1) holder_frame [OF frame_expire]
    by (auto simp: tick_def missed_tasks_def Let_def ebind_Inr_iff)
  moreover have "holder (cw_rows w) (ct_id t) = Some j"
    using assms(3-5) by (simp add: exclusive_def)
  then obtain r where "map_of (cw_rows w) (ct_id t) = Some r" "rw_running_by r = Some j"
    by (cases "map_of (cw_rows w) (ct_id t)") (simp_all add: holder_def)
  moreover from this assms(2,4) have "\<not> stale (cw_now w) r" by (auto simp: timely_def)
  then have "holder (st_rows (cleanup_stale_claims (cw_now w) (view w k))) (ct_id t) = rw_running_by r"
    using \<open>map_of (cw_rows w) (ct_id t) = Some r\<close> by (simp add: holder_cleanup)
  ultimately show ?thesis by (simp add: holder_def)
qed

lemma exclusive_tick:
  assumes "tick env (cw_now w) (view w k) = Inr (due, st) \<or> missed_tasks env (cw_now w) (view w k) = Inr (due, st)"
    "timely w" "exclusive w" "\<And>kn. claimed (f kn) = claimed kn"
  shows "exclusive (put k st f w)"
proof -
  have "claimed (cw_kernels w k\<lparr>kn_objects := os, kn_memory := ms\<rparr>) = claimed (cw_kernels w k)" for os ms
    by (simp add: claimed_def executing_def)
  with assms(3,4) holder_tick [OF assms(1-3)] show ?thesis
    by (intro exclusive_putI [OF assms(3) _ _ _ refl]) (auto simp: exclusive_def)
qed

lemma nondurable_unheld:
  assumes "wf_world w" "t \<in> set (tasks (cw_kernels w k))" "\<not> durable t"
  shows "holder (cw_rows w) (ct_id t) = None"
proof -
  from wf_known [OF assms(1,2)] assms(3) obtain t' where "map_of (st_objects (view w k)) (ct_id t) = Some t'"
    by (auto simp: known_def)
  with wf_storeD [OF assms(1), of k] have "map_of (cw_rows w) (ct_id t) = None"
    by (simp add: wf_store_def)
  then show ?thesis by (simp add: holder_def)
qed

lemma step_exclusive:
  "cron_step env w a w' \<Longrightarrow> wf_world w \<Longrightarrow> timely w \<Longrightarrow> exclusive w \<Longrightarrow> exclusive w'"
proof (induction rule: cron_step.induct)
  case (create i w a k t st)
  then have "map_of (st_rows (view w k)) i = None" using wf_fresh [OF wf_storeD [OF create(3)]] by simp
  with create show ?case by (intro exclusive_same [OF _ _ _ refl]) (auto dest: holder_create simp: claimed_def executing_def)
next
  case (scan w k due st)
  then show ?case by (intro exclusive_tick) (auto simp: claimed_def executing_def)
next
  case (startup w k ts st)
  then show ?case by (intro exclusive_tick) (auto simp: claimed_def executing_def)
next
  case (claim w k t ts won st)
  show ?case
  proof (cases won)
    case None
    with claim holder_claim(1) [OF claim(2)] show ?thesis by (intro exclusive_same [OF _ _ _ refl]) (auto simp: claimed_def executing_def)
  next
    case (Some t')
    with claim claim_won [of k "cw_now w" t "view w k" t' st] holder_claim [OF claim(2)] show ?thesis
      by (intro exclusive_gain [where t = t', OF _ _ _ _ refl]) (auto simp: claimed_def executing_def)
  qed
next
  case (catchup w k t ts l won st)
  show ?case
  proof (cases won)
    case None
    with catchup holder_catch_up(1) [OF catchup(4)] show ?thesis by (simp, intro exclusive_same [OF _ _ _ refl]) (auto simp: claimed_def executing_def)
  next
    case (Some t')
    with catchup(4) have "ct_id t' = ct_id t \<and> durable t' = durable t"
      using claim_won [OF catch_up_won] by blast
    with Some catchup holder_catch_up [OF catchup(4)] show ?thesis
      by (simp, intro exclusive_gain [where t = t', OF _ _ _ _ refl]) (auto simp: claimed_def executing_def)
  qed
next
  case (finish t w k e)
  then have "t \<in> set (tasks (cw_kernels w k))" by (simp add: task_lists)
  with finish show ?case
    by (simp, intro exclusive_lose [where t = t, OF _ _ _ _ refl])
       (auto simp: claimed_def executing_def holder_settle nondurable_unheld)
next
  case (catchfinish w k t e)
  then have "t \<in> set (tasks (cw_kernels w k))" by (simp add: task_lists)
  with catchfinish show ?case
    by (simp, intro exclusive_lose [where t = t, OF _ _ _ _ refl])
       (auto simp: claimed_def executing_def holder_settle nondurable_unheld)
next
  case (crash w k)
  then show ?case by (auto simp: exclusive_def claimed_def executing_def idle_kernel_def)
next
  case (remove i w k ok st)
  with holder_frame [OF frame_remove] show ?case
    by (intro exclusive_same [OF _ _ _ refl]) (auto simp: claimed_def executing_def)
next
  case (pause i w k ok st)
  with holder_frame [OF frame_pause] show ?case
    by (intro exclusive_same [OF _ _ _ refl]) (auto simp: claimed_def executing_def)
next
  case (resume w i k ok st)
  with holder_frame [OF frame_resume] show ?case
    by (intro exclusive_same [OF _ _ _ refl]) (auto simp: claimed_def executing_def)
next
  case (trigger e w k st)
  with holder_frame [OF frame_add_execution] show ?case
    by (intro exclusive_same [OF _ _ _ refl]) (auto simp: claimed_def executing_def)
qed (auto intro!: exclusive_same [OF _ _ _ refl] simp: holder_heartbeat claimed_def executing_def)

lemma empty_world_wf: "wf_world (empty_world now)" "exclusive (empty_world now)" "timely (empty_world now)"
  by (simp_all add: wf_world_def exclusive_def timely_def empty_world_def idle_kernel_def view_def wf_store_def
      task_lists)

lemma run_exclusive:
  "cron_run env timely Q w as w' \<Longrightarrow> wf_world w \<Longrightarrow> timely w \<Longrightarrow> exclusive w \<Longrightarrow>
     wf_world w' \<and> timely w' \<and> exclusive w'"
  by (induction rule: cron_run.induct) (auto intro: step_wf step_exclusive)

text \<open>
  C35. Two kernels never hold the same task. As long as no claimed task goes without a heartbeat for
  more than two minutes, a task of the database is claimed at most once at any time: whatever the
  kernels, the users and crashes do, two claims on the same task are one and the same job of one
  kernel.
\<close>

theorem claims_exclusive:
  assumes "cron_run env timely (\<lambda>_ _. True) (empty_world t0) as w"
    and "t \<in> set (claimed (cw_kernels w k))" "durable t"
    and "t' \<in> set (claimed (cw_kernels w k'))" "durable t'"
    and "ct_id t = ct_id t'"
  shows "k = k' \<and> t = t'"
proof -
  have ex: "exclusive w"
    using run_exclusive [OF assms(1)] empty_world_wf by blast
  with assms(2-6) have "Some k = Some k'" by (metis exclusive_def)
  moreover have "inj_on ct_id (set (filter durable (claimed (cw_kernels w k))))"
    using ex by (simp add: exclusive_def distinct_map)
  ultimately show ?thesis using assms(2-6) by (auto dest: inj_onD)
qed

section \<open>Running a schedule of steps\<close>

text \<open>The steps as a function, and the executable form of a timely run of a few kernels.\<close>

definition idle_loop :: "cron_kernel \<Rightarrow> bool" where
  "idle_loop kn \<longleftrightarrow> kn_due kn = [] \<and> kn_waiting kn = [] \<and> kn_batch kn = []"

fun exec_action :: "cron_env \<Rightarrow> cron_world \<Rightarrow> cron_action \<Rightarrow> cron_world option" where
  "exec_action env w (Pass d) = (if 0 \<le> d then Some (w\<lparr>cw_now := cw_now w + d\<rparr>) else None)"
| "exec_action env w (Create k i a) =
     (case create_task env (cw_now w) i a (view w k) of
        Inr (t, st) \<Rightarrow> if i \<in> set (cw_ids w) then None else Some (put k st id (w\<lparr>cw_ids := cw_ids w @ [i]\<rparr>))
      | Inl _ \<Rightarrow> None)"
| "exec_action env w (Remove k i) = (case delete_task i (view w k) of (ok, st) \<Rightarrow> Some (put k st id w))"
| "exec_action env w (Pause k i) =
     (case pause_task env i (view w k) of Inr (ok, st) \<Rightarrow> Some (put k st id w) | Inl _ \<Rightarrow> None)"
| "exec_action env w (Resume k i) =
     (case resume_task env (cw_now w) i (view w k) of Inr (ok, st) \<Rightarrow> Some (put k st id w) | Inl _ \<Rightarrow> None)"
| "exec_action env w (Scan k) =
     (case tick env (cw_now w) (view w k) of
        Inr (due, st) \<Rightarrow> if idle_loop (cw_kernels w k) then Some (put k st (\<lambda>kn. kn\<lparr>kn_due := due\<rparr>) w) else None
      | Inl _ \<Rightarrow> None)"
| "exec_action env w (Claim k) =
     (case kn_due (cw_kernels w k) of
        [] \<Rightarrow> None
      | t # ts \<Rightarrow>
          (case claim_task k (cw_now w) t (view w k) of
             (won, st) \<Rightarrow> Some (put k st (\<lambda>kn. kn\<lparr>kn_due := ts,
                kn_waiting := kn_waiting kn @ (case won of None \<Rightarrow> [] | Some t \<Rightarrow> [t])\<rparr>) w)))"
| "exec_action env w (Start k) =
     (case kn_waiting (cw_kernels w k) of
        [] \<Rightarrow> None
      | t # ts \<Rightarrow>
          if kn_due (cw_kernels w k) = [] \<and> length (kn_batch (cw_kernels w k)) < ce_max_concurrent env
          then Some (begun k (Some t) (put k (view w k) (\<lambda>kn. kn\<lparr>kn_waiting := ts, kn_batch := kn_batch kn @ [t]\<rparr>) w))
          else None)"
| "exec_action env w (Beat k i) =
     (if i \<in> ct_id ` set (executing (cw_kernels w k))
      then Some (put k (heartbeat k (cw_now w) i (view w k)) id w) else None)"
| "exec_action env w (Finish k t e) =
     (if t \<in> set (kn_batch (cw_kernels w k))
      then Some (settled env k t e (\<lambda>kn. kn\<lparr>kn_batch := remove1 t (kn_batch kn)\<rparr>) w) else None)"
| "exec_action env w (Crash k) = Some (w\<lparr>cw_kernels := (cw_kernels w)(k := idle_kernel)\<rparr>)"
| "exec_action env w _ = None"

lemma exec_action_step: "exec_action env w a = Some w' \<Longrightarrow> cron_step env w a w'"
  by (cases "(env, w, a)" rule: exec_action.cases)
     (auto simp: cron_step_simps idle_loop_def split: if_splits sum.splits prod.splits list.splits)

fun actor :: "cron_action \<Rightarrow> string option" where
  "actor (Pass d) = None"
| "actor (Create k _ _) = Some k"
| "actor (Remove k _) = Some k"
| "actor (Pause k _) = Some k"
| "actor (Resume k _) = Some k"
| "actor (Scan k) = Some k"
| "actor (Claim k) = Some k"
| "actor (Start k) = Some k"
| "actor (Beat k _) = Some k"
| "actor (Finish k _ _) = Some k"
| "actor (Startup k) = Some k"
| "actor (CatchUp k) = Some k"
| "actor (CatchFinish k _) = Some k"
| "actor (Trigger k _) = Some k"
| "actor (Crash k) = Some k"

definition idle_outside :: "string list \<Rightarrow> cron_world \<Rightarrow> bool" where
  "idle_outside ks w \<longleftrightarrow> (\<forall>k. k \<notin> set ks \<longrightarrow> cw_kernels w k = idle_kernel)"

definition timely_in :: "string list \<Rightarrow> cron_world \<Rightarrow> bool" where
  "timely_in ks w \<longleftrightarrow> list_all (\<lambda>k. list_all (\<lambda>t. case map_of (cw_rows w) (ct_id t) of
       None \<Rightarrow> True | Some r \<Rightarrow> \<not> stale (cw_now w) r) (claimed (cw_kernels w k))) ks"

fun exec_run :: "cron_env \<Rightarrow> (cron_world \<Rightarrow> bool) \<Rightarrow> (cron_world \<Rightarrow> cron_action \<Rightarrow> bool)
    \<Rightarrow> cron_world \<Rightarrow> cron_action list \<Rightarrow> cron_world option" where
  "exec_run env p q w [] = Some w"
| "exec_run env p q w (a # as) =
     (if q w a then case exec_action env w a of
                      None \<Rightarrow> None
                    | Some w1 \<Rightarrow> if p w1 then exec_run env p q w1 as else None
      else None)"

lemma timely_in: "idle_outside ks w \<Longrightarrow> timely_in ks w \<Longrightarrow> timely w"
  unfolding timely_def
proof (intro allI impI)
  fix k t r
  assume w: "idle_outside ks w" "timely_in ks w" "t \<in> set (claimed (cw_kernels w k))"
    "map_of (cw_rows w) (ct_id t) = Some r"
  then have "k \<in> set ks" by (cases "k \<in> set ks") (auto simp: idle_outside_def idle_kernel_def claimed_def executing_def)
  with w show "\<not> stale (cw_now w) r" by (fastforce simp: timely_in_def list_all_iff)
qed

lemma exec_run_sound: "exec_run env p q w as = Some w' \<Longrightarrow> cron_run env p q w as w'"
  by (induction as arbitrary: w) (auto intro: cron_run.intros exec_action_step split: if_splits option.splits)

lemma step_idle_outside:
  "cron_step env w a w' \<Longrightarrow> idle_outside ks w \<Longrightarrow> set_option (actor a) \<subseteq> set ks \<Longrightarrow> idle_outside ks w'"
  by (induction rule: cron_step.induct)
     (auto simp: idle_outside_def put_def begun_def settled_def Let_def split: option.splits)

lemma exec_run_timely:
  "exec_run env (timely_in ks) q w as = Some w' \<Longrightarrow> idle_outside ks w \<Longrightarrow>
     list_all (\<lambda>a. set_option (actor a) \<subseteq> set ks) as \<Longrightarrow> cron_run env timely q w as w'"
proof (induction as arbitrary: w)
  case Nil
  then show ?case by (simp add: cron_run.intros)
next
  case (Cons a as)
  then obtain w1 where w1: "q w a" "exec_action env w a = Some w1" "timely_in ks w1"
      "exec_run env (timely_in ks) q w1 as = Some w'"
    by (auto split: if_splits option.splits)
  have out: "idle_outside ks w1"
    using step_idle_outside [OF exec_action_step [OF w1(2)] Cons.prems(2)] Cons.prems(3) by simp
  from Cons.IH [OF w1(4) out] Cons.prems(3) w1 show ?case
    by (auto intro: cron_run.intros exec_action_step timely_in [OF out])
qed

lemma idle_outside_empty: "idle_outside ks (empty_world t0)"
  by (simp add: idle_outside_def empty_world_def)

section \<open>Demonstration\<close>

definition demo_lib :: time_lib where
  "demo_lib = \<lparr>croniter_ok = (\<lambda>_. True), croniter_next = (\<lambda>_ t. Inr (t + 100)), parse_iso = (\<lambda>_. None)\<rparr>"

definition demo_cron :: cron_env where
  "demo_cron = \<lparr>ce_time = demo_lib, ce_loads = (\<lambda>_. Inr []), ce_dumps = (\<lambda>_. ''[]''),
     ce_max_concurrent = 1, ce_max_jobs = 50\<rparr>"

definition demo_args :: "bool \<Rightarrow> int option \<Rightarrow> create_args" where
  "demo_args dur n = \<lparr>ca_expr = ''*'', ca_prompt = ''report'', ca_description = [], ca_recurring = None,
     ca_durable = dur, ca_skills = [], ca_model = None, ca_delivery = ''none'',
     ca_repeat = \<lparr>max_count = n, max_duration_seconds = None, repeat_until = None\<rparr>,
     ca_session = None, ca_project = None\<rparr>"

definition demo_execution :: "string \<Rightarrow> string \<Rightarrow> cron_execution" where
  "demo_execution i status = \<lparr>ex_id = i, ex_task = ''t'', ex_session = ''s'', started_at = 0, ended_at = None,
     duration_ms = None, ex_status = status, ex_error = None, ex_stop_reason = None, ex_summary = None,
     delivery_status = None, delivery_error = None\<rparr>"

abbreviation demo_start :: "cron_action list" where
  "demo_start \<equiv> [Create ''A'' ''t1'' (demo_args True None), Create ''A'' ''t2'' (demo_args True None),
     Pass 100, Scan ''A'', Claim ''A'', Claim ''A'', Start ''A'']"

text \<open>A task of the demonstration as the job of a kernel sees it.\<close>

definition demo_job :: "string \<Rightarrow> string \<Rightarrow> secs \<Rightarrow> cron_task" where
  "demo_job k i at_time =
     (new_task i 0 (demo_args True None) ((mk_schedule Cron)\<lparr>sch_expr := ''*''\<rparr>) True 100)
       \<lparr>running_by := Some k, running_heartbeat := Some at_time\<rparr>"

theorem claims_exclusive_witness:
  "\<exists>w. cron_run demo_cron timely (\<lambda>_ _. True) (empty_world 0) demo_start w
     \<and> demo_job ''A'' ''t2'' 100 \<in> set (claimed (cw_kernels w ''A''))
     \<and> (\<forall>k t. t \<in> set (claimed (cw_kernels w k)) \<longrightarrow> durable t \<longrightarrow> ct_id t = ''t2'' \<longrightarrow> k = ''A'')"
proof -
  let ?job = "demo_job ''A'' ''t2'' 100"
  have "case exec_run demo_cron (timely_in [''A'']) (\<lambda>_ _. True) (empty_world 0) demo_start of
      None \<Rightarrow> False | Some w \<Rightarrow> ?job \<in> set (claimed (cw_kernels w ''A''))"
    by code_simp
  then obtain w where w: "exec_run demo_cron (timely_in [''A'']) (\<lambda>_ _. True) (empty_world 0) demo_start = Some w"
      and job: "?job \<in> set (claimed (cw_kernels w ''A''))"
    by (auto split: option.splits)
  have run: "cron_run demo_cron timely (\<lambda>_ _. True) (empty_world 0) demo_start w"
    by (rule exec_run_timely [OF w idle_outside_empty]) simp
  have "durable ?job" "ct_id ?job = ''t2''" by code_simp+
  with run job claims_exclusive [OF run job] show ?thesis by metis
qed

definition stolen_run :: "cron_action list" where
  "stolen_run = demo_start
     @ [Pass 30, Beat ''A'' ''t1'', Pass 30, Beat ''A'' ''t1'', Pass 30, Beat ''A'' ''t1'', Pass 30, Beat ''A'' ''t1'',
        Pass 10, Scan ''B'', Claim ''B'', Start ''B'',
        Finish ''A'' (demo_job ''A'' ''t1'' 100) (demo_execution ''e1'' ''completed''), Start ''A'']"

text \<open>
  Where the protocol fails. The heartbeat of a task begins with its execution, so a task that is
  claimed and waits for the semaphore has none. Two due tasks are claimed by one kernel that
  executes one at a time; the first runs for more than two minutes, with its heartbeat every
  thirty seconds. Another kernel then clears the claim on the second task and executes it,
  and when the first task ends the first kernel executes it too: both kernels run it at once.
\<close>

theorem waiting_claim_is_stolen:
  "\<exists>w. cron_run demo_cron (\<lambda>_. True) (\<lambda>_ _. True) (empty_world 0) stolen_run w
     \<and> map ct_id (kn_batch (cw_kernels w ''A'')) = [''t2''] \<and> map ct_id (kn_batch (cw_kernels w ''B'')) = [''t2'']"
proof -
  let ?r = "exec_run demo_cron (\<lambda>_. True) (\<lambda>_ _. True) (empty_world 0) stolen_run"
  have "case ?r of None \<Rightarrow> False | Some w \<Rightarrow> map ct_id (kn_batch (cw_kernels w ''A'')) = [''t2'']
      \<and> map ct_id (kn_batch (cw_kernels w ''B'')) = [''t2'']"
    by code_simp
  then show ?thesis using exec_run_sound by (fastforce split: option.splits)
qed

end
