(* ===== verification/Cron_Limits.thy ===== *)
theory Cron_Limits
  imports Cron_Claims
begin

text \<open>
  How often the scheduler executes a task: tasks in memory, the repeat limit of durable tasks, and
  what a failed execution does to a task that was deleted meanwhile.
\<close>

section \<open>Tasks in memory\<close>

text \<open>The executions a kernel has begun, and how often a task is due, claimed or was begun there.\<close>

definition begun_by :: "cron_world \<Rightarrow> string \<Rightarrow> string list" where
  "begun_by w k = map snd (filter (\<lambda>(j, i). j = k) (cw_begun w))"

definition taken :: "cron_world \<Rightarrow> string \<Rightarrow> string list" where
  "taken w k = map ct_id (kn_waiting (cw_kernels w k)) @ begun_by w k"

definition once :: "cron_world \<Rightarrow> bool" where
  "once w \<longleftrightarrow> (\<forall>k.
     (\<forall>i obj. map_of (kn_objects (cw_kernels w k)) i = Some obj \<longrightarrow>
        count_list (map ct_id (kn_due (cw_kernels w k)) @ taken w k) i \<le> 1
        \<and> (running_by obj = None \<longrightarrow> i \<notin> set (taken w k)))
     \<and> (\<forall>t \<in> set (kn_missed (cw_kernels w k)). durable t)
     \<and> distinct (kn_memory (cw_kernels w k))
     \<and> set (begun_by w k) \<subseteq> set (cw_ids w))"

text \<open>What a step of kernel \<open>k\<close> has to show; \<open>bs\<close> are the executions it begins.\<close>

lemma once_putI:
  assumes "once w" "keeps_store f"
    and "kn' = f (cw_kernels w k\<lparr>kn_objects := st_objects st, kn_memory := st_memory st\<rparr>)"
    and "\<And>i obj. map_of (st_objects st) i = Some obj \<Longrightarrow>
          count_list (map ct_id (kn_due kn') @ map ct_id (kn_waiting kn') @ begun_by w k @ bs) i \<le> 1
          \<and> (running_by obj = None \<longrightarrow> i \<notin> set (map ct_id (kn_waiting kn') @ begun_by w k @ bs))"
    and "\<And>t. t \<in> set (kn_missed kn') \<Longrightarrow> durable t"
    and "distinct (st_memory st)" "set bs \<subseteq> set ids" "set (cw_ids w) \<subseteq> set ids"
  shows "once (put k st f (w\<lparr>cw_begun := cw_begun w @ map (Pair k) bs, cw_ids := ids\<rparr>))" (is "once ?w")
proof -
  have bs: "begun_by ?w j = begun_by w j @ (if j = k then bs else [])" for j
    by (auto simp: begun_by_def put_def comp_def split_def filter_map)
  have kn: "cw_kernels ?w j = (if j = k then kn' else cw_kernels w j)" for j
    using assms(3) by (simp add: put_def)
  have kn': "kn_objects kn' = st_objects st" "kn_memory kn' = st_memory st"
    using assms(2,3) by (simp_all add: keeps_store_def)
  have ids: "cw_ids ?w = ids" by (simp add: put_def)
  show ?thesis
    unfolding once_def taken_def bs kn ids
    using assms(1,4-) kn' by (auto simp: once_def taken_def; blast)
qed

lemma once_put0:
  assumes "once w" "keeps_store f"
    and "kn' = f (cw_kernels w k\<lparr>kn_objects := st_objects st, kn_memory := st_memory st\<rparr>)"
    and "\<And>i obj. map_of (st_objects st) i = Some obj \<Longrightarrow>
          count_list (map ct_id (kn_due kn') @ map ct_id (kn_waiting kn') @ begun_by w k) i \<le> 1
          \<and> (running_by obj = None \<longrightarrow> i \<notin> set (map ct_id (kn_waiting kn') @ begun_by w k))"
    and "\<And>t. t \<in> set (kn_missed kn') \<Longrightarrow> durable t" "distinct (st_memory st)"
  shows "once (put k st f w)"
  using once_putI [OF assms(1-3), where bs = "[]" and ids = "cw_ids w"] assms(4-6) by simp

lemma once_more [simp]:
  "once (w\<lparr>cw_now := n\<rparr>) = once w" "once (w\<lparr>cw_succeeded := c\<rparr>) = once w"
  "once (settled env k t e f w) = once (put k (settle_task (ce_time env) k (cw_now w) t e (view w k)) f w)"
  by (simp_all add: once_def taken_def begun_by_def settled_def Let_def)

lemma begun_put: "begun k won (put k st f w) =
    put k st f (w\<lparr>cw_begun := cw_begun w @ map (Pair k) (case won of None \<Rightarrow> [] | Some t \<Rightarrow> [ct_id t]), cw_ids := cw_ids w\<rparr>)"
  by (simp add: begun_def put_def split: option.split)

text \<open>An operation that leaves the claims alone, in a kernel whose due, waiting and missed tasks stay.\<close>

definition same_memory :: "cron_store \<Rightarrow> cron_store \<Rightarrow> bool" where
  "same_memory st st' \<longleftrightarrow>
     map_option object_key \<circ> map_of (st_objects st') = map_option object_key \<circ> map_of (st_objects st)
     \<and> (distinct (st_memory st) \<longrightarrow> distinct (st_memory st'))"

lemma same_memory_object:
  "same_memory st st' \<Longrightarrow> map_of (st_objects st') i = Some t' \<Longrightarrow>
     \<exists>t. map_of (st_objects st) i = Some t \<and> running_by t' = running_by t"
  unfolding same_memory_def by (elim conjE, drule (1) key_Some) (auto simp: object_key_def)

lemma onceD:
  assumes "once w" "map_of (kn_objects (cw_kernels w k)) i = Some obj"
  shows "count_list (map ct_id (kn_due (cw_kernels w k)) @ taken w k) i \<le> 1"
    "running_by obj = None \<Longrightarrow> i \<notin> set (taken w k)"
  using assms by (auto simp: once_def)

lemma once_same:
  assumes "once w" "same_memory (view w k) st" "keeps_store f"
    "\<And>kn. kn_due (f kn) = kn_due kn" "\<And>kn. kn_waiting (f kn) = kn_waiting kn"
    "\<And>kn. kn_missed (f kn) = kn_missed kn"
  shows "once (put k st f w)"
proof (rule once_put0 [OF assms(1,3) refl], goal_cases)
  case (1 i obj)
  then obtain obj' where "map_of (kn_objects (cw_kernels w k)) i = Some obj'" "running_by obj = running_by obj'"
    using same_memory_object [OF assms(2)] by (auto simp: view_def)
  with onceD [OF assms(1)] show ?case by (auto simp: taken_def assms(4,5))
next
  case (2 t)
  with assms(1) show ?case by (auto simp: once_def assms(6))
next
  case 3
  with assms(1,2) show ?case by (auto simp: once_def same_memory_def view_def)
qed

lemma frame_same_memory: "frame st st' \<Longrightarrow> same_memory st st'"
  by (simp add: frame_def same_memory_def)

lemma same_memory_release: "same_memory st (release_task k i st') = same_memory st st'"
  by (simp add: same_memory_def release_task_def)

lemma same_memory_settle: "same_memory st (settle_task lib k now t e st)"
proof -
  obtain st1 where "frame st st1" "settle_task lib k now t e st = release_task k (ct_id t) st1"
    using settle_task_release by blast
  then show ?thesis by (simp add: same_memory_release frame_same_memory)
qed

lemma same_memory_claim: "claim_task k now t st = (won, st') \<Longrightarrow> durable t \<Longrightarrow> same_memory st st'"
  by (auto simp: claim_task_def Let_def split_def same_memory_def)

lemma same_memory_catch_up: "catch_up lib k l now t st = (won, st') \<Longrightarrow> durable t \<Longrightarrow> same_memory st st'"
  by (auto simp: catch_up_def Let_def intro: frame_same_memory frames same_memory_claim split: if_splits sum.splits)

text \<open>What a tick lists of the tasks in memory.\<close>

lemma tick_memory:
  assumes "tick env now st = Inr (due, st')"
  shows "same_memory st st'"
    and "wf_store ids st \<Longrightarrow> distinct (st_memory st) \<Longrightarrow> map_of (st_objects st) i = Some obj \<Longrightarrow>
      count_list (map ct_id due) i \<le> (if running_by obj = None then 1 else 0)"
proof -
  let ?st = "cleanup_stale_claims now st"
  have mem: "st_objects ?st = st_objects st" "st_memory ?st = st_memory st"
    by (simp_all add: cleanup_stale_claims_def)
  from assms obtain active where act: "list_active (ce_loads env) ?st = Inr active"
      "due = filter (is_due now) active" "st' = expire_tasks now active ?st"
    by (auto simp: tick_def Let_def ebind_Inr_iff)
  have "same_memory ?st st'" using act(3) frame_expire frame_same_memory by simp
  then show "same_memory st st'" by (simp add: same_memory_def mem)
  assume wf: "wf_store ids st" "distinct (st_memory st)" "map_of (st_objects st) i = Some obj"
  from act(1) obtain rs where
    rs: "map_py (row_to_task (ce_loads env)) (filter (\<lambda>r. rw_status r = status_value Active) (map snd (st_rows ?st))) = Inr rs"
      "active = rs @ filter (\<lambda>t. ct_status t = Active) (memory_tasks st)"
    by (auto simp: list_active_def ebind_Inr_iff memory_tasks_def mem)
  have "ct_id t \<noteq> i" if t: "t \<in> set rs" for t
  proof
    assume i: "ct_id t = i"
    from t rs(1) map_py_set obtain r where "r \<in> set (map snd (st_rows ?st))" "row_to_task (ce_loads env) r = Inr t"
      by fastforce
    with i wf_rowsD [OF shape_wf [OF shape_cleanup wf(1)]] row_to_task_fields(1) have "map_of (st_rows ?st) i \<noteq> None"
      by (metis option.distinct(1))
    with shape_rows_None [OF shape_cleanup] wf(1,3) show False by (auto simp: wf_store_def)
  qed
  then have 1: "count_list (map ct_id (filter (is_due now) rs)) i = 0" by (auto simp: count_list_0_iff)
  let ?mem = "filter (is_due now) (filter (\<lambda>t. ct_status t = Active) (memory_tasks st))"
  have "map ct_id (memory_tasks st) = filter (\<lambda>i. map_of (st_objects st) i \<noteq> None) (st_memory st)"
    using wf(1) by (auto simp: memory_tasks_def List.map_filter_def wf_store_def intro!: map_idI)
  then have "distinct (map ct_id (memory_tasks st))" using wf(2) by simp
  then have "distinct (map ct_id ?mem)" by (simp add: distinct_map_filter)
  then have 2: "count_list (map ct_id ?mem) i \<le> 1" by (simp add: count_list_distinct)
  have 3: "i \<notin> set (map ct_id ?mem)" if "running_by obj \<noteq> None"
  proof
    assume "i \<in> set (map ct_id ?mem)"
    then obtain t where t: "t \<in> set (memory_tasks st)" "is_due now t" "ct_id t = i" by auto
    with wf(1) have "map_of (st_objects st) i = Some t" by (auto simp: memory_tasks_def List.map_filter_def wf_store_def)
    with wf(3) that t(2) show False by (simp add: is_due_def split: option.splits)
  qed
  show "count_list (map ct_id due) i \<le> (if running_by obj = None then 1 else 0)"
    using 1 2 3 act(2) rs(2) by (auto simp: count_list_0_iff)
qed

lemma objects_view [simp]: "st_objects (view w k) = kn_objects (cw_kernels w k)"
  by (simp add: view_def)

lemma object_known:
  "wf_world w \<Longrightarrow> map_of (kn_objects (cw_kernels w k)) i = Some obj \<Longrightarrow> t \<in> set (tasks (cw_kernels w k)) \<Longrightarrow>
     durable t \<Longrightarrow> ct_id t \<noteq> i"
proof
  assume "wf_world w" "map_of (kn_objects (cw_kernels w k)) i = Some obj" "t \<in> set (tasks (cw_kernels w k))"
    "durable t" "ct_id t = i"
  then have "map_of (st_objects (view w k)) i = Some obj" "wf_store (set (cw_ids w)) (view w k)" "known (view w k) t"
    by (simp_all add: wf_storeD wf_known)
  with \<open>durable t\<close> \<open>ct_id t = i\<close> show False by (auto simp only: wf_store_def known_def if_True)
qed

lemma once_scan:
  assumes "once w" "wf_world w" "kn_due (cw_kernels w k) = []" "tick env (cw_now w) (view w k) = Inr (due, st)"
  shows "once (put k st (\<lambda>kn. kn\<lparr>kn_due := due\<rparr>) w)"
proof (rule once_put0 [OF assms(1) _ refl], goal_cases)
  case (2 i obj)
  then obtain obj' where obj: "map_of (kn_objects (cw_kernels w k)) i = Some obj'" "running_by obj = running_by obj'"
    using same_memory_object [OF tick_memory(1) [OF assms(4)]] by (auto simp: view_def)
  have "distinct (st_memory (view w k))" using assms(1) by (simp add: once_def view_def)
  then have "count_list (map ct_id due) i \<le> (if running_by obj' = None then 1 else 0)"
    using tick_memory(2) [OF assms(4) wf_storeD [OF assms(2)]] obj(1) by (simp add: view_def)
  with onceD [OF assms(1) obj(1)] obj(2) show ?case
    by (cases "running_by obj'") (auto simp: taken_def assms(3) count_list_0_iff)
next
  case (3 t)
  with assms(1) show ?case by (auto simp: once_def)
next
  case 4
  with assms(1) tick_memory(1) [OF assms(4)] show ?case by (auto simp: once_def same_memory_def view_def)
qed simp

lemma claim_nondurable:
  "claim_task k now t st = (won, st') \<Longrightarrow> \<not> durable t \<Longrightarrow>
     st' = update_object (ct_id t) (\<lambda>t. t\<lparr>running_by := Some k, running_heartbeat := Some now\<rparr>) st"
  by (simp add: claim_task_def Let_def)

lemma claim_memory:
  assumes "claim_task k now t st = (won, st')"
  shows "st_memory st' = st_memory st"
proof (cases "durable t")
  case True
  with assms show ?thesis by (auto simp: claim_task_def Let_def split_def)
next
  case False
  then show ?thesis
    by (simp add: claim_nondurable [OF assms] update_object_def split: option.split)
qed

lemma claim_object:
  assumes "claim_task k now t st = (won, st')" "map_of (st_objects st') i = Some obj"
    and "durable t \<Longrightarrow> map_of (st_objects st) i \<noteq> None \<Longrightarrow> ct_id t \<noteq> i"
  shows "\<exists>obj'. map_of (st_objects st) i = Some obj' \<and>
           (running_by obj = None \<longrightarrow> running_by obj' = None \<and> (ct_id t \<noteq> i))"
proof (cases "durable t")
  case True
  with same_memory_object [OF same_memory_claim [OF assms(1)] assms(2)] assms(3) show ?thesis by auto
next
  case False
  then show ?thesis
    using assms(2) unfolding claim_nondurable [OF assms(1) False]
    by (cases "ct_id t = i"; cases "map_of (st_objects st) (ct_id t)") (auto simp: update_object_def)
qed

lemma once_claim:
  assumes "once w" "wf_world w" "kn_due (cw_kernels w k) = t # ts" "claim_task k (cw_now w) t (view w k) = (won, st)"
  shows "once (put k st (\<lambda>kn. kn\<lparr>kn_due := ts,
      kn_waiting := kn_waiting kn @ (case won of None \<Rightarrow> [] | Some t \<Rightarrow> [t])\<rparr>) w)"
proof (rule once_put0 [OF assms(1) _ refl], goal_cases)
  case (2 i obj)
  let ?W = "case won of None \<Rightarrow> [] | Some t \<Rightarrow> [t]"
  have ids: "set (map ct_id ?W) \<subseteq> {ct_id t}" "count_list (map ct_id ?W) i \<le> count_list [ct_id t] i"
  proof -
    have "map ct_id ?W = [] \<or> map ct_id ?W = [ct_id t]"
    proof (cases won)
      case (Some t')
      with assms(4) claim_won have "ct_id t' = ct_id t" by blast
      with Some show ?thesis by simp
    qed simp
    then show "set (map ct_id ?W) \<subseteq> {ct_id t}" "count_list (map ct_id ?W) i \<le> count_list [ct_id t] i" by auto
  qed
  have task: "t \<in> set (tasks (cw_kernels w k))" by (simp add: tasks_def assms(3))
  have "ct_id t \<noteq> i" if dur: "durable t" and ne: "map_of (st_objects (view w k)) i \<noteq> None"
  proof -
    from ne obtain x where "map_of (kn_objects (cw_kernels w k)) i = Some x" by auto
    from object_known [OF assms(2) this task dur] show ?thesis .
  qed
  from claim_object [OF assms(4) 2 this] obtain obj' where
    obj': "map_of (kn_objects (cw_kernels w k)) i = Some obj'"
      "running_by obj = None \<longrightarrow> running_by obj' = None \<and> ct_id t \<noteq> i" by auto
  have "count_list [ct_id t] i + count_list (map ct_id ts) i + count_list (map ct_id (kn_waiting (cw_kernels w k))) i
      + count_list (begun_by w k) i \<le> 1"
    using onceD(1) [OF assms(1) obj'(1)] by (simp add: taken_def assms(3) split: if_splits)
  moreover have "running_by obj = None \<Longrightarrow> i \<notin> set (map ct_id (kn_waiting (cw_kernels w k)) @ map ct_id ?W @ begun_by w k)"
    using onceD(2) [OF assms(1) obj'(1)] obj'(2) ids(1) unfolding taken_def by (simp only: set_append Un_iff) blast
  ultimately show ?case using ids(2) by (simp only: cron_kernel.simps map_append set_append count_list_append) auto
next
  case (3 t)
  with assms(1) show ?case by (simp add: once_def)
next
  case 4
  with assms(1) claim_memory [OF assms(4)] show ?case by (simp add: once_def view_def)
qed simp

lemma once_start:
  assumes "once w" "wf_world w" "kn_waiting (cw_kernels w k) = t # ts"
  shows "once (begun k (Some t) (put k (view w k) (\<lambda>kn. kn\<lparr>kn_waiting := ts, kn_batch := kn_batch kn @ [t]\<rparr>) w))"
  unfolding begun_put
proof (rule once_putI [OF assms(1) _ refl], goal_cases)
  case (2 i obj)
  then have "map_of (kn_objects (cw_kernels w k)) i = Some obj" by (simp add: view_def)
  from onceD [OF assms(1) this] show ?case by (auto simp: taken_def assms(3) split: if_splits)
next
  case 5
  have "t \<in> set (tasks (cw_kernels w k))" by (simp add: task_lists assms(3))
  from wf_known [OF assms(2) this] wf_storeD [OF assms(2), of k] show ?case
    by (auto simp: known_def wf_store_def split: if_splits)
qed (use assms(1) in \<open>auto simp: once_def view_def\<close>)

lemma once_create:
  assumes "once w" "wf_world w" "i \<notin> set (cw_ids w)" "create_task env now i a (view w k) = Inr (t, st)"
  shows "once (put k st id (w\<lparr>cw_ids := cw_ids w @ [i]\<rparr>))"
proof -
  note add = create_task_added(1,2) [OF assms(4)]
  have fresh: "i \<notin> ct_id ` set (tasks (cw_kernels w k))"
  proof
    assume "i \<in> ct_id ` set (tasks (cw_kernels w k))"
    then obtain t where t: "t \<in> set (tasks (cw_kernels w k))" "ct_id t = i" by auto
    with wf_known [OF assms(2) t(1)] wf_fresh [OF wf_storeD [OF assms(2)] assms(3), of k] show False
      by (simp add: known_def split: if_splits)
  qed
  have memory: "set (kn_memory (cw_kernels w k)) \<subseteq> set (cw_ids w)"
    using wf_storeD [OF assms(2), of k] by (fastforce simp: wf_store_def view_def)
  have "once (put k st id (w\<lparr>cw_begun := cw_begun w @ map (Pair k) [], cw_ids := cw_ids w @ [i]\<rparr>))"
  proof (rule once_putI [OF assms(1) _ refl], goal_cases)
    case (2 j obj)
    show ?case
    proof (cases "j = i")
      case True
      have "i \<notin> set (begun_by w k)" using assms(1,3) by (auto simp: once_def)
      with fresh True have "i \<notin> set (map ct_id (kn_due (cw_kernels w k)))" "i \<notin> set (map ct_id (kn_waiting (cw_kernels w k)))"
        "i \<notin> set (begun_by w k)"
        by (auto simp: task_lists)
      with True show ?thesis by (simp del: set_map add: count_list_0_iff [THEN iffD2])
    next
      case False
      with 2 add have "map_of (kn_objects (cw_kernels w k)) j = Some obj"
        by (auto simp: store_add_def split: if_splits)
      from onceD [OF assms(1) this] show ?thesis by (simp add: taken_def)
    qed
  next
    case 4
    have "distinct (kn_memory (cw_kernels w k))" "i \<notin> set (kn_memory (cw_kernels w k))"
      using assms(1,3) memory by (auto simp: once_def)
    with add show ?case by (auto simp: store_add_def view_def split: if_splits)
  qed (use assms(1) in \<open>auto simp: once_def\<close>)
  then show ?thesis by simp
qed

lemma once_catchup:
  assumes "once w" "wf_world w" "kn_missed (cw_kernels w k) = t # ts"
    "catch_up lib k l now t (view w k) = (won, st)"
  shows "once (begun k won (put k st (\<lambda>kn. kn\<lparr>kn_missed := ts, kn_catching := won\<rparr>) w))"
  unfolding begun_put
proof -
  let ?bs = "case won of None \<Rightarrow> [] | Some t \<Rightarrow> [ct_id t]"
  have missed: "\<forall>t \<in> set (kn_missed (cw_kernels w k)). durable t" using assms(1) by (simp add: once_def)
  then have dur: "durable t" by (simp add: assms(3))
  have task: "t \<in> set (tasks (cw_kernels w k))" by (simp add: tasks_def assms(3))
  have bs: "set ?bs \<subseteq> {ct_id t}"
  proof (cases won)
    case (Some t')
    with assms(4) claim_won [OF catch_up_won] have "ct_id t' = ct_id t" by blast
    with Some show ?thesis by simp
  qed simp
  show "once (put k st (\<lambda>kn. kn\<lparr>kn_missed := ts, kn_catching := won\<rparr>)
      (w\<lparr>cw_begun := cw_begun w @ map (Pair k) ?bs, cw_ids := cw_ids w\<rparr>))"
  proof (rule once_putI [OF assms(1) _ refl], goal_cases)
    case (2 i obj)
    then obtain obj' where obj: "map_of (kn_objects (cw_kernels w k)) i = Some obj'" "running_by obj = running_by obj'"
      using same_memory_object [OF same_memory_catch_up [OF assms(4) dur]] by auto
    from object_known [OF assms(2) obj(1) task dur] bs have "i \<notin> set ?bs" by auto
    with onceD [OF assms(1) obj(1)] obj(2) show ?case by (auto simp: taken_def count_list_0_iff)
  next
    case 4
    with assms(1) same_memory_catch_up [OF assms(4) dur] show ?case by (simp add: once_def same_memory_def view_def)
  next
    case 5
    have "ct_id t \<in> set (cw_ids w)"
      using wf_known [OF assms(2) task] wf_storeD [OF assms(2), of k] dur by (auto simp: known_def wf_store_def)
    with bs show ?case by blast
  next
    case (3 t)
    with missed assms(3) show ?case by simp
  qed (use assms(1) in \<open>simp_all\<close>)
qed

lemma once_startup:
  assumes "once w" "wf_world w" "kn_objects (cw_kernels w k) = []" "missed_tasks env (cw_now w) (view w k) = Inr (ts, st)"
  shows "once (put k st (\<lambda>kn. kn\<lparr>kn_missed := ts, kn_listed_at := l\<rparr>) w)"
proof (rule once_put0 [OF assms(1) _ refl], goal_cases)
  case (2 i obj)
  with assms(3,4) show ?case by (auto simp: missed_tasks_def Let_def ebind_Inr_iff cleanup_stale_claims_def)
next
  case (3 t)
  then have "t \<in> set ts" by simp
  with missed_known [OF wf_storeD [OF assms(2)] assms(4)] have "known st t" by blast
  moreover have "st_objects st = []"
    using assms(3,4) by (auto simp: missed_tasks_def Let_def ebind_Inr_iff cleanup_stale_claims_def)
  ultimately show ?case by (auto simp: known_def split: if_splits)
next
  case 4
  with assms(1,4) show ?case
    by (auto simp: missed_tasks_def Let_def ebind_Inr_iff cleanup_stale_claims_def once_def view_def)
qed simp

lemma once_crash: "once w \<Longrightarrow> once (w\<lparr>cw_kernels := (cw_kernels w)(k := idle_kernel)\<rparr>)"
  by (auto simp: once_def taken_def begun_by_def idle_kernel_def)

lemma once_frame: "once w \<Longrightarrow> frame (view w k) st \<Longrightarrow> once (put k st id w)"
  by (intro once_same frame_same_memory) simp_all

lemma step_once: "cron_step env w a w' \<Longrightarrow> wf_world w \<Longrightarrow> once w \<Longrightarrow> once w'"
proof (induction rule: cron_step.induct)
  case (create i w a k t st)
  then show ?case by (intro once_create)
next
  case (beat t w k)
  then show ?case by (intro once_same) (simp_all add: heartbeat_def same_memory_def)
qed (auto intro: once_scan once_claim once_start once_catchup once_startup once_crash
      once_frame frames once_same [OF _ same_memory_settle])

lemma run_once:
  "cron_run env P Q w as w' \<Longrightarrow> wf_world w \<Longrightarrow> once w \<Longrightarrow> wf_world w' \<and> once w'"
  by (induction rule: cron_run.induct) (auto intro: step_wf step_once)

text \<open>
  A task that is not durable is executed at most once, recurring or not: \<open>_claim_tasks\<close> marks the
  object in memory as running, and \<open>_release_task\<close> clears that mark in the database only, where such
  a task has no row. The loop passes it over from then on.
\<close>

theorem memory_task_fires_once:
  assumes "cron_run env (\<lambda>_. True) (\<lambda>_ _. True) (empty_world t0) as w"
    and "map_of (kn_objects (cw_kernels w k)) i = Some task"
  shows "count_list (cw_begun w) (k, i) \<le> 1"
proof -
  have "once (empty_world t0)"
    by (simp add: once_def empty_world_def idle_kernel_def taken_def begun_by_def)
  with run_once [OF assms(1)] empty_world_wf(1) have "once w" by blast
  from onceD(1) [OF this assms(2)] have "count_list (begun_by w k) i \<le> 1" by (simp add: taken_def)
  moreover have "count_list (map snd (filter (\<lambda>(j, i). j = k) bs)) i = count_list bs (k, i)" for bs
    by (induction bs) auto
  ultimately show ?thesis by (simp add: begun_by_def)
qed

section \<open>The repeat limit\<close>

definition live :: "cron_row \<Rightarrow> bool" where
  "live r \<longleftrightarrow> rw_status r \<in> {status_value Active, status_value Paused}"

text \<open>One more execution is within the limit; a task is always executed once.\<close>

definition room :: "cron_row \<Rightarrow> bool" where
  "room r = (case repeat_max_count r of None \<Rightarrow> True | Some n \<Rightarrow> rw_fire_count r < max 1 n)"

definition at_limit :: "cron_row \<Rightarrow> bool" where
  "at_limit r = (case repeat_max_count r of None \<Rightarrow> True | Some n \<Rightarrow> rw_fire_count r \<le> max 1 n)"

text \<open>Changes to the rows that count nothing, and revive a task only while there is room.\<close>

definition tame :: "cron_store \<Rightarrow> cron_store \<Rightarrow> bool" where
  "tame st st' \<longleftrightarrow>
     map_option (\<lambda>r. (rw_fire_count r, repeat_max_count r)) \<circ> map_of (st_rows st')
       = map_option (\<lambda>r. (rw_fire_count r, repeat_max_count r)) \<circ> map_of (st_rows st)
     \<and> (\<forall>i r r'. map_of (st_rows st) i = Some r \<longrightarrow> map_of (st_rows st') i = Some r' \<longrightarrow> live r' \<longrightarrow> live r \<or> room r)"

lemma tame_row:
  assumes "tame st st'" "map_of (st_rows st') i = Some r'"
  obtains r where "map_of (st_rows st) i = Some r" "rw_fire_count r' = rw_fire_count r"
    "repeat_max_count r' = repeat_max_count r" "room r' = room r" "at_limit r' = at_limit r" "live r' \<Longrightarrow> live r \<or> room r"
proof -
  from assms obtain r where r: "map_of (st_rows st) i = Some r" "rw_fire_count r' = rw_fire_count r"
      "repeat_max_count r' = repeat_max_count r"
    unfolding tame_def by (elim conjE, drule_tac key_Some) auto
  moreover have "room r' = room r" "at_limit r' = at_limit r" using r by (simp_all add: room_def at_limit_def split: option.split)
  moreover have "live r' \<Longrightarrow> live r \<or> room r" using assms r(1) by (auto simp: tame_def)
  ultimately show ?thesis using that by blast
qed

lemma tame_refl [simp]: "tame st st"
  by (simp add: tame_def)

lemma tame_trans:
  assumes "tame a b" "tame b c"
  shows "tame a c"
  unfolding tame_def
proof (intro conjI allI impI)
  show "map_option (\<lambda>r. (rw_fire_count r, repeat_max_count r)) \<circ> map_of (st_rows c)
      = map_option (\<lambda>r. (rw_fire_count r, repeat_max_count r)) \<circ> map_of (st_rows a)"
    using assms by (simp add: tame_def)
  fix i r r' assume r: "map_of (st_rows a) i = Some r" "map_of (st_rows c) i = Some r'" "live r'"
  from tame_row [OF assms(2) r(2)] r(3) obtain q where q: "map_of (st_rows b) i = Some q" "live q \<or> room q" by metis
  from tame_row [OF assms(1) q(1)] q(2) r(1) show "live r \<or> room r" by (metis option.inject)
qed

lemma tame_rows_eq: "st_rows st' = st_rows st \<Longrightarrow> tame st st'"
  by (simp add: tame_def)

lemma tame_sql_update:
  assumes "\<And>r. rw_fire_count (f r) = rw_fire_count r \<and> repeat_max_count (f r) = repeat_max_count r"
    and "\<And>r. map_of (st_rows st) i = Some r \<Longrightarrow> live (f r) \<Longrightarrow> live r \<or> room r"
  shows "tame st (st\<lparr>st_rows := fst (sql_update i p f (st_rows st))\<rparr>)"
  using assms by (auto simp: tame_def map_of_sql_update option.map_comp comp_def fun_eq_iff
      intro: option.map_cong split: if_splits)

lemma tame_update_status:
  assumes "status \<in> {Active, Paused} \<Longrightarrow> \<forall>r. map_of (st_rows st) i = Some r \<longrightarrow> live r \<or> room r"
  shows "tame st (update_status i status n c a st)"
proof (cases "i \<in> set (st_memory st)")
  case True
  then show ?thesis by (intro tame_rows_eq) (simp add: update_status_def update_object_def split: option.split)
next
  case False
  have "status \<in> {Active, Paused}" if "live (r\<lparr>rw_status := status_value status, rw_next_fire_at := x,
      rw_consecutive_failures := y, rw_last_failure_alert_at := z\<rparr>)" for r x y z
    using that by (cases status) (simp_all add: live_def)
  with False assms show ?thesis
    unfolding update_status_def by (simp only: if_False, intro tame_sql_update) auto
qed

lemma tame_room: "tame st st' \<Longrightarrow> (\<And>r. map_of (st_rows st) i = Some r \<Longrightarrow> room r) \<Longrightarrow>
    map_of (st_rows st') i = Some r' \<Longrightarrow> room r'"
  by (erule (1) tame_row) auto

lemma tame_handle_failure:
  assumes "\<And>r. map_of (st_rows st) (ct_id (resolve st t)) = Some r \<Longrightarrow> room r"
  shows "tame st (handle_failure lib now t m st)"
proof -
  let ?i = "ct_id (resolve st t)"
  have one: "tame st (update_status ?i s n c a st)" for s n c a
    using assms by (intro tame_update_status) auto
  have two: "tame st (update_status ?i s' n' c' a' (update_status ?i s n c a st))" for s n c a s' n' c' a'
    using tame_room [OF one assms] by (intro tame_trans [OF one tame_update_status]) blast
  show ?thesis
    unfolding handle_failure_def Let_def by (simp add: one two split: sum.splits)
qed

lemma tame_expire:
  "tame st (expire_tasks now ts st)"
proof -
  have "tame st (fold (\<lambda>t. update_status (ct_id t) Expired (Some None) None None) ts st)" for ts
  proof (induction ts arbitrary: st)
    case (Cons t ts)
    have "tame st (update_status (ct_id t) Expired (Some None) None None st)" by (rule tame_update_status) simp
    then show ?case using tame_trans [OF _ Cons.IH] by simp
  qed simp
  then show ?thesis by (simp add: expire_tasks_def)
qed

lemma tame_release: "tame st (release_task k i st)"
  by (auto simp: release_task_def live_def intro: tame_sql_update)

lemma tame_heartbeat: "tame st (heartbeat k now i st)"
  by (auto simp: heartbeat_def live_def intro: tame_sql_update)

lemma tame_cleanup: "tame st (cleanup_stale_claims now st)"
  by (auto simp: tame_def map_of_cleanup option.map_comp comp_def fun_eq_iff live_def intro: option.map_cong)

lemma tame_claim:
  assumes "claim_task k now t st = (won, st')"
  shows "tame st st'"
proof (cases "durable t")
  case True
  with assms show ?thesis
    by (auto simp: claim_task_def Let_def split_def live_def intro: tame_sql_update)
next
  case False
  then show ?thesis
    unfolding claim_nondurable [OF assms False]
    by (intro tame_rows_eq) (simp add: update_object_def split: option.split)
qed

lemma tame_remove:
  assumes "delete_task i st = (ok, st')"
  shows "tame st st'"
proof (cases "i \<in> set (st_memory st)")
  case True
  with assms show ?thesis
    by (intro tame_rows_eq) (auto simp: delete_task_def store_remove_def update_object_def split: option.splits)
next
  case False
  have "tame st (update_row i (\<lambda>r. r\<lparr>rw_status := status_value Deleted\<rparr>) st)"
    by (rule tame_sql_update) (simp_all add: live_def)
  with False assms show ?thesis by (simp add: delete_task_def store_remove_def Let_def split_def)
qed

lemma tame_add_execution: "add_execution e st = Inr st' \<Longrightarrow> tame st st'"
  by (auto simp: add_execution_def intro: tame_rows_eq split: if_splits)

lemma store_get_live:
  assumes "store_get loads i st = Inr (Some t)" "ct_status t \<in> {Active, Paused}" "map_of (st_rows st) i = Some r"
    "i \<notin> set (st_memory st)"
  shows "live r"
  using assms row_to_task_status [of loads r t]
  by (cases "ct_status t") (auto simp: store_get_def ebind_Inr_iff live_def)

lemma tame_update_live:
  assumes "store_get loads i st = Inr (Some t)" "ct_status t \<in> {Active, Paused}"
  shows "tame st (update_status i s n c a st)"
proof (cases "i \<in> set (st_memory st)")
  case True
  then show ?thesis by (intro tame_rows_eq) (simp add: update_status_def update_object_def split: option.split)
next
  case False
  then show ?thesis using store_get_live [OF assms] by (intro tame_update_status) blast
qed

lemma tame_pause: "pause_task env i st = Inr (ok, st') \<Longrightarrow> tame st st'"
  by (auto simp: pause_task_def ebind_Inr_iff intro: tame_update_live split: option.splits if_splits)

lemma tame_resume: "resume_task env now i st = Inr (ok, st') \<Longrightarrow> tame st st'"
  by (auto simp: resume_task_def ebind_Inr_iff intro: tame_update_live split: option.splits if_splits)

text \<open>The counts a world keeps, for its rows and for the copies its kernels work on.\<close>

definition sound_rows :: "(string, cron_row) dict \<Rightarrow> string list \<Rightarrow> bool" where
  "sound_rows rows succ \<longleftrightarrow> (\<forall>i r. map_of rows i = Some r \<longrightarrow>
     at_limit r \<and> (live r \<longrightarrow> room r) \<and> rw_fire_count r = int (count_list succ i))"

definition fits :: "(string, cron_row) dict \<Rightarrow> cron_task \<Rightarrow> bool" where
  "fits rows t \<longleftrightarrow> (durable t \<longrightarrow> (\<forall>r. map_of rows (ct_id t) = Some r \<longrightarrow> max_count (ct_repeat t) = repeat_max_count r))"

definition fresh_count :: "(string, cron_row) dict \<Rightarrow> cron_task \<Rightarrow> bool" where
  "fresh_count rows t \<longleftrightarrow>
     (durable t \<longrightarrow> (\<forall>r. map_of rows (ct_id t) = Some r \<longrightarrow> fire_count t = rw_fire_count r \<and> room r))"

definition within_limits :: "cron_world \<Rightarrow> bool" where
  "within_limits w \<longleftrightarrow> sound_rows (cw_rows w) (cw_succeeded w) \<and> set (cw_succeeded w) \<subseteq> set (cw_ids w)
     \<and> (\<forall>k. (\<forall>t \<in> set (tasks (cw_kernels w k)). fits (cw_rows w) t)
          \<and> (\<forall>t \<in> set (claimed (cw_kernels w k)). fresh_count (cw_rows w) t))"

lemma tame_sound: "tame st st' \<Longrightarrow> sound_rows (st_rows st) succ \<Longrightarrow> sound_rows (st_rows st') succ"
  unfolding sound_rows_def by (auto elim!: tame_row)

lemma tame_fits: "tame st st' \<Longrightarrow> fits (st_rows st) t \<Longrightarrow> fits (st_rows st') t"
  unfolding fits_def by (auto elim!: tame_row)

lemma tame_fresh: "tame st st' \<Longrightarrow> fresh_count (st_rows st) t \<Longrightarrow> fresh_count (st_rows st') t"
  unfolding fresh_count_def by (auto elim!: tame_row)

lemma within_put:
  assumes "within_limits w" "tame (view w k) st"
    and "kn' = f (cw_kernels w k\<lparr>kn_objects := st_objects st, kn_memory := st_memory st\<rparr>)"
    and "\<And>t. t \<in> set (tasks kn') \<Longrightarrow> fits (st_rows st) t"
    and "\<And>t. t \<in> set (claimed kn') \<Longrightarrow> fresh_count (st_rows st) t"
  shows "within_limits (put k st f w)"
  unfolding within_limits_def
proof (intro conjI allI ballI)
  show "sound_rows (cw_rows (put k st f w)) (cw_succeeded (put k st f w))"
    using assms(1) tame_sound [OF assms(2)] by (simp add: within_limits_def) (simp add: put_def)
  show "set (cw_succeeded (put k st f w)) \<subseteq> set (cw_ids (put k st f w))"
    using assms(1) by (simp add: within_limits_def put_def)
  fix j t
  show "fits (cw_rows (put k st f w)) t" if "t \<in> set (tasks (cw_kernels (put k st f w) j))"
    using that assms(1,3,4) tame_fits [OF assms(2), of t] by (cases "j = k") (auto simp: within_limits_def put_def)
  show "fresh_count (cw_rows (put k st f w)) t" if "t \<in> set (claimed (cw_kernels (put k st f w) j))"
    using that assms(1,3,5) tame_fresh [OF assms(2), of t] by (cases "j = k") (auto simp: within_limits_def put_def)
qed

lemma claimed_tasks: "t \<in> set (claimed kn) \<Longrightarrow> t \<in> set (tasks kn)"
  by (simp add: tasks_def)

text \<open>A step that adds \<open>N\<close> to the tasks of a kernel and \<open>C\<close> to its claimed ones.\<close>

lemma within_put_more:
  assumes "within_limits w" "tame (view w k) st"
    and "\<And>kn. set (tasks (f kn)) \<subseteq> set (tasks kn) \<union> N" "\<And>kn. set (claimed (f kn)) \<subseteq> set (claimed kn) \<union> C"
    and "\<And>t. t \<in> N \<Longrightarrow> fits (st_rows st) t" "\<And>t. t \<in> C \<Longrightarrow> fresh_count (st_rows st) t"
  shows "within_limits (put k st f w)"
proof (rule within_put [OF assms(1,2) refl])
  have "fits (st_rows st) t" if "t \<in> set (tasks (cw_kernels w k))" for t
    using assms(1) tame_fits [OF assms(2)] that by (simp add: within_limits_def)
  then show "fits (st_rows st) t" if "t \<in> set (tasks (f (cw_kernels w k\<lparr>kn_objects := st_objects st, kn_memory := st_memory st\<rparr>)))" for t
    using subsetD [OF assms(3) that] assms(5) by auto
  have "fresh_count (st_rows st) t" if "t \<in> set (claimed (cw_kernels w k))" for t
    using assms(1) tame_fresh [OF assms(2)] that by (simp add: within_limits_def)
  then show "fresh_count (st_rows st) t" if "t \<in> set (claimed (f (cw_kernels w k\<lparr>kn_objects := st_objects st, kn_memory := st_memory st\<rparr>)))" for t
    using subsetD [OF assms(4) that] assms(6) by (auto simp: claimed_def executing_def)
qed

lemmas within_put_same = within_put_more [where N = "{}" and C = "{}", simplified]

lemma list_active_fits:
  assumes "wf_store ids st" "list_active loads st = Inr ts" "t \<in> set ts"
  shows "fits (st_rows st) t"
proof (cases "durable t")
  case True
  from assms(2) obtain rs where
    rs: "map_py (row_to_task loads) (filter (\<lambda>r. rw_status r = status_value Active) (map snd (st_rows st))) = Inr rs"
      "ts = rs @ filter (\<lambda>t. ct_status t = Active) (memory_tasks st)"
    by (auto simp: list_active_def ebind_Inr_iff)
  have "t \<notin> set (memory_tasks st)"
    using True assms(1) by (auto simp: memory_tasks_def List.map_filter_def wf_store_def)
  with rs(2) assms(3) have "t \<in> set rs" by auto
  with rs(1) map_py_set obtain r where r: "r \<in> set (map snd (st_rows st))" "row_to_task loads r = Inr t"
    by fastforce
  with wf_rowsD [OF assms(1) r(1)] row_to_task_fields [OF r(2)] show ?thesis by (simp add: fits_def)
qed (simp add: fits_def)

lemma tick_fits:
  assumes "wf_store ids st" "tick env now st = Inr (due, st')" "t \<in> set due"
  shows "fits (st_rows st') t"
  using assms list_active_fits [OF shape_wf [OF shape_cleanup assms(1)]]
  by (auto simp: tick_def Let_def ebind_Inr_iff intro: tame_fits [OF tame_expire])

lemma missed_fits:
  assumes "wf_store ids st" "missed_tasks env now st = Inr (ts, st')" "t \<in> set ts"
  shows "fits (st_rows st') t"
  using assms list_active_fits [OF shape_wf [OF shape_cleanup assms(1)]]
  by (auto simp: missed_tasks_def Let_def ebind_Inr_iff)

text \<open>
  A step is calm when no other execution of the task was counted between the list it works from and
  the claim, and the catch-up finds a listed task still active.
\<close>

fun calm_step :: "cron_world \<Rightarrow> cron_action \<Rightarrow> bool" where
  "calm_step w (Claim k) =
     (case kn_due (cw_kernels w k) of
        [] \<Rightarrow> True
      | t # _ \<Rightarrow> (case map_of (cw_rows w) (ct_id t) of
                    None \<Rightarrow> True
                  | Some r \<Rightarrow> rw_running_by r = None \<longrightarrow> rw_status r = status_value Active \<longrightarrow> rw_fire_count r = fire_count t))"
| "calm_step w (CatchUp k) =
     (case kn_missed (cw_kernels w k) of
        [] \<Rightarrow> True
      | t # _ \<Rightarrow> (case map_of (cw_rows w) (ct_id t) of
                    None \<Rightarrow> True
                  | Some r \<Rightarrow> rw_status r = status_value Active \<and> rw_fire_count r = fire_count t))"
| "calm_step w _ = True"

lemma claim_fresh:
  assumes "claim_task k now t st = (Some t', st')" "sound_rows (st_rows st) succ"
    and "\<And>r. map_of (st_rows st) (ct_id t) = Some r \<Longrightarrow> rw_running_by r = None \<Longrightarrow>
           rw_status r = status_value Active \<Longrightarrow> rw_fire_count r = fire_count t"
  shows "fresh_count (st_rows st') t'"
proof (cases "durable t")
  case True
  with assms(1) obtain r where r: "map_of (st_rows st) (ct_id t) = Some r" "rw_running_by r = None"
      "rw_status r = status_value Active"
      and t': "t' = t\<lparr>running_by := Some k, running_heartbeat := Some now\<rparr>"
    by (auto simp: claim_task_def Let_def split_def sql_update_count split: if_splits option.splits)
  from r assms(2) have "room r" by (auto simp: sound_rows_def live_def)
  with r assms(3) [OF r] t' have "fresh_count (st_rows st) t'" by (simp add: fresh_count_def)
  then show ?thesis by (rule tame_fresh [OF tame_claim [OF assms(1)]])
next
  case False
  with claim_won [OF assms(1)] show ?thesis by (simp add: fresh_count_def)
qed

lemma claim_fits:
  assumes "claim_task k now t st = (Some t', st')" "fits (st_rows st) t"
  shows "fits (st_rows st') t'"
proof -
  have "ct_repeat t' = ct_repeat t" "ct_id t' = ct_id t" "durable t' = durable t"
    using assms(1) by (auto simp: claim_task_def Let_def split_def split: if_splits)
  with assms(2) have "fits (st_rows st) t'" by (simp add: fits_def)
  then show ?thesis by (rule tame_fits [OF tame_claim [OF assms(1)]])
qed

lemma within_claim:
  assumes "within_limits w" "kn_due (cw_kernels w k) = t # ts" "claim_task k (cw_now w) t (view w k) = (won, st)"
    "calm_step w (Claim k)"
  shows "within_limits (put k st (\<lambda>kn. kn\<lparr>kn_due := ts,
      kn_waiting := kn_waiting kn @ (case won of None \<Rightarrow> [] | Some t \<Rightarrow> [t])\<rparr>) w)"
proof (rule within_put_more [where N = "set ts \<union> set_option won" and C = "set_option won"])
  have tasks: "set (t # ts) \<subseteq> set (tasks (cw_kernels w k))" by (auto simp: tasks_def assms(2))
  show "tame (view w k) st" by (rule tame_claim [OF assms(3)])
  fix t' assume "t' \<in> set ts \<union> set_option won"
  then show "fits (st_rows st) t'"
    using tasks assms(1,3) tame_fits [OF tame_claim [OF assms(3)]] claim_fits [of k "cw_now w" t "view w k"]
    by (auto simp: within_limits_def)
next
  fix t' assume "t' \<in> set_option won"
  with assms(3) have "claim_task k (cw_now w) t (view w k) = (Some t', st)" by simp
  then show "fresh_count (st_rows st) t'"
    by (rule claim_fresh) (use assms(1,2,4) in \<open>auto simp: within_limits_def split: option.splits\<close>)
qed (use assms(1) in \<open>auto simp: task_lists split: option.splits\<close>)

lemma within_catchup:
  assumes "within_limits w" "kn_missed (cw_kernels w k) = t # ts"
    "catch_up lib k l now t (view w k) = (won, st)" "calm_step w (CatchUp k)" "durable t"
  shows "within_limits (put k st (\<lambda>kn. kn\<lparr>kn_missed := ts, kn_catching := won\<rparr>) w)"
proof (rule within_put_more [where N = "set ts \<union> set_option won" and C = "set_option won"])
  have tasks: "set (t # ts) \<subseteq> set (tasks (cw_kernels w k))" by (auto simp: tasks_def assms(2))
  have calm: "rw_status r = status_value Active" "rw_fire_count r = fire_count t"
    if "map_of (st_rows (view w k)) (ct_id t) = Some r" for r
    using that assms(2,4) by auto
  show tame: "tame (view w k) st"
    using assms(3,5) calm tame_claim
    by (auto simp: catch_up_def resolve_def Let_def live_def intro!: tame_update_status split: if_splits sum.splits)
  fix t' assume "t' \<in> set ts \<union> set_option won"
  then show "fits (st_rows st) t'"
    using tasks assms(1,3) tame_fits [OF tame] claim_fits [OF catch_up_won]
    by (auto simp: within_limits_def)
next
  fix t' assume "t' \<in> set_option won"
  with assms(3) have "claim_task k now t (view w k) = (Some t', st)" by (simp add: catch_up_won)
  then show "fresh_count (st_rows st) t'"
    by (rule claim_fresh) (use assms(1,2,4) in \<open>auto simp: within_limits_def\<close>)
qed (use assms(1) in \<open>auto simp: task_lists split: option.splits\<close>)

section \<open>What settling an execution counts\<close>

lemma add_execution_rows:
  "st_rows (case add_execution e st of Inl _ \<Rightarrow> st | Inr st' \<Rightarrow> st') = st_rows st"
  "st_memory (case add_execution e st of Inl _ \<Rightarrow> st | Inr st' \<Rightarrow> st') = st_memory st"
  by (simp_all add: add_execution_def)

lemma settle_not_counted:
  assumes "\<not> counted lib now t e st" "durable t" "\<And>r. map_of (st_rows st) (ct_id t) = Some r \<Longrightarrow> room r"
  shows "tame st (settle_task lib k now t e st)"
proof -
  define st0 where "st0 = (case add_execution e st of Inl _ \<Rightarrow> st | Inr st' \<Rightarrow> st')"
  have st0: "tame st st0" using add_execution_rows(1) by (simp add: st0_def tame_rows_eq)
  have fail: "tame st0 (handle_failure lib now t m st0)" for m
    using assms(2,3) add_execution_rows(1) by (intro tame_handle_failure) (auto simp: st0_def resolve_def)
  have "\<exists>m. settle_task lib k now t e st = release_task k (ct_id t) (handle_failure lib now t m st0)"
    using assms(1,2)
    by (auto simp: settle_task_def Let_def st0_def [symmetric] counted_def resolve_def settle_success_def isl_def
        split: py_exn.splits)
  then show ?thesis using tame_trans [OF tame_trans [OF st0 fail] tame_release] by metis
qed

text \<open>Operations that change one row.\<close>

definition touches :: "string \<Rightarrow> (cron_row \<Rightarrow> cron_row) \<Rightarrow> cron_store \<Rightarrow> cron_store \<Rightarrow> bool" where
  "touches i f st st' \<longleftrightarrow>
     (\<forall>j. map_of (st_rows st') j = (if j = i then map_option f (map_of (st_rows st) j) else map_of (st_rows st) j))"

lemma touches_trans: "touches i f a b \<Longrightarrow> touches i g b c \<Longrightarrow> touches i (g \<circ> f) a c"
  by (simp add: touches_def option.map_comp)

lemma touches_update_fired:
  "i \<notin> set (st_memory st) \<Longrightarrow> touches i (\<lambda>r. r\<lparr>rw_last_fired_at := Some t, rw_next_fire_at := n,
     rw_fire_count := rw_fire_count r + 1, rw_consecutive_failures := 0\<rparr>) st (update_fired i t n st)"
  by (simp add: touches_def update_fired_def map_of_sql_update)

lemma touches_complete:
  "i \<notin> set (st_memory st) \<Longrightarrow> touches i (\<lambda>r. r\<lparr>rw_status := status_value Completed, rw_next_fire_at := None\<rparr>)
     st (update_status i Completed (Some None) None None st)"
  by (simp add: touches_def update_status_def map_of_sql_update)

lemma touches_release:
  "touches i (\<lambda>r. if rw_running_by r = Some k then r\<lparr>rw_running_by := None, rw_running_heartbeat := None\<rparr> else r)
     st (release_task k i st)"
  by (simp add: touches_def release_task_def map_of_sql_update)

lemma settle_counted:
  assumes "counted lib now t e st" "durable t" "ct_id t \<notin> set (st_memory st)"
  shows "\<exists>f. touches (ct_id t) f st (settle_task lib k now t e st)
           \<and> (\<forall>r. rw_fire_count (f r) = rw_fire_count r + 1 \<and> repeat_max_count (f r) = repeat_max_count r
                \<and> (live (f r) \<longrightarrow> (\<forall>n. max_count (ct_repeat t) = Some n \<longrightarrow> fire_count t + 1 < n)))"
proof -
  define st0 where "st0 = (case add_execution e st of Inl _ \<Rightarrow> st | Inr st' \<Rightarrow> st')"
  have st0: "touches (ct_id t) id st st0" "ct_id t \<notin> set (st_memory st0)"
    using add_execution_rows assms(3) by (simp_all add: st0_def touches_def option.map_id)
  have fired: "touches (ct_id t) (\<lambda>r. r\<lparr>rw_last_fired_at := Some now, rw_next_fire_at := n,
      rw_fire_count := rw_fire_count r + 1, rw_consecutive_failures := 0\<rparr>) st (update_fired (ct_id t) now n st0)"
    "ct_id t \<notin> set (st_memory (update_fired (ct_id t) now n st0))" for n
    using touches_trans [OF st0(1) touches_update_fired [OF st0(2)]] st0(2) by (simp_all add: comp_def update_fired_def)
  note compl = touches_trans [OF fired(1) touches_complete [OF fired(2)]]
  let ?ex = "is_exhausted (ct_repeat t) (fire_count t + 1) (created_at t) now"
  show ?thesis
  proof (cases "recurring t \<and> \<not> ?ex")
    case False
    have "\<exists>n. settle_task lib k now t e st = release_task k (ct_id t)
        (update_status (ct_id t) Completed (Some None) None None (update_fired (ct_id t) now n st0))"
      using assms False
      by (cases "recurring t"; cases "compute_next_fire lib (ct_schedule t) now")
         (auto simp: settle_task_def Let_def st0_def [symmetric] counted_def resolve_def settle_success_def)
    then obtain n where eq: "settle_task lib k now t e st = release_task k (ct_id t)
        (update_status (ct_id t) Completed (Some None) None None (update_fired (ct_id t) now n st0))" ..
    show ?thesis
      unfolding eq by (rule exI, rule conjI, rule touches_trans [OF compl touches_release]) (simp add: live_def)
  next
    case True
    then obtain n where n: "compute_next_fire lib (ct_schedule t) now = Inr n"
      using assms(1,2) by (cases "compute_next_fire lib (ct_schedule t) now") (auto simp: counted_def resolve_def)
    with True assms have eq: "settle_task lib k now t e st = release_task k (ct_id t) (update_fired (ct_id t) now (Some n) st0)"
      by (simp add: settle_task_def Let_def st0_def [symmetric] counted_def resolve_def settle_success_def)
    show ?thesis
      unfolding eq by (rule exI, rule conjI, rule touches_trans [OF fired(1) touches_release])
        (use True in \<open>auto simp: is_exhausted_def split: option.splits\<close>)
  qed
qed

text \<open>A task without a row leaves the table alone.\<close>

lemma sql_update_absent: "map_of d i = None \<Longrightarrow> fst (sql_update i p f d) = d"
  by (induction i p f d rule: sql_update.induct) (auto simp: split_def Let_def)

lemma update_absent:
  "map_of (st_rows st) i = None \<Longrightarrow> st_rows (update_status i s n c a st) = st_rows st"
  "map_of (st_rows st) i = None \<Longrightarrow> st_rows (update_fired i t m st) = st_rows st"
  by (simp_all add: update_status_def update_fired_def update_object_def sql_update_absent split: option.split)

lemma settle_absent:
  assumes "map_of (st_rows st) (ct_id t) = None" "map_of (st_rows st) (ct_id (resolve st t)) = None"
  shows "st_rows (settle_task lib k now t e st) = st_rows st"
proof -
  define st0 where "st0 = (case add_execution e st of Inl _ \<Rightarrow> st | Inr st' \<Rightarrow> st')"
  have st0: "st_rows st0 = st_rows st" "st_objects st0 = st_objects st"
    by (simp_all add: st0_def add_execution_def)
  have "resolve st0 t = resolve st t" unfolding resolve_def st0(2) ..
  with st0(1) assms(2) have i: "map_of (st_rows st0) (ct_id (resolve st0 t)) = None" by simp
  have fail: "st_rows (handle_failure lib now t m st0) = st_rows st0" for m
    unfolding handle_failure_def Let_def using i by (auto simp: update_absent split: sum.split)
  have succ: "st_rows st' = st_rows st0" if "settle_success lib now t st0 = Inr st'" for st'
    using that i unfolding settle_success_def Let_def ebind_Inr_iff by (auto simp: update_absent ebind_Inr_iff split: if_splits)
  have "\<exists>st1. st_rows st1 = st_rows st0 \<and> settle_task lib k now t e st = release_task k (ct_id t) st1"
  proof (cases "settle_success lib now t st0")
    case (Inl x)
    then show ?thesis using fail unfolding settle_task_def Let_def st0_def [symmetric] by (cases x; cases "execution_ok e") auto
  next
    case (Inr st')
    with succ fail show ?thesis unfolding settle_task_def Let_def st0_def [symmetric] by (cases "execution_ok e") auto
  qed
  then show ?thesis using st0(1) assms(1) by (auto simp: release_task_def sql_update_absent)
qed

lemma wf_row_memory:
  assumes "wf_store ids st" "map_of (st_rows st) i = Some r"
  shows "i \<notin> set (st_memory st)"
proof
  assume "i \<in> set (st_memory st)"
  with assms(1) obtain t where "map_of (st_objects st) i = Some t"
    unfolding wf_store_def by blast
  with assms(1) have "map_of (st_rows st) i = None" unfolding wf_store_def by blast
  with assms(2) show False by simp
qed

lemma within_settle:
  assumes "within_limits w" "wf_world w" "exclusive w"
    and "kn' = f (cw_kernels w k\<lparr>kn_objects := st_objects st, kn_memory := st_memory st\<rparr>)"
    and "st = settle_task (ce_time env) k (cw_now w) t e (view w k)"
    and "mset (claimed (cw_kernels w k)) = add_mset t (mset (claimed kn'))" "set (tasks kn') \<subseteq> set (tasks (cw_kernels w k))"
  shows "within_limits (settled env k t e f w)"
proof -
  have t: "t \<in> set (claimed (cw_kernels w k))"
    using assms(6) by (metis insertI1 set_mset_add_mset_insert set_mset_mset)
  have wf: "wf_store (set (cw_ids w)) (view w k)" "known (view w k) t"
    using assms(2) t by (simp_all add: wf_storeD wf_known claimed_tasks)
  have id: "ct_id t \<in> set (cw_ids w)"
    using wf by (auto simp: wf_store_def known_def split: if_splits)
  have sub: "set (claimed kn') \<subseteq> set (claimed (cw_kernels w k))"
    using assms(6) by (metis set_mset_add_mset_insert set_mset_mset subset_insertI)
  let ?n = "counted (ce_time env) (cw_now w) t e (view w k)"
  let ?succ = "cw_succeeded w @ (if ?n then [ct_id t] else [])"
  have other: "ct_id t' \<noteq> ct_id t"
    if t': "t' \<in> set (claimed (if j = k then kn' else cw_kernels w j))" "durable t'" and dur: "durable t" for j t'
  proof (cases "j = k")
    case False
    with t' have "holder (cw_rows w) (ct_id t') = Some j" using assms(3) by (simp add: exclusive_def)
    moreover have "holder (cw_rows w) (ct_id t) = Some k" using t dur assms(3) by (simp add: exclusive_def)
    ultimately show ?thesis using False by auto
  next
    case True
    have "mset (map ct_id (filter durable (claimed (cw_kernels w k)))) = add_mset (ct_id t) (mset (map ct_id (filter durable (claimed kn'))))"
      using assms(6) dur by simp
    then have "mset (map ct_id (filter durable (claimed (cw_kernels w k)))) = mset (ct_id t # map ct_id (filter durable (claimed kn')))"
      by simp
    moreover have "distinct (map ct_id (filter durable (claimed (cw_kernels w k))))" using assms(3) by (simp add: exclusive_def)
    ultimately have "distinct (ct_id t # map ct_id (filter durable (claimed kn')))"
      using mset_eq_imp_distinct_iff by blast
    moreover have "ct_id t' \<in> set (map ct_id (filter durable (claimed kn')))" using True t' by simp
    ultimately show ?thesis by auto
  qed
  have old: "t' \<in> set (claimed (cw_kernels w j))" if "t' \<in> set (claimed (if j = k then kn' else cw_kernels w j))" for j t'
    using that sub by (auto split: if_splits)
  note win = assms(1) [unfolded within_limits_def]
  have "sound_rows (st_rows st) ?succ \<and> (\<forall>j. \<forall>t' \<in> set (tasks (cw_kernels w j)). fits (st_rows st) t')
    \<and> (\<forall>j. \<forall>t' \<in> set (claimed (if j = k then kn' else cw_kernels w j)). fresh_count (st_rows st) t')"
  proof (cases "durable t")
    case False
    with wf obtain obj where "map_of (st_objects (view w k)) (ct_id t) = Some obj" by (auto simp: known_def)
    with wf(1) False have none: "map_of (st_rows (view w k)) (ct_id t) = None" "ct_id (resolve (view w k) t) = ct_id t"
      by (simp_all add: wf_store_def resolve_def)
    then have "st_rows st = cw_rows w" using settle_absent [of "view w k" t] assms(5) by simp
    moreover have "sound_rows (cw_rows w) ?succ"
      using win none(1) by (auto simp: sound_rows_def)
    moreover have "fresh_count (cw_rows w) t'" if "t' \<in> set (claimed (if j = k then kn' else cw_kernels w j))" for j t'
      using win old [OF that] by blast
    ultimately show ?thesis using win by simp
  next
    case dur: True
    with wf obtain r where r: "map_of (cw_rows w) (ct_id t) = Some r" by (auto simp: known_def)
    with win t dur have fresh: "fire_count t = rw_fire_count r" "room r" "max_count (ct_repeat t) = repeat_max_count r"
      by (auto simp: fresh_count_def fits_def dest: claimed_tasks)
    show ?thesis
    proof (cases ?n)
      case False
      have tame: "tame (view w k) st"
        unfolding assms(5) by (rule settle_not_counted [OF False dur]) (use r fresh in auto)
      have "sound_rows (st_rows st) ?succ" using False win tame_sound [OF tame] by simp
      moreover have "fits (st_rows st) t'" if "fits (cw_rows w) t'" for t' using that tame_fits [OF tame] by simp
      moreover have "fresh_count (st_rows st) t'" if "t' \<in> set (claimed (if j = k then kn' else cw_kernels w j))" for j t'
        using win old [OF that] tame_fresh [OF tame, of t'] by simp
      ultimately show ?thesis using win by blast
    next
      case True
      have "ct_id t \<notin> set (st_memory (view w k))"
        using wf_row_memory [OF wf(1)] r by simp
      from settle_counted [OF True dur this] obtain g where g: "touches (ct_id t) g (view w k) st"
          "\<And>r. rw_fire_count (g r) = rw_fire_count r + 1" "\<And>r. repeat_max_count (g r) = repeat_max_count r"
          "\<And>r n. live (g r) \<Longrightarrow> max_count (ct_repeat t) = Some n \<Longrightarrow> fire_count t + 1 < n"
        unfolding assms(5) by blast
      have "at_limit (g r) \<and> (live (g r) \<longrightarrow> room (g r))"
        using fresh g(2,3) g(4) [of r] by (auto simp: at_limit_def room_def split: option.splits)
      with g r True win have "sound_rows (st_rows st) ?succ"
        by (auto simp: sound_rows_def touches_def split: if_splits)
      moreover have "fits (st_rows st) t'" if "fits (cw_rows w) t'" for t'
        using that g by (auto simp: fits_def touches_def split: if_splits)
      moreover have "fresh_count (st_rows st) t'" if "t' \<in> set (claimed (if j = k then kn' else cw_kernels w j))" for j t'
        using win old [OF that] other [OF that] dur g(1) by (auto simp: fresh_count_def touches_def)
      ultimately show ?thesis using win by blast
    qed
  qed
  moreover have "cw_rows (settled env k t e f w) = st_rows st" "cw_succeeded (settled env k t e f w) = ?succ"
      "cw_ids (settled env k t e f w) = cw_ids w"
      "cw_kernels (settled env k t e f w) j = (if j = k then kn' else cw_kernels w j)" for j
    using assms(4,5) by (simp_all add: settled_def put_def Let_def)
  ultimately show ?thesis
    using win id assms(7) unfolding within_limits_def by auto
qed

lemma within_more [simp]:
  "within_limits (w\<lparr>cw_now := n\<rparr>) = within_limits w" "within_limits (w\<lparr>cw_begun := b\<rparr>) = within_limits w"
  "within_limits (begun k won w) = within_limits w"
  by (simp_all add: within_limits_def begun_def split: option.split)

lemma tame_tick: "tick env now st = Inr (due, st') \<Longrightarrow> tame st st'"
  by (auto simp: tick_def Let_def ebind_Inr_iff intro: tame_trans [OF tame_cleanup tame_expire])

lemma tame_missed: "missed_tasks env now st = Inr (ts, st') \<Longrightarrow> tame st st'"
  by (auto simp: missed_tasks_def Let_def ebind_Inr_iff tame_cleanup)

lemma within_create:
  assumes "within_limits w" "wf_world w" "i \<notin> set (cw_ids w)" "create_task env now i a (view w k) = Inr (t, st)"
  shows "within_limits (put k st id (w\<lparr>cw_ids := cw_ids w @ [i]\<rparr>))"
proof -
  note add = create_task_added [OF assms(4)]
  note win = assms(1) [unfolded within_limits_def]
  have fresh: "ct_id t' \<noteq> i" if "t' \<in> set (tasks (cw_kernels w j))" "durable t'" for j t'
    using wf_known [OF assms(2) that(1)] wf_fresh(1) [OF wf_storeD [OF assms(2)] assms(3), of j] that(2)
    by (auto simp: known_def)
  have rows: "map_of (st_rows st) j = (if j = i \<and> durable t then Some (task_to_row (ce_dumps env) t) else map_of (cw_rows w) j)" for j
    using add(1,2) by (auto simp: store_add_def split: if_splits)
  have "i \<notin> set (cw_succeeded w)" using win assms(3) by blast
  then have "sound_rows (st_rows st) (cw_succeeded w)"
    using win add(5) unfolding sound_rows_def rows
    by (auto simp: at_limit_def room_def task_to_row_def count_list_0_iff split: option.split)
  moreover have "fits (st_rows st) t'" if "t' \<in> set (tasks (cw_kernels w j))" for j t'
    using win that fresh [OF that] unfolding fits_def rows by auto
  moreover have "fresh_count (st_rows st) t'" if "t' \<in> set (claimed (cw_kernels w j))" for j t'
    using win that fresh [OF claimed_tasks [OF that]] unfolding fresh_count_def rows by auto
  moreover have "claimed (kn\<lparr>kn_objects := os, kn_memory := ms\<rparr>) = claimed kn" for kn os ms
    by (simp add: claimed_def executing_def)
  ultimately show ?thesis
    using win by (auto simp: within_limits_def put_def)
qed

lemma within_crash: "within_limits w \<Longrightarrow> within_limits (w\<lparr>cw_kernels := (cw_kernels w)(k := idle_kernel)\<rparr>)"
  by (auto simp: within_limits_def task_lists idle_kernel_def)

lemma once_missed: "once w \<Longrightarrow> t \<in> set (kn_missed (cw_kernels w k)) \<Longrightarrow> durable t"
  unfolding once_def by blast

lemma step_within:
  "cron_step env w a w' \<Longrightarrow> calm_step w a \<Longrightarrow> wf_world w \<Longrightarrow> exclusive w \<Longrightarrow> once w \<Longrightarrow> within_limits w \<Longrightarrow> within_limits w'"
proof (induction rule: cron_step.induct)
  case (create i w a k t st)
  then show ?case by (intro within_create)
next
  case (scan w k due st)
  then show ?case
    by (intro within_put_more [where N = "set due" and C = "{}"])
       (auto simp: tame_tick task_lists intro: tick_fits [OF wf_storeD])
next
  case (startup w k ts st)
  then show ?case
    by (intro within_put_more [where N = "set ts" and C = "{}"])
       (auto simp: tame_missed task_lists intro: missed_fits [OF wf_storeD])
next
  case (claim w k t ts won st)
  then show ?case by (intro within_claim)
next
  case (catchup w k t ts l won st)
  then have "durable t" by (intro once_missed [where k = k]) auto
  with catchup show ?case by (simp only: within_more) (rule within_catchup)
next
  case (start w k t ts)
  have old: "t' \<in> set (claimed (cw_kernels w k))" if "t' \<in> set (t # ts)" for t'
    using that start(2) by (auto simp: claimed_def)
  have "fits (cw_rows w) t'" if "t' \<in> set (t # ts)" for t'
    using start.prems(5) claimed_tasks [OF old [OF that]] by (simp add: within_limits_def)
  moreover have "fresh_count (cw_rows w) t'" if "t' \<in> set (t # ts)" for t'
    using start.prems(5) old [OF that] by (simp add: within_limits_def)
  ultimately show ?case
    using start.prems(5)
    by (simp, intro within_put_more [where N = "set (t # ts)" and C = "set (t # ts)"]) (auto simp: task_lists split: option.splits)
next
  case (finish t w k e)
  then show ?case
    by (intro within_settle [OF _ _ _ refl refl]) (auto simp: task_lists dest: subsetD [OF set_remove1_subset])
next
  case (catchfinish w k t e)
  then show ?case
    by (intro within_settle [OF _ _ _ refl refl]) (auto simp: task_lists)
next
  case (crash w k)
  then show ?case by (simp add: within_crash)
qed (auto intro!: within_put_same intro: tame_remove tame_pause tame_resume tame_heartbeat tame_add_execution)

lemma run_within:
  assumes "cron_run env timely calm_step w as w'" "wf_world w" "timely w" "exclusive w" "once w" "within_limits w"
  shows "within_limits w'"
  using assms
proof (induction rule: cron_run.induct)
  case (run_cons w a w1 as w2)
  from run_cons.hyps run_cons.prems show ?case
    by (intro run_cons.IH step_wf [OF run_cons.hyps(2)] step_exclusive [OF run_cons.hyps(2)] step_once [OF run_cons.hyps(2)]
        step_within [OF run_cons.hyps(2)])
qed



definition repeat_run :: "cron_action list" where
  "repeat_run =
     [Create ''A'' ''t1'' (demo_args True (Some 1)), Pass 100, Scan ''A'', Claim ''A'', Start ''A'',
      Finish ''A'' ((demo_job ''A'' ''t1'' 100)\<lparr>ct_repeat := ca_repeat (demo_args True (Some 1))\<rparr>)
        (demo_execution ''e1'' ''completed''),
      Pass 100, Scan ''A'', Scan ''B'']"


definition memory_run :: "cron_action list" where
  "memory_run =
     [Create ''A'' ''m'' (demo_args False None), Pass 100, Scan ''A'', Claim ''A'', Start ''A'',
      Finish ''A'' ((demo_job ''A'' ''m'' 100)\<lparr>durable := False\<rparr>) (demo_execution ''e1'' ''completed''),
      Pass 1000, Scan ''A'']"

theorem memory_task_fires_once_witness:
  "\<exists>w task. cron_run demo_cron (\<lambda>_. True) (\<lambda>_ _. True) (empty_world 0) memory_run w
     \<and> map_of (kn_objects (cw_kernels w ''A'')) ''m'' = Some task
     \<and> recurring task \<and> ct_status task = Active \<and> next_fire_at task = Some 200 \<and> cw_now w = 1100
     \<and> kn_due (cw_kernels w ''A'') = [] \<and> count_list (cw_begun w) (''A'', ''m'') \<le> 1"
proof -
  let ?ok = "\<lambda>w task. recurring task \<and> ct_status task = Active \<and> next_fire_at task = Some 200 \<and> cw_now w = 1100
     \<and> kn_due (cw_kernels w ''A'') = []"
  have "case exec_run demo_cron (\<lambda>_. True) (\<lambda>_ _. True) (empty_world 0) memory_run of
      None \<Rightarrow> False | Some w \<Rightarrow> (case map_of (kn_objects (cw_kernels w ''A'')) ''m'' of
        None \<Rightarrow> False | Some task \<Rightarrow> ?ok w task)"
    by code_simp
  then obtain w task where w: "exec_run demo_cron (\<lambda>_. True) (\<lambda>_ _. True) (empty_world 0) memory_run = Some w"
      and task: "map_of (kn_objects (cw_kernels w ''A'')) ''m'' = Some task" "?ok w task"
    by (auto split: option.splits)
  have run: "cron_run demo_cron (\<lambda>_. True) (\<lambda>_ _. True) (empty_world 0) memory_run w"
    by (rule exec_run_sound [OF w])
  from run task memory_task_fires_once [OF run task(1)] show ?thesis by blast
qed

section \<open>Failures\<close>

text \<open>
  A failed execution revives a deleted task. \<open>_handle_failure\<close> writes the status \<open>active\<close> without
  looking at the current one: a recurring task that its user deleted (or paused) while it was
  executing is active again when that execution fails, with a next fire after the backoff.
\<close>

theorem failed_fire_revives_deleted:
  assumes "durable t" "recurring t" "failure_alert t = None" "ct_id t \<notin> set (st_memory st)"
    and "map_of (st_rows st) (ct_id t) = Some r" "rw_status r = status_value Deleted"
    and "compute_next_fire lib (ct_schedule t) now = Inr n" "\<not> execution_ok e"
  shows "\<exists>r'. map_of (st_rows (settle_task lib k now t e st)) (ct_id t) = Some r' \<and> rw_status r' = status_value Active
           \<and> rw_next_fire_at r' = Some (max n (now + backoff_delay (consecutive_failures t + 1)))"
proof -
  define st0 where "st0 = (case add_execution e st of Inl _ \<Rightarrow> st | Inr st' \<Rightarrow> st')"
  have st0: "st_rows st0 = st_rows st" "ct_id t \<notin> set (st_memory st0)"
    using add_execution_rows assms(4) by (simp_all add: st0_def)
  let ?next = "max n (now + backoff_delay (consecutive_failures t + 1))"
  have "settle_task lib k now t e st = release_task k (ct_id t)
      (update_status (ct_id t) Active (Some (Some ?next)) (Some (consecutive_failures t + 1)) None st0)"
    using assms by (simp add: settle_task_def Let_def st0_def [symmetric] handle_failure_def resolve_def alert_due_def)
  with st0 assms(5) show ?thesis
    by (simp add: release_task_def update_status_def map_of_sql_update)
qed

definition deleted_store :: cron_store where
  "deleted_store = \<lparr>st_rows = [(''t1'', (task_to_row (ce_dumps demo_cron) (demo_job ''A'' ''t1'' 100))\<lparr>rw_status := ''deleted''\<rparr>)],
     st_executions = [], st_objects = [], st_memory = []\<rparr>"

theorem failed_fire_revives_deleted_witness:
  "\<exists>r'. map_of (st_rows (settle_task demo_lib ''A'' 150 (demo_job ''A'' ''t1'' 100) (demo_execution ''e'' ''failed'') deleted_store))
      (ct_id (demo_job ''A'' ''t1'' 100)) = Some r' \<and> rw_status r' = status_value Active
    \<and> rw_next_fire_at r' = Some (max 250 (150 + backoff_delay (consecutive_failures (demo_job ''A'' ''t1'' 100) + 1)))"
proof (rule failed_fire_revives_deleted)
  show "map_of (st_rows deleted_store) (ct_id (demo_job ''A'' ''t1'' 100)) =
      Some ((task_to_row (ce_dumps demo_cron) (demo_job ''A'' ''t1'' 100))\<lparr>rw_status := ''deleted''\<rparr>)"
    by code_simp
qed (code_simp | simp)+

text \<open>
  The claim statement checks that the row is unclaimed and active, not that it is still due. A kernel
  that listed a task before another kernel fired it claims it again for the same occasion.
\<close>

definition twice_run :: "cron_action list" where
  "twice_run =
     [Create ''A'' ''t1'' (demo_args True None), Pass 100, Scan ''A'', Scan ''B'', Claim ''B'', Start ''B'',
      Finish ''B'' (demo_job ''B'' ''t1'' 100) (demo_execution ''e1'' ''completed''), Claim ''A'', Start ''A'']"

lemma stale_listing_fires_twice:
  "\<exists>w r. cron_run demo_cron timely (\<lambda>_ _. True) (empty_world 0) twice_run w
     \<and> cw_begun w = [(''B'', ''t1''), (''A'', ''t1'')] \<and> cw_now w = 100
     \<and> map_of (cw_rows w) ''t1'' = Some r \<and> rw_next_fire_at r = Some 200"
proof -
  have "case exec_run demo_cron (timely_in [''A'', ''B'']) (\<lambda>_ _. True) (empty_world 0) twice_run of
      None \<Rightarrow> False | Some w \<Rightarrow> cw_begun w = [(''B'', ''t1''), (''A'', ''t1'')] \<and> cw_now w = 100
        \<and> (case map_of (cw_rows w) ''t1'' of None \<Rightarrow> False | Some r \<Rightarrow> rw_next_fire_at r = Some 200)"
    by code_simp
  then obtain w r where w: "exec_run demo_cron (timely_in [''A'', ''B'']) (\<lambda>_ _. True) (empty_world 0) twice_run = Some w"
      and r: "cw_begun w = [(''B'', ''t1''), (''A'', ''t1'')]" "cw_now w = 100" "map_of (cw_rows w) ''t1'' = Some r"
        "rw_next_fire_at r = Some 200"
    by (auto split: option.splits)
  have "cron_run demo_cron timely (\<lambda>_ _. True) (empty_world 0) twice_run w"
    by (rule exec_run_timely [OF w idle_outside_empty]) (simp add: twice_run_def)
  with r show ?thesis by blast
qed

end
