(* ===== verification/Task_Registry.thy ===== *)
theory Task_Registry
  imports Complex_Main Messages
begin

text \<open>
  Background tasks of a session: the task states (\<open>tasks/types.py\<close>), their ids (\<open>tasks/id.py\<close>), the
  registry that all agents of a session share (\<open>tasks/registry.py\<close>), the text of a notification
  (\<open>orchestrator/notifications.py\<close>) and what an agent drains from the registry at the end of a round
  (\<open>drain_task_notifications\<close> of \<open>orchestrator/loop/steps.py\<close>, \<open>orchestrator/agents.py\<close>). The methods of
  the registry do not await, so each is one step. Change listeners are left out: nothing
  registers one. A process is its number.
\<close>

section \<open>Task states\<close>

datatype task_type = LocalBash | LocalAgent | MonitorType

datatype task_status = TaskPending | TaskRunning | TaskCompleted | TaskFailed | TaskKilled

fun task_type_value :: "task_type \<Rightarrow> string" where
  "task_type_value LocalBash = ''local_bash''"
| "task_type_value LocalAgent = ''local_agent''"
| "task_type_value MonitorType = ''monitor''"

fun task_status_value :: "task_status \<Rightarrow> string" where
  "task_status_value TaskPending = ''pending''"
| "task_status_value TaskRunning = ''running''"
| "task_status_value TaskCompleted = ''completed''"
| "task_status_value TaskFailed = ''failed''"
| "task_status_value TaskKilled = ''killed''"

definition is_terminal :: "task_status \<Rightarrow> bool" where
  "is_terminal s \<longleftrightarrow> s \<in> {TaskCompleted, TaskFailed, TaskKilled}"

record shell_part =
  sh_command :: string
  sh_exit_code :: "int option"
  sh_process :: "nat option"

record agent_part =
  ag_type :: string
  ag_prompt :: string
  ag_model :: "string option"
  ag_result :: "string option"
  ag_error :: "string option"
  ag_backgrounded :: bool
  ag_name :: "string option"
  ag_pending :: "string list"
  ag_transcript :: "message list option"
  ag_cancel_event :: "bool option"

record monitor_part =
  mo_command :: string
  mo_exit_code :: "int option"
  mo_process :: "nat option"
  mo_recent :: "string list"
  mo_cap :: nat

datatype task_part = ShellPart shell_part | AgentPart agent_part | MonitorPart monitor_part

record task_state =
  tk_id :: string
  tk_status :: task_status
  tk_description :: string
  tk_tool_use :: "string option"
  tk_owner :: "string option"
  tk_start :: rat
  tk_end :: "rat option"
  tk_output_file :: string
  tk_output_offset :: nat
  tk_notified :: bool
  tk_part :: task_part

fun part_type :: "task_part \<Rightarrow> task_type" where
  "part_type (ShellPart s) = LocalBash"
| "part_type (AgentPart a) = LocalAgent"
| "part_type (MonitorPart m) = MonitorType"

abbreviation tk_type :: "task_state \<Rightarrow> task_type" where
  "tk_type t \<equiv> part_type (tk_part t)"

text \<open>\<open>generate_task_id\<close>: \<open>picks\<close> are the eight random choices.\<close>

fun task_prefix :: "task_type \<Rightarrow> char" where
  "task_prefix LocalBash = CHR ''b''"
| "task_prefix LocalAgent = CHR ''a''"
| "task_prefix MonitorType = CHR ''m''"

definition ID_ALPHABET :: string where
  "ID_ALPHABET = ''0123456789abcdefghijklmnopqrstuvwxyz''"

definition generate_task_id :: "nat list \<Rightarrow> task_type \<Rightarrow> string" where
  "generate_task_id picks ty = task_prefix ty # map (\<lambda>n. ID_ALPHABET ! (n mod 36)) (take 8 picks)"

section \<open>The registry\<close>

text \<open>An agent is its id, and the root agent is \<^const>\<open>None\<close>.\<close>

record task_registry =
  tr_tasks :: "(string, task_state) dict"
  tr_queue :: "(string \<times> string option) list"
  tr_todos :: "(string option, json list) dict"
  tr_names :: "(string, string) dict"

definition new_task_registry :: task_registry where
  "new_task_registry = \<lparr>tr_tasks = [], tr_queue = [], tr_todos = [], tr_names = []\<rparr>"

definition register_task :: "rat \<Rightarrow> task_state \<Rightarrow> task_registry \<Rightarrow> task_registry" where
  "register_task now t reg = reg\<lparr>tr_tasks := dict_set (tk_id t) (t\<lparr>tk_start := now\<rparr>) (tr_tasks reg)\<rparr>"

definition get_task :: "string \<Rightarrow> task_registry \<Rightarrow> task_state option" where
  "get_task i reg = map_of (tr_tasks reg) i"

definition get_all_tasks :: "task_registry \<Rightarrow> task_state list" where
  "get_all_tasks reg = map snd (tr_tasks reg)"

definition get_running :: "task_registry \<Rightarrow> task_state list" where
  "get_running reg = filter (\<lambda>t. tk_status t = TaskRunning) (map snd (tr_tasks reg))"

text \<open>Changing a task object in place.\<close>

definition modify_task :: "string \<Rightarrow> (task_state \<Rightarrow> task_state) \<Rightarrow> task_registry \<Rightarrow> task_registry" where
  "modify_task i f reg =
     (case get_task i reg of
        None \<Rightarrow> reg
      | Some t \<Rightarrow> reg\<lparr>tr_tasks := dict_set i (f t) (tr_tasks reg)\<rparr>)"

text \<open>The fields of \<open>update_status\<close> that depend on the kind of task.\<close>

fun update_part :: "int option \<Rightarrow> string option \<Rightarrow> string option \<Rightarrow> task_part \<Rightarrow> task_part" where
  "update_part code result err (ShellPart s) =
     ShellPart (case code of None \<Rightarrow> s | Some c \<Rightarrow> s\<lparr>sh_exit_code := Some c\<rparr>)"
| "update_part code result err (MonitorPart m) =
     MonitorPart (case code of None \<Rightarrow> m | Some c \<Rightarrow> m\<lparr>mo_exit_code := Some c\<rparr>)"
| "update_part code result err (AgentPart a) =
     AgentPart (a\<lparr>ag_result := (case result of None \<Rightarrow> ag_result a | Some r \<Rightarrow> Some r),
                  ag_error := (case err of None \<Rightarrow> ag_error a | Some e \<Rightarrow> Some e)\<rparr>)"

definition task_update_status :: "rat \<Rightarrow> string \<Rightarrow> task_status \<Rightarrow> int option \<Rightarrow> string option \<Rightarrow> string option
    \<Rightarrow> task_registry \<Rightarrow> task_registry" where
  "task_update_status now i status code result err =
     modify_task i (\<lambda>t. t\<lparr>tk_status := status,
       tk_end := (if is_terminal status then Some now else tk_end t),
       tk_part := update_part code result err (tk_part t)\<rparr>)"

subsection \<open>Names\<close>

definition register_name :: "string \<Rightarrow> string \<Rightarrow> task_registry \<Rightarrow> bool \<times> task_registry" where
  "register_name name i reg =
     (if map_of (tr_names reg) name \<noteq> None then (False, reg)
      else (True, reg\<lparr>tr_names := dict_set name i (tr_names reg)\<rparr>))"

definition resolve_name :: "string \<Rightarrow> task_registry \<Rightarrow> string option" where
  "resolve_name name reg = map_of (tr_names reg) name"

definition unregister_name :: "string \<Rightarrow> task_registry \<Rightarrow> task_registry" where
  "unregister_name name reg = reg\<lparr>tr_names := dict_pop name (tr_names reg)\<rparr>"

definition update_name :: "string \<Rightarrow> string \<Rightarrow> task_registry \<Rightarrow> task_registry" where
  "update_name name i reg = reg\<lparr>tr_names := dict_set name i (tr_names reg)\<rparr>"

subsection \<open>Messages to sub-agents\<close>

definition queue_message :: "string \<Rightarrow> string \<Rightarrow> task_registry \<Rightarrow> bool \<times> task_registry" where
  "queue_message i msg reg =
     (case get_task i reg of
        None \<Rightarrow> (False, reg)
      | Some t \<Rightarrow>
          (case tk_part t of
             AgentPart a \<Rightarrow> (True, modify_task i (\<lambda>t. t\<lparr>tk_part := AgentPart (a\<lparr>ag_pending := ag_pending a @ [msg]\<rparr>)\<rparr>) reg)
           | _ \<Rightarrow> (False, reg)))"

definition drain_messages :: "string \<Rightarrow> task_registry \<Rightarrow> string list \<times> task_registry" where
  "drain_messages i reg =
     (case get_task i reg of
        None \<Rightarrow> ([], reg)
      | Some t \<Rightarrow>
          (case tk_part t of
             AgentPart a \<Rightarrow>
               if ag_pending a = [] then ([], reg)
               else (ag_pending a, modify_task i (\<lambda>t. t\<lparr>tk_part := AgentPart (a\<lparr>ag_pending := []\<rparr>)\<rparr>) reg)
           | _ \<Rightarrow> ([], reg)))"

subsection \<open>Notifications\<close>

definition enqueue_notification :: "string \<Rightarrow> task_registry \<Rightarrow> task_registry" where
  "enqueue_notification i reg =
     (case get_task i reg of
        None \<Rightarrow> reg
      | Some t \<Rightarrow>
          if tk_notified t then reg
          else (modify_task i (\<lambda>t. t\<lparr>tk_notified := True\<rparr>) reg)\<lparr>tr_queue := tr_queue reg @ [(i, tk_owner t)]\<rparr>)"

text \<open>The two lists the loop of \<open>drain_notifications\<close> fills from the queue.\<close>

fun drain_queue :: "string option \<Rightarrow> (string \<times> string option) list \<Rightarrow> string list \<times> (string \<times> string option) list" where
  "drain_queue agent [] = ([], [])"
| "drain_queue agent ((i, owner) # q) =
     (let (matched, requeue) = drain_queue agent q
      in if owner = agent then (i # matched, requeue) else (matched, (i, owner) # requeue))"

definition drain_notifications :: "string option \<Rightarrow> task_registry \<Rightarrow> string list \<times> task_registry" where
  "drain_notifications agent reg =
     (let (matched, requeue) = drain_queue agent (tr_queue reg) in (matched, reg\<lparr>tr_queue := requeue\<rparr>))"

fun drain_lines :: "string option \<Rightarrow> (string, task_state) dict
    \<Rightarrow> (string \<times> string list) list \<times> (string, task_state) dict" where
  "drain_lines agent [] = ([], [])"
| "drain_lines agent ((i, t) # d) =
     (let (lines, d') = drain_lines agent d
      in case tk_part t of
           MonitorPart m \<Rightarrow>
             if tk_owner t = agent \<and> mo_recent m \<noteq> []
             then ((tk_id t, mo_recent m) # lines, (i, t\<lparr>tk_part := MonitorPart (m\<lparr>mo_recent := []\<rparr>)\<rparr>) # d')
             else (lines, (i, t) # d')
         | _ \<Rightarrow> (lines, (i, t) # d'))"

definition drain_monitor_lines :: "string option \<Rightarrow> task_registry \<Rightarrow> (string \<times> string list) list \<times> task_registry" where
  "drain_monitor_lines agent reg =
     (let (lines, tasks) = drain_lines agent (tr_tasks reg) in (lines, reg\<lparr>tr_tasks := tasks\<rparr>))"

subsection \<open>Eviction and shutdown\<close>

definition evictable :: "task_state \<Rightarrow> bool" where
  "evictable t \<longleftrightarrow> is_terminal (tk_status t) \<and> tk_notified t"

definition evict_terminal :: "task_registry \<Rightarrow> string list \<times> task_registry" where
  "evict_terminal reg =
     (let evicted = map fst (filter (\<lambda>(i, t). evictable t) (tr_tasks reg))
      in (evicted, if evicted = [] then reg
                   else reg\<lparr>tr_tasks := filter (\<lambda>(i, t). \<not> evictable t) (tr_tasks reg),
                            tr_names := filter (\<lambda>(n, i). i \<notin> set evicted) (tr_names reg)\<rparr>))"

fun process_of :: "task_part \<Rightarrow> nat option" where
  "process_of (ShellPart s) = sh_process s"
| "process_of (MonitorPart m) = mo_process m"
| "process_of (AgentPart a) = None"

text \<open>\<open>shutdown\<close>: the processes killed, the files removed, and the registry after it.\<close>

definition shutdown_registry :: "task_registry \<Rightarrow> nat list \<times> string list \<times> task_registry" where
  "shutdown_registry reg =
     (List.map_filter (\<lambda>t. process_of (tk_part t)) (get_running reg),
      filter (\<lambda>f. f \<noteq> []) (map tk_output_file (map snd (tr_tasks reg))),
      reg\<lparr>tr_tasks := []\<rparr>)"

subsection \<open>Todo lists\<close>

definition get_todos :: "string option \<Rightarrow> task_registry \<Rightarrow> json list" where
  "get_todos agent reg = (case map_of (tr_todos reg) agent of None \<Rightarrow> [] | Some ts \<Rightarrow> ts)"

definition set_todos :: "string option \<Rightarrow> json list \<Rightarrow> task_registry \<Rightarrow> task_registry" where
  "set_todos agent todos reg =
     reg\<lparr>tr_todos := (if todos \<noteq> [] then dict_set agent todos (tr_todos reg) else dict_pop agent (tr_todos reg))\<rparr>"

section \<open>Lemmas\<close>

lemma map_fst_dict_set [simp]: "k \<in> fst ` set d \<Longrightarrow> map fst (dict_set k v d) = map fst d"
  by (induction k v d rule: dict_set.induct) auto

lemma get_task_keys: "get_task i reg = Some t \<Longrightarrow> i \<in> fst ` set (tr_tasks reg)"
  by (force simp: get_task_def dest: map_of_SomeD)

lemma get_modify [simp]:
  "get_task j (modify_task i f reg) = (if j = i then map_option f (get_task i reg) else get_task j reg)"
  by (auto simp: modify_task_def get_task_def split: option.splits)

lemma modify_task_simps [simp]:
  "tr_queue (modify_task i f reg) = tr_queue reg" "tr_names (modify_task i f reg) = tr_names reg"
  "tr_todos (modify_task i f reg) = tr_todos reg"
  "map fst (tr_tasks (modify_task i f reg)) = map fst (tr_tasks reg)"
  by (auto simp: modify_task_def get_task_keys split: option.splits)

lemma get_enqueue [simp]:
  "get_task j (enqueue_notification i reg) =
     (if j = i then map_option (tk_notified_update (\<lambda>_. True)) (get_task i reg) else get_task j reg)"
proof (cases "get_task i reg")
  case (Some t)
  have "get_task j (r\<lparr>tr_queue := q\<rparr>) = get_task j r" for r q by (simp add: get_task_def)
  moreover have "tk_notified t \<Longrightarrow> t\<lparr>tk_notified := True\<rparr> = t" by simp
  ultimately show ?thesis using Some by (auto simp: enqueue_notification_def)
qed (auto simp: enqueue_notification_def)

lemma enqueue_simps [simp]:
  "tr_queue (enqueue_notification i reg) =
     tr_queue reg @ (case get_task i reg of None \<Rightarrow> [] | Some t \<Rightarrow> if tk_notified t then [] else [(i, tk_owner t)])"
  "tr_names (enqueue_notification i reg) = tr_names reg" "tr_todos (enqueue_notification i reg) = tr_todos reg"
  "map fst (tr_tasks (enqueue_notification i reg)) = map fst (tr_tasks reg)"
  by (auto simp: enqueue_notification_def split: option.splits)

lemma get_register [simp]:
  "get_task j (register_task now t reg) = (if j = tk_id t then Some (t\<lparr>tk_start := now\<rparr>) else get_task j reg)"
  by (simp add: register_task_def get_task_def)

lemma register_simps [simp]:
  "tr_queue (register_task now t reg) = tr_queue reg" "tr_names (register_task now t reg) = tr_names reg"
  "tr_todos (register_task now t reg) = tr_todos reg"
  by (simp_all add: register_task_def)

lemma get_task_update [simp]:
  "get_task i (reg\<lparr>tr_queue := q\<rparr>) = get_task i reg" "get_task i (reg\<lparr>tr_names := n\<rparr>) = get_task i reg"
  "get_task i (reg\<lparr>tr_todos := d\<rparr>) = get_task i reg"
  by (simp_all add: get_task_def)

text \<open>The queue after a drain keeps what other agents own, in order.\<close>

lemma drain_queue_eq:
  "drain_queue agent q = (map fst (filter (\<lambda>(i, owner). owner = agent) q), filter (\<lambda>(i, owner). owner \<noteq> agent) q)"
  by (induction q) auto

lemma map_of_filter_value:
  "distinct (map fst d) \<Longrightarrow>
   map_of (filter (\<lambda>(i, v). P v) d) k = (case map_of d k of None \<Rightarrow> None | Some v \<Rightarrow> if P v then Some v else None)"
  by (induction d) (auto split: option.splits dest: weak_map_of_SomeI simp: image_iff map_of_eq_None_iff)

lemma get_evicted:
  assumes "distinct (map fst (tr_tasks reg))"
  shows "get_task i (snd (evict_terminal reg)) =
    (case get_task i reg of None \<Rightarrow> None | Some t \<Rightarrow> if evictable t then None else Some t)"
proof (cases "map fst (filter (\<lambda>(i, t). evictable t) (tr_tasks reg)) = []")
  case True
  then have "\<not> evictable t" if "get_task i reg = Some t" for t
    using that by (auto simp: get_task_def filter_empty_conv dest: map_of_SomeD)
  then show ?thesis using True by (simp add: evict_terminal_def Let_def split: option.splits)
next
  case False
  then show ?thesis using map_of_filter_value [OF assms, of "\<lambda>t. \<not> evictable t" i]
    by (simp add: evict_terminal_def Let_def get_task_def del: map_is_Nil_conv split: option.splits)
qed

lemma evict_simps [simp]:
  "tr_queue (snd (evict_terminal reg)) = tr_queue reg" "tr_todos (snd (evict_terminal reg)) = tr_todos reg"
  by (simp_all add: evict_terminal_def Let_def)

lemma evict_distinct:
  "distinct (map fst (tr_tasks reg)) \<Longrightarrow> distinct (map fst (tr_tasks (snd (evict_terminal reg))))"
  by (simp add: evict_terminal_def Let_def distinct_map_filter)

text \<open>Draining the lines of a monitor empties its buffer and changes nothing else.\<close>

definition drop_lines :: "string option \<Rightarrow> task_state \<Rightarrow> task_state" where
  "drop_lines agent t =
     (case tk_part t of
        MonitorPart m \<Rightarrow> if tk_owner t = agent then t\<lparr>tk_part := MonitorPart (m\<lparr>mo_recent := []\<rparr>)\<rparr> else t
      | _ \<Rightarrow> t)"

lemma drain_lines_tasks: "snd (drain_lines agent d) = map (\<lambda>(i, t). (i, drop_lines agent t)) d"
proof (induction agent d rule: drain_lines.induct)
  case (2 agent i t d)
  have "mo_recent m = [] \<Longrightarrow> m\<lparr>mo_recent := []\<rparr> = m" "tk_part t = p \<Longrightarrow> t\<lparr>tk_part := p\<rparr> = t" for m t p
    by auto
  with 2 show ?case by (auto simp: split_def Let_def drop_lines_def split: task_part.splits)
qed simp

lemma get_drained_lines:
  "get_task i (snd (drain_monitor_lines agent reg)) = map_option (drop_lines agent) (get_task i reg)"
  using fun_cong [OF map_of_map [of "drop_lines agent" "tr_tasks reg"], of i]
  by (simp add: drain_monitor_lines_def case_prod_unfold get_task_def drain_lines_tasks)

lemma drain_monitor_simps [simp]:
  "tr_queue (snd (drain_monitor_lines agent reg)) = tr_queue reg"
  "tr_todos (snd (drain_monitor_lines agent reg)) = tr_todos reg"
  "map fst (tr_tasks (snd (drain_monitor_lines agent reg))) = map fst (tr_tasks reg)"
  by (simp_all add: drain_monitor_lines_def split_def drain_lines_tasks comp_def)

end
