(* ===== verification/Task_Tools.thy ===== *)
theory Task_Tools
  imports Task_Registry
begin

text \<open>
  What uses the registry of background tasks: the notifications an agent drains at the end of a
  round (\<open>orchestrator/notifications.py\<close>, \<open>loop/steps.py\<close>, \<open>agents.py\<close>), the tools that start, stop
  and read tasks and send messages to them (\<open>tools/builtin/bash.py\<close>, \<open>monitor.py\<close>, \<open>agent.py\<close>,
  \<open>send_message.py\<close>, \<open>task_stop.py\<close>, \<open>task_output.py\<close>, \<open>todo_write.py\<close>), and the coroutines these tools
  leave behind. Output files hold ASCII text without carriage returns, so that a byte is a
  character. \<open>Inl\<close> in a reply is the text of an error.
\<close>

abbreviation newline :: string where
  "newline \<equiv> [CHR 0x0A]"

type_synonym tool_reply = "string + string"

section \<open>Notifications\<close>

definition exit_code_suffix :: "string \<Rightarrow> string \<Rightarrow> int option \<Rightarrow> string" where
  "exit_code_suffix before after code =
     (case code of None \<Rightarrow> [] | Some c \<Rightarrow> before @ py_str_int c @ after)"

definition monitor_summary :: "string \<Rightarrow> task_status \<Rightarrow> int option \<Rightarrow> string" where
  "monitor_summary description status code =
     ''Monitor '' @ [CHR 0x22] @ description @ [CHR 0x22] @
     (if status = TaskCompleted then '' stopped'' @ exit_code_suffix '' (exit code '' '')'' code
      else if status = TaskFailed then '' failed'' @ exit_code_suffix '' with exit code '' [] code
      else '' was stopped'')"

definition shell_summary :: "string \<Rightarrow> task_status \<Rightarrow> int option \<Rightarrow> string" where
  "shell_summary description status code =
     ''Background command '' @ [CHR 0x22] @ description @ [CHR 0x22] @
     (if status = TaskCompleted then '' completed'' @ exit_code_suffix '' (exit code '' '')'' code
      else if status = TaskFailed then '' failed'' @ exit_code_suffix '' with exit code '' [] code
      else '' was stopped'')"

definition agent_summary :: "string \<Rightarrow> task_status \<Rightarrow> string option \<Rightarrow> string" where
  "agent_summary description status err =
     ''Agent '' @ [CHR 0x22] @ description @ [CHR 0x22] @
     (if status = TaskCompleted then '' completed''
      else if status = TaskFailed
      then '' failed: '' @ (case err of Some (c # e) \<Rightarrow> c # e | _ \<Rightarrow> ''Unknown error'')
      else '' was stopped'')"

definition task_summary :: "task_state \<Rightarrow> string" where
  "task_summary t =
     (case tk_part t of
        MonitorPart m \<Rightarrow> monitor_summary (tk_description t) (tk_status t) (mo_exit_code m)
      | ShellPart s \<Rightarrow> shell_summary (tk_description t) (tk_status t) (sh_exit_code s)
      | AgentPart a \<Rightarrow> agent_summary (tk_description t) (tk_status t) (ag_error a))"

definition format_task_notification :: "task_state \<Rightarrow> string" where
  "format_task_notification t =
     (let tool_use_line = (case tk_tool_use t of
            Some (c # u) \<Rightarrow> newline @ ''<tool-use-id>'' @ c # u @ ''</tool-use-id>'' | _ \<Rightarrow> []);
          result_section = (case tk_part t of
            AgentPart a \<Rightarrow> (case ag_result a of
               Some (c # r) \<Rightarrow> newline @ ''<result>'' @ c # r @ ''</result>'' | _ \<Rightarrow> [])
          | _ \<Rightarrow> [])
      in ''<task-notification>'' @ newline
         @ ''<task-id>'' @ tk_id t @ ''</task-id>'' @ tool_use_line @ newline
         @ ''<output-file>'' @ tk_output_file t @ ''</output-file>'' @ newline
         @ ''<status>'' @ task_status_value (tk_status t) @ ''</status>'' @ newline
         @ ''<summary>'' @ task_summary t @ ''</summary>'' @ result_section @ newline
         @ ''</task-notification>'')"

definition format_monitor_notification :: "string \<Rightarrow> string list \<Rightarrow> string" where
  "format_monitor_notification i lines =
     ''<monitor-update>'' @ newline @ ''<task-id>'' @ i @ ''</task-id>'' @ newline
     @ ''<output>'' @ newline @ py_join newline lines @ newline @ ''</output>'' @ newline
     @ ''</monitor-update>''"

text \<open>
  \<open>drain_task_notifications\<close> of an agent: the tasks it reports, the reminders it queues for the
  session, and the registry after it.
\<close>

definition drain_task_notifications :: "string option \<Rightarrow> task_registry \<Rightarrow> task_state list \<times> string list \<times> task_registry" where
  "drain_task_notifications agent reg =
     (let (ids, reg1) = drain_notifications agent reg;
          reported = List.map_filter (\<lambda>i. get_task i reg1) ids;
          reg2 = snd (evict_terminal reg1);
          (updates, reg3) = drain_monitor_lines agent reg2
      in (reported,
          map format_task_notification reported
            @ map (\<lambda>(i, lines). format_monitor_notification i lines) (filter (\<lambda>(i, lines). lines \<noteq> []) updates),
          reg3))"

text \<open>\<open>drain_orphan_notifications\<close>: what a sub-agent left undrained is queued by its parent.\<close>

definition drain_orphan_notifications :: "string \<Rightarrow> task_registry \<Rightarrow> task_state list \<times> string list \<times> task_registry" where
  "drain_orphan_notifications ended reg =
     (let (ids, reg1) = drain_notifications (Some ended) reg;
          reported = List.map_filter (\<lambda>i. get_task i reg1) ids
      in (reported, map format_task_notification reported, reg1))"

section \<open>Shell tasks\<close>

text \<open>\<open>BashTool._spawn_background\<close>, for a shell that exists; \<open>pid\<close> is the process started.\<close>

definition spawn_shell :: "rat \<Rightarrow> string \<Rightarrow> string \<Rightarrow> string \<Rightarrow> string option \<Rightarrow> string \<Rightarrow> nat
    \<Rightarrow> task_registry \<Rightarrow> tool_reply \<times> task_registry" where
  "spawn_shell now i description command owner path pid reg =
     (Inr (''Command running in background with ID: '' @ i @ ''. Output is being written to: '' @ path),
      register_task now
        \<lparr>tk_id = i, tk_status = TaskRunning, tk_description = description, tk_tool_use = None,
         tk_owner = owner, tk_start = 0, tk_end = None, tk_output_file = path, tk_output_offset = 0,
         tk_notified = False,
         tk_part = ShellPart \<lparr>sh_command = command, sh_exit_code = None, sh_process = Some pid\<rparr>\<rparr> reg)"

text \<open>\<open>_wait_and_notify\<close> when the process has ended: \<^const>\<open>None\<close> is the timeout, which kills it.\<close>

definition wait_and_notify :: "rat \<Rightarrow> string \<Rightarrow> int option \<Rightarrow> task_registry \<Rightarrow> task_registry" where
  "wait_and_notify now i exit_status reg =
     (let returncode = (case exit_status of None \<Rightarrow> - 1 | Some c \<Rightarrow> c);
          status = (if returncode = 0 then TaskCompleted else TaskFailed)
      in enqueue_notification i (task_update_status now i status (Some returncode) None None reg))"

section \<open>Monitors\<close>

definition MAX_BUFFERED_LINES :: nat where
  "MAX_BUFFERED_LINES = 50"

definition spawn_monitor :: "rat \<Rightarrow> string \<Rightarrow> string \<Rightarrow> string \<Rightarrow> int \<Rightarrow> string option \<Rightarrow> string \<Rightarrow> nat
    \<Rightarrow> task_registry \<Rightarrow> tool_reply \<times> task_registry" where
  "spawn_monitor now i description command timeout_ms owner path pid reg =
     (Inr (''Monitor started for: '' @ description @ newline @ ''Task ID: '' @ i @ newline
           @ ''Command: '' @ command @ newline @ ''Timeout: '' @ py_str_int (timeout_ms div 1000) @ ''s'' @ newline
           @ ''New output will be delivered as system reminders each turn.''),
      register_task now
        \<lparr>tk_id = i, tk_status = TaskRunning, tk_description = description, tk_tool_use = None,
         tk_owner = owner, tk_start = 0, tk_end = None, tk_output_file = path, tk_output_offset = 0,
         tk_notified = False,
         tk_part = MonitorPart \<lparr>mo_command = command, mo_exit_code = None, mo_process = Some pid,
                                mo_recent = [], mo_cap = MAX_BUFFERED_LINES\<rparr>\<rparr> reg)"

text \<open>\<open>str.splitlines\<close> on ASCII text without carriage returns.\<close>

definition is_line_break :: "char \<Rightarrow> bool" where
  "is_line_break c \<longleftrightarrow> c \<in> {CHR 0x0A, CHR 0x0B, CHR 0x0C, CHR 0x1C, CHR 0x1D, CHR 0x1E}"

fun split_lines :: "string \<Rightarrow> string \<Rightarrow> string list" where
  "split_lines cur [] = (if cur = [] then [] else [cur])"
| "split_lines cur (c # s) =
     (if is_line_break c then cur # split_lines [] s else split_lines (cur @ [c]) s)"

text \<open>The loop over the lines: \<open>pop(0)\<close> of an empty buffer raises.\<close>

fun push_lines :: "nat \<Rightarrow> string list \<Rightarrow> string list \<Rightarrow> string list py" where
  "push_lines cap buf [] = Inr buf"
| "push_lines cap buf (l # ls) =
     (if cap \<le> length buf
      then case buf of
             [] \<Rightarrow> Inl (PyExn ''IndexError'')
           | b # bs \<Rightarrow> push_lines cap (bs @ [l]) ls
      else push_lines cap (buf @ [l]) ls)"

text \<open>\<open>_read_new_output\<close>; the file is \<^const>\<open>None\<close> when it does not exist.\<close>

definition read_new_output :: "string option \<Rightarrow> nat \<Rightarrow> monitor_part \<Rightarrow> (nat \<times> monitor_part) py" where
  "read_new_output file offset m =
     (case file of
        None \<Rightarrow> Inr (offset, m)
      | Some text \<Rightarrow>
          if length text \<le> offset then Inr (offset, m)
          else ebind (push_lines (mo_cap m) (mo_recent m) (split_lines [] (drop offset text)))
                 (\<lambda>buf. Inr (length text, m\<lparr>mo_recent := buf\<rparr>)))"

text \<open>
  One round of \<open>_monitor_reader\<close>: the offset for the next round, or \<^const>\<open>None\<close> when the reader has
  returned or crashed. \<open>file\<close> and \<open>file'\<close> are the output file at the two reads.
\<close>

definition monitor_poll :: "string \<Rightarrow> string option \<Rightarrow> string option \<Rightarrow> nat \<Rightarrow> task_registry \<Rightarrow> nat option \<times> task_registry" where
  "monitor_poll i file file' offset reg =
     (case get_task i reg of
        None \<Rightarrow> (None, reg)
      | Some t \<Rightarrow>
          (case tk_part t of
             MonitorPart m \<Rightarrow>
               (case read_new_output file offset m of
                  Inl _ \<Rightarrow> (None, reg)
                | Inr (offset', m') \<Rightarrow>
                    if is_terminal (tk_status t)
                    then (None, case read_new_output file' offset' m' of
                                  Inl _ \<Rightarrow> modify_task i (\<lambda>t. t\<lparr>tk_part := MonitorPart m'\<rparr>) reg
                                | Inr (_, m'') \<Rightarrow> modify_task i (\<lambda>t. t\<lparr>tk_part := MonitorPart m''\<rparr>) reg)
                    else (Some offset', modify_task i (\<lambda>t. t\<lparr>tk_part := MonitorPart m'\<rparr>) reg))
           | _ \<Rightarrow> (None, reg)))"

text \<open>\<open>_monitor_timeout\<close> when the process has ended by itself or was killed at the timeout.\<close>

definition monitor_exit :: "rat \<Rightarrow> string \<Rightarrow> int \<Rightarrow> task_registry \<Rightarrow> task_registry" where
  "monitor_exit now i returncode reg =
     (let status = (if returncode = 0 then TaskCompleted else TaskFailed)
      in case get_task i reg of
           None \<Rightarrow> reg
         | Some t \<Rightarrow>
             if is_terminal (tk_status t) then reg
             else enqueue_notification i (task_update_status now i status (Some returncode) None None reg))"

section \<open>Background agents\<close>

text \<open>
  \<open>AgentTool._spawn_background\<close>: \<open>file\<close> is the outcome of \<open>init_file\<close>, an exception of which is
  left to the caller.
\<close>

definition spawn_agent :: "rat \<Rightarrow> string \<Rightarrow> string option \<Rightarrow> string \<Rightarrow> string \<Rightarrow> string \<Rightarrow> string option
    \<Rightarrow> string option \<Rightarrow> string py \<Rightarrow> task_registry \<Rightarrow> tool_reply py \<times> task_registry" where
  "spawn_agent now i name description prompt ty model owner file reg =
     (let named = (case name of Some (c # n) \<Rightarrow> True | _ \<Rightarrow> False);
          (ok, reg1) = (if named then register_name (the name) i reg else (True, reg))
      in if \<not> ok
         then (Inr (Inl (''Agent name '' @ [CHR 0x27] @ the name @ [CHR 0x27]
                         @ '' is already taken. Choose a different name.'')), reg1)
         else case file of
           Inl e \<Rightarrow> (Inl e, reg1)
         | Inr path \<Rightarrow>
             (Inr (Inr (''Agent running in background with ID: '' @ i
                        @ (if named then '' (name: '' @ [CHR 0x27] @ the name @ [CHR 0x27] @ '')'' else [])
                        @ ''. You will be notified when it completes.'')),
              register_task now
                \<lparr>tk_id = i, tk_status = TaskRunning, tk_description = description, tk_tool_use = None,
                 tk_owner = owner, tk_start = 0, tk_end = None, tk_output_file = path, tk_output_offset = 0,
                 tk_notified = False,
                 tk_part = AgentPart \<lparr>ag_type = ty, ag_prompt = prompt, ag_model = model, ag_result = None,
                                      ag_error = None, ag_backgrounded = True, ag_name = name, ag_pending = [],
                                      ag_transcript = None, ag_cancel_event = None\<rparr>\<rparr> reg1))"

text \<open>How the event stream of the sub-agent ends, and what \<open>_run_agent_background\<close> does then.\<close>

datatype agent_end = AgentCancelled | AgentRaised string | AgentReturned string "message list option"

definition run_agent_background :: "rat \<Rightarrow> string \<Rightarrow> agent_end \<Rightarrow> task_registry \<Rightarrow> task_registry" where
  "run_agent_background now i e reg =
     enqueue_notification i
       (case e of
          AgentCancelled \<Rightarrow> task_update_status now i TaskKilled None None None reg
        | AgentRaised msg \<Rightarrow> task_update_status now i TaskFailed None None (Some msg) reg
        | AgentReturned result_text transcript \<Rightarrow>
            (let result = (if result_text = [] then ''(agent produced no output)'' else result_text);
                 reg1 = task_update_status now i TaskCompleted None (Some result) None reg
             in case (get_task i reg1, transcript) of
                  (Some t, Some (m # ms)) \<Rightarrow>
                    (case tk_part t of
                       AgentPart a \<Rightarrow> modify_task i (\<lambda>t. t\<lparr>tk_part := AgentPart (a\<lparr>ag_transcript := Some (m # ms)\<rparr>)\<rparr>) reg1
                     | _ \<Rightarrow> reg1)
                | _ \<Rightarrow> reg1))"

section \<open>Stopping and reading a task\<close>

text \<open>\<open>TaskStopTool.call\<close>: the reply, the process killed and the registry after it.\<close>

definition task_stop :: "rat \<Rightarrow> string \<Rightarrow> task_registry \<Rightarrow> tool_reply \<times> nat option \<times> task_registry" where
  "task_stop now i reg =
     (case get_task i reg of
        None \<Rightarrow> (Inl (''No task found with ID: '' @ i), None, reg)
      | Some t \<Rightarrow>
          if tk_status t \<noteq> TaskRunning
          then (Inl (''Task '' @ i @ '' is not running (status: '' @ task_status_value (tk_status t) @ '')''), None, reg)
          else let reg1 = (case tk_part t of
                   AgentPart a \<Rightarrow>
                     if ag_cancel_event a = None then reg
                     else modify_task i (\<lambda>t. t\<lparr>tk_part := AgentPart (a\<lparr>ag_cancel_event := Some True\<rparr>)\<rparr>) reg
                 | _ \<Rightarrow> reg)
               in (Inr (''Successfully stopped task: '' @ i @ '' ('' @ tk_description t @ '')''),
                   process_of (tk_part t),
                   enqueue_notification i (task_update_status now i TaskKilled None None None reg1)))"

text \<open>\<open>TaskOutput.read_tail\<close>; the file is \<^const>\<open>None\<close> when it does not exist.\<close>

definition read_tail :: "nat \<Rightarrow> string option \<Rightarrow> string" where
  "read_tail max_bytes file =
     (case file of
        None \<Rightarrow> []
      | Some text \<Rightarrow>
          if length text \<le> max_bytes then text
          else let offset = length text - max_bytes
               in ''['' @ py_str_nat (offset div 1024) @ ''KB of earlier output omitted]'' @ newline @ drop offset text)"

definition OUTPUT_MAX_BYTES :: nat where
  "OUTPUT_MAX_BYTES = 8 * 1024 * 1024"

text \<open>
  The waiting loop of \<open>TaskOutputTool.call\<close>. What it sees at the start of each round is whether
  the call is cancelled and the registry; \<open>final\<close> is the registry when the deadline has passed.
\<close>

fun wait_for_task :: "string \<Rightarrow> (bool \<times> task_registry) list \<Rightarrow> task_registry \<Rightarrow> task_registry" where
  "wait_for_task i [] final = final"
| "wait_for_task i ((cancelled, reg) # polls) final =
     (if cancelled \<or> (case get_task i reg of None \<Rightarrow> True | Some t \<Rightarrow> is_terminal (tk_status t)) then reg
      else wait_for_task i polls final)"

definition task_output :: "string \<Rightarrow> bool \<Rightarrow> (bool \<times> task_registry) list \<Rightarrow> task_registry \<Rightarrow> string option
    \<Rightarrow> task_registry \<Rightarrow> tool_reply" where
  "task_output i block polls final file reg =
     (let report = (\<lambda>t. Inr ((if is_terminal (tk_status t) then ''[success] Task '' else ''[timeout] Task '')
            @ i @ '' ('' @ task_status_value (tk_status t) @ ''):'' @ newline @ read_tail OUTPUT_MAX_BYTES file))
      in case get_task i reg of
           None \<Rightarrow> Inl (''No task found with ID: '' @ i)
         | Some t \<Rightarrow>
             if block \<and> tk_status t = TaskRunning
             then case get_task i (wait_for_task i polls final) of
                    None \<Rightarrow> Inl (''Task '' @ i @ '' disappeared during wait'')
                  | Some t' \<Rightarrow> report t'
             else report t)"

section \<open>Messages to agents\<close>

text \<open>
  \<open>SendMessageTool.call\<close>. \<open>deliver\<close> and \<open>route\<close> are the functions that reach another session or a
  durable agent, when they are wired; \<open>can_spawn\<close> says whether a sub-agent can be started here,
  \<open>file\<close> is the outcome of \<open>init_file\<close>. Returned are the success flag and text, the registry, and the
  agent that is started: its task, prompt and history.
\<close>

definition resume_agent :: "rat \<Rightarrow> string \<Rightarrow> string py \<Rightarrow> bool \<Rightarrow> string \<Rightarrow> task_state \<Rightarrow> agent_part \<Rightarrow> string
    \<Rightarrow> string option \<Rightarrow> task_registry
    \<Rightarrow> (bool \<times> string) py \<times> task_registry \<times> (string \<times> string \<times> message list option) option" where
  "resume_agent now new_id file can_spawn name_or_id old part msg owner reg =
     (if \<not> can_spawn
      then (Inr (False, ''Cannot resume agent: sub-agent spawning not available.''), reg, None)
      else case file of
        Inl e \<Rightarrow> (Inl e, reg, None)
      | Inr path \<Rightarrow>
          let named = (case ag_name part of Some (c # n) \<Rightarrow> True | _ \<Rightarrow> False);
              reg1 = register_task now
                \<lparr>tk_id = new_id, tk_status = TaskRunning, tk_description = ''(resumed) '' @ tk_description old,
                 tk_tool_use = None, tk_owner = owner, tk_start = 0, tk_end = None, tk_output_file = path,
                 tk_output_offset = 0, tk_notified = False,
                 tk_part = AgentPart \<lparr>ag_type = ag_type part, ag_prompt = msg, ag_model = ag_model part,
                                      ag_result = None, ag_error = None, ag_backgrounded = True,
                                      ag_name = ag_name part, ag_pending = [], ag_transcript = None,
                                      ag_cancel_event = None\<rparr>\<rparr> reg;
              reg2 = (if named then update_name (the (ag_name part)) new_id reg1 else reg1)
          in (Inr (True, ''Agent '' @ [CHR 0x27] @ (if named then the (ag_name part) else name_or_id) @ [CHR 0x27]
                @ '' was stopped ('' @ task_status_value (tk_status old)
                @ ''); resumed in background with your message.  New task ID: '' @ new_id @ ''.''),
              reg2, Some (new_id, msg, ag_transcript part)))"

definition send_to_agent :: "rat \<Rightarrow> string \<Rightarrow> string py \<Rightarrow> bool \<Rightarrow> string \<Rightarrow> string \<Rightarrow> string option \<Rightarrow> task_registry
    \<Rightarrow> (bool \<times> string) py \<times> task_registry \<times> (string \<times> string \<times> message list option) option" where
  "send_to_agent now new_id file can_spawn to msg owner reg =
     (case (case resolve_name to reg of
              Some i \<Rightarrow> Some i
            | None \<Rightarrow> if get_task to reg \<noteq> None then Some to else None) of
        None \<Rightarrow> (Inr (False, ''Agent '' @ [CHR 0x27] @ to @ [CHR 0x27]
                   @ '' not found.  No agent with that name or task ID exists.''), reg, None)
      | Some i \<Rightarrow>
          (case map_option (\<lambda>t. (t, tk_part t)) (get_task i reg) of
             Some (t, AgentPart a) \<Rightarrow>
               if tk_status t = TaskRunning
               then (Inr (True, ''Message queued for delivery to '' @ [CHR 0x27] @ to @ [CHR 0x27]
                       @ '' at its next tool round.''), snd (queue_message i msg reg), None)
               else if is_terminal (tk_status t)
               then resume_agent now new_id file can_spawn to t a msg owner reg
               else (Inr (False, ''Agent '' @ [CHR 0x27] @ to @ [CHR 0x27] @ '' is in status ''
                       @ [CHR 0x27] @ task_status_value (tk_status t) @ [CHR 0x27]
                       @ '' and cannot receive messages.''), reg, None)
           | _ \<Rightarrow> (Inr (False, ''Task '' @ [CHR 0x27] @ i @ [CHR 0x27] @ '' is not an agent task.''), reg, None)))"

text \<open>
  The routes to other sessions (\<open>session:<id>\<close>) and to durable agents (\<open>agent:<id>\<close>): the texts for a
  missing id, a function that is not wired, a success and a failure.
\<close>

definition send_elsewhere :: "string \<Rightarrow> string \<Rightarrow> string \<Rightarrow> string \<Rightarrow> string \<Rightarrow> (string \<Rightarrow> string \<Rightarrow> bool) option
    \<Rightarrow> string \<Rightarrow> string \<Rightarrow> bool \<times> string" where
  "send_elsewhere no_id missing sent before after deliver target msg =
     (if target = [] then (False, no_id)
      else case deliver of
             None \<Rightarrow> (False, missing)
           | Some f \<Rightarrow> if f target msg then (True, sent @ target @ ''.'')
                       else (False, before @ [CHR 0x27] @ target @ [CHR 0x27] @ after))"

definition send_message :: "rat \<Rightarrow> string \<Rightarrow> string py \<Rightarrow> bool \<Rightarrow> (string \<Rightarrow> string \<Rightarrow> bool) option
    \<Rightarrow> (string \<Rightarrow> string \<Rightarrow> bool) option \<Rightarrow> string \<Rightarrow> string \<Rightarrow> string option \<Rightarrow> task_registry option
    \<Rightarrow> (bool \<times> string) py \<times> task_registry option \<times> (string \<times> string \<times> message list option) option" where
  "send_message now new_id file can_spawn deliver route to msg owner tasks =
     (if to = ''*''
      then (Inr (False, ''Broadcast (to='' @ [CHR 0x27] @ ''*'' @ [CHR 0x27] @ '') is not yet supported.''), tasks, None)
      else if py_startswith to ''session:''
      then (Inr (send_elsewhere (''Empty session ID in '' @ [CHR 0x27] @ ''to'' @ [CHR 0x27] @ '' field.'')
                   ''Cross-session messaging is not available (SessionManager not wired).''
                   ''Message delivered to session '' ''Session '' '' not found or not active.''
                   deliver (drop 8 to) msg), tasks, None)
      else if py_startswith to ''agent:''
      then (Inr (send_elsewhere (''Empty agent ID in '' @ [CHR 0x27] @ ''to'' @ [CHR 0x27] @ '' field.'')
                   ''Durable-agent messaging is not available (Router not wired).''
                   ''Message routed to agent '' ''Agent '' '' not found or cannot receive routed messages.''
                   route (drop 6 to) msg), tasks, None)
      else case tasks of
             None \<Rightarrow> (Inr (False, ''Task registry not available.''), None, None)
           | Some reg \<Rightarrow>
               (case send_to_agent now new_id file can_spawn to msg owner reg of
                  (reply, reg', started) \<Rightarrow> (reply, Some reg', started)))"

section \<open>Todo lists\<close>

text \<open>\<open>TodoWriteTool.validate_input\<close>; an item is a JSON object.\<close>

definition todo_field_ok :: "json option \<Rightarrow> bool" where
  "todo_field_ok v = (case v of Some (JStr s) \<Rightarrow> py_strip s \<noteq> [] | _ \<Rightarrow> False)"

definition check_todo :: "nat \<Rightarrow> json \<Rightarrow> unit py" where
  "check_todo n item =
     (case item of
        JDict d \<Rightarrow>
          (case List.find (\<lambda>key. \<not> todo_field_ok (map_of d key)) [''content'', ''activeForm'', ''status''] of
             Some key \<Rightarrow> Inl (PyExn (''todos['' @ py_str_nat n @ ''].'' @ key @ '' is required (non-empty string)''))
           | None \<Rightarrow>
               if map_of d ''status'' \<in> {Some (JStr ''pending''), Some (JStr ''in_progress''), Some (JStr ''completed'')}
               then Inr ()
               else Inl (PyExn (''todos['' @ py_str_nat n @ ''].status must be one of pending / in_progress / completed'')))
      | _ \<Rightarrow> Inl (PyExn (''todos['' @ py_str_nat n @ ''] must be an object'')))"

fun check_todos :: "nat \<Rightarrow> json list \<Rightarrow> unit py" where
  "check_todos n [] = Inr ()"
| "check_todos n (item # items) = ebind (check_todo n item) (\<lambda>_. check_todos (n + 1) items)"

definition todo_validate_input :: "json option \<Rightarrow> unit py" where
  "todo_validate_input todos =
     (case todos of
        Some (JList items) \<Rightarrow> check_todos 0 items
      | _ \<Rightarrow> Inl (PyExn ([CHR 0x27] @ ''todos'' @ [CHR 0x27] @ '' must be a list'')))"

definition todo_done :: "json \<Rightarrow> bool" where
  "todo_done item = (case item of JDict d \<Rightarrow> map_of d ''status'' = Some (JStr ''completed'') | _ \<Rightarrow> False)"

text \<open>\<open>TodoWriteTool.call\<close>: the old and the new list, and the registry.\<close>

definition todo_write :: "string option \<Rightarrow> json list \<Rightarrow> task_registry option \<Rightarrow> (json list \<times> json list) \<times> task_registry option" where
  "todo_write agent todos tasks =
     (let new_todos = (if list_all todo_done todos then [] else todos)
      in case tasks of
           None \<Rightarrow> (([], new_todos), None)
         | Some reg \<Rightarrow> ((get_todos agent reg, new_todos), Some (set_todos agent new_todos reg)))"

end
