(* ===== verification/Task_Runs.thy ===== *)
theory Task_Runs
  imports Task_Tools
begin

text \<open>
  A session with background tasks: the agents that run in it, the coroutines their tools leave
  behind, the shared registry and the reminders of the session, as steps that may interleave in
  any order. An action between two awaits of the code is one step, and so are the start of a
  background task with the creation of its output file, and what follows the end of a
  sub-agent. The ids of tasks and sub-agents are random and new.
\<close>

section \<open>Worlds and steps\<close>

text \<open>
  \<open>tw_shells\<close>, \<open>tw_monitors\<close> and \<open>tw_readers\<close> are the coroutines \<open>_wait_and_notify\<close>, \<open>_monitor_timeout\<close> and
  \<open>_monitor_reader\<close> that have not returned, \<open>tw_starting\<close> the background agents whose coroutine has been
  created and not begun, \<open>tw_agents\<close> and \<open>tw_children\<close> the background and foreground sub-agents whose
  query runs. As a record of what happened: \<open>tw_ids\<close> the ids drawn, \<open>tw_begun\<close> the tasks registered,
  \<open>tw_reported\<close> the tasks of which a notification became a reminder, \<open>tw_delivered\<close> the reminders a query
  took up and \<open>tw_received\<close> the messages, each with the agent.
\<close>

record task_world =
  tw_reg :: task_registry
  tw_now :: rat
  tw_reminders :: "string list"
  tw_shells :: "string list"
  tw_monitors :: "string list"
  tw_readers :: "(string, nat) dict"
  tw_starting :: "string list"
  tw_agents :: "string list"
  tw_children :: "string list"
  tw_ids :: "string list"
  tw_begun :: "string list"
  tw_reported :: "string list"
  tw_delivered :: "(string option \<times> string) list"
  tw_received :: "(string \<times> string) list"

definition new_task_world :: "rat \<Rightarrow> task_world" where
  "new_task_world now = \<lparr>tw_reg = new_task_registry, tw_now = now, tw_reminders = [], tw_shells = [],
     tw_monitors = [], tw_readers = [], tw_starting = [], tw_agents = [], tw_children = [], tw_ids = [],
     tw_begun = [], tw_reported = [], tw_delivered = [], tw_received = []\<rparr>"

datatype task_action =
    Elapse rat
  | StartShell "string option" string string string string nat
  | StartMonitor "string option" string string string int string nat
  | StartAgent "string option" string "string option" string string string "string option" "string py"
  | AgentBegins string
  | ChildBegins "string option" string
  | ChildEnds string
  | AgentEnds string agent_end
  | ShellExits string "int option"
  | ReadOutput string "string option" "string option"
  | MonitorExits string int
  | StopTask string
  | Drain "string option"
  | RootQuery
  | SendMsg "string option" string "string py" bool string string
  | WriteTodos "string option" "json list"
  | CloseSession

text \<open>The agents that can act: the root agent and the sub-agents whose query runs.\<close>

definition acting :: "task_world \<Rightarrow> string option \<Rightarrow> bool" where
  "acting w agent = (case agent of None \<Rightarrow> True | Some i \<Rightarrow> i \<in> set (tw_agents w) \<or> i \<in> set (tw_children w))"

text \<open>\<open>setup_turn\<close> of a query: it takes up all reminders of the session, and a sub-agent its messages.\<close>

definition begin_query :: "string option \<Rightarrow> task_world \<Rightarrow> task_world" where
  "begin_query agent w =
     (let (msgs, reg) = (case agent of None \<Rightarrow> ([], tw_reg w) | Some i \<Rightarrow> drain_messages i (tw_reg w))
      in w\<lparr>tw_reg := reg, tw_reminders := [],
           tw_delivered := tw_delivered w @ map (\<lambda>r. (agent, r)) (tw_reminders w),
           tw_received := tw_received w @ (case agent of None \<Rightarrow> [] | Some i \<Rightarrow> map (\<lambda>m. (i, m)) msgs)\<rparr>)"

text \<open>What a drain leaves: reminders queued, tasks reported, the registry after it.\<close>

definition drained :: "task_state list \<times> string list \<times> task_registry \<Rightarrow> task_world \<Rightarrow> task_world" where
  "drained d w = (case d of (reported, reminders, reg) \<Rightarrow>
     w\<lparr>tw_reg := reg, tw_reminders := tw_reminders w @ reminders, tw_reported := tw_reported w @ map tk_id reported\<rparr>)"

fun returned :: "agent_end \<Rightarrow> bool" where
  "returned (AgentReturned r t) = True"
| "returned _ = False"

text \<open>A task registered under a new id.\<close>

definition drawn :: "string \<Rightarrow> task_world \<Rightarrow> task_world" where
  "drawn i w = w\<lparr>tw_ids := tw_ids w @ [i]\<rparr>"

definition registered :: "string \<Rightarrow> task_registry \<Rightarrow> task_world \<Rightarrow> task_world" where
  "registered i reg w = w\<lparr>tw_reg := reg, tw_begun := tw_begun w @ [i]\<rparr>"

fun task_next :: "task_action \<Rightarrow> task_world \<Rightarrow> task_world option" where
  "task_next (Elapse d) w = (if 0 \<le> d then Some (w\<lparr>tw_now := tw_now w + d\<rparr>) else None)"
| "task_next (StartShell a i description command path pid) w =
     (if acting w a \<and> i \<notin> set (tw_ids w)
      then Some (registered i (snd (spawn_shell (tw_now w) i description command a path pid (tw_reg w)))
                  (drawn i w\<lparr>tw_shells := i # tw_shells w\<rparr>))
      else None)"
| "task_next (StartMonitor a i description command timeout path pid) w =
     (if acting w a \<and> i \<notin> set (tw_ids w)
      then Some (registered i (snd (spawn_monitor (tw_now w) i description command timeout a path pid (tw_reg w)))
                  (drawn i w\<lparr>tw_monitors := i # tw_monitors w, tw_readers := dict_set i 0 (tw_readers w)\<rparr>))
      else None)"
| "task_next (StartAgent a i name description prompt ty model file) w =
     (if acting w a \<and> i \<notin> set (tw_ids w)
      then (case spawn_agent (tw_now w) i name description prompt ty model a file (tw_reg w) of
              (Inr (Inr _), reg) \<Rightarrow> Some (registered i reg (drawn i w\<lparr>tw_starting := i # tw_starting w\<rparr>))
            | (_, reg) \<Rightarrow> Some (drawn i w\<lparr>tw_reg := reg\<rparr>))
      else None)"
| "task_next (AgentBegins i) w =
     (if i \<in> set (tw_starting w)
      then Some (begin_query (Some i) (w\<lparr>tw_starting := removeAll i (tw_starting w), tw_agents := i # tw_agents w\<rparr>))
      else None)"
| "task_next (ChildBegins a i) w =
     (if acting w a \<and> i \<notin> set (tw_ids w)
      then Some (begin_query (Some i) (drawn i w\<lparr>tw_children := i # tw_children w\<rparr>)) else None)"
| "task_next (ChildEnds i) w =
     (if i \<in> set (tw_children w)
      then Some (drained (drain_orphan_notifications i (tw_reg w)) (w\<lparr>tw_children := removeAll i (tw_children w)\<rparr>))
      else None)"
| "task_next (AgentEnds i e) w =
     (if i \<in> set (tw_agents w)
      then (let w1 = (if returned e then drained (drain_orphan_notifications i (tw_reg w)) w else w)
            in Some (w1\<lparr>tw_reg := run_agent_background (tw_now w) i e (tw_reg w1),
                        tw_agents := removeAll i (tw_agents w)\<rparr>))
      else None)"
| "task_next (ShellExits i code) w =
     (if i \<in> set (tw_shells w)
      then Some (w\<lparr>tw_reg := wait_and_notify (tw_now w) i code (tw_reg w), tw_shells := removeAll i (tw_shells w)\<rparr>)
      else None)"
| "task_next (ReadOutput i file file') w =
     (case map_of (tw_readers w) i of
        None \<Rightarrow> None
      | Some offset \<Rightarrow>
          (case monitor_poll i file file' offset (tw_reg w) of
             (next_offset, reg) \<Rightarrow>
               Some (w\<lparr>tw_reg := reg,
                       tw_readers := (case next_offset of None \<Rightarrow> dict_pop i (tw_readers w)
                                      | Some n \<Rightarrow> dict_set i n (tw_readers w))\<rparr>)))"
| "task_next (MonitorExits i code) w =
     (if i \<in> set (tw_monitors w)
      then Some (w\<lparr>tw_reg := monitor_exit (tw_now w) i code (tw_reg w), tw_monitors := removeAll i (tw_monitors w)\<rparr>)
      else None)"
| "task_next (StopTask i) w = Some (w\<lparr>tw_reg := snd (snd (task_stop (tw_now w) i (tw_reg w)))\<rparr>)"
| "task_next (Drain a) w = (if acting w a then Some (drained (drain_task_notifications a (tw_reg w)) w) else None)"
| "task_next RootQuery w = Some (begin_query None w)"
| "task_next (SendMsg a i file can_spawn to msg) w =
     (if acting w a \<and> i \<notin> set (tw_ids w)
      then (case send_to_agent (tw_now w) i file can_spawn to msg a (tw_reg w) of
              (_, reg, None) \<Rightarrow> Some (drawn i w\<lparr>tw_reg := reg\<rparr>)
            | (_, reg, Some _) \<Rightarrow> Some (registered i reg (drawn i w\<lparr>tw_starting := i # tw_starting w\<rparr>)))
      else None)"
| "task_next (WriteTodos a todos) w =
     (if acting w a then Some (w\<lparr>tw_reg := the (snd (todo_write a todos (Some (tw_reg w))))\<rparr>) else None)"
| "task_next CloseSession w = Some (w\<lparr>tw_reg := snd (snd (shutdown_registry (tw_reg w)))\<rparr>)"

text \<open>A run whose steps all satisfy \<open>P\<close>.\<close>

inductive task_run :: "(task_world \<Rightarrow> task_action \<Rightarrow> bool) \<Rightarrow> task_world \<Rightarrow> task_action list \<Rightarrow> task_world \<Rightarrow> bool"
  for P where
  stop: "task_run P w [] w"
| step: "task_next a w = Some w1 \<Longrightarrow> P w a \<Longrightarrow> task_run P w1 as w' \<Longrightarrow> task_run P w (a # as) w'"

inductive_cases task_run_ConsE: "task_run P w (a # as) w'"

fun exec_tasks :: "(task_world \<Rightarrow> task_action \<Rightarrow> bool) \<Rightarrow> task_world \<Rightarrow> task_action list \<Rightarrow> task_world option" where
  "exec_tasks P w [] = Some w"
| "exec_tasks P w (a # as) =
     (if P w a then case task_next a w of None \<Rightarrow> None | Some w1 \<Rightarrow> exec_tasks P w1 as else None)"

lemma exec_tasks_sound: "exec_tasks P w as = Some w' \<Longrightarrow> task_run P w as w'"
  by (induction P w as rule: exec_tasks.induct) (auto split: if_splits option.splits intro: task_run.intros)

lemma task_run_invariant:
  assumes "task_run P w as w'" "I w"
    and step: "\<And>a w w'. task_next a w = Some w' \<Longrightarrow> P w a \<Longrightarrow> I w \<Longrightarrow> I w'"
  shows "I w'"
  using assms(1,2)
proof (induction rule: task_run.induct)
  case (step a w w1 as w')
  then show ?case using assms(3) by blast
qed simp

section \<open>The registry stays well formed\<close>

definition lines_ok :: "task_state \<Rightarrow> bool" where
  "lines_ok t = (case tk_part t of MonitorPart m \<Rightarrow> length (mo_recent m) \<le> mo_cap m \<and> 0 < mo_cap m | _ \<Rightarrow> True)"

text \<open>
  A registered task: its end time is set and its notification queued exactly when its status is
  terminal, and until then the coroutine that will end it is there.
\<close>

definition task_ok :: "(string \<Rightarrow> task_part \<Rightarrow> bool) \<Rightarrow> string \<Rightarrow> task_state \<Rightarrow> bool" where
  "task_ok co i t \<longleftrightarrow> tk_id t = i \<and> tk_status t \<noteq> TaskPending
     \<and> (tk_end t \<noteq> None \<longleftrightarrow> is_terminal (tk_status t)) \<and> (tk_notified t \<longleftrightarrow> is_terminal (tk_status t))
     \<and> lines_ok t \<and> (is_terminal (tk_status t) \<or> co i (tk_part t))"

definition registry_ok :: "string list \<Rightarrow> string list \<Rightarrow> (string \<Rightarrow> task_part \<Rightarrow> bool) \<Rightarrow> task_registry \<Rightarrow> bool" where
  "registry_ok begun_ids reported co reg \<longleftrightarrow>
     distinct (map fst (tr_tasks reg)) \<and> distinct (map fst (tr_queue reg) @ reported)
     \<and> (\<forall>i t. get_task i reg = Some t \<longrightarrow> i \<in> set begun_ids \<and> task_ok co i t)
     \<and> (\<forall>i owner. (i, owner) \<in> set (tr_queue reg) \<longrightarrow>
          i \<in> set begun_ids \<and> (\<forall>t. get_task i reg = Some t \<longrightarrow> tk_notified t \<and> tk_owner t = owner))
     \<and> (\<forall>i \<in> set reported. i \<in> set begun_ids \<and> (\<forall>t. get_task i reg = Some t \<longrightarrow> tk_notified t))
     \<and> distinct (map fst (tr_todos reg)) \<and> [] \<notin> snd ` set (tr_todos reg)"

definition coroutine :: "task_world \<Rightarrow> string \<Rightarrow> task_part \<Rightarrow> bool" where
  "coroutine w i p = (case p of
     ShellPart s \<Rightarrow> i \<in> set (tw_shells w)
   | MonitorPart m \<Rightarrow> i \<in> set (tw_monitors w)
   | AgentPart a \<Rightarrow> i \<in> set (tw_starting w) \<or> i \<in> set (tw_agents w))"

definition tasks_ok :: "task_world \<Rightarrow> bool" where
  "tasks_ok w \<longleftrightarrow> registry_ok (tw_begun w) (tw_reported w) (coroutine w) (tw_reg w)
     \<and> distinct (tw_begun w) \<and> set (tw_begun w) \<subseteq> set (tw_ids w)
     \<and> set (tw_starting w) \<union> set (tw_agents w) \<union> set (tw_children w) \<subseteq> set (tw_ids w)"

lemma registry_okD:
  assumes "registry_ok B R co reg"
  shows "distinct (map fst (tr_tasks reg))" "distinct (map fst (tr_queue reg) @ R)"
    "get_task i reg = Some t \<Longrightarrow> i \<in> set B" "get_task i reg = Some t \<Longrightarrow> task_ok co i t"
    "(i, owner) \<in> set (tr_queue reg) \<Longrightarrow> i \<in> set B"
    "(i, owner) \<in> set (tr_queue reg) \<Longrightarrow> get_task i reg = Some t \<Longrightarrow> tk_notified t \<and> tk_owner t = owner"
    "i \<in> set R \<Longrightarrow> i \<in> set B" "i \<in> set R \<Longrightarrow> get_task i reg = Some t \<Longrightarrow> tk_notified t"
    "distinct (map fst (tr_todos reg))" "[] \<notin> snd ` set (tr_todos reg)"
  using assms unfolding registry_ok_def by blast+

lemma task_ok_co: "task_ok co i t \<Longrightarrow> (\<And>p. co i p \<Longrightarrow> co' i p) \<Longrightarrow> task_ok co' i t"
  by (auto simp: task_ok_def)

text \<open>A task that ends: what all four operations that end one have in common.\<close>

definition concludes :: "string \<Rightarrow> task_registry \<Rightarrow> task_registry \<Rightarrow> bool" where
  "concludes i reg reg' \<longleftrightarrow>
     map fst (tr_tasks reg') = map fst (tr_tasks reg) \<and> tr_todos reg' = tr_todos reg
     \<and> (\<forall>j. j \<noteq> i \<longrightarrow> get_task j reg' = get_task j reg)
     \<and> (case get_task i reg of
          None \<Rightarrow> get_task i reg' = None \<and> tr_queue reg' = tr_queue reg
        | Some t \<Rightarrow> \<exists>t'. get_task i reg' = Some t' \<and> tk_id t' = tk_id t \<and> tk_owner t' = tk_owner t \<and> tk_notified t'
            \<and> is_terminal (tk_status t') \<and> tk_end t' \<noteq> None \<and> lines_ok t' = lines_ok t
            \<and> tr_queue reg' = tr_queue reg @ (if tk_notified t then [] else [(i, tk_owner t)]))"

lemma registry_ok_concludes:
  assumes ok: "registry_ok B R co reg" and "concludes i reg reg'"
    and co: "\<And>j p. j \<noteq> i \<Longrightarrow> co j p \<Longrightarrow> co' j p"
  shows "registry_ok B R co' reg'"
proof (cases "get_task i reg")
  case None
  with assms(2) have reg': "get_task j reg' = get_task j reg" "tr_queue reg' = tr_queue reg" for j
    by (cases "j = i"; simp add: concludes_def)+
  have "task_ok co' j t" if "get_task j reg = Some t" for j t
  proof -
    from None that have "j \<noteq> i" by auto
    with registry_okD(4) [OF ok that] co [of j] show ?thesis by (blast intro: task_ok_co)
  qed
  with ok reg' assms(2) show ?thesis by (simp add: registry_ok_def concludes_def)
next
  case (Some t)
  with assms(2) obtain t' where t': "get_task i reg' = Some t'" "tk_id t' = tk_id t" "tk_owner t' = tk_owner t"
      "tk_notified t'" "is_terminal (tk_status t')" "tk_end t' \<noteq> None" "lines_ok t' = lines_ok t"
    and queue: "tr_queue reg' = tr_queue reg @ (if tk_notified t then [] else [(i, tk_owner t)])"
    and others: "\<And>j. j \<noteq> i \<Longrightarrow> get_task j reg' = get_task j reg"
    and keys: "map fst (tr_tasks reg') = map fst (tr_tasks reg)" "tr_todos reg' = tr_todos reg"
    by (auto simp: concludes_def)
  have t: "task_ok co i t" "i \<in> set B" using registry_okD(3,4) [OF ok Some] by simp_all
  have "task_ok co' j u" if "get_task j reg' = Some u" for j u
  proof (cases "j = i")
    case True
    with that t' t(1) show ?thesis by (auto simp: task_ok_def is_terminal_def)
  next
    case False
    with that others have "get_task j reg = Some u" by simp
    with False registry_okD(4) [OF ok this] co [of j] show ?thesis by (blast intro: task_ok_co)
  qed
  moreover have "j \<in> set B" if "get_task j reg' = Some u" for j u
    using that t(2) others registry_okD(3) [OF ok] by (cases "j = i") auto
  moreover have "j \<in> set B \<and> (\<forall>u. get_task j reg' = Some u \<longrightarrow> tk_notified u \<and> tk_owner u = owner)"
    if "(j, owner) \<in> set (tr_queue reg')" for j owner
    using that t(2) t' others registry_okD(5,6) [OF ok] Some unfolding queue
    by (cases "j = i") (auto split: if_splits)
  moreover have "j \<in> set B \<and> (\<forall>u. get_task j reg' = Some u \<longrightarrow> tk_notified u)" if "j \<in> set R" for j
    using that t(2) t' others registry_okD(7,8) [OF ok] by (cases "j = i") auto
  moreover have "distinct (map fst (tr_queue reg') @ R)"
  proof (cases "tk_notified t")
    case False
    with registry_okD(6,8) [OF ok] Some have "i \<notin> fst ` set (tr_queue reg)" "i \<notin> set R" by fastforce+
    with False registry_okD(2) [OF ok] queue show ?thesis by auto
  qed (use registry_okD(2) [OF ok] queue in simp)
  ultimately show ?thesis using keys registry_okD(1,9,10) [OF ok] by (simp add: registry_ok_def)
qed

lemma get_status [simp]:
  "get_task j (task_update_status now i status code result err reg) =
     (if j = i then map_option (\<lambda>t. t\<lparr>tk_status := status,
        tk_end := (if is_terminal status then Some now else tk_end t),
        tk_part := update_part code result err (tk_part t)\<rparr>) (get_task i reg) else get_task j reg)"
  "tr_queue (task_update_status now i status code result err reg) = tr_queue reg"
  "tr_todos (task_update_status now i status code result err reg) = tr_todos reg"
  "map fst (tr_tasks (task_update_status now i status code result err reg)) = map fst (tr_tasks reg)"
  by (simp_all add: task_update_status_def)

lemma lines_ok_update [simp]: "lines_ok (t\<lparr>tk_status := s, tk_end := e, tk_part := update_part c r x p\<rparr>) = lines_ok (t\<lparr>tk_part := p\<rparr>)"
  by (cases p) (auto simp: lines_ok_def split: option.splits)

lemma lines_ok_frame [simp]:
  "lines_ok (t\<lparr>tk_notified := n\<rparr>) = lines_ok t" "lines_ok (t\<lparr>tk_start := x\<rparr>) = lines_ok t"
  "lines_ok (t\<lparr>tk_part := tk_part t\<rparr>) = lines_ok t"
  by (simp_all add: lines_ok_def)

text \<open>The registry just before the notification is queued.\<close>

definition ends_task :: "string \<Rightarrow> task_registry \<Rightarrow> task_registry \<Rightarrow> bool" where
  "ends_task i reg reg' \<longleftrightarrow>
     map fst (tr_tasks reg') = map fst (tr_tasks reg) \<and> tr_todos reg' = tr_todos reg \<and> tr_queue reg' = tr_queue reg
     \<and> (\<forall>j. j \<noteq> i \<longrightarrow> get_task j reg' = get_task j reg)
     \<and> (case get_task i reg of
          None \<Rightarrow> get_task i reg' = None
        | Some t \<Rightarrow> \<exists>t'. get_task i reg' = Some t' \<and> tk_id t' = tk_id t \<and> tk_owner t' = tk_owner t
            \<and> tk_notified t' = tk_notified t \<and> is_terminal (tk_status t') \<and> tk_end t' \<noteq> None \<and> lines_ok t' = lines_ok t)"

lemma concludes_enqueue: "ends_task i reg reg' \<Longrightarrow> concludes i reg (enqueue_notification i reg')"
  by (cases "get_task i reg") (fastforce simp: ends_task_def concludes_def)+

lemma ends_status: "is_terminal status \<Longrightarrow> ends_task i reg (task_update_status now i status code result err reg)"
  by (auto simp: ends_task_def split: option.splits)

lemma concludes_status:
  "is_terminal status \<Longrightarrow> concludes i reg (enqueue_notification i (task_update_status now i status code result err reg))"
  by (rule concludes_enqueue, rule ends_status)

lemma terminal_statuses [simp]:
  "is_terminal TaskCompleted" "is_terminal TaskFailed" "is_terminal TaskKilled"
  "\<not> is_terminal TaskRunning" "\<not> is_terminal TaskPending"
  by (simp_all add: is_terminal_def)

lemma concludes_wait: "concludes i reg (wait_and_notify now i code reg)"
  unfolding wait_and_notify_def Let_def by (rule concludes_status) simp

lemma concludes_monitor:
  assumes "\<And>t. get_task i reg = Some t \<Longrightarrow> task_ok co i t"
  shows "concludes i reg (monitor_exit now i code reg)"
proof (cases "get_task i reg")
  case (Some t)
  show ?thesis
  proof (cases "is_terminal (tk_status t)")
    case True
    with Some assms [OF Some] show ?thesis by (auto simp: monitor_exit_def concludes_def task_ok_def)
  next
    case False
    with Some show ?thesis by (simp add: monitor_exit_def Let_def concludes_status)
  qed
qed (simp add: monitor_exit_def concludes_def)

lemma concludes_agent: "concludes i reg (run_agent_background now i e reg)"
proof (cases e)
  case (AgentReturned r transcript)
  define reg1 where "reg1 = task_update_status now i TaskCompleted None
    (Some (if r = [] then ''(agent produced no output)'' else r)) None reg"
  have ends: "ends_task i reg reg1" unfolding reg1_def by (rule ends_status) simp
  moreover have "ends_task i reg (modify_task i (tk_part_update (\<lambda>_. AgentPart a')) reg1)"
    if "get_task i reg1 = Some t" "tk_part t = AgentPart a" for t a a'
    using ends that by (auto simp: ends_task_def lines_ok_def split: option.splits)
  ultimately have stored: "ends_task i reg (case (get_task i reg1, transcript) of
      (Some t, Some (m # ms)) \<Rightarrow>
        (case tk_part t of AgentPart a \<Rightarrow> modify_task i (\<lambda>t. t\<lparr>tk_part := AgentPart (a\<lparr>ag_transcript := Some (m # ms)\<rparr>)\<rparr>) reg1
         | _ \<Rightarrow> reg1)
    | _ \<Rightarrow> reg1)"
    by (auto split: option.splits list.splits task_part.splits)
  show ?thesis
    unfolding run_agent_background_def AgentReturned reg1_def [symmetric] agent_end.case Let_def
    by (rule concludes_enqueue [OF stored])
qed (simp_all add: run_agent_background_def concludes_status)

lemma concludes_stop:
  assumes "get_task i reg = Some t" "tk_status t = TaskRunning"
  shows "concludes i reg (snd (snd (task_stop now i reg)))"
proof -
  have "ends_task i reg (task_update_status now i TaskKilled None None None
      (modify_task i (tk_part_update (\<lambda>_. AgentPart a')) reg))" if "tk_part t = AgentPart a" for a a'
    using that assms(1) by (auto simp: ends_task_def lines_ok_def split: option.splits)
  with assms show ?thesis
    by (auto simp: task_stop_def intro!: concludes_enqueue ends_status split: task_part.splits)
qed

section \<open>The other operations\<close>

lemma registry_ok_register:
  assumes ok: "registry_ok B R co reg" and new: "i \<notin> set B"
    and t: "tk_id t = i" "tk_status t = TaskRunning" "tk_end t = None" "\<not> tk_notified t" "lines_ok t" "co' i (tk_part t)"
    and co: "\<And>j p. co j p \<Longrightarrow> co' j p"
  shows "registry_ok (B @ [i]) R co' (register_task now t reg)"
proof -
  have "task_ok co' j u" if "get_task j (register_task now t reg) = Some u" for j u
  proof (cases "j = i")
    case True
    with that t show ?thesis by (auto simp: task_ok_def)
  next
    case False
    with that t(1) have "get_task j reg = Some u" by simp
    with registry_okD(4) [OF ok this] co [of j] show ?thesis by (blast intro: task_ok_co)
  qed
  moreover have "j \<in> insert i (set B)" if "get_task j (register_task now t reg) = Some u" for j u
    using that t(1) registry_okD(3) [OF ok] by (auto split: if_splits)
  moreover have "j \<noteq> i" if "(j, owner) \<in> set (tr_queue reg)" for j owner
    using that new registry_okD(5) [OF ok] by blast
  moreover have "j \<noteq> i" if "j \<in> set R" for j
    using that new registry_okD(7) [OF ok] by blast
  moreover have "distinct (map fst (tr_tasks (register_task now t reg)))"
    using registry_okD(1) [OF ok] by (simp add: register_task_def)
  ultimately show ?thesis
    using registry_okD [OF ok] t(1) by (simp add: registry_ok_def)
qed

lemma registry_ok_co: "registry_ok B R co reg \<Longrightarrow> (\<And>j p. co j p \<Longrightarrow> co' j p) \<Longrightarrow> registry_ok B R co' reg"
proof -
  assume ok: "registry_ok B R co reg" and "\<And>j p. co j p \<Longrightarrow> co' j p"
  then have "\<forall>i t. get_task i reg = Some t \<longrightarrow> i \<in> set B \<and> task_ok co' i t"
    using registry_okD(3,4) [OF ok] by (metis task_ok_co)
  with ok show ?thesis by (simp add: registry_ok_def)
qed

text \<open>Changing what only concerns one kind of task.\<close>

definition by_type :: "(string \<Rightarrow> task_part \<Rightarrow> bool) \<Rightarrow> bool" where
  "by_type co \<longleftrightarrow> (\<forall>j p q. co j p \<longrightarrow> part_type p = part_type q \<longrightarrow> co j q)"

lemma registry_ok_shrink:
  assumes ok: "registry_ok B R co reg"
    and keys: "distinct (map fst (tr_tasks reg'))" "tr_queue reg' = tr_queue reg" "tr_todos reg' = tr_todos reg"
    and tasks: "\<And>i t'. get_task i reg' = Some t' \<Longrightarrow> \<exists>t. get_task i reg = Some t \<and> (task_ok co i t \<longrightarrow> task_ok co i t')
      \<and> tk_notified t' = tk_notified t \<and> tk_owner t' = tk_owner t"
  shows "registry_ok B R co reg'"
proof -
  have "i \<in> set B \<and> task_ok co i t" if "get_task i reg' = Some t" for i t
    using tasks [OF that] registry_okD(3,4) [OF ok] by blast
  moreover have "tk_notified t \<and> tk_owner t = owner" if "(i, owner) \<in> set (tr_queue reg)" "get_task i reg' = Some t" for i owner t
    using tasks [OF that(2)] registry_okD(6) [OF ok that(1)] by auto
  moreover have "tk_notified t" if "i \<in> set R" "get_task i reg' = Some t" for i t
    using tasks [OF that(2)] registry_okD(8) [OF ok that(1)] by auto
  ultimately show ?thesis
    using registry_okD(2,5,7,9,10) [OF ok] keys by (auto simp: registry_ok_def)
qed

lemma registry_ok_part:
  assumes ok: "registry_ok B R co reg"
    and p: "\<And>t. get_task i reg = Some t \<Longrightarrow> part_type (tk_part t) = part_type p \<and> lines_ok (t\<lparr>tk_part := p\<rparr>)"
    and co: "by_type co"
  shows "registry_ok B R co (modify_task i (tk_part_update (\<lambda>_. p)) reg)"
proof (rule registry_ok_shrink [OF ok])
  fix j u assume u: "get_task j (modify_task i (tk_part_update (\<lambda>_. p)) reg) = Some u"
  show "\<exists>t. get_task j reg = Some t \<and> (task_ok co j t \<longrightarrow> task_ok co j u) \<and> tk_notified u = tk_notified t \<and> tk_owner u = tk_owner t"
  proof (cases "j = i")
    case True
    with u obtain t where t: "get_task i reg = Some t" "u = t\<lparr>tk_part := p\<rparr>" by auto
    have "co i (tk_part t) \<Longrightarrow> co i p" using p [OF t(1)] co by (metis by_type_def)
    then show ?thesis using True t p [OF t(1)] by (auto simp: task_ok_def)
  qed (use u in auto)
qed (use registry_okD(1) [OF ok] in simp_all)

lemma registry_ok_names [simp]: "registry_ok B R co (reg\<lparr>tr_names := n\<rparr>) = registry_ok B R co reg"
  by (simp add: registry_ok_def)

lemma registry_ok_evict:
  assumes ok: "registry_ok B R co reg"
  shows "registry_ok B R co (snd (evict_terminal reg))"
  by (rule registry_ok_shrink [OF ok])
     (use registry_okD(1) [OF ok] in \<open>auto simp: get_evicted evict_distinct split: option.splits if_splits\<close>)

lemma drop_lines_simps [simp]:
  "tk_id (drop_lines a t) = tk_id t" "tk_status (drop_lines a t) = tk_status t" "tk_end (drop_lines a t) = tk_end t"
  "tk_notified (drop_lines a t) = tk_notified t" "tk_owner (drop_lines a t) = tk_owner t"
  "part_type (tk_part (drop_lines a t)) = part_type (tk_part t)"
  by (simp_all add: drop_lines_def split: task_part.split)

lemma registry_ok_lines:
  assumes ok: "registry_ok B R co reg"
    and co: "by_type co"
  shows "registry_ok B R co (snd (drain_monitor_lines a reg))"
proof (rule registry_ok_shrink [OF ok])
  fix i t' assume "get_task i (snd (drain_monitor_lines a reg)) = Some t'"
  then obtain t where t: "get_task i reg = Some t" "t' = drop_lines a t" by (auto simp: get_drained_lines)
  have "lines_ok t \<Longrightarrow> lines_ok (drop_lines a t)" by (auto simp: lines_ok_def drop_lines_def split: task_part.splits)
  moreover have "co i (tk_part t) \<Longrightarrow> co i (tk_part (drop_lines a t))"
    using co unfolding by_type_def by (metis drop_lines_simps(6))
  ultimately show "\<exists>t. get_task i reg = Some t \<and> (task_ok co i t \<longrightarrow> task_ok co i t')
      \<and> tk_notified t' = tk_notified t \<and> tk_owner t' = tk_owner t"
    using t by (auto simp: task_ok_def)
qed (use registry_okD(1) [OF ok] in simp_all)

text \<open>Both drains of notifications take the entries of one agent off the queue and report them.\<close>

lemma drained_ids:
  assumes "\<And>i t. i \<in> set ids \<Longrightarrow> get_task i reg = Some t \<Longrightarrow> tk_id t = i"
  shows "map tk_id (List.map_filter (\<lambda>i. get_task i reg) ids) = filter (\<lambda>i. get_task i reg \<noteq> None) ids"
  using assms by (induction ids) (auto simp: List.map_filter_simps split: option.splits)

lemma registry_ok_drain:
  assumes ok: "registry_ok B R co reg" and d: "drain_notifications a reg = (ids, reg1)"
  shows "registry_ok B (R @ map tk_id (List.map_filter (\<lambda>i. get_task i reg1) ids)) co reg1"
proof -
  let ?mine = "\<lambda>(i :: string, owner). owner = a" and ?q = "tr_queue reg"
  have reg1: "reg1 = reg\<lparr>tr_queue := filter (\<lambda>e. \<not> ?mine e) ?q\<rparr>" "ids = map fst (filter ?mine ?q)"
    using d by (auto simp: drain_notifications_def drain_queue_eq split_def)
  have rep: "map tk_id (List.map_filter (\<lambda>i. get_task i reg1) ids) = filter (\<lambda>i. get_task i reg1 \<noteq> None) ids"
    using registry_okD(4) [OF ok] by (intro drained_ids) (auto simp: reg1 task_ok_def)
  have ids: "distinct ids" "set ids \<inter> set R = {}" "set ids \<inter> fst ` set (filter (\<lambda>e. \<not> ?mine e) ?q) = {}"
    using registry_okD(2) [OF ok] unfolding reg1
    by (auto simp: distinct_map_filter) (metis (no_types, lifting) distinct_map fst_conv inj_onD snd_conv prod.inject)
  have queued: "\<exists>owner. (i, owner) \<in> set ?q" if "i \<in> set ids" for i using that by (auto simp: reg1)
  have "distinct (map fst (tr_queue reg1) @ R @ filter (\<lambda>i. get_task i reg1 \<noteq> None) ids)"
    using registry_okD(2) [OF ok] ids by (auto simp: reg1(1) distinct_map_filter)
  moreover have "i \<in> set B" if "i \<in> set ids" for i using queued [OF that] registry_okD(5) [OF ok] by blast
  moreover have "tk_notified t" if "i \<in> set ids" "get_task i reg = Some t" for i t
    using queued [OF that(1)] registry_okD(6) [OF ok _ that(2)] by blast
  ultimately show ?thesis
    using registry_okD [OF ok] unfolding rep by (auto simp: registry_ok_def reg1(1))
qed

lemma coroutine_by_type [simp]: "by_type (coroutine w)"
  unfolding by_type_def
proof (intro allI impI)
  fix j p q assume "coroutine w j p" "part_type p = part_type q"
  then show "coroutine w j q" by (cases p; cases q) (auto simp: coroutine_def)
qed

lemma registry_ok_drain_messages:
  assumes ok: "registry_ok B R co reg" and co: "by_type co"
  shows "registry_ok B R co (snd (drain_messages i reg))"
proof -
  have "registry_ok B R co (modify_task i (tk_part_update (\<lambda>_. AgentPart a')) reg)"
    if "get_task i reg = Some t" "tk_part t = AgentPart a" for t a a'
    by (rule registry_ok_part [OF ok _ co]) (use that in \<open>auto simp: lines_ok_def\<close>)
  then show ?thesis using ok by (auto simp: drain_messages_def split: option.splits task_part.splits)
qed

lemma registry_ok_queue_message:
  assumes ok: "registry_ok B R co reg" and co: "by_type co"
  shows "registry_ok B R co (snd (queue_message i msg reg))"
proof -
  have "registry_ok B R co (modify_task i (tk_part_update (\<lambda>_. AgentPart a')) reg)"
    if "get_task i reg = Some t" "tk_part t = AgentPart a" for t a a'
    by (rule registry_ok_part [OF ok _ co]) (use that in \<open>auto simp: lines_ok_def\<close>)
  then show ?thesis using ok by (auto simp: queue_message_def split: option.splits task_part.splits)
qed

text \<open>The buffer of a monitor holds the last lines, never more than its capacity.\<close>

lemma push_lines_bounded:
  "push_lines cap buf ls = Inr buf' \<Longrightarrow> length buf \<le> cap \<Longrightarrow> length buf' \<le> cap"
proof (induction ls arbitrary: buf)
  case (Cons l ls)
  show ?case
  proof (cases "cap \<le> length buf")
    case True
    with Cons.prems obtain b bs where "buf = b # bs" by (cases buf) auto
    with True Cons.prems show ?thesis by (intro Cons.IH [of "bs @ [l]"]) auto
  next
    case False
    with Cons.prems show ?thesis by (intro Cons.IH [of "buf @ [l]"]) auto
  qed
qed simp

lemma read_new_output_ok:
  assumes "read_new_output file offset m = Inr (n, m')"
  shows "length (mo_recent m) \<le> mo_cap m \<Longrightarrow> length (mo_recent m') \<le> mo_cap m'" "mo_cap m' = mo_cap m"
  using assms by (auto simp: read_new_output_def ebind_Inr_iff dest: push_lines_bounded split: option.splits if_splits)

lemma monitor_poll_cases:
  "monitor_poll i file file' offset reg = (next_offset, reg') \<Longrightarrow> reg' = reg \<or>
     (\<exists>t m m'. get_task i reg = Some t \<and> tk_part t = MonitorPart m
        \<and> (length (mo_recent m) \<le> mo_cap m \<longrightarrow> length (mo_recent m') \<le> mo_cap m') \<and> mo_cap m' = mo_cap m
        \<and> reg' = modify_task i (tk_part_update (\<lambda>_. MonitorPart m')) reg)"
proof -
  assume poll: "monitor_poll i file file' offset reg = (next_offset, reg')"
  let ?set = "\<lambda>m. modify_task i (tk_part_update (\<lambda>_. MonitorPart m)) reg"
  consider "reg' = reg" | t m n m1 where "get_task i reg = Some t" "tk_part t = MonitorPart m"
      "read_new_output file offset m = Inr (n, m1)"
      "reg' = ?set m1 \<or> (\<exists>k m2. read_new_output file' n m1 = Inr (k, m2) \<and> reg' = ?set m2)"
    using poll by (force simp: monitor_poll_def split: option.splits task_part.splits sum.splits if_splits)
  then show ?thesis
  proof cases
    case 2
    from 2(4) show ?thesis
    proof (elim disjE exE conjE)
      fix k m2 assume "read_new_output file' n m1 = Inr (k, m2)" "reg' = ?set m2"
      with 2(1-3) read_new_output_ok [OF 2(3)] read_new_output_ok [of file' n m1 k m2] show ?thesis
        by (intro disjI2 exI [of _ t] exI [of _ m] exI [of _ m2]) simp
    next
      assume "reg' = ?set m1"
      with 2(1-3) read_new_output_ok [OF 2(3)] show ?thesis
        by (intro disjI2 exI [of _ t] exI [of _ m] exI [of _ m1]) simp
    qed
  qed simp
qed

lemma registry_ok_poll:
  assumes ok: "registry_ok B R co reg" and co: "by_type co"
    and poll: "monitor_poll i file file' offset reg = (next_offset, reg')"
  shows "registry_ok B R co reg'"
  using monitor_poll_cases [OF poll]
proof (elim disjE exE conjE)
  fix t m m' assume t: "get_task i reg = Some t" "tk_part t = MonitorPart m" and m': "mo_cap m' = mo_cap m"
      "length (mo_recent m) \<le> mo_cap m \<longrightarrow> length (mo_recent m') \<le> mo_cap m'"
    and reg': "reg' = modify_task i (tk_part_update (\<lambda>_. MonitorPart m')) reg"
  have "lines_ok t" using registry_okD(4) [OF ok t(1)] by (simp add: task_ok_def)
  with t m' show ?thesis unfolding reg' by (intro registry_ok_part [OF ok _ co]) (auto simp: lines_ok_def)
qed (use ok in simp)

lemma registry_ok_todos:
  assumes ok: "registry_ok B R co reg"
  shows "registry_ok B R co (set_todos agent todos reg)"
proof -
  have "set (dict_set k v d) \<subseteq> insert (k, v) (set d)" for k :: "string option" and v :: "json list" and d
    by (induction k v d rule: dict_set.induct) auto
  with registry_okD(10) [OF ok] have "todos \<noteq> [] \<Longrightarrow> [] \<notin> snd ` set (dict_set agent todos (tr_todos reg))" by fastforce
  moreover have "[] \<notin> snd ` set (dict_pop agent (tr_todos reg))"
    using registry_okD(10) [OF ok] by (auto simp: dict_pop_def)
  ultimately show ?thesis using registry_okD [OF ok] by (auto simp: registry_ok_def set_todos_def)
qed

section \<open>Every step keeps the invariant\<close>

lemma tasks_okI:
  assumes "registry_ok (tw_begun w) (tw_reported w) (coroutine w) (tw_reg w)"
    "distinct (tw_begun w)" "set (tw_begun w) \<subseteq> set (tw_ids w)"
    "set (tw_starting w) \<union> set (tw_agents w) \<union> set (tw_children w) \<subseteq> set (tw_ids w)"
  shows "tasks_ok w"
  using assms by (simp add: tasks_ok_def)

lemma tasks_okD:
  assumes "tasks_ok w"
  shows "registry_ok (tw_begun w) (tw_reported w) (coroutine w) (tw_reg w)"
    "distinct (tw_begun w)" "set (tw_begun w) \<subseteq> set (tw_ids w)"
    "set (tw_starting w) \<union> set (tw_agents w) \<union> set (tw_children w) \<subseteq> set (tw_ids w)"
  using assms by (simp_all add: tasks_ok_def)

lemma tasks_ok_reg:
  "tasks_ok w \<Longrightarrow> registry_ok (tw_begun w) (tw_reported w) (coroutine w) reg \<Longrightarrow> tasks_ok (w\<lparr>tw_reg := reg\<rparr>)"
  by (simp add: tasks_ok_def coroutine_def [abs_def])

lemma tasks_ok_begin_query:
  assumes "tasks_ok w"
  shows "tasks_ok (begin_query a w)"
proof -
  have "registry_ok (tw_begun w) (tw_reported w) (coroutine w) (snd (drain_messages i (tw_reg w)))" for i
    by (rule registry_ok_drain_messages [OF tasks_okD(1) [OF assms] coroutine_by_type])
  with assms show ?thesis
    by (cases a) (auto simp: tasks_ok_def begin_query_def Let_def split_def coroutine_def [abs_def])
qed

lemma tasks_ok_orphans:
  assumes "tasks_ok w"
  shows "tasks_ok (drained (drain_orphan_notifications i (tw_reg w)) w)"
  using registry_ok_drain [OF tasks_okD(1) [OF assms]] tasks_okD(2-4) [OF assms]
  by (auto simp: drained_def drain_orphan_notifications_def Let_def tasks_ok_def coroutine_def [abs_def] split: prod.splits)

lemma tasks_ok_drain:
  assumes "tasks_ok w"
  shows "tasks_ok (drained (drain_task_notifications a (tw_reg w)) w)"
proof -
  obtain ids reg1 where d: "drain_notifications a (tw_reg w) = (ids, reg1)" by fastforce
  let ?rep = "List.map_filter (\<lambda>i. get_task i reg1) ids"
  have "registry_ok (tw_begun w) (tw_reported w @ map tk_id ?rep) (coroutine w)
      (snd (drain_monitor_lines a (snd (evict_terminal reg1))))"
    by (intro registry_ok_lines registry_ok_evict registry_ok_drain [OF tasks_okD(1) [OF assms] d] coroutine_by_type)
  with d tasks_okD(2-4) [OF assms] show ?thesis
    by (simp add: drained_def drain_task_notifications_def Let_def tasks_ok_def coroutine_def [abs_def] split_def)
qed

text \<open>A step that ends task \<open>i\<close> and removes its coroutine.\<close>

lemma tasks_ok_concludes:
  assumes ok: "tasks_ok w" and c: "concludes i (tw_reg w) (tw_reg w')"
    and frame: "tw_begun w' = tw_begun w" "tw_reported w' = tw_reported w" "tw_ids w' = tw_ids w"
      "set (tw_starting w') \<subseteq> set (tw_starting w)" "set (tw_agents w') \<subseteq> set (tw_agents w)"
      "set (tw_children w') \<subseteq> set (tw_children w)"
    and co: "\<And>j p. j \<noteq> i \<Longrightarrow> coroutine w j p \<Longrightarrow> coroutine w' j p"
  shows "tasks_ok w'"
proof -
  have "registry_ok (tw_begun w) (tw_reported w) (coroutine w') (tw_reg w')"
    by (rule registry_ok_concludes [OF tasks_okD(1) [OF ok] c co])
  with tasks_okD(2-4) [OF ok] frame show ?thesis by (auto simp: tasks_ok_def)
qed

lemma coroutine_removed:
  "j \<noteq> i \<Longrightarrow> coroutine w j p \<Longrightarrow> coroutine (w\<lparr>tw_reg := r, tw_shells := removeAll i (tw_shells w)\<rparr>) j p"
  "j \<noteq> i \<Longrightarrow> coroutine w j p \<Longrightarrow> coroutine (w\<lparr>tw_reg := r, tw_monitors := removeAll i (tw_monitors w)\<rparr>) j p"
  "j \<noteq> i \<Longrightarrow> coroutine w j p \<Longrightarrow> coroutine (w\<lparr>tw_reg := r, tw_agents := removeAll i (tw_agents w)\<rparr>) j p"
  by (auto simp: coroutine_def split: task_part.splits)

lemma tasks_ok_register:
  assumes ok: "tasks_ok w" and i: "i \<notin> set (tw_ids w)"
    and t: "tk_id t = i" "tk_status t = TaskRunning" "tk_end t = None" "\<not> tk_notified t" "lines_ok t"
    and reg: "registry_ok (tw_begun w) (tw_reported w) (coroutine w) reg"
    and frame: "tw_reg w' = register_task now t reg" "tw_begun w' = tw_begun w @ [i]" "tw_ids w' = tw_ids w @ [i]"
      "tw_reported w' = tw_reported w" "set (tw_starting w') \<subseteq> insert i (set (tw_starting w))"
      "tw_agents w' = tw_agents w" "tw_children w' = tw_children w"
    and co: "coroutine w' i (tk_part t)" "\<And>j p. coroutine w j p \<Longrightarrow> coroutine w' j p"
  shows "tasks_ok w'"
proof -
  have "i \<notin> set (tw_begun w)" using i tasks_okD(3) [OF ok] by blast
  then have "registry_ok (tw_begun w @ [i]) (tw_reported w) (coroutine w') (register_task now t reg)"
    by (intro registry_ok_register [OF reg _ t _ co(2)] co(1))
  with tasks_okD(2-4) [OF ok] \<open>i \<notin> set (tw_begun w)\<close> frame show ?thesis by (auto simp: tasks_ok_def)
qed

lemma coroutine_added:
  "coroutine w j p \<Longrightarrow> coroutine (registered i r (drawn i w\<lparr>tw_shells := i # tw_shells w\<rparr>)) j p"
  "coroutine w j p \<Longrightarrow> coroutine (registered i r (drawn i w\<lparr>tw_monitors := i # tw_monitors w, tw_readers := d\<rparr>)) j p"
  "coroutine w j p \<Longrightarrow> coroutine (registered i r (drawn i w\<lparr>tw_starting := i # tw_starting w\<rparr>)) j p"
  by (auto simp: coroutine_def registered_def drawn_def split: task_part.splits)

lemmas world_defs = registered_def drawn_def

lemma tasks_ok_shell:
  assumes "tasks_ok w" "i \<notin> set (tw_ids w)"
  shows "tasks_ok (registered i (snd (spawn_shell now i d c a path pid (tw_reg w))) (drawn i w\<lparr>tw_shells := i # tw_shells w\<rparr>))"
  by (rule tasks_ok_register [OF assms, where reg = "tw_reg w" and now = now and t = "\<lparr>tk_id = i, tk_status = TaskRunning,
        tk_description = d, tk_tool_use = None, tk_owner = a, tk_start = 0, tk_end = None, tk_output_file = path,
        tk_output_offset = 0, tk_notified = False,
        tk_part = ShellPart \<lparr>sh_command = c, sh_exit_code = None, sh_process = Some pid\<rparr>\<rparr>"])
     (use tasks_okD(1) [OF assms(1)] in \<open>auto simp: world_defs spawn_shell_def lines_ok_def coroutine_def split: task_part.splits\<close>)

lemma tasks_ok_monitor:
  assumes "tasks_ok w" "i \<notin> set (tw_ids w)"
  shows "tasks_ok (registered i (snd (spawn_monitor now i d c tmo a path pid (tw_reg w)))
    (drawn i w\<lparr>tw_monitors := i # tw_monitors w, tw_readers := r\<rparr>))"
  by (rule tasks_ok_register [OF assms, where reg = "tw_reg w" and now = now and t = "\<lparr>tk_id = i, tk_status = TaskRunning,
        tk_description = d, tk_tool_use = None, tk_owner = a, tk_start = 0, tk_end = None, tk_output_file = path,
        tk_output_offset = 0, tk_notified = False,
        tk_part = MonitorPart \<lparr>mo_command = c, mo_exit_code = None, mo_process = Some pid, mo_recent = [],
                               mo_cap = MAX_BUFFERED_LINES\<rparr>\<rparr>"])
     (use tasks_okD(1) [OF assms(1)] in \<open>auto simp: world_defs spawn_monitor_def MAX_BUFFERED_LINES_def lines_ok_def
        coroutine_def split: task_part.splits\<close>)

text \<open>What the two ways to start a background agent register.\<close>

definition fresh_agent :: "string \<Rightarrow> task_state \<Rightarrow> bool" where
  "fresh_agent i t \<longleftrightarrow> tk_id t = i \<and> tk_status t = TaskRunning \<and> tk_end t = None \<and> \<not> tk_notified t
     \<and> part_type (tk_part t) = LocalAgent"

lemma register_names: "(register_task now t reg)\<lparr>tr_names := n\<rparr> = register_task now t (reg\<lparr>tr_names := n\<rparr>)"
  by (simp add: register_task_def)

lemma register_name_frame: "register_name n i reg = (ok, reg') \<Longrightarrow> reg' = reg\<lparr>tr_names := tr_names reg'\<rparr>"
  by (auto simp: register_name_def split: if_splits)

lemma spawn_agent_cases:
  assumes "spawn_agent now i name d prompt ty model owner file reg = (out, reg')"
  obtains (started) b t n where "out = Inr (Inr b)" "reg' = register_task now t (reg\<lparr>tr_names := n\<rparr>)" "fresh_agent i t"
  | (other) "\<nexists>b. out = Inr (Inr b)" "reg' = reg\<lparr>tr_names := tr_names reg'\<rparr>"
proof -
  let ?named = "case name of Some (c # n) \<Rightarrow> True | _ \<Rightarrow> False"
  obtain ok reg1 where r: "(if ?named then register_name (the name) i reg else (True, reg)) = (ok, reg1)" by fastforce
  then have reg1: "reg1 = reg\<lparr>tr_names := tr_names reg1\<rparr>" by (auto split: if_splits dest: register_name_frame)
  show thesis
  proof (cases "ok \<and> \<not> isl file")
    case True
    then obtain path where "ok" "file = Inr path" by (cases "file") auto
    with assms r have "\<exists>b. out = Inr (Inr b)" "\<exists>t. reg' = register_task now t reg1 \<and> fresh_agent i t"
      by (auto simp: spawn_agent_def Let_def fresh_agent_def)
    with reg1 show thesis by (metis started)
  next
    case False
    then consider "\<not> ok" | e where "ok" "file = Inl e" by (cases "file") auto
    then have "(\<nexists>b. out = Inr (Inr b)) \<and> reg' = reg1"
    proof cases
      case 1
      with assms r show ?thesis by (auto simp: spawn_agent_def Let_def)
    next
      case 2
      from 2(1) assms r show ?thesis unfolding 2(2) by (auto simp: spawn_agent_def Let_def)
    qed
    with reg1 show thesis by (metis other)
  qed
qed

lemma send_to_agent_cases:
  assumes "send_to_agent now i file can_spawn to msg owner reg = (out, reg', started)"
  obtains (started) s t n where "started = Some s" "reg' = register_task now t (reg\<lparr>tr_names := n\<rparr>)" "fresh_agent i t"
  | (queued) j where "started = None" "reg' = snd (queue_message j msg reg)"
  | (same) "started = None" "reg' = reg"
proof -
  have resume: "(\<exists>s t n. started = Some s \<and> reg' = register_task now t (reg\<lparr>tr_names := n\<rparr>) \<and> fresh_agent i t)
      \<or> (started = None \<and> reg' = reg)"
    if r: "resume_agent now i file can_spawn to old a msg owner reg = (out, reg', started)" for old a
  proof -
    have "(\<exists>s. started = Some s) \<and> (\<exists>t. (reg' = register_task now t reg \<or> (\<exists>n. reg' = update_name n i (register_task now t reg)))
        \<and> fresh_agent i t) \<or> (started = None \<and> reg' = reg)"
      using r by (auto simp: resume_agent_def Let_def fresh_agent_def split: if_splits sum.splits)
    moreover have "reg = reg\<lparr>tr_names := tr_names reg\<rparr>" by simp
    ultimately show ?thesis by (metis update_name_def register_names)
  qed
  let ?found = "case resolve_name to reg of Some i \<Rightarrow> Some i | None \<Rightarrow> if get_task to reg \<noteq> None then Some to else None"
  show thesis
  proof (cases ?found)
    case None
    with assms show thesis by (intro same) (simp_all add: send_to_agent_def)
  next
    case (Some j)
    show thesis
    proof (cases "get_task j reg")
      case None
      with Some assms show thesis by (intro same) (simp_all add: send_to_agent_def)
    next
      case t: (Some t)
      show thesis
      proof (cases "tk_part t")
        case (AgentPart a)
        consider "tk_status t = TaskRunning" | "tk_status t \<noteq> TaskRunning" "is_terminal (tk_status t)"
          | "tk_status t \<noteq> TaskRunning" "\<not> is_terminal (tk_status t)" by blast
        then show thesis
        proof cases
          case 1
          with Some t AgentPart assms show thesis by (intro queued [of j]) (simp_all add: send_to_agent_def)
        next
          case 2
          with Some t AgentPart assms have "resume_agent now i file can_spawn to t a msg owner reg = (out, reg', started)"
            by (simp add: send_to_agent_def)
          from resume [OF this] show thesis using started same by blast
        next
          case 3
          with Some t AgentPart assms show thesis by (intro same) (simp_all add: send_to_agent_def)
        qed
      qed (use Some t assms in \<open>auto simp: send_to_agent_def intro: same\<close>)
    qed
  qed
qed

lemma tasks_ok_agent:
  assumes "tasks_ok w" "i \<notin> set (tw_ids w)" "fresh_agent i t"
  shows "tasks_ok (registered i (register_task now t (tw_reg w\<lparr>tr_names := n\<rparr>)) (drawn i w\<lparr>tw_starting := i # tw_starting w\<rparr>))"
proof -
  from assms(3) have t: "tk_id t = i" "tk_status t = TaskRunning" "tk_end t = None" "\<not> tk_notified t" "lines_ok t"
    by (cases "tk_part t"; simp add: fresh_agent_def lines_ok_def)+
  show ?thesis
    by (rule tasks_ok_register [OF assms(1,2) t, where reg = "tw_reg w\<lparr>tr_names := n\<rparr>" and now = now])
       (use tasks_okD(1) [OF assms(1)] assms(3) in \<open>cases "tk_part t"; auto simp: world_defs fresh_agent_def coroutine_def
          split: task_part.splits\<close>)+
qed

lemma tasks_ok_drawn: "tasks_ok w \<Longrightarrow> tasks_ok (drawn i w\<lparr>tw_children := i # tw_children w\<rparr>)" "tasks_ok w \<Longrightarrow> tasks_ok (drawn i w)"
  by (auto simp: tasks_ok_def drawn_def coroutine_def [abs_def])

lemma tasks_ok_step:
  assumes "task_next a w = Some w'" and ok: "tasks_ok w"
  shows "tasks_ok w'"
proof (cases a)
  case (StartShell owner i d c path pid)
  with assms show ?thesis by (auto split: if_splits intro: tasks_ok_shell)
next
  case (StartMonitor owner i d c tmo path pid)
  with assms show ?thesis by (auto split: if_splits intro: tasks_ok_monitor)
next
  case (StartAgent owner i name d prompt ty model "file")
  obtain out reg where s: "spawn_agent (tw_now w) i name d prompt ty model owner file (tw_reg w) = (out, reg)" by fastforce
  from assms(1) StartAgent have i: "i \<notin> set (tw_ids w)" by (simp split: if_splits)
  from s show ?thesis
  proof (cases rule: spawn_agent_cases)
    case (started b t n)
    with assms StartAgent s i show ?thesis by (auto split: if_splits intro: tasks_ok_agent)
  next
    case other
    then have "registry_ok (tw_begun w) (tw_reported w) (coroutine w) reg"
      using tasks_okD(1) [OF ok] by (metis registry_ok_names)
    then have "tasks_ok (drawn i w\<lparr>tw_reg := reg\<rparr>)"
      using tasks_ok_reg [OF tasks_ok_drawn(2) [OF ok]] by (simp add: drawn_def coroutine_def [abs_def])
    with other assms StartAgent s show ?thesis by (auto split: if_splits sum.splits)
  qed
next
  case (AgentBegins i)
  have "tasks_ok (w\<lparr>tw_starting := removeAll i (tw_starting w), tw_agents := i # tw_agents w\<rparr>)" if "i \<in> set (tw_starting w)"
    using ok that by (auto simp: tasks_ok_def coroutine_def intro: registry_ok_co split: task_part.splits)
  with assms AgentBegins show ?thesis by (auto split: if_splits intro: tasks_ok_begin_query)
next
  case (ChildBegins owner i)
  with assms show ?thesis by (auto split: if_splits intro!: tasks_ok_begin_query tasks_ok_drawn)
next
  case (ChildEnds i)
  have "tasks_ok (w\<lparr>tw_children := removeAll i (tw_children w)\<rparr>)"
    using ok by (auto simp: tasks_ok_def coroutine_def [abs_def])
  from tasks_ok_orphans [OF this, of i] assms(1) ChildEnds show ?thesis by (auto split: if_splits)
next
  case (AgentEnds i e)
  define w1 where "w1 = (if returned e then drained (drain_orphan_notifications i (tw_reg w)) w else w)"
  have "tasks_ok w1" using ok tasks_ok_orphans by (simp add: w1_def)
  have agents: "tw_agents w1 = tw_agents w" by (simp add: w1_def drained_def split: prod.splits)
  have w': "w' = w1\<lparr>tw_reg := run_agent_background (tw_now w) i e (tw_reg w1), tw_agents := removeAll i (tw_agents w1)\<rparr>"
    using assms(1) AgentEnds unfolding agents by (simp add: Let_def w1_def split: if_splits)
  have co: "coroutine w' j p" if "j \<noteq> i" "coroutine w1 j p" for j p
    unfolding w' using that by (rule coroutine_removed(3))
  show ?thesis
    by (rule tasks_ok_concludes [OF \<open>tasks_ok w1\<close> _ _ _ _ _ _ _ co, of i])
       (auto simp: w' concludes_agent)
next
  case (ShellExits i code)
  with assms coroutine_removed(1) [of _ i w] show ?thesis
    by (auto split: if_splits intro!: tasks_ok_concludes [OF ok, of i] concludes_wait)
next
  case (ReadOutput i file1 file2)
  with assms(1) obtain offset n reg where p: "monitor_poll i file1 file2 offset (tw_reg w) = (n, reg)"
    and w': "w' = w\<lparr>tw_reg := reg, tw_readers := tw_readers w'\<rparr>"
    by (auto split: option.splits prod.splits)
  have "tasks_ok (w\<lparr>tw_reg := reg\<rparr>)"
    by (rule tasks_ok_reg [OF ok registry_ok_poll [OF tasks_okD(1) [OF ok] coroutine_by_type p]])
  then show ?thesis by (subst w') (simp add: tasks_ok_def coroutine_def [abs_def])
next
  case (MonitorExits i code)
  have "concludes i (tw_reg w) (monitor_exit (tw_now w) i code (tw_reg w))"
    by (rule concludes_monitor) (rule registry_okD(4) [OF tasks_okD(1) [OF ok]])
  with assms MonitorExits coroutine_removed(2) [of _ i w] show ?thesis
    by (auto split: if_splits intro!: tasks_ok_concludes [OF ok, of i])
next
  case (StopTask i)
  show ?thesis
  proof (cases "\<exists>t. get_task i (tw_reg w) = Some t \<and> tk_status t = TaskRunning")
    case True
    with concludes_stop have "concludes i (tw_reg w) (snd (snd (task_stop (tw_now w) i (tw_reg w))))" by blast
    with assms StopTask show ?thesis
      by (auto intro!: tasks_ok_concludes [OF ok, of i] simp: coroutine_def [abs_def])
  next
    case False
    then have "snd (snd (task_stop (tw_now w) i (tw_reg w))) = tw_reg w"
      by (auto simp: task_stop_def split: option.splits)
    with assms StopTask show ?thesis by simp
  qed
next
  case (SendMsg owner i file1 can to msg)
  obtain out reg started where s: "send_to_agent (tw_now w) i file1 can to msg owner (tw_reg w) = (out, reg, started)"
    by (metis prod_cases3)
  from assms(1) SendMsg have i: "i \<notin> set (tw_ids w)" by (simp split: if_splits)
  have kept: "tasks_ok (drawn i w\<lparr>tw_reg := r\<rparr>)" if "registry_ok (tw_begun w) (tw_reported w) (coroutine w) r" for r
    using tasks_ok_reg [OF tasks_ok_drawn(2) [OF ok]] that by (simp add: drawn_def coroutine_def [abs_def])
  from s show ?thesis
  proof (cases rule: send_to_agent_cases)
    case (started st t n)
    with assms SendMsg s i show ?thesis by (auto split: if_splits intro: tasks_ok_agent)
  next
    case (queued j)
    with assms SendMsg s kept [OF registry_ok_queue_message [OF tasks_okD(1) [OF ok] coroutine_by_type]] show ?thesis
      by (auto split: if_splits)
  next
    case same
    with assms SendMsg s kept [OF tasks_okD(1) [OF ok]] show ?thesis by (auto split: if_splits)
  qed
next
  case (WriteTodos owner todos)
  with assms tasks_ok_reg [OF ok registry_ok_todos [OF tasks_okD(1) [OF ok]]] show ?thesis
    by (auto simp: todo_write_def Let_def split: if_splits)
next
  case CloseSession
  have "registry_ok (tw_begun w) (tw_reported w) (coroutine w) ((tw_reg w)\<lparr>tr_tasks := []\<rparr>)"
    by (rule registry_ok_shrink [OF tasks_okD(1) [OF ok]]) (simp_all add: get_task_def)
  from tasks_ok_reg [OF ok this] assms CloseSession show ?thesis by (simp add: shutdown_registry_def)
next
  case (Elapse d)
  with assms show ?thesis by (auto simp: tasks_ok_def coroutine_def [abs_def] split: if_splits)
next
  case (Drain agent)
  with assms tasks_ok_drain [OF ok] show ?thesis by (auto split: if_splits)
next
  case RootQuery
  with assms tasks_ok_begin_query [OF ok] show ?thesis by auto
qed

lemma new_task_world_ok: "tasks_ok (new_task_world t0)"
  by (simp add: tasks_ok_def registry_ok_def new_task_world_def new_task_registry_def get_task_def)

lemma task_run_ok: "task_run P (new_task_world t0) as w \<Longrightarrow> tasks_ok w"
  by (rule task_run_invariant [where I = tasks_ok, OF _ new_task_world_ok tasks_ok_step])

text \<open>
  C38. The registry of background tasks is well formed in every reachable world, whatever agents,
  processes, tools and the client do in whatever order: a task is filed under its id; it has an end
  time, and its notification has been queued, exactly when its status is terminal; as long as it
  runs, the coroutine that will end it exists; a monitor buffers at most as many lines as it may.
  No task is ever reported twice, nor queued again after it was reported.
\<close>

theorem background_tasks_well_formed:
  assumes "task_run (\<lambda>_ _. True) (new_task_world t0) as w"
  shows "(\<forall>i t. get_task i (tw_reg w) = Some t \<longrightarrow>
            tk_id t = i \<and> (tk_end t \<noteq> None \<longleftrightarrow> is_terminal (tk_status t)) \<and> (tk_notified t \<longleftrightarrow> is_terminal (tk_status t))
            \<and> (is_terminal (tk_status t) \<or> tk_status t = TaskRunning \<and> coroutine w i (tk_part t))
            \<and> (\<forall>m. tk_part t = MonitorPart m \<longrightarrow> length (mo_recent m) \<le> mo_cap m))
         \<and> distinct (map fst (tr_queue (tw_reg w)) @ tw_reported w)"
proof -
  note ok = tasks_okD(1) [OF task_run_ok [OF assms]]
  have "tk_id t = i \<and> (tk_end t \<noteq> None \<longleftrightarrow> is_terminal (tk_status t)) \<and> (tk_notified t \<longleftrightarrow> is_terminal (tk_status t))
      \<and> (is_terminal (tk_status t) \<or> tk_status t = TaskRunning \<and> coroutine w i (tk_part t))
      \<and> (\<forall>m. tk_part t = MonitorPart m \<longrightarrow> length (mo_recent m) \<le> mo_cap m)" if "get_task i (tw_reg w) = Some t" for i t
    using registry_okD(4) [OF ok that] by (cases "tk_status t") (auto simp: task_ok_def lines_ok_def)
  with registry_okD(2) [OF ok] show ?thesis by blast
qed

section \<open>No notification is lost when every agent drains its own\<close>

text \<open>
  A drain drops finished tasks of all agents from the registry. It is harmless when no other agent
  has a notification waiting.
\<close>

definition own_drain :: "task_world \<Rightarrow> task_action \<Rightarrow> bool" where
  "own_drain w a = (case a of
     Drain agent \<Rightarrow> list_all (\<lambda>(i, owner). owner = agent) (tr_queue (tw_reg w))
   | CloseSession \<Rightarrow> False
   | _ \<Rightarrow> True)"

text \<open>A task that has begun is running, or its end is queued, or reported.\<close>

definition accounted :: "string list \<Rightarrow> string list \<Rightarrow> task_registry \<Rightarrow> bool" where
  "accounted begun_ids reported reg \<longleftrightarrow> (\<forall>i \<in> set begun_ids.
     (\<exists>t. get_task i reg = Some t \<and> (\<not> is_terminal (tk_status t) \<or> i \<in> fst ` set (tr_queue reg))) \<or> i \<in> set reported)"

lemma accounted_same:
  assumes "accounted B R reg" "tr_queue reg' = tr_queue reg"
    and "\<And>i t. get_task i reg = Some t \<Longrightarrow> \<exists>t'. get_task i reg' = Some t' \<and> tk_status t' = tk_status t"
  shows "accounted B R reg'"
  using assms unfolding accounted_def by metis

lemma accounted_concludes:
  assumes acc: "accounted B R reg" and ok: "registry_ok B R co reg" and c: "concludes i reg reg'"
  shows "accounted B R reg'"
  unfolding accounted_def
proof
  fix j assume j: "j \<in> set B"
  show "(\<exists>t. get_task j reg' = Some t \<and> (\<not> is_terminal (tk_status t) \<or> j \<in> fst ` set (tr_queue reg'))) \<or> j \<in> set R"
  proof (cases "j \<in> set R")
    case False
    with acc j obtain t where t: "get_task j reg = Some t" "\<not> is_terminal (tk_status t) \<or> j \<in> fst ` set (tr_queue reg)"
      unfolding accounted_def by blast
    have "task_ok co j t" by (rule registry_okD(4) [OF ok t(1)])
    have sub: "fst ` set (tr_queue reg) \<subseteq> fst ` set (tr_queue reg')" using c by (auto simp: concludes_def split: option.splits)
    show ?thesis
    proof (cases "j = i")
      case True
      with c t(1) obtain t' where "get_task i reg' = Some t'"
          "tr_queue reg' = tr_queue reg @ (if tk_notified t then [] else [(i, tk_owner t)])"
        by (auto simp: concludes_def)
      with True t(2) sub \<open>task_ok co j t\<close> show ?thesis by (auto simp: task_ok_def)
    next
      case False
      with c have "get_task j reg' = get_task j reg" by (simp add: concludes_def)
      with t sub show ?thesis by auto
    qed
  qed simp
qed

lemma accounted_register:
  assumes "accounted B R reg" "fresh_agent i t \<or> tk_id t = i \<and> tk_status t = TaskRunning"
  shows "accounted (B @ [i]) R (register_task now t reg)"
  using assms by (auto simp: accounted_def fresh_agent_def)

text \<open>A drain of notifications of one agent.\<close>

lemma accounted_drain:
  assumes acc: "accounted B R reg" and ok: "registry_ok B R co reg" and d: "drain_notifications a reg = (ids, reg1)"
  shows "accounted B (R @ map tk_id (List.map_filter (\<lambda>i. get_task i reg1) ids)) reg1"
proof -
  have reg1: "reg1 = reg\<lparr>tr_queue := filter (\<lambda>(i, owner). owner \<noteq> a) (tr_queue reg)\<rparr>"
    and ids: "ids = map fst (filter (\<lambda>(i, owner). owner = a) (tr_queue reg))"
    using d by (auto simp: drain_notifications_def drain_queue_eq)
  have "map tk_id (List.map_filter (\<lambda>i. get_task i reg1) ids) = filter (\<lambda>i. get_task i reg1 \<noteq> None) ids"
    using registry_okD(4) [OF ok] by (intro drained_ids) (auto simp: reg1 task_ok_def)
  then have rep: "set (map tk_id (List.map_filter (\<lambda>i. get_task i reg) ids)) = {i \<in> set ids. get_task i reg \<noteq> None}"
    by (simp add: reg1)
  have split: "i \<in> set ids \<or> i \<in> fst ` set (tr_queue reg1)" if "i \<in> fst ` set (tr_queue reg)" for i
    using that by (auto simp: reg1 ids image_iff)
  have get: "get_task i reg1 = get_task i reg" for i by (simp add: reg1)
  show ?thesis unfolding accounted_def get set_append rep
  proof
    fix i assume "i \<in> set B"
    with acc consider "i \<in> set R" | t where "get_task i reg = Some t" "\<not> is_terminal (tk_status t)"
      | t where "get_task i reg = Some t" "i \<in> fst ` set (tr_queue reg)"
      unfolding accounted_def by blast
    then show "(\<exists>t. get_task i reg = Some t \<and> (\<not> is_terminal (tk_status t) \<or> i \<in> fst ` set (tr_queue reg1)))
        \<or> i \<in> set R \<union> {i \<in> set ids. get_task i reg \<noteq> None}"
      using split by cases auto
  qed
qed

lemma accounted_own_drain:
  assumes acc: "accounted B R reg" and ok: "registry_ok B R co reg"
    and own: "list_all (\<lambda>(i, owner). owner = a) (tr_queue reg)"
    and d: "drain_task_notifications a reg = (rep, rem, reg')"
  shows "accounted B (R @ map tk_id rep) reg'"
proof -
  obtain ids reg1 where d1: "drain_notifications a reg = (ids, reg1)" by fastforce
  let ?R = "R @ map tk_id rep"
  have rep: "rep = List.map_filter (\<lambda>i. get_task i reg1) ids"
    and reg': "reg' = snd (drain_monitor_lines a (snd (evict_terminal reg1)))"
    using d d1 by (auto simp: drain_task_notifications_def Let_def split_def)
  have ok1: "registry_ok B ?R co reg1" unfolding rep by (rule registry_ok_drain [OF ok d1])
  have acc1: "accounted B ?R reg1" unfolding rep by (rule accounted_drain [OF acc ok d1])
  have "tr_queue reg1 = []"
    using d1 own by (auto simp: drain_notifications_def drain_queue_eq list_all_iff filter_empty_conv)
  moreover have "get_task i reg' = Some (drop_lines a t)" if "get_task i reg1 = Some t" "\<not> is_terminal (tk_status t)" for i t
    using that registry_okD(1) [OF ok1] by (simp add: reg' get_drained_lines get_evicted evictable_def)
  ultimately show ?thesis using acc1 unfolding accounted_def by fastforce
qed

abbreviation tasks_accounted :: "task_world \<Rightarrow> bool" where
  "tasks_accounted w \<equiv> accounted (tw_begun w) (tw_reported w) (tw_reg w)"

lemma accounted_part:
  "accounted B R reg \<Longrightarrow> accounted B R (modify_task i (tk_part_update (\<lambda>_. p)) reg)"
  by (erule accounted_same) auto

lemma accounted_messages:
  assumes "accounted B R reg"
  shows "accounted B R (snd (drain_messages i reg))" "accounted B R (snd (queue_message i msg reg))"
    "accounted B R (set_todos a todos reg)"
  using assms accounted_part [OF assms]
  by (auto simp: drain_messages_def queue_message_def split: option.splits task_part.splits)
     (erule accounted_same; simp add: set_todos_def)

lemma accounted_names: "accounted B R reg \<Longrightarrow> accounted B R (reg\<lparr>tr_names := n\<rparr>)"
  by (erule accounted_same) auto

lemma accounted_begin_query: "tasks_accounted w \<Longrightarrow> tasks_accounted (begin_query a w)"
  by (cases a) (simp_all add: begin_query_def split_def Let_def accounted_messages)

lemma accounted_orphans:
  assumes "tasks_ok w" "tasks_accounted w"
  shows "tasks_accounted (drained (drain_orphan_notifications i (tw_reg w)) w)"
  using accounted_drain [OF assms(2) tasks_okD(1) [OF assms(1)]]
  by (auto simp: drained_def drain_orphan_notifications_def Let_def split: prod.splits)

lemma accounted_step:
  assumes "task_next a w = Some w'" and own: "own_drain w a" and ok: "tasks_ok w" and acc: "tasks_accounted w"
  shows "tasks_accounted w'"
proof (cases a)
  case (StartShell owner i d c path pid)
  with assms(1) accounted_register [OF acc] show ?thesis
    by (auto simp: world_defs spawn_shell_def split: if_splits)
next
  case (StartMonitor owner i d c tmo path pid)
  with assms(1) accounted_register [OF acc] show ?thesis
    by (auto simp: world_defs spawn_monitor_def split: if_splits)
next
  case (StartAgent owner i name d prompt ty model "file")
  obtain out reg where s: "spawn_agent (tw_now w) i name d prompt ty model owner file (tw_reg w) = (out, reg)" by fastforce
  from s show ?thesis
  proof (cases rule: spawn_agent_cases)
    case (started b t n)
    with assms(1) StartAgent s accounted_register [OF accounted_names [OF acc]] show ?thesis
      by (auto simp: world_defs split: if_splits)
  next
    case other
    then have "accounted (tw_begun w) (tw_reported w) reg" using accounted_names [OF acc] by metis
    with other assms(1) StartAgent s show ?thesis by (auto simp: drawn_def split: if_splits sum.splits)
  qed
next
  case (AgentBegins i)
  with assms(1) acc show ?thesis by (auto split: if_splits intro!: accounted_begin_query)
next
  case (ChildBegins owner i)
  with assms(1) acc show ?thesis by (auto simp: drawn_def split: if_splits intro!: accounted_begin_query)
next
  case (ChildEnds i)
  have "tasks_ok (w\<lparr>tw_children := removeAll i (tw_children w)\<rparr>)"
    using ok by (auto simp: tasks_ok_def coroutine_def [abs_def])
  from accounted_orphans [OF this, of i] acc assms(1) ChildEnds show ?thesis by (auto split: if_splits)
next
  case (AgentEnds i e)
  define w1 where "w1 = (if returned e then drained (drain_orphan_notifications i (tw_reg w)) w else w)"
  have "tasks_ok w1" "tasks_accounted w1" using ok acc tasks_ok_orphans accounted_orphans by (simp_all add: w1_def)
  moreover have "w' = w1\<lparr>tw_reg := run_agent_background (tw_now w) i e (tw_reg w1), tw_agents := removeAll i (tw_agents w)\<rparr>"
    using assms(1) AgentEnds by (simp add: Let_def w1_def split: if_splits)
  ultimately show ?thesis using accounted_concludes [OF _ tasks_okD(1) concludes_agent] by auto
next
  case (ShellExits i code)
  with assms(1) accounted_concludes [OF acc tasks_okD(1) [OF ok] concludes_wait] show ?thesis
    by (auto split: if_splits)
next
  case (ReadOutput i file1 file2)
  with assms(1) obtain offset n reg where p: "monitor_poll i file1 file2 offset (tw_reg w) = (n, reg)"
    and w': "w' = w\<lparr>tw_reg := reg, tw_readers := tw_readers w'\<rparr>"
    by (auto split: option.splits prod.splits)
  from monitor_poll_cases [OF p] acc accounted_part [OF acc] show ?thesis by (subst (1 2 3) w') auto
next
  case (MonitorExits i code)
  have "concludes i (tw_reg w) (monitor_exit (tw_now w) i code (tw_reg w))"
    by (rule concludes_monitor) (rule registry_okD(4) [OF tasks_okD(1) [OF ok]])
  from accounted_concludes [OF acc tasks_okD(1) [OF ok] this] MonitorExits assms(1) show ?thesis by (auto split: if_splits)
next
  case (StopTask i)
  show ?thesis
  proof (cases "\<exists>t. get_task i (tw_reg w) = Some t \<and> tk_status t = TaskRunning")
    case True
    with concludes_stop have "concludes i (tw_reg w) (snd (snd (task_stop (tw_now w) i (tw_reg w))))" by blast
    from accounted_concludes [OF acc tasks_okD(1) [OF ok] this] StopTask assms(1) show ?thesis by auto
  next
    case False
    then have "snd (snd (task_stop (tw_now w) i (tw_reg w))) = tw_reg w"
      by (auto simp: task_stop_def split: option.splits)
    with assms(1) acc StopTask show ?thesis by auto
  qed
next
  case (SendMsg owner i file1 can to msg)
  obtain out reg started where s: "send_to_agent (tw_now w) i file1 can to msg owner (tw_reg w) = (out, reg, started)"
    by (metis prod_cases3)
  from s show ?thesis
  proof (cases rule: send_to_agent_cases)
    case (started st t n)
    with assms(1) SendMsg s accounted_register [OF accounted_names [OF acc]] show ?thesis
      by (auto simp: world_defs split: if_splits)
  next
    case (queued j)
    with assms(1) SendMsg s accounted_messages(2) [OF acc] show ?thesis by (auto simp: drawn_def split: if_splits)
  next
    case same
    with assms(1) SendMsg s acc show ?thesis by (auto simp: drawn_def split: if_splits)
  qed
next
  case (WriteTodos owner todos)
  with assms(1) accounted_messages(3) [OF acc] show ?thesis by (auto simp: todo_write_def Let_def split: if_splits)
next
  case (Drain agent)
  obtain rep rem reg where "drain_task_notifications agent (tw_reg w) = (rep, rem, reg)" by (metis prod_cases3)
  with accounted_own_drain [OF acc tasks_okD(1) [OF ok] _ this] own assms(1) Drain show ?thesis
    by (auto simp: own_drain_def drained_def split: if_splits)
next
  case RootQuery
  with assms(1) accounted_begin_query [OF acc] show ?thesis by auto
next
  case CloseSession
  with own show ?thesis by (simp add: own_drain_def)
qed (use assms in \<open>auto split: if_splits\<close>)


end
