(* ===== verification/Task_Limits.thy ===== *)
theory Task_Limits
  imports Task_Runs
begin

text \<open>
  What the background tasks of a session do not guarantee: messages to a running agent, ends of
  tasks that another agent drains, stopped agents and the last lines of a monitor. Also the buffer of
  a monitor against its specification, and concrete runs on which the theorems of
  \<open>Task_Runs\<close> are applied.
\<close>

section \<open>Messages to a running agent\<close>

text \<open>
  \<open>i\<close> is an agent that has begun: its id is drawn, and no coroutine of that name waits to begin.
\<close>

definition has_begun :: "string \<Rightarrow> task_world \<Rightarrow> bool" where
  "has_begun i w \<longleftrightarrow> i \<in> set (tw_ids w) \<and> i \<notin> set (tw_starting w)"

abbreviation received_by :: "string \<Rightarrow> task_world \<Rightarrow> (string \<times> string) list" where
  "received_by i w \<equiv> filter (\<lambda>(j, m). j = i) (tw_received w)"

lemma begin_query_frame [simp]:
  "tw_ids (begin_query a w) = tw_ids w" "tw_starting (begin_query a w) = tw_starting w"
  "tw_agents (begin_query a w) = tw_agents w"
  by (simp_all add: begin_query_def split_def Let_def split: option.split)

lemma received_begin_query: "a \<noteq> Some i \<Longrightarrow> received_by i (begin_query a w) = received_by i w"
  by (cases a) (simp_all add: begin_query_def split_def Let_def filter_empty_conv)

lemma drained_frame [simp]:
  "tw_ids (drained d w) = tw_ids w" "tw_starting (drained d w) = tw_starting w" "tw_agents (drained d w) = tw_agents w"
  "tw_received (drained d w) = tw_received w"
  by (simp_all add: drained_def split: prod.split)

lemma world_frame [simp]:
  "tw_ids (registered i r w) = tw_ids w" "tw_starting (registered i r w) = tw_starting w"
  "tw_agents (registered i r w) = tw_agents w" "tw_received (registered i r w) = tw_received w"
  "tw_ids (drawn i w) = tw_ids w @ [i]" "tw_starting (drawn i w) = tw_starting w"
  "tw_agents (drawn i w) = tw_agents w" "tw_received (drawn i w) = tw_received w"
  by (simp_all add: world_defs)

lemma has_begun_step:
  assumes "task_next a w = Some w'" "has_begun i w"
  shows "has_begun i w' \<and> received_by i w' = received_by i w"
proof (cases a)
  case (StartAgent owner j name d prompt ty model "file")
  obtain out reg where "spawn_agent (tw_now w) j name d prompt ty model owner file (tw_reg w) = (out, reg)" by fastforce
  with assms StartAgent show ?thesis by (auto simp: has_begun_def split: if_splits sum.splits)
next
  case (SendMsg owner j file1 can to msg)
  obtain out reg started where "send_to_agent (tw_now w) j file1 can to msg owner (tw_reg w) = (out, reg, started)"
    by (metis prod_cases3)
  with assms SendMsg show ?thesis by (auto simp: has_begun_def split: if_splits option.splits)
next
  case (AgentBegins j)
  with assms have "j \<noteq> i" "w' = begin_query (Some j)
      (w\<lparr>tw_starting := removeAll j (tw_starting w), tw_agents := j # tw_agents w\<rparr>)"
    by (auto simp: has_begun_def split: if_splits)
  with assms(2) show ?thesis by (simp add: has_begun_def received_begin_query)
next
  case (ChildBegins owner j)
  with assms have "j \<noteq> i" "w' = begin_query (Some j) (drawn j w\<lparr>tw_children := j # tw_children w\<rparr>)"
    by (auto simp: has_begun_def split: if_splits)
  with assms(2) show ?thesis by (simp add: has_begun_def received_begin_query)
next
  case (ReadOutput j file1 file2)
  with assms show ?thesis by (auto simp: has_begun_def split: option.splits prod.splits)
qed (use assms received_begin_query [of None i w] in \<open>auto simp: has_begun_def Let_def split: if_splits\<close>)

lemma has_begun_run:
  assumes "task_run P w as w'" "has_begun i w"
  shows "received_by i w' = received_by i w"
  using assms
proof (induction rule: task_run.induct)
  case (step a w w1 as w')
  with has_begun_step [of a w w1 i] show ?case by simp
qed simp

text \<open>An agent whose query runs is not waiting to begin.\<close>

lemma agents_have_begun:
  assumes "task_run P (new_task_world t0) as w" "i \<in> set (tw_agents w)"
  shows "has_begun i w"
proof -
  let ?I = "\<lambda>w. tasks_ok w \<and> set (tw_agents w) \<inter> set (tw_starting w) = {}"
  have "?I w"
  proof (rule task_run_invariant [where I = ?I, OF assms(1)])
    show "?I (new_task_world t0)" using new_task_world_ok by (simp add: new_task_world_def)
    fix a w w' assume st: "task_next a w = Some w'" and I: "?I w"
    have "set (tw_agents w') \<inter> set (tw_starting w') = {}"
    proof (cases a)
      case (StartAgent owner j name d prompt ty model "file")
      obtain out reg where "spawn_agent (tw_now w) j name d prompt ty model owner file (tw_reg w) = (out, reg)" by fastforce
      with st I StartAgent tasks_okD(4) show ?thesis by (fastforce split: if_splits sum.splits)
    next
      case (SendMsg owner j file1 can to msg)
      obtain out reg started where "send_to_agent (tw_now w) j file1 can to msg owner (tw_reg w) = (out, reg, started)"
        by (metis prod_cases3)
      with st I SendMsg tasks_okD(4) show ?thesis by (fastforce split: if_splits option.splits)
    next
      case (ReadOutput j file1 file2)
      with st I show ?thesis by (auto split: option.splits prod.splits)
    qed (use st I in \<open>auto simp: Let_def split: if_splits\<close>)
    with I st tasks_ok_step show "?I w'" by blast
  qed
  with assms(2) tasks_okD(4) show ?thesis by (auto simp: has_begun_def)
qed

text \<open>
  A message sent to a background agent whose query has begun never reaches it, although the
  sender is told that it was queued for delivery at the next tool round: \<open>drain_messages\<close> is called by
  \<open>setup_turn\<close> only, once per query, and a background agent runs one query. Whatever happens after
  its begin, the agent receives nothing more.
\<close>

theorem running_agent_gets_no_message:
  assumes "task_run (\<lambda>_ _. True) (new_task_world t0) as w" "i \<in> set (tw_agents w)"
    and "task_run (\<lambda>_ _. True) w as' w'"
  shows "filter (\<lambda>(j, m). j = i) (tw_received w') = filter (\<lambda>(j, m). j = i) (tw_received w)"
  by (rule has_begun_run [OF assms(3) agents_have_begun [OF assms(1,2)]])

section \<open>The buffer of a monitor\<close>

definition last_lines :: "nat \<Rightarrow> string list \<Rightarrow> string list" where
  "last_lines n ls = drop (length ls - n) ls"

lemma push_lines_last:
  "0 < cap \<Longrightarrow> length buf \<le> cap \<Longrightarrow> push_lines cap buf ls = Inr (last_lines cap (buf @ ls))"
proof (induction ls arbitrary: buf)
  case (Cons l ls)
  show ?case
  proof (cases "cap \<le> length buf")
    case True
    with Cons.prems obtain b bs where buf: "buf = b # bs" "length bs + 1 = cap" by (cases buf) auto
    have "last_lines cap ((bs @ [l]) @ ls) = last_lines cap (buf @ l # ls)"
      unfolding last_lines_def buf(1) buf(2) [symmetric] by (simp add: Suc_diff_le drop_Cons')
    with Cons.IH [of "bs @ [l]"] True Cons.prems buf show ?thesis by simp
  next
    case False
    with Cons.IH [of "buf @ [l]"] Cons.prems show ?thesis by (simp add: last_lines_def)
  qed
qed (simp add: last_lines_def)

lemma last_lines_id [simp]: "length ls \<le> n \<Longrightarrow> last_lines n ls = ls"
  by (simp add: last_lines_def)

text \<open>
  One round of the reader of a running monitor: the buffer holds the last lines of what it held and
  what was written since, whatever their number, and the offset moves to the end of the file.
\<close>

lemma monitor_buffers_last_lines:
  assumes t: "get_task i reg = Some t" "tk_part t = MonitorPart m" "\<not> is_terminal (tk_status t)" "lines_ok t"
    and "offset \<le> length text"
  shows "monitor_poll i (Some text) file' offset reg = (Some (length text),
    modify_task i (tk_part_update (\<lambda>_. MonitorPart (m\<lparr>mo_recent :=
      last_lines (mo_cap m) (mo_recent m @ split_lines [] (drop offset text))\<rparr>))) reg)"
proof -
  have m: "length (mo_recent m) \<le> mo_cap m" "0 < mo_cap m" using t(2,4) by (simp_all add: lines_ok_def)
  have "read_new_output (Some text) offset m = Inr (length text, m\<lparr>mo_recent :=
      last_lines (mo_cap m) (mo_recent m @ split_lines [] (drop offset text))\<rparr>)"
    using assms(5) m push_lines_last [OF m(2,1)] by (cases "length text = offset") (simp_all add: read_new_output_def)
  with t show ?thesis by (simp add: monitor_poll_def)
qed

section \<open>Concrete runs\<close>

definition demo_world :: "task_action list \<Rightarrow> task_world option" where
  "demo_world = exec_tasks (\<lambda>_ _. True) (new_task_world 0)"

abbreviation demo_agent :: "string \<Rightarrow> task_action" where
  "demo_agent i \<equiv> StartAgent None i (Some ''scout'') ''look around'' ''look'' ''Explore'' None (Inr ''/tmp/o'')"

definition message_run :: "task_action list" where
  "message_run = [demo_agent ''a1'', SendMsg None ''x1'' (Inr ''/tmp/x'') True ''scout'' ''early'', AgentBegins ''a1'']"

definition late_run :: "task_action list" where
  "late_run = [SendMsg None ''x2'' (Inr ''/tmp/x'') True ''scout'' ''late'', Drain None, Drain (Some ''a1''),
     AgentEnds ''a1'' (AgentReturned ''found'' None)]"

lemma exec_tasks_some:
  assumes "case exec_tasks P w as of None \<Rightarrow> False | Some w' \<Rightarrow> Q w'"
  shows "\<exists>w'. task_run P w as w' \<and> Q w'"
  using assms exec_tasks_sound by (fastforce split: option.splits)

lemma running_agent_gets_no_message_witness:
  "\<exists>w w'. task_run (\<lambda>_ _. True) (new_task_world 0) message_run w \<and> task_run (\<lambda>_ _. True) w late_run w'
     \<and> tw_received w = [(''a1'', ''early'')] \<and> filter (\<lambda>(j, m). j = ''a1'') (tw_received w') = [(''a1'', ''early'')]"
proof -
  have "case exec_tasks (\<lambda>_ _. True) (new_task_world 0) message_run of None \<Rightarrow> False
      | Some w \<Rightarrow> tw_received w = [(''a1'', ''early'')] \<and> tw_agents w = [''a1'']
          \<and> (case exec_tasks (\<lambda>_ _. True) w late_run of None \<Rightarrow> False | Some w' \<Rightarrow> True)"
    by code_simp
  then obtain w where w: "task_run (\<lambda>_ _. True) (new_task_world 0) message_run w" "tw_received w = [(''a1'', ''early'')]"
      "tw_agents w = [''a1'']" "case exec_tasks (\<lambda>_ _. True) w late_run of None \<Rightarrow> False | Some w' \<Rightarrow> True"
    using exec_tasks_some [where Q = "\<lambda>w. tw_received w = [(''a1'', ''early'')] \<and> tw_agents w = [''a1'']
      \<and> (case exec_tasks (\<lambda>_ _. True) w late_run of None \<Rightarrow> False | Some w' \<Rightarrow> True)"] by blast
  from exec_tasks_some [OF w(4)] obtain w' where w': "task_run (\<lambda>_ _. True) w late_run w'" by blast
  have "filter (\<lambda>(j, m). j = ''a1'') (tw_received w') = filter (\<lambda>(j, m). j = ''a1'') (tw_received w)"
    by (rule running_agent_gets_no_message [OF w(1) _ w']) (simp add: w(3))
  with w w' show ?thesis by auto
qed

text \<open>
  A run in which only the root agent has tasks: a command ends, is reported, and another one is
  stopped while it runs.
\<close>

definition shell_run :: "task_action list" where
  "shell_run = [StartShell None ''b1'' ''build'' ''make'' ''/tmp/1'' 7, StartShell None ''b2'' ''serve'' ''srv'' ''/tmp/2'' 8,
     ShellExits ''b1'' (Some 0), Elapse 3, Drain None, StopTask ''b2'', ShellExits ''b2'' (Some (- 9))]"

lemma shell_run_ends:
  "\<exists>w. task_run own_drain (new_task_world 0) shell_run w
     \<and> (tw_begun w = [''b1'', ''b2''] \<and> tw_reported w = [''b1''] \<and> tr_queue (tw_reg w) = [(''b2'', None)])"
  by (rule exec_tasks_some) code_simp

lemma task_run_weaken: "task_run P w as w' \<Longrightarrow> (\<And>w a. P w a \<Longrightarrow> Q w a) \<Longrightarrow> task_run Q w as w'"
  by (induction rule: task_run.induct) (auto intro: task_run.intros)

lemma background_tasks_well_formed_witness:
  "\<exists>w :: task_world. tw_begun w = [''b1'', ''b2''] \<and> distinct (map fst (tr_queue (tw_reg w)) @ tw_reported w)
     \<and> (\<forall>i t. get_task i (tw_reg w) = Some t \<longrightarrow> tk_id t = i \<and> (tk_notified t \<longleftrightarrow> is_terminal (tk_status t)))"
proof -
  from shell_run_ends obtain w where w: "task_run own_drain (new_task_world 0) shell_run w" "tw_begun w = [''b1'', ''b2'']"
    by blast
  have "task_run (\<lambda>_ _. True) (new_task_world 0) shell_run w" by (rule task_run_weaken [OF w(1)]) simp
  note bt = background_tasks_well_formed [OF this]
  show ?thesis by (rule exI [of _ w]) (use bt w(2) in simp)
qed


text \<open>The end of a task that another agent drains is lost: it is evicted before its owner looks.\<close>

definition foreign_drain_run :: "task_action list" where
  "foreign_drain_run = [demo_agent ''a1'', AgentBegins ''a1'', StartShell (Some ''a1'') ''b1'' ''test'' ''pytest'' ''/tmp/1'' 7,
     ShellExits ''b1'' (Some 1), Drain None, Drain (Some ''a1'')]"

lemma foreign_drain_loses_end:
  "\<exists>w. task_run (\<lambda>_ _. True) (new_task_world 0) foreign_drain_run w
     \<and> (get_task ''b1'' (tw_reg w) = None \<and> tr_queue (tw_reg w) = [] \<and> tw_reported w = [] \<and> tw_reminders w = [])"
  by (rule exec_tasks_some) code_simp

text \<open>A stopped agent runs on, and completes; its owner was told that it was stopped and gets no result.\<close>

definition stopped_agent_run :: "task_action list" where
  "stopped_agent_run = [demo_agent ''a1'', AgentBegins ''a1'', StopTask ''a1'', AgentEnds ''a1'' (AgentReturned ''found'' None)]"

lemma stopped_agent_completes:
  "\<exists>w. task_run (\<lambda>_ _. True) (new_task_world 0) stopped_agent_run w
     \<and> (map_option tk_status (get_task ''a1'' (tw_reg w)) = Some TaskCompleted \<and> tr_queue (tw_reg w) = [(''a1'', None)])"
  by (rule exec_tasks_some) code_simp

text \<open>The last lines of a monitor that ends are dropped: it is evicted before its buffer is drained.\<close>

definition last_lines_run :: "task_action list" where
  "last_lines_run = [StartMonitor None ''m1'' ''log'' ''tail'' 1000 ''/tmp/1'' 7, MonitorExits ''m1'' 1,
     ReadOutput ''m1'' (Some ''fatal'') (Some ''fatal''), Drain None]"

lemma monitor_end_loses_lines:
  "\<exists>w. task_run (\<lambda>_ _. True) (new_task_world 0) last_lines_run w
     \<and> (tw_reported w = [''m1''] \<and> get_task ''m1'' (tw_reg w) = None \<and> length (tw_reminders w) = 1)"
  by (rule exec_tasks_some) code_simp

section \<open>Todo lists\<close>

lemma todos_roundtrip:
  "get_todos a (set_todos a ts reg) = ts" "b \<noteq> a \<Longrightarrow> get_todos b (set_todos a ts reg) = get_todos b reg"
  by (simp_all add: get_todos_def set_todos_def)

end
