(* ===== verification/Shell_Lexer.thy ===== *)
theory Shell_Lexer
  imports Kernel_Prelude
begin

text \<open>
  Two functions of Python's standard library that the shell tools use: \<open>shlex.split\<close>, as the state
  machine of \<open>shlex.read_token\<close> in POSIX mode with \<open>whitespace_split\<close>, and \<open>fnmatch.fnmatch\<close> on a POSIX
  system.
\<close>

section \<open>Splitting a command line\<close>

text \<open>
  The state of the lexer: between tokens, in a word, inside a quotation, or after a backslash that
  returns to a word or to the quotation it was found in.
\<close>

datatype lex_state = LexSpace | LexWord | LexQuote char | LexEscape "char option"

definition LEX_WHITESPACE :: string where
  "LEX_WHITESPACE = [CHR 0x20, CHR 0x09, CHR 0x0D, CHR 0x0A]"

definition LEX_QUOTES :: string where
  "LEX_QUOTES = [CHR 0x27, CHR 0x22]"

definition backslash :: char where
  "backslash = CHR 0x5C"

fun shlex_from :: "lex_state \<Rightarrow> string \<Rightarrow> string \<Rightarrow> string list py" where
  "shlex_from LexSpace token [] = Inr []"
| "shlex_from LexWord token [] = Inr [token]"
| "shlex_from (LexQuote q) token [] = Inl (PyExn ''No closing quotation'')"
| "shlex_from (LexEscape r) token [] = Inl (PyExn ''No escaped character'')"
| "shlex_from LexSpace token (c # s) =
     (if c \<in> set LEX_WHITESPACE then shlex_from LexSpace [] s
      else if c = backslash then shlex_from (LexEscape None) [] s
      else if c \<in> set LEX_QUOTES then shlex_from (LexQuote c) [] s
      else shlex_from LexWord [c] s)"
| "shlex_from LexWord token (c # s) =
     (if c \<in> set LEX_WHITESPACE then ebind (shlex_from LexSpace [] s) (\<lambda>ts. Inr (token # ts))
      else if c \<in> set LEX_QUOTES then shlex_from (LexQuote c) token s
      else if c = backslash then shlex_from (LexEscape None) token s
      else shlex_from LexWord (token @ [c]) s)"
| "shlex_from (LexQuote q) token (c # s) =
     (if c = q then shlex_from LexWord token s
      else if c = backslash \<and> q = CHR 0x22 then shlex_from (LexEscape (Some q)) token s
      else shlex_from (LexQuote q) (token @ [c]) s)"
| "shlex_from (LexEscape r) token (c # s) =
     (case r of
        None \<Rightarrow> shlex_from LexWord (token @ [c]) s
      | Some q \<Rightarrow>
          shlex_from (LexQuote q) (token @ (if c \<noteq> backslash \<and> c \<noteq> q then [backslash, c] else [c])) s)"

definition shlex_split :: "string \<Rightarrow> string list py" where
  "shlex_split s = shlex_from LexSpace [] s"

section \<open>File name patterns\<close>

text \<open>
  A set of characters in brackets: a leading \<open>!\<close> negates it, \<open>a-b\<close> is a range, and a bracket with no end
  stands for itself. \<open>bracket_end\<close> is the position of the closing bracket.
\<close>

fun ranges_match :: "char \<Rightarrow> string \<Rightarrow> bool" where
  "ranges_match c [] = False"
| "ranges_match c [a] = (c = a)"
| "ranges_match c [a, b] = (c = a \<or> c = b)"
| "ranges_match c (a # m # b # s) =
     (if m = CHR ''-'' then (of_char a :: nat) \<le> of_char c \<and> (of_char c :: nat) \<le> of_char b \<or> ranges_match c s
      else c = a \<or> ranges_match c (m # b # s))"

definition bracket_match :: "char \<Rightarrow> string \<Rightarrow> bool" where
  "bracket_match c stuff =
     (case stuff of
        [] \<Rightarrow> False
      | d # s \<Rightarrow> if d = CHR ''!'' then \<not> ranges_match c s else ranges_match c stuff)"

definition bracket_split :: "string \<Rightarrow> (string \<times> string) option" where
  "bracket_split p =
     (let bang = (if p \<noteq> [] \<and> hd p = CHR ''!'' then 1 else 0);
          first = (if drop bang p \<noteq> [] \<and> hd (drop bang p) = CHR '']'' then bang + 1 else bang);
          body = takeWhile (\<lambda>c. c \<noteq> CHR '']'') (drop first p)
      in case drop (first + length body) p of
           [] \<Rightarrow> None
         | _ # tail_text \<Rightarrow> Some (take (first + length body) p, tail_text))"

lemma bracket_split_shorter: "bracket_split p = Some (stuff, q) \<Longrightarrow> length q < length p"
proof -
  assume "bracket_split p = Some (stuff, q)"
  then obtain n c where "drop n p = c # q" by (auto simp: bracket_split_def Let_def split: list.splits)
  then have "length (c # q) = length p - n" by (metis length_drop)
  then show ?thesis by simp
qed

function (sequential) fnmatch :: "string \<Rightarrow> string \<Rightarrow> bool" where
  "fnmatch [] s = (s = [])"
| "fnmatch (p # ps) s =
     (if p = CHR ''*'' then fnmatch ps s \<or> (case s of [] \<Rightarrow> False | c # cs \<Rightarrow> fnmatch (p # ps) cs)
      else case s of
             [] \<Rightarrow> False
           | c # cs \<Rightarrow>
               if p = CHR ''?'' then fnmatch ps cs
               else if p = CHR ''['' then
                 (case bracket_split ps of
                    None \<Rightarrow> c = p \<and> fnmatch ps cs
                  | Some (stuff, q) \<Rightarrow> bracket_match c stuff \<and> fnmatch q cs)
               else c = p \<and> fnmatch ps cs)"
  by pat_completeness auto
termination
  by (relation "measure (\<lambda>(p, s). length p + length s)") (auto dest: bracket_split_shorter)

declare fnmatch.simps(2) [simp del]

section \<open>Lemmas\<close>

text \<open>A character that ends no word and opens no quotation.\<close>

definition plain_char :: "char \<Rightarrow> bool" where
  "plain_char c \<longleftrightarrow> c \<notin> set LEX_WHITESPACE \<and> c \<notin> set LEX_QUOTES \<and> c \<noteq> backslash"

lemma shlex_word:
  "list_all plain_char w \<Longrightarrow> shlex_from LexWord token (w @ s) = shlex_from LexWord (token @ w) s"
  by (induction w arbitrary: token) (auto simp: plain_char_def)

lemma shlex_from_plain:
  "list_all (\<lambda>c. c \<in> set LEX_WHITESPACE \<or> plain_char c) s \<Longrightarrow> st \<in> {LexSpace, LexWord} \<Longrightarrow>
     \<not> isl (shlex_from st token s)"
proof (induction s arbitrary: st token)
  case (Cons c s)
  show ?case
  proof (cases "c \<in> set LEX_WHITESPACE")
    case True
    have "\<not> isl (shlex_from LexSpace [] s)" by (rule Cons.IH) (use Cons.prems in auto)
    with True Cons.prems(2) show ?thesis by (cases "shlex_from LexSpace [] s") auto
  next
    case False
    with Cons.prems have "plain_char c" by simp
    moreover have "\<not> isl (shlex_from LexWord t s)" for t by (rule Cons.IH) (use Cons.prems in auto)
    ultimately show ?thesis using Cons.prems(2) by (auto simp: plain_char_def)
  qed
qed auto

lemma shlex_first_word:
  assumes "w \<noteq> []" "list_all plain_char w" "c \<in> set LEX_WHITESPACE"
    and "list_all (\<lambda>c. c \<in> set LEX_WHITESPACE \<or> plain_char c) s"
  shows "\<exists>ts. shlex_split (w @ c # s) = Inr (w # ts)"
proof -
  from assms(1,2) obtain d w' where w: "w = d # w'" "plain_char d" "list_all plain_char w'" by (cases w) auto
  have "shlex_split (w @ c # s) = shlex_from LexWord [d] (w' @ c # s)"
    using w by (simp add: shlex_split_def plain_char_def)
  also have "\<dots> = ebind (shlex_from LexSpace [] s) (\<lambda>ts. Inr (w # ts))"
    using w assms(3) by (simp add: shlex_word)
  finally show ?thesis using shlex_from_plain [OF assms(4), of LexSpace "[]"] by (cases "shlex_from LexSpace [] s") auto
qed

end
