(* ===== verification/Shell_Tools.thy ===== *)
theory Shell_Tools
  imports Py_Regex Shell_Lexer Tool_Contract
begin

text \<open>
  The shell tools as information sources of the authorizer: \<open>BashTool\<close> (\<open>tools/builtin/bash.py\<close>),
  \<open>PowerShellTool\<close> (\<open>powershell.py\<close>) and \<open>CmdTool\<close> (\<open>cmd.py\<close>). Their lists of safe commands, their
  dangerous patterns as \<^typ>\<open>regex\<close> terms with the text of the pattern, the classification of a command
  (\<open>default_risk\<close>), rule matching, warnings and input validation. How a value that is no string prints
  is left to the argument \<open>fl\<close> for floats.
\<close>

definition suggest :: "risk \<Rightarrow> decision_kind \<Rightarrow> string \<Rightarrow> permission_suggestion" where
  "suggest r d reason = \<lparr>sg_risk = r, sg_default_decision = d, sg_reason = reason\<rparr>"

text \<open>\<open>str(input.get("command", ""))\<close>\<close>

definition command_str :: "(int \<Rightarrow> int \<Rightarrow> string) \<Rightarrow> tool_input \<Rightarrow> string" where
  "command_str fl inp = (case map_of inp ''command'' of
     None \<Rightarrow> []
   | Some (JStr s) \<Rightarrow> s
   | Some v \<Rightarrow> py_repr fl v)"

text \<open>The text of a pattern, written with a percent sign for the backslash.\<close>

definition pattern_text :: "string \<Rightarrow> string" where
  "pattern_text s = map (\<lambda>c. if c = CHR ''%'' then CHR 0x5C else c) s"

definition matches_any :: "(string \<times> regex) list \<Rightarrow> string \<Rightarrow> (string \<times> regex) option" where
  "matches_any ps command = List.find (\<lambda>(src, r). re_search r command \<noteq> None) ps"

definition dangerous_reason :: "string \<Rightarrow> string" where
  "dangerous_reason src = ''matches dangerous pattern '' @ py_repr_str src"

definition one_of :: "string \<Rightarrow> regex" where
  "one_of cs = RChar (\<lambda>c. c \<in> set cs)"

definition one_of_ci :: "string \<Rightarrow> regex" where
  "one_of_ci cs = RChar (\<lambda>c. py_lower_char c \<in> set cs)"

definition rword :: "string \<Rightarrow> regex" where
  "rword s = rseq [RBound, rlit s, RBound]"

definition rword_ci :: "string \<Rightarrow> regex" where
  "rword_ci s = rseq [RBound, rlit_ci s, RBound]"

definition git_push_force :: regex where
  "git_push_force = rseq [RBound, rlit ''git'', rplus rspace, rlit ''push'', rplus rspace, RStar rany, rlit ''--force'', RBound]"

definition git_push_f :: regex where
  "git_push_f = rseq [RBound, rlit ''git'', rplus rspace, rlit ''push'', rplus rspace, RStar rany, rlit ''-f'', RBound,
     RNegAhead (rlit ''orce-with-lease'')]"

section \<open>Bash: lists and patterns\<close>

definition ALLOWLIST_SAFE_COMMANDS :: "string list" where
  "ALLOWLIST_SAFE_COMMANDS =
     [''ls'', ''pwd'', ''cat'', ''head'', ''tail'', ''wc'', ''grep'', ''find'', ''echo'', ''printf'', ''which'',
      ''type'', ''file'', ''stat'', ''date'', ''uname'', ''hostname'', ''whoami'', ''id'', ''env'', ''git'', ''python'',
      ''python3'', ''uv'', ''node'', ''npm'', ''pnpm'', ''cargo'', ''go'', ''make'', ''pytest'', ''ruff'', ''mypy'',
      ''tsc'', ''yarn'']"

definition DANGEROUS_PATTERNS :: "(string \<times> regex) list" where
  "DANGEROUS_PATTERNS =
     [(pattern_text ''%brm%s+(-[rRf]+%s+)?[/~]'',
       rseq [RBound, rlit ''rm'', rplus rspace, ropt (rseq [rlit ''-'', rplus (one_of ''rRf''), rplus rspace]), one_of ''/~'']),
      (pattern_text ''%bdd%s+.*%bof=/dev/'',
       rseq [RBound, rlit ''dd'', rplus rspace, RStar rany, RBound, rlit ''of=/dev/'']),
      (pattern_text ''%bmkfs%.'', RSeq RBound (rlit ''mkfs.'')),
      (pattern_text '':%(%)%s*%{.*;:'',
       rseq [rlit '':()'', RStar rspace, rlit ''{'', RStar rany, rlit '';:'']),
      (pattern_text ''%bchmod%s+-R%s+[0-7]{3,4}%s+[/~]'',
       (let octal = one_of ''01234567''
        in rseq [RBound, rlit ''chmod'', rplus rspace, rlit ''-R'', rplus rspace, octal, octal, octal, ropt octal,
                 rplus rspace, one_of ''/~''])),
      (pattern_text ''%bshutdown%b'', rword ''shutdown''),
      (pattern_text ''%breboot%b'', rword ''reboot''),
      (pattern_text ''%bhalt%b'', rword ''halt''),
      (pattern_text ''%bgit%s+push%s+.*--force%b'', git_push_force),
      (pattern_text ''%bgit%s+push%s+.*-f%b(?!orce-with-lease)'', git_push_f)]"

definition COMPOUND_SAFE_COMMANDS :: "string list" where
  "COMPOUND_SAFE_COMMANDS =
     [''ls'', ''tree'', ''du'', ''find'', ''fd'', ''locate'', ''grep'', ''rg'', ''ag'', ''ack'', ''which'', ''whereis'',
      ''cat'', ''head'', ''tail'', ''less'', ''more'', ''wc'', ''stat'', ''file'', ''strings'', ''jq'', ''yq'', ''awk'',
      ''cut'', ''sort'', ''uniq'', ''tr'', ''column'', ''diff'', ''comm'',
      ''echo'', ''printf'', ''true'', ''false'', ''pwd'', ''whoami'', ''date'', ''uname'', ''env'', ''printenv'',
      ''hostname'', ''id'', ''uptime'', ''free'', ''df'', ''lsblk'', ''lscpu'',
      ''cloc'', ''sha256sum'', ''md5sum'', ''xxd'', ''hexdump'', ''base64'', ''man'', ''type'', ''command'']"

definition GIT_READ_ONLY :: "string list" where
  "GIT_READ_ONLY =
     [''status'', ''log'', ''diff'', ''show'', ''branch'', ''remote'', ''tag'', ''describe'', ''rev-parse'', ''rev-list'',
      ''ls-files'', ''ls-tree'', ''stash list'', ''shortlog'', ''blame'']"

text \<open>The warnings: \<open>not_op\<close> is \<open>[^;&|\n]\<close>, \<open>line_start\<close> is \<open>(^|[;&|\n]\s*)\<close>.\<close>

definition not_op :: regex where
  "not_op = RChar (\<lambda>c. c \<notin> {CHR '';'', CHR ''&'', CHR ''|'', CHR 0x0A})"

definition line_start :: regex where
  "line_start = RAlt RStart (RSeq (RChar (\<lambda>c. c \<in> {CHR '';'', CHR ''&'', CHR ''|'', CHR 0x0A})) (RStar rspace))"

definition letters :: regex where
  "letters = RStar (one_of_ci ''abcdefghijklmnopqrstuvwxyz'')"

definition git_words :: "string list \<Rightarrow> regex" where
  "git_words ws = rseq (RBound # rlit ''git'' # concat (map (\<lambda>w. [rplus rspace, rlit w]) ws))"

definition DESTRUCTIVE_WARNINGS :: "(regex \<times> string) list" where
  "DESTRUCTIVE_WARNINGS =
     [(RSeq (git_words [''reset'', ''--hard'']) RBound, ''may discard uncommitted changes''),
      (rseq [git_words [''push''], RBound, RStar not_op, rplus rspace,
             ralt [rlit ''--force'', rlit ''--force-with-lease'', rlit ''-f''], RBound],
       ''may overwrite remote history''),
      (rseq [git_words [''clean''], RBound,
             RNegAhead (rseq [RStar not_op, ralt [rseq [rlit ''-'', letters, rlit ''n''], rlit ''--dry-run'']]),
             RStar not_op, rlit ''-'', letters, rlit ''f''],
       ''may permanently delete untracked files''),
      (rseq [git_words [''checkout''], rplus rspace, ropt (RSeq (rlit ''--'') (rplus rspace)), rlit ''.''],
       ''may discard all working tree changes''),
      (rseq [git_words [''restore''], rplus rspace, ropt (RSeq (rlit ''--'') (rplus rspace)), rlit ''.''],
       ''may discard all working tree changes''),
      (rseq [git_words [''stash''], rplus rspace, ralt [rlit ''drop'', rlit ''clear''], RBound],
       ''may permanently delete stashed changes''),
      (rseq [git_words [''branch''], rplus rspace,
             ralt [RSeq (rlit ''-D'') rspace, rseq [rlit ''--delete'', rplus rspace, rlit ''--force''],
                   rseq [rlit ''--force'', rplus rspace, rlit ''--delete'']]],
       ''may force-delete a branch''),
      (RAlt (rseq [line_start, rlit ''rm'', rplus rspace, rlit ''-'', letters, one_of ''rR'', letters, rlit ''f''])
            (rseq [line_start, rlit ''rm'', rplus rspace, rlit ''-'', letters, rlit ''f'', letters, one_of ''rR'']),
       ''may recursively force-remove files''),
      (rseq [line_start, rlit ''rm'', rplus rspace, rlit ''-'', letters, one_of ''rR''],
       ''may recursively remove files''),
      (rseq [RBound, ralt [rlit_ci ''DROP'', rlit_ci ''TRUNCATE''], rplus rspace,
             ralt [rlit_ci ''TABLE'', rlit_ci ''DATABASE'', rlit_ci ''SCHEMA''], RBound],
       ''may drop or truncate database objects''),
      (rseq [RBound, rlit_ci ''DELETE'', rplus rspace, rlit_ci ''FROM'', rplus rspace, rplus (RChar is_word_char), RStar rspace,
             RAlt (RChar (\<lambda>c. c \<in> {CHR '';'', CHR 0x22, CHR 0x27, CHR 0x0A})) REnd],
       ''may delete all rows from a table''),
      (rseq [RBound, rlit ''kubectl'', rplus rspace, rlit ''delete'', RBound], ''may delete Kubernetes resources''),
      (rseq [RBound, rlit ''terraform'', rplus rspace, rlit ''destroy'', RBound], ''may destroy infrastructure'')]"

section \<open>Bash: classification\<close>

definition argv_head :: "string \<Rightarrow> string option" where
  "argv_head command = (case shlex_split command of Inr (t # ts) \<Rightarrow> Some t | _ \<Rightarrow> None)"

text \<open>\<open>str.split()\<close>: the maximal runs of characters that are not white space.\<close>

fun py_split_ws :: "string \<Rightarrow> string \<Rightarrow> string list" where
  "py_split_ws cur [] = (if cur = [] then [] else [cur])"
| "py_split_ws cur (c # s) =
     (if py_isspace c then (if cur = [] then py_split_ws [] s else cur # py_split_ws [] s)
      else py_split_ws (cur @ [c]) s)"

definition compound_operator :: regex where
  "compound_operator =
     rseq [RStar rspace, ralt [rlit ''&&'', rlit ''||'', one_of '';|''], RStar rspace]"

definition extract_commands :: "string \<Rightarrow> string list" where
  "extract_commands command =
     filter (\<lambda>p. p \<noteq> []) (map py_strip (re_split compound_operator (py_strip command)))"

definition base_command :: "string \<Rightarrow> string \<times> string option" where
  "base_command fragment =
     (case py_split_ws [] fragment of
        [] \<Rightarrow> ([], None)
      | [head] \<Rightarrow> (head, None)
      | head # sub # ts \<Rightarrow> if head = ''git'' then (head, Some sub) else (head, None))"

fun fragments_safe :: "string list \<Rightarrow> string list \<Rightarrow> bool" where
  "fragments_safe safe [] = True"
| "fragments_safe safe (f # fs) =
     (let (head, git_sub) = base_command f
      in if head = [] then False
         else if head = ''git''
         then (case git_sub of
                 None \<Rightarrow> False
               | Some sub \<Rightarrow> if sub \<notin> set GIT_READ_ONLY then False else fragments_safe safe fs)
         else if head \<in> set safe then fragments_safe safe fs
         else False)"

definition is_compound_safe :: "string \<Rightarrow> string list \<Rightarrow> bool" where
  "is_compound_safe command extra =
     (let fragments = extract_commands command
      in if fragments = [] then False else fragments_safe (COMPOUND_SAFE_COMMANDS @ extra) fragments)"

definition bash_default_risk :: "string list \<Rightarrow> tool_input \<Rightarrow> permission_suggestion" where
  "bash_default_risk extra inp =
     (case map_of inp ''command'' of
        Some (JStr command) \<Rightarrow>
          if py_strip command = [] then suggest Medium DAsk ''empty command''
          else (case matches_any DANGEROUS_PATTERNS command of
            Some (src, r) \<Rightarrow> suggest High DDeny (dangerous_reason src)
          | None \<Rightarrow>
              if py_contains ''$('' command \<or> py_contains ''`'' command
              then suggest Medium DAsk ''sub-shell needs review''
              else if list_ex (\<lambda>t. py_contains t command) [''&&'', ''||'', ''|'', '';'']
              then (if is_compound_safe command extra
                    then suggest Low DAllow ''all sub-commands in read-only list''
                    else suggest Medium DAsk ''compound command needs review'')
              else (case argv_head command of
                      None \<Rightarrow> suggest Medium DAsk ''could not parse argv''
                    | Some head \<Rightarrow>
                        if head \<in> set (ALLOWLIST_SAFE_COMMANDS @ extra)
                        then suggest Low DAllow (''safe allowlist: '' @ py_repr_str head)
                        else suggest Medium DAsk (''unclassified command: '' @ py_repr_str head)))
      | _ \<Rightarrow> suggest Medium DAsk ''empty command'')"

definition bash_is_read_only_call :: "string list \<Rightarrow> tool_input \<Rightarrow> bool" where
  "bash_is_read_only_call extra inp \<longleftrightarrow>
     sg_risk (bash_default_risk extra inp) = Low \<and> sg_default_decision (bash_default_risk extra inp) = DAllow"

text \<open>\<open>prepare_permission_matcher\<close>: a prefix rule, a wildcard or the exact command.\<close>

definition prefix_rule :: "string \<Rightarrow> string \<Rightarrow> bool" where
  "prefix_rule command prefix_text \<longleftrightarrow> command = prefix_text \<or> py_startswith command (prefix_text @ '' '')"

definition bash_matcher :: "string \<Rightarrow> string \<Rightarrow> bool" where
  "bash_matcher command pattern =
     (if py_endswith pattern '':*'' then prefix_rule command (py_rstrip (take (length pattern - 2) pattern))
      else if CHR ''*'' \<in> set pattern \<or> CHR ''?'' \<in> set pattern then fnmatch pattern command
      else command = pattern)"

definition bash_is_destructive :: "(int \<Rightarrow> int \<Rightarrow> string) \<Rightarrow> tool_input \<Rightarrow> bool" where
  "bash_is_destructive fl inp \<longleftrightarrow> matches_any DANGEROUS_PATTERNS (command_str fl inp) \<noteq> None"

definition bash_destructive_warning :: "(int \<Rightarrow> int \<Rightarrow> string) \<Rightarrow> tool_input \<Rightarrow> string option" where
  "bash_destructive_warning fl inp =
     (let warnings = map snd (filter (\<lambda>(r, m). re_search r (command_str fl inp) \<noteq> None) DESTRUCTIVE_WARNINGS)
      in if warnings = [] then None else Some (py_join ''; '' warnings))"

definition shell_validate_input :: "tool_input \<Rightarrow> unit py" where
  "shell_validate_input inp =
     (case map_of inp ''command'' of
        Some (JStr command) \<Rightarrow>
          if py_strip command = [] then Inl (PyExn ''command must be a non-empty string'')
          else if 32000 < length command then Inl (PyExn ''command exceeds 32,000 character limit'')
          else Inr ()
      | _ \<Rightarrow> Inl (PyExn ''command must be a non-empty string''))"

text \<open>The tool as the authorizer sees it.\<close>

definition bash_tool :: "(int \<Rightarrow> int \<Rightarrow> string) \<Rightarrow> string list \<Rightarrow> tool" where
  "bash_tool fl extra =
     \<lparr>t_name = ''Bash'', t_aliases = [], t_kind = KExecute,
      prepare_permission_matcher = (\<lambda>inp. Inr (\<lambda>p. Inr (bash_matcher (command_str fl inp) p))),
      default_risk = (\<lambda>inp ctx. Inr (bash_default_risk extra inp)),
      is_destructive = (\<lambda>inp. Inr (bash_is_destructive fl inp)),
      is_read_only_call = (\<lambda>inp ctx. Inr (bash_is_read_only_call extra inp)),
      user_facing_name = (\<lambda>inp. Inr ''Bash''),
      activity_description = (\<lambda>inp. Inr None),
      destructive_warning = (\<lambda>inp. Inr (bash_destructive_warning fl inp))\<rparr>"

section \<open>The stall watchdog\<close>

text \<open>\<open>PROMPT_PATTERNS\<close> and \<open>_looks_like_prompt\<close>: whether the last line asks for an answer.\<close>

definition PROMPT_PATTERNS :: "regex list" where
  "PROMPT_PATTERNS =
     [rlit_ci ''(y/n)'', rlit_ci ''[y/n]'', rlit_ci ''(yes/no)'',
      rseq [RBound, ralt [rlit_ci ''Do you'', rlit_ci ''Would you'', rlit_ci ''Shall I'', rlit_ci ''Are you sure''], RBound,
            RStar rany, rlit ''?'', RStar rspace, REnd],
      rseq [rlit_ci ''Press '', ralt [rlit_ci ''any key'', rlit_ci ''Enter'']],
      rlit_ci ''Continue?'', rlit_ci ''Overwrite?'']"

definition looks_like_prompt :: "string \<Rightarrow> bool" where
  "looks_like_prompt tail_text =
     (let last_line = rev (takeWhile (\<lambda>c. c \<noteq> CHR 0x0A) (rev (py_rstrip tail_text)))
      in list_ex (\<lambda>p. re_search p last_line \<noteq> None) PROMPT_PATTERNS)"

end
