(* ===== verification/Windows_Shells.thy ===== *)
theory Windows_Shells
  imports Shell_Tools
begin

text \<open>
  The shell tools of Windows: \<open>PowerShellTool\<close> (\<open>tools/builtin/powershell.py\<close>) and \<open>CmdTool\<close>
  (\<open>tools/builtin/cmd.py\<close>).
\<close>

section \<open>PowerShell\<close>

definition ALLOWLIST_SAFE_CMDLETS :: "string list" where
  "ALLOWLIST_SAFE_CMDLETS =
     [''get-childitem'', ''get-location'', ''get-content'', ''get-item'', ''get-itemproperty'', ''select-string'',
      ''test-path'', ''resolve-path'', ''get-date'', ''get-host'', ''get-process'', ''get-service'', ''get-filehash'',
      ''get-acl'', ''measure-object'', ''select-object'', ''where-object'', ''format-table'', ''format-list'',
      ''format-hex'', ''out-string'', ''write-output'', ''write-host'', ''get-command'', ''get-help'', ''get-module'',
      ''get-alias'', ''ls'', ''dir'', ''cat'', ''type'', ''pwd'', ''echo'',
      ''git'', ''python'', ''python3'', ''uv'', ''node'', ''npm'', ''pnpm'', ''cargo'', ''go'', ''make'', ''pytest'', ''ruff'',
      ''mypy'', ''tsc'', ''yarn'']"

definition slashes :: regex where
  "slashes = RChar (\<lambda>c. c \<in> {CHR ''/'', CHR 0x5C})"

definition POWERSHELL_DANGEROUS_PATTERNS :: "(string \<times> regex) list" where
  "POWERSHELL_DANGEROUS_PATTERNS =
     [(pattern_text ''%bInvoke-Expression%b'', rword_ci ''Invoke-Expression''),
      (pattern_text ''%biex%b'', rword_ci ''iex''),
      (pattern_text ''%bStart-Process%b.*-Verb%s+RunAs'',
       rseq [rword_ci ''Start-Process'', RStar rany, rlit_ci ''-Verb'', rplus rspace, rlit_ci ''RunAs'']),
      (pattern_text ''%bNew-Object%s+.*Net%.WebClient%b'',
       rseq [RBound, rlit_ci ''New-Object'', rplus rspace, RStar rany, rlit_ci ''Net.WebClient'', RBound]),
      (pattern_text ''%bInvoke-WebRequest%b.*%|%s*Invoke-Expression'',
       rseq [rword_ci ''Invoke-WebRequest'', RStar rany, rlit ''|'', RStar rspace, rlit_ci ''Invoke-Expression'']),
      (pattern_text ''%bInvoke-RestMethod%b.*%|%s*iex%b'',
       rseq [rword_ci ''Invoke-RestMethod'', RStar rany, rlit ''|'', RStar rspace, rlit_ci ''iex'', RBound]),
      (pattern_text ''%bRemove-Item%s+.*-Recurse%b.*[/%%]'',
       rseq [RBound, rlit_ci ''Remove-Item'', rplus rspace, RStar rany, rlit_ci ''-Recurse'', RBound, RStar rany, slashes]),
      (pattern_text ''%bFormat-Volume%b'', rword_ci ''Format-Volume''),
      (pattern_text ''%bClear-Disk%b'', rword_ci ''Clear-Disk''),
      (pattern_text ''%bStop-Computer%b'', rword_ci ''Stop-Computer''),
      (pattern_text ''%bRestart-Computer%b'', rword_ci ''Restart-Computer''),
      (pattern_text ''%bSet-ExecutionPolicy%s+Unrestricted%b'',
       rseq [RBound, rlit_ci ''Set-ExecutionPolicy'', rplus rspace, rlit_ci ''Unrestricted'', RBound]),
      (pattern_text ''-ExecutionPolicy%s+Bypass%b'',
       rseq [rlit_ci ''-ExecutionPolicy'', rplus rspace, rlit_ci ''Bypass'', RBound]),
      (pattern_text ''%bgit%s+push%s+.*--force%b'', git_push_force),
      (pattern_text ''%bgit%s+push%s+.*-f%b(?!orce-with-lease)'', git_push_f)]"

definition POWERSHELL_COMPOUND_TOKENS :: "string list" where
  "POWERSHELL_COMPOUND_TOKENS = ['';'', ''|'', ''&&'', ''||'', ''$('', ''`'']"

text \<open>\<open>str.split(None, 2)\<close>, of which only the first two parts are used.\<close>

definition cmdlet_head :: "string \<Rightarrow> string option" where
  "cmdlet_head command =
     (case py_split_ws [] command of
        [] \<Rightarrow> None
      | tok # toks \<Rightarrow>
          let first = (if tok = ''&'' \<and> toks \<noteq> [] then hd toks else tok);
              bare = (if py_startswith first [CHR ''.'', CHR 0x5C] \<or> py_startswith first ''./'' then drop 2 first else first)
          in if bare \<noteq> [] then Some (py_lower bare) else None)"

definition powershell_default_risk :: "tool_input \<Rightarrow> permission_suggestion" where
  "powershell_default_risk inp =
     (case map_of inp ''command'' of
        Some (JStr command) \<Rightarrow>
          if py_strip command = [] then suggest Medium DAsk ''empty command''
          else (case matches_any POWERSHELL_DANGEROUS_PATTERNS command of
            Some (src, r) \<Rightarrow> suggest High DDeny (dangerous_reason src)
          | None \<Rightarrow>
              if list_ex (\<lambda>t. py_contains t command) POWERSHELL_COMPOUND_TOKENS
              then suggest Medium DAsk ''compound command needs review''
              else (case cmdlet_head command of
                      None \<Rightarrow> suggest Medium DAsk ''could not parse cmdlet''
                    | Some head \<Rightarrow>
                        if head \<in> set ALLOWLIST_SAFE_CMDLETS
                        then suggest Low DAllow (''safe allowlist: '' @ py_repr_str head)
                        else suggest Medium DAsk (''unclassified cmdlet: '' @ py_repr_str head)))
      | _ \<Rightarrow> suggest Medium DAsk ''empty command'')"

definition powershell_is_read_only_call :: "tool_input \<Rightarrow> bool" where
  "powershell_is_read_only_call inp \<longleftrightarrow>
     sg_risk (powershell_default_risk inp) = Low \<and> sg_default_decision (powershell_default_risk inp) = DAllow"

text \<open>The matcher of both tools: \<open>command\<close> is lower case already.\<close>

definition lower_matcher :: "string \<Rightarrow> string \<Rightarrow> bool" where
  "lower_matcher command pattern =
     (if py_endswith pattern '':*''
      then prefix_rule command (py_lower (py_rstrip (take (length pattern - 2) pattern)))
      else command = py_lower pattern)"

definition powershell_is_destructive :: "(int \<Rightarrow> int \<Rightarrow> string) \<Rightarrow> tool_input \<Rightarrow> bool" where
  "powershell_is_destructive fl inp \<longleftrightarrow> matches_any POWERSHELL_DANGEROUS_PATTERNS (command_str fl inp) \<noteq> None"

definition powershell_tool :: "(int \<Rightarrow> int \<Rightarrow> string) \<Rightarrow> tool" where
  "powershell_tool fl =
     \<lparr>t_name = ''PowerShell'', t_aliases = [''Bash''], t_kind = KExecute,
      prepare_permission_matcher = (\<lambda>inp. Inr (\<lambda>p. Inr (lower_matcher (py_lower (command_str fl inp)) p))),
      default_risk = (\<lambda>inp ctx. Inr (powershell_default_risk inp)),
      is_destructive = (\<lambda>inp. Inr (powershell_is_destructive fl inp)),
      is_read_only_call = (\<lambda>inp ctx. Inr (powershell_is_read_only_call inp)),
      user_facing_name = (\<lambda>inp. Inr ''PowerShell''),
      activity_description = (\<lambda>inp. Inr None),
      destructive_warning = (\<lambda>inp. Inr None)\<rparr>"

section \<open>cmd.exe\<close>

definition CMD_SAFE_COMMANDS :: "string list" where
  "CMD_SAFE_COMMANDS =
     [''cd'', ''dir'', ''echo'', ''set'', ''type'', ''ver'', ''vol'', ''where'', ''whoami'', ''git'', ''python'', ''py'', ''node'',
      ''npm'', ''pnpm'', ''yarn'']"

definition git_push_ci :: "string \<Rightarrow> regex list \<Rightarrow> regex" where
  "git_push_ci flag after =
     rseq ([RBound, rlit_ci ''git'', rplus rspace, rlit_ci ''push'', rplus rspace, RStar rany, rlit_ci flag, RBound] @ after)"

definition CMD_DANGEROUS_PATTERNS :: "(string \<times> regex) list" where
  "CMD_DANGEROUS_PATTERNS =
     [(pattern_text ''%b(del|erase)%s+.*[/%%]'',
       rseq [RBound, ralt [rlit_ci ''del'', rlit_ci ''erase''], rplus rspace, RStar rany, slashes]),
      (pattern_text ''%b(rmdir|rd)%s+(/s|/q)'',
       rseq [RBound, ralt [rlit_ci ''rmdir'', rlit_ci ''rd''], rplus rspace, ralt [rlit_ci ''/s'', rlit_ci ''/q'']]),
      (pattern_text ''%bformat%s+[a-z]:'',
       rseq [RBound, rlit_ci ''format'', rplus rspace, one_of_ci ''abcdefghijklmnopqrstuvwxyz'', rlit '':'']),
      (pattern_text ''%bdiskpart%b'', rword_ci ''diskpart''),
      (pattern_text ''%bshutdown%b'', rword_ci ''shutdown''),
      (pattern_text ''%breg%s+delete%b'', rseq [RBound, rlit_ci ''reg'', rplus rspace, rlit_ci ''delete'', RBound]),
      (pattern_text ''%bgit%s+push%s+.*--force%b'', git_push_ci ''--force'' []),
      (pattern_text ''%bgit%s+push%s+.*-f%b(?!orce-with-lease)'',
       git_push_ci ''-f'' [RNegAhead (rlit_ci ''orce-with-lease'')])]"

definition CMD_COMPOUND_TOKENS :: "string list" where
  "CMD_COMPOUND_TOKENS = [''&'', ''&&'', ''||'', ''|'', ''>'']"

definition cmd_default_risk :: "(int \<Rightarrow> int \<Rightarrow> string) \<Rightarrow> tool_input \<Rightarrow> permission_suggestion" where
  "cmd_default_risk fl inp =
     (let command = command_str fl inp
      in if py_strip command = [] then suggest Medium DAsk ''empty command''
         else case matches_any CMD_DANGEROUS_PATTERNS command of
           Some (src, r) \<Rightarrow> suggest High DDeny (dangerous_reason src)
         | None \<Rightarrow>
             if list_ex (\<lambda>t. py_contains t command) CMD_COMPOUND_TOKENS
             then suggest Medium DAsk ''compound command needs review''
             else let head = py_lower (hd (py_split_ws [] command))
                  in if head \<in> set CMD_SAFE_COMMANDS
                     then suggest Low DAllow (''safe allowlist: '' @ py_repr_str head)
                     else suggest Medium DAsk (''unclassified command: '' @ py_repr_str head))"

definition cmd_is_read_only_call :: "(int \<Rightarrow> int \<Rightarrow> string) \<Rightarrow> tool_input \<Rightarrow> bool" where
  "cmd_is_read_only_call fl inp \<longleftrightarrow>
     sg_risk (cmd_default_risk fl inp) = Low \<and> sg_default_decision (cmd_default_risk fl inp) = DAllow"

definition cmd_is_destructive :: "(int \<Rightarrow> int \<Rightarrow> string) \<Rightarrow> tool_input \<Rightarrow> bool" where
  "cmd_is_destructive fl inp \<longleftrightarrow> matches_any CMD_DANGEROUS_PATTERNS (command_str fl inp) \<noteq> None"

definition cmd_tool :: "(int \<Rightarrow> int \<Rightarrow> string) \<Rightarrow> tool" where
  "cmd_tool fl =
     \<lparr>t_name = ''Cmd'', t_aliases = [''Bash'', ''PowerShell''], t_kind = KExecute,
      prepare_permission_matcher = (\<lambda>inp. Inr (\<lambda>p. Inr (lower_matcher (py_lower (command_str fl inp)) p))),
      default_risk = (\<lambda>inp ctx. Inr (cmd_default_risk fl inp)),
      is_destructive = (\<lambda>inp. Inr (cmd_is_destructive fl inp)),
      is_read_only_call = (\<lambda>inp ctx. Inr (cmd_is_read_only_call fl inp)),
      user_facing_name = (\<lambda>inp. Inr ''Cmd''),
      activity_description = (\<lambda>inp. Inr None),
      destructive_warning = (\<lambda>inp. Inr None)\<rparr>"

end
