(* ===== verification/Shell_Safety.thy ===== *)
theory Shell_Safety
  imports Windows_Shells Authorizer
begin

text \<open>
  What the classification of shell commands guarantees: the regular expression that splits a compound
  command against a direct reading of its operators, exactly which commands are allowed without a
  question, that dangerous commands are never allowed by the tool's own suggestion, and where the
  classification looks at less than the shell executes.
\<close>

section \<open>Splitting at operators\<close>

text \<open>The length of the operator a text starts with.\<close>

fun op_len :: "string \<Rightarrow> nat" where
  "op_len [] = 0"
| "op_len (c # s) =
     (if c = CHR ''&'' \<and> s \<noteq> [] \<and> hd s = CHR ''&'' then 2
      else if c = CHR ''|'' \<and> s \<noteq> [] \<and> hd s = CHR ''|'' then 2
      else if c = CHR '';'' \<or> c = CHR ''|'' then 1 else 0)"

text \<open>The pieces of a command between its operators, from left to right.\<close>

function operator_pieces :: "string \<Rightarrow> string \<Rightarrow> string list" where
  "operator_pieces cur [] = [cur]"
| "operator_pieces cur (c # s) =
     (if op_len (c # s) = 0 then operator_pieces (cur @ [c]) s
      else cur # operator_pieces [] (drop (op_len (c # s)) (c # s)))"
  by pat_completeness auto
termination
  by (relation "measure (\<lambda>(cur, s). length s)") auto

declare operator_pieces.simps(2) [simp del]

definition trimmed_pieces :: "string \<Rightarrow> string list" where
  "trimmed_pieces s = filter (\<lambda>p. p \<noteq> []) (map py_strip (operator_pieces [] s))"

subsection \<open>One match of the operator pattern\<close>

text \<open>Every result of a star over a class has consumed characters of the class.\<close>

lemma rmatch_star_run:
  "s' \<in> set (rmatch (RStar (RChar p)) s) \<Longrightarrow> \<exists>run. rest s = run @ rest s' \<and> list_all p run"
proof (induction "length (rest s)" arbitrary: s rule: less_induct)
  case less
  show ?case
  proof (cases "s' = s")
    case True
    then show ?thesis by (intro exI [of _ "[]"]) simp
  next
    case False
    with less.prems obtain s1 where s1: "s1 \<in> set (rmatch (RChar p) s)" "length (rest s1) < length (rest s)"
        "s' \<in> set (rmatch (RStar (RChar p)) s1)"
      by (auto simp: rmatch.simps(5) [of _ s] split: if_splits)
    from s1(1) obtain c cs where c: "rest s = c # cs" "p c" "rest s1 = cs"
      by (cases "rest s") (auto split: if_splits)
    from less.hyps [OF s1(2,3)] obtain run where "rest s1 = run @ rest s'" "list_all p run" by blast
    with c show ?thesis by (intro exI [of _ "c # run"]) simp
  qed
qed

abbreviation operator_alternatives :: regex where
  "operator_alternatives \<equiv> ralt [rlit ''&&'', rlit ''||'', one_of '';|'']"

lemma rmatch_two:
  "rmatch (rlit [a, b]) s = (case rest s of c # d # u \<Rightarrow> if c = a \<and> d = b then [s\<lparr>prev := Some d, rest := u\<rparr>] else [] | _ \<Rightarrow> [])"
  by (auto simp: rlit_def split: list.split)

lemma operator_alternatives_match:
  "rmatch operator_alternatives s = [] \<longleftrightarrow> op_len (rest s) = 0"
  "op_len (rest s) \<noteq> 0 \<Longrightarrow> \<exists>m ms. rmatch operator_alternatives s = m # ms \<and> rest m = drop (op_len (rest s)) (rest s)"
proof -
  have alt: "rmatch operator_alternatives s = rmatch (rlit ''&&'') s @ rmatch (rlit ''||'') s @ rmatch (one_of '';|'') s"
    by (simp del: rmatch_rseq_Cons)
  have one: "rmatch (one_of '';|'') s = (case rest s of c # u \<Rightarrow> if c = CHR '';'' \<or> c = CHR ''|'' then [s\<lparr>prev := Some c, rest := u\<rparr>] else []
      | [] \<Rightarrow> [])"
    by (simp add: one_of_def split: list.split)
  show "rmatch operator_alternatives s = [] \<longleftrightarrow> op_len (rest s) = 0"
    unfolding alt one rmatch_two by (auto split: list.split)
  assume "op_len (rest s) \<noteq> 0"
  then show "\<exists>m ms. rmatch operator_alternatives s = m # ms \<and> rest m = drop (op_len (rest s)) (rest s)"
    unfolding alt one rmatch_two by (auto split: list.split if_splits)
qed

lemma op_len_space: "py_isspace c \<Longrightarrow> op_len (c # s) = 0"
  by (auto simp: py_isspace_def Let_def)

lemma operator_match:
  fixes s :: match_state
  defines "t \<equiv> dropWhile py_isspace (rest s)"
  shows "op_len t = 0 \<Longrightarrow> rmatch compound_operator s = []"
    and "op_len t \<noteq> 0 \<Longrightarrow> \<exists>m ms. rmatch compound_operator s = m # ms \<and> rest m = dropWhile py_isspace (drop (op_len t) t)"
proof -
  have run: "list_all py_isspace run \<Longrightarrow> dropWhile py_isspace (run @ u) = dropWhile py_isspace u" for run u
    by (induction run) auto
  have alts: "rmatch operator_alternatives s' = []" if "s' \<in> set (rmatch (RStar rspace) s)" "op_len t = 0" for s'
  proof -
    from rmatch_star_run that(1) obtain run where r: "rest s = run @ rest s'" "list_all py_isspace run"
      unfolding rspace_def by blast
    have "op_len (rest s') = 0"
    proof (cases "rest s' = [] \<or> \<not> py_isspace (hd (rest s'))")
      case True
      then have "dropWhile py_isspace (rest s') = rest s'" by (cases "rest s'") auto
      with r(1) run [OF r(2), of "rest s'"] have "t = rest s'" by (simp add: t_def)
      with that(2) show ?thesis by simp
    next
      case False
      then show ?thesis using op_len_space by (cases "rest s'") auto
    qed
    then show ?thesis by (simp only: operator_alternatives_match)
  qed
  show "op_len t = 0 \<Longrightarrow> rmatch compound_operator s = []"
  proof -
    assume "op_len t = 0"
    with alts have "rmatch operator_alternatives s' = []" if "s' \<in> set (rmatch (RStar rspace) s)" for s' using that by blast
    then show ?thesis unfolding compound_operator_def rmatch_rseq_Cons by (simp del: ralt.simps)
  qed
  assume op: "op_len t \<noteq> 0"
  have spaces: "list_all py_isspace (takeWhile py_isspace u)" for u
    by (auto simp: list_all_iff dest: set_takeWhileD)
  have stop: "dropWhile py_isspace u = [] \<or> \<not> py_isspace (hd (dropWhile py_isspace u))" for u
    using hd_dropWhile by blast
  have split: "rest s = takeWhile py_isspace (rest s) @ t" by (simp add: t_def)
  have "\<exists>ms. rmatch (RStar rspace) s = s\<lparr>prev := (if takeWhile py_isspace (rest s) = [] then prev s
      else Some (last (takeWhile py_isspace (rest s)))), rest := t\<rparr> # ms"
    unfolding rspace_def
    by (rule rmatch_star_greedy [OF split spaces stop [of "rest s", folded t_def]])
  then obtain m1 ms1 where m1: "rmatch (RStar rspace) s = m1 # ms1" "rest m1 = t" by fastforce
  with op operator_alternatives_match(2) [of m1] obtain m2 ms2 where
    m2: "rmatch operator_alternatives m1 = m2 # ms2" "rest m2 = drop (op_len t) t" by auto
  let ?r = "takeWhile py_isspace (rest m2)" and ?u = "dropWhile py_isspace (rest m2)"
  have "\<exists>ms. rmatch (RStar rspace) m2 = m2\<lparr>prev := (if ?r = [] then prev m2 else Some (last ?r)), rest := ?u\<rparr> # ms"
    unfolding rspace_def
    by (rule rmatch_star_greedy [OF _ spaces stop]) simp
  then obtain m3 ms3 where m3: "rmatch (RStar rspace) m2 = m3 # ms3" "rest m3 = ?u" by fastforce
  show "\<exists>m ms. rmatch compound_operator s = m # ms \<and> rest m = dropWhile py_isspace (drop (op_len t) t)"
    unfolding compound_operator_def rmatch_rseq_Cons using m1 m2 m3 by (simp del: ralt.simps)
qed

subsection \<open>The whole split\<close>

text \<open>No operator starts inside \<open>pre\<close>, when \<open>post\<close> follows it.\<close>

fun op_free :: "string \<Rightarrow> string \<Rightarrow> bool" where
  "op_free [] post = True"
| "op_free (c # pre) post = (op_len (c # pre @ post) = 0 \<and> op_free pre post)"

lemma pieces_op_free: "op_free pre post \<Longrightarrow> operator_pieces cur (pre @ post) = operator_pieces (cur @ pre) post"
  by (induction pre arbitrary: cur) (simp_all add: operator_pieces.simps(2))

lemma op_free_append: "op_free (xs @ ys) post \<longleftrightarrow> op_free xs (ys @ post) \<and> op_free ys post"
  by (induction xs) auto

lemma op_free_spaces: "list_all py_isspace ws \<Longrightarrow> op_free ws post"
  by (induction ws) (simp_all add: op_len_space del: op_len.simps)

lemma op_free_dropWhile:
  "op_free (takeWhile py_isspace u) (dropWhile py_isspace u)"
  by (rule op_free_spaces) (auto simp: list_all_iff dest: set_takeWhileD)

lemma find_operator_None: "find_from compound_operator p s = None \<Longrightarrow> op_free s []"
proof (induction s arbitrary: p)
  case (Cons c s)
  have "rmatch compound_operator \<lparr>prev = p, rest = c # s, groups = []\<rparr> = []"
    and f: "find_from compound_operator (Some c) s = None"
    using Cons.prems by (auto split: list.splits)
  with operator_match(2) [of "\<lparr>prev = p, rest = c # s, groups = []\<rparr>"]
  have d: "op_len (dropWhile py_isspace (c # s)) = 0" by fastforce
  have "op_len (c # s) = 0"
  proof (cases "py_isspace c")
    case True
    then show ?thesis by (rule op_len_space)
  next
    case False
    with d show ?thesis by (simp del: op_len.simps)
  qed
  with Cons.IH [OF f] show ?case by (simp del: op_len.simps)
qed simp

lemma find_operator_Some:
  "find_from compound_operator p s = Some (pre, m) \<Longrightarrow>
     \<exists>ws t. s = pre @ ws @ t \<and> list_all py_isspace ws \<and> op_free (pre @ ws) t \<and> op_len t \<noteq> 0
       \<and> rest m = dropWhile py_isspace (drop (op_len t) t)"
proof (induction s arbitrary: p pre)
  case Nil
  have "rmatch compound_operator \<lparr>prev = p, rest = [], groups = []\<rparr> = []"
    by (rule operator_match(1)) simp
  with Nil show ?case by simp
next
  case (Cons c s)
  let ?s = "\<lparr>prev = p, rest = c # s, groups = []\<rparr>"
  let ?t = "dropWhile py_isspace (c # s)" and ?ws = "takeWhile py_isspace (c # s)"
  show ?case
  proof (cases "op_len ?t = 0")
    case True
    with operator_match(1) [of ?s] have none: "rmatch compound_operator ?s = []" by (simp del: op_len.simps)
    with Cons.prems obtain pre' where pre': "find_from compound_operator (Some c) s = Some (pre', m)" "pre = c # pre'"
      by auto
    from Cons.IH [OF pre'(1)] obtain ws t where ih: "s = pre' @ ws @ t" "list_all py_isspace ws" "op_free (pre' @ ws) t"
        "op_len t \<noteq> 0" "rest m = dropWhile py_isspace (drop (op_len t) t)" by blast
    have "op_len (c # s) = 0"
      by (cases "py_isspace c") (use True op_len_space in \<open>auto simp del: op_len.simps\<close>)
    with ih pre'(2) show ?thesis by (intro exI [of _ ws] exI [of _ t]) (simp del: op_len.simps)
  next
    case False
    with operator_match(2) [of ?s] obtain m' ms where "rmatch compound_operator ?s = m' # ms"
        "rest m' = dropWhile py_isspace (drop (op_len ?t) ?t)" by auto
    moreover from this have pre: "pre = []" "m' = m" using Cons.prems by auto
    ultimately have m: "rest m = dropWhile py_isspace (drop (op_len ?t) ?t)" by simp
    have "c # s = ?ws @ ?t" by (rule takeWhile_dropWhile_id [symmetric])
    moreover have "list_all py_isspace ?ws" by (auto simp: list_all_iff dest: set_takeWhileD)
    moreover note op_free_dropWhile [of "c # s"]
    ultimately show ?thesis using False m unfolding pre append_Nil by blast
  qed
qed

text \<open>White space around a piece does not matter.\<close>

lemma py_strip_snoc_spaces: "list_all py_isspace ws \<Longrightarrow> py_strip (s @ ws) = py_strip s"
proof (induction ws rule: rev_induct)
  case (snoc c ws)
  have "py_strip (u @ [c]) = py_strip u" if "py_isspace c" for u
  proof (cases "dropWhile py_isspace u = []")
    case True
    with that have "dropWhile py_isspace (u @ [c]) = []" by (simp add: dropWhile_eq_Nil_conv)
    then show ?thesis unfolding py_strip_def py_lstrip_def True by simp
  next
    case False
    then have "dropWhile py_isspace (u @ [c]) = dropWhile py_isspace u @ [c]"
      by (induction u) auto
    with that show ?thesis by (simp add: py_strip_def py_lstrip_def py_rstrip_def)
  qed
  with snoc show ?case by (simp add: list_all_iff flip: append_assoc)
qed simp

lemma py_strip_Cons_space: "py_isspace c \<Longrightarrow> py_strip (c # s) = py_strip s"
  by (simp add: py_strip_def py_lstrip_def)

lemma py_strip_spaces: "list_all py_isspace ws \<Longrightarrow> py_strip (ws @ s) = py_strip s"
  by (induction ws) (simp_all add: py_strip_Cons_space)

lemma pieces_spaces:
  "list_all py_isspace ws \<Longrightarrow> map py_strip (operator_pieces (ws @ cur) s) = map py_strip (operator_pieces cur s)"
proof (induction cur s rule: operator_pieces.induct)
  case (1 cur)
  then show ?case by (simp add: py_strip_spaces)
next
  case (2 cur c s)
  then show ?case
    by (cases "op_len (c # s) = 0") (simp_all add: operator_pieces.simps(2) py_strip_spaces del: op_len.simps)
qed

lemma takeWhile_spaces: "list_all py_isspace (takeWhile py_isspace u)"
  by (auto simp: list_all_iff dest: set_takeWhileD)

lemma split_pieces:
  "map py_strip (re_split_from compound_operator p s) = map py_strip (operator_pieces [] s)"
proof (induction "length s" arbitrary: p s rule: less_induct)
  case less
  show ?case
  proof (cases "find_from compound_operator p s")
    case None
    with find_operator_None have "op_free s []" by blast
    with pieces_op_free [of s "[]" "[]"] None show ?thesis by (simp add: re_split_from.simps [of _ p s])
  next
    case (Some pm)
    then obtain pre m where pm: "find_from compound_operator p s = Some (pre, m)" by (cases pm) auto
    from find_operator_Some [OF this] obtain ws t where s: "s = pre @ ws @ t" "list_all py_isspace ws"
        "op_free (pre @ ws) t" "op_len t \<noteq> 0" "rest m = dropWhile py_isspace (drop (op_len t) t)" by blast
    then obtain c u where t: "t = c # u" by (cases t) auto
    let ?rest = "drop (op_len t) t"
    have "length (rest m) \<le> length ?rest" unfolding s(5) by (rule length_dropWhile_le)
    also have "\<dots> < length s" using s(1,4) t by (simp del: op_len.simps)
    finally have shorter: "length (rest m) < length s" .
    have "map py_strip (operator_pieces [] s) = py_strip (pre @ ws) # map py_strip (operator_pieces [] ?rest)"
      using pieces_op_free [OF s(3), of "[]"] s(4) unfolding s(1) t
      by (simp add: operator_pieces.simps(2) del: op_len.simps)
    also have "operator_pieces [] ?rest = operator_pieces (takeWhile py_isspace ?rest) (rest m)"
      using pieces_op_free [OF op_free_dropWhile, of "[]" ?rest] unfolding s(5) append_Nil takeWhile_dropWhile_id .
    also have "map py_strip \<dots> = map py_strip (operator_pieces [] (rest m))"
      using pieces_spaces [OF takeWhile_spaces, of ?rest "[]" "rest m"] unfolding append_Nil2 .
    also have "\<dots> = map py_strip (re_split_from compound_operator (prev m) (rest m))"
      using less [OF shorter] by simp
    finally show ?thesis
      using pm shorter s(2) by (simp add: re_split_from.simps [of _ p s] py_strip_snoc_spaces del: op_len.simps)
  qed
qed

text \<open>The regular expression splits a command exactly at its operators.\<close>

lemma extract_commands_eq: "extract_commands command = trimmed_pieces (py_strip command)"
  by (simp add: extract_commands_def trimmed_pieces_def re_split_def split_pieces)

section \<open>Which commands run without a question\<close>

text \<open>
  A command has an operator when one starts at some position. A piece of a compound command is harmless
  by its first word, and for \<open>git\<close> by its second.
\<close>

definition piece_safe :: "string list \<Rightarrow> string \<Rightarrow> bool" where
  "piece_safe extra p =
     (case py_split_ws [] p of
        [] \<Rightarrow> False
      | w # ws \<Rightarrow>
          if w = ''git'' then ws \<noteq> [] \<and> hd ws \<in> set GIT_READ_ONLY
          else w \<in> set COMPOUND_SAFE_COMMANDS \<union> set extra)"

definition runs_unasked :: "string list \<Rightarrow> string \<Rightarrow> bool" where
  "runs_unasked extra command \<longleftrightarrow>
     (\<forall>(src, r) \<in> set DANGEROUS_PATTERNS. re_search r command = None) \<and>
     \<not> sublist ''$('' command \<and> CHR ''`'' \<notin> set command \<and>
     (if op_free command []
      then \<exists>w ws. shlex_split command = Inr (w # ws) \<and> w \<in> set ALLOWLIST_SAFE_COMMANDS \<union> set extra
      else trimmed_pieces (py_strip command) \<noteq> [] \<and> (\<forall>p \<in> set (trimmed_pieces (py_strip command)). piece_safe extra p))"

lemma op_len_positive:
  "op_len s \<noteq> 0 \<longleftrightarrow> prefix ''&&'' s \<or> prefix ''||'' s \<or> prefix ''|'' s \<or> prefix '';'' s"
proof (cases s)
  case (Cons c u)
  have two: "prefix [a, b] (c # u) \<longleftrightarrow> c = a \<and> u \<noteq> [] \<and> hd u = b" for a b by (cases u) auto
  have one: "prefix [a] (c # u) \<longleftrightarrow> c = a" for a by auto
  have ifs: "(if A then 2 else if B then 2 else if C then 1 else (0::nat)) \<noteq> 0 \<longleftrightarrow> A \<or> B \<or> C" for A B C by simp
  show ?thesis unfolding Cons op_len.simps(2) ifs two one by blast
qed simp

lemma sublist_Cons_prefix: "sublist t (c # s) \<longleftrightarrow> prefix t (c # s) \<or> sublist t s"
  by (simp add: sublist_Cons_right)

lemma op_free_operators:
  "op_free s [] \<longleftrightarrow> \<not> (sublist ''&&'' s \<or> sublist ''||'' s \<or> sublist ''|'' s \<or> sublist '';'' s)"
proof (induction s)
  case (Cons c s)
  have "op_free (c # s) [] \<longleftrightarrow> op_len (c # s) = 0 \<and> op_free s []" by (simp del: op_len.simps)
  moreover have "op_len (c # s) = 0 \<longleftrightarrow>
      \<not> (prefix ''&&'' (c # s) \<or> prefix ''||'' (c # s) \<or> prefix ''|'' (c # s) \<or> prefix '';'' (c # s))"
    using op_len_positive [of "c # s"] by argo
  moreover note Cons sublist_Cons_prefix [of "''&&''" c s] sublist_Cons_prefix [of "''||''" c s]
    sublist_Cons_prefix [of "''|''" c s] sublist_Cons_prefix [of "'';''" c s]
  ultimately show ?case by argo
qed simp

lemma compound_test:
  "list_ex (\<lambda>t. py_contains t command) [''&&'', ''||'', ''|'', '';''] \<longleftrightarrow> \<not> op_free command []"
  by (simp add: op_free_operators py_contains_sublist)

lemma sublist_single: "sublist [c] s \<longleftrightarrow> c \<in> set s"
  by (induction s) (auto simp: sublist_Cons_right)

lemma split_ws_words: "w \<in> set (py_split_ws cur s) \<Longrightarrow> w \<noteq> []"
  by (induction cur s rule: py_split_ws.induct) (auto split: if_splits)

lemma fragments_safe_pieces:
  "fragments_safe (COMPOUND_SAFE_COMMANDS @ extra) fs \<longleftrightarrow> (\<forall>p \<in> set fs. piece_safe extra p)"
proof (induction fs)
  case (Cons f fs)
  have "w \<noteq> []" if "py_split_ws [] f = w # ws" for w ws
    using split_ws_words [of w "[]" f] that by simp
  with Cons show ?case
    by (auto simp: piece_safe_def base_command_def Let_def split: list.splits)
qed simp

lemma is_compound_safe_pieces:
  "is_compound_safe command extra \<longleftrightarrow>
     trimmed_pieces (py_strip command) \<noteq> [] \<and> (\<forall>p \<in> set (trimmed_pieces (py_strip command)). piece_safe extra p)"
  by (simp add: is_compound_safe_def extract_commands_eq fragments_safe_pieces Let_def)

lemma matches_any_None: "matches_any ps s = None \<longleftrightarrow> (\<forall>(src, r) \<in> set ps. re_search r s = None)"
  by (auto simp: matches_any_def find_None_iff)

lemma argv_head_Some: "argv_head s = Some w \<longleftrightarrow> (\<exists>ws. shlex_split s = Inr (w # ws))"
  by (auto simp: argv_head_def split: sum.splits list.splits)

lemma suggest_simps [simp]:
  "sg_default_decision (suggest r d m) = d" "sg_risk (suggest r d m) = r" "sg_reason (suggest r d m) = m"
  by (simp_all add: suggest_def)

lemma risk_dangerous:
  "map_of inp ''command'' = Some (JStr command) \<Longrightarrow> py_strip command \<noteq> [] \<Longrightarrow>
   matches_any DANGEROUS_PATTERNS command = Some (src, r) \<Longrightarrow>
     bash_default_risk extra inp = suggest High DDeny (dangerous_reason src)"
  by (simp add: bash_default_risk_def)

lemma risk_subshell:
  "map_of inp ''command'' = Some (JStr command) \<Longrightarrow> py_strip command \<noteq> [] \<Longrightarrow>
   matches_any DANGEROUS_PATTERNS command = None \<Longrightarrow> sublist ''$('' command \<or> CHR ''`'' \<in> set command \<Longrightarrow>
     bash_default_risk extra inp = suggest Medium DAsk ''sub-shell needs review''"
  by (simp add: bash_default_risk_def py_contains_sublist sublist_single)

lemma risk_compound:
  "map_of inp ''command'' = Some (JStr command) \<Longrightarrow> py_strip command \<noteq> [] \<Longrightarrow>
   matches_any DANGEROUS_PATTERNS command = None \<Longrightarrow> \<not> sublist ''$('' command \<Longrightarrow> CHR ''`'' \<notin> set command \<Longrightarrow>
   \<not> op_free command [] \<Longrightarrow>
     bash_default_risk extra inp =
       (if is_compound_safe command extra then suggest Low DAllow ''all sub-commands in read-only list''
        else suggest Medium DAsk ''compound command needs review'')"
  unfolding compound_test [symmetric] by (simp add: bash_default_risk_def py_contains_sublist sublist_single)

lemma risk_simple:
  assumes "map_of inp ''command'' = Some (JStr command)" "py_strip command \<noteq> []"
    "matches_any DANGEROUS_PATTERNS command = None" "\<not> sublist ''$('' command" "CHR ''`'' \<notin> set command"
    "op_free command []"
  shows "bash_default_risk extra inp =
       (case argv_head command of
          None \<Rightarrow> suggest Medium DAsk ''could not parse argv''
        | Some head \<Rightarrow>
            if head \<in> set (ALLOWLIST_SAFE_COMMANDS @ extra)
            then suggest Low DAllow (''safe allowlist: '' @ py_repr_str head)
            else suggest Medium DAsk (''unclassified command: '' @ py_repr_str head))"
proof -
  have "\<not> list_ex (\<lambda>t. py_contains t command) [''&&'', ''||'', ''|'', '';'']" unfolding compound_test using assms(6) by simp
  with assms(1-5) show ?thesis
    by (simp add: bash_default_risk_def py_contains_sublist sublist_single split del: option.splits)
qed

lemma bash_tool_simps [simp]:
  "t_name (bash_tool fl extra) = ''Bash''" "t_aliases (bash_tool fl extra) = []"
  "t_kind (bash_tool fl extra) = KExecute"
  "default_risk (bash_tool fl extra) inp ctx = Inr (bash_default_risk extra inp)"
  "is_destructive (bash_tool fl extra) inp = Inr (bash_is_destructive fl inp)"
  "is_read_only_call (bash_tool fl extra) inp ctx = Inr (bash_is_read_only_call extra inp)"
  by (simp_all add: bash_tool_def)

lemma not_plan_write:
  "\<not> matches_name t ''Edit'' \<Longrightarrow> \<not> matches_name t ''Write'' \<Longrightarrow> \<not> fst (is_plan_file_write env t inp ctx slugs)"
  by (simp add: is_plan_file_write_def split: option.split)

lemma denied_by_suggestion:
  assumes "default_risk t inp ctx = Inr sg" "sg_default_decision sg = DDeny"
    and "is_read_only_call t inp ctx = Inr False"
    and "\<not> matches_name t ''Edit''" "\<not> matches_name t ''Write''" "t_kind t \<noteq> KEdit"
    and "mode ctx \<noteq> MBypass" "cache_check (e_signature env) (session_id ctx) t inp (a_grants a) = None"
  shows "\<exists>m reason. decision_of env t inp ctx a = PermissionDeny m reason"
proof -
  have "\<exists>m reason. d = PermissionDeny m reason" if "fst (authorize_rest env t inp ctx a) = Inr d" for d
  proof -
    from that assms(6,7) obtain outcome where o: "decide (snapshot (a_rules a)) t inp ctx = Inr outcome"
        "fst (apply_outcome env outcome t inp ctx a) = Inr d"
      by (auto simp: authorize_rest_def split: sum.splits if_splits)
    from decide_risk [OF o(1)] assms(1,2) have "sg_default_decision (suggestion outcome) = DDeny" by simp
    with o(2) show ?thesis by (auto simp: apply_outcome_def Let_def split: if_splits option.splits)
  qed
  moreover note not_plan_write [OF assms(4,5), of env inp ctx "a_slugs a"]
  ultimately show ?thesis using assms(3,8)
    by (auto simp: decision_of_eq authorize_impl_def Let_def split: sum.splits option.splits if_splits prod.splits)
qed

lemma allowed_by_suggestion:
  assumes "default_risk t inp ctx = Inr sg" "sg_default_decision sg = DAllow"
    and "is_read_only_call t inp ctx = Inr True" "is_destructive t inp = Inr d"
    and "snapshot (a_rules a) = []" "runtime_kill_denial (e_process env) t inp = None"
  shows "is_allow (decision_of env t inp ctx a)"
proof -
  have d: "decide [] t inp ctx =
      Inr \<lparr>matched_rule = None, rule_behavior = None, suggestion = sg, outcome_destructive = d\<rparr>"
    using assms(1,4) by (simp add: decide_def scan_init_def)
  have "\<exists>r. fst (authorize_rest env t inp ctx a) = Inr (PermissionAllow r)"
    using assms(2) by (auto simp: authorize_rest_def assms(5) d apply_outcome_def Let_def)
  with assms(3,6) show ?thesis
    by (auto simp: decision_of_eq authorize_impl_def split: option.splits)
qed

definition newline :: char where "newline = CHR 0x0A"

lemma allowlisted_words:
  "list_all (\<lambda>w. w \<noteq> [] \<and> list_all plain_char w \<and> \<not> py_isspace (hd w)) ALLOWLIST_SAFE_COMMANDS"
  by code_simp

lemma py_strip_starts: "w \<noteq> [] \<Longrightarrow> \<not> py_isspace (hd w) \<Longrightarrow> py_strip (w @ s) \<noteq> []"
  by (cases w) (auto simp: py_strip_def py_lstrip_def py_rstrip_def dropWhile_eq_Nil_conv)

section \<open>Properties\<close>

text \<open>
  C8. Which shell commands the Bash tool lets run with no question (\<open>default_risk\<close> suggests allow), stated
  without regular expressions for the operators, without the loop over fragments and without the order of the
  tests: exactly those that match no dangerous pattern, contain no command substitution, and either have no
  operator at any position and a first word (as \<open>shlex\<close> reads it) in the allowlist or the user's list, or
  have at least one non-blank piece between their operators, each starting with a read-only command or
  with \<open>git\<close> and a read-only subcommand.
\<close>

theorem bash_allow_exactly:
  assumes "map_of inp ''command'' = Some (JStr command)" "py_strip command \<noteq> []"
  shows "sg_default_decision (bash_default_risk extra inp) = DAllow \<longleftrightarrow> runs_unasked extra command"
proof (cases "matches_any DANGEROUS_PATTERNS command")
  case (Some p)
  then have "\<not> runs_unasked extra command" using matches_any_None [of DANGEROUS_PATTERNS command] by (auto simp: runs_unasked_def)
  with risk_dangerous [OF assms, of "fst p" "snd p"] Some show ?thesis by simp
next
  case None
  then have safe: "\<forall>(src, r) \<in> set DANGEROUS_PATTERNS. re_search r command = None" by (simp only: matches_any_None)
  show ?thesis
  proof (cases "sublist ''$('' command \<or> CHR ''`'' \<in> set command")
    case True
    with risk_subshell [OF assms None True] show ?thesis by (auto simp: runs_unasked_def)
  next
    case False
    then have f: "\<not> sublist ''$('' command" "CHR ''`'' \<notin> set command" by auto
    show ?thesis
    proof (cases "op_free command []")
      case True
      with risk_simple [OF assms None f True] safe f show ?thesis
        by (auto simp: runs_unasked_def argv_head_Some split: option.split) (auto simp: argv_head_def)
    next
      case False
      with risk_compound [OF assms None f False] safe f show ?thesis
        by (simp add: runs_unasked_def is_compound_safe_pieces)
    qed
  qed
qed

theorem bash_allow_exactly_witness:
  "sg_default_decision (bash_default_risk [] [(''command'', JStr ''cat a.txt | grep b && git log'')]) = DAllow
   \<longleftrightarrow> runs_unasked [] ''cat a.txt | grep b && git log''"
  by (rule bash_allow_exactly) code_simp+

text \<open>
  C7. A dangerous command never runs on the kernel's own judgement: when a command that is not blank matches
  one of the dangerous patterns anywhere, \<open>authorize()\<close> denies the call in every mode but \<open>bypass\<close>,
  whatever rules the user has, whatever extra safe commands are configured and whatever the judge model would say,
  unless the user has granted this very call in the session.
\<close>

theorem dangerous_command_denied:
  assumes "map_of inp ''command'' = Some (JStr command)" "py_strip command \<noteq> []"
    and "p \<in> set DANGEROUS_PATTERNS" "re_search (snd p) command \<noteq> None"
    and "mode ctx \<noteq> MBypass"
    and "cache_check (e_signature env) (session_id ctx) (bash_tool fl extra) inp (a_grants a) = None"
  shows "\<exists>m reason. decision_of env (bash_tool fl extra) inp ctx a = PermissionDeny m reason"
proof -
  from assms(3,4) matches_any_None [of DANGEROUS_PATTERNS command] obtain src r where
    "matches_any DANGEROUS_PATTERNS command = Some (src, r)" by fastforce
  from risk_dangerous [OF assms(1,2) this] have "sg_default_decision (bash_default_risk extra inp) = DDeny" by simp
  with assms(5,6) show ?thesis
    by (intro denied_by_suggestion) (simp_all add: bash_is_read_only_call_def matches_name_def)
qed

theorem dangerous_command_denied_witness:
  "\<exists>m reason. decision_of demo_env (bash_tool (\<lambda>m e. []) []) [(''command'', JStr ''rm -rf /'')]
     demo_ctx demo_auth = PermissionDeny m reason"
  by (rule dangerous_command_denied [where command = "''rm -rf /''" and p = "hd DANGEROUS_PATTERNS"]) code_simp+

text \<open>
  The boundary of plan mode: the classifier reads a newline as white space, so a command whose first word
  is in the allowlist is read-only for it whatever stands on its further lines. With no rules, every such
  command with plain further lines, no operator, no substitution and no dangerous pattern is allowed in plan mode,
  which is documented to forbid side effects: the shell then executes each line as a command of its own
  (the instance removes a file).
\<close>

theorem plan_mode_runs_later_lines:
  assumes "word \<in> set ALLOWLIST_SAFE_COMMANDS"
    and "list_all (\<lambda>c. c \<in> set LEX_WHITESPACE \<or> plain_char c) second"
    and "command = word @ newline # second"
    and "matches_any DANGEROUS_PATTERNS command = None" "op_free command []"
    and "\<not> sublist ''$('' command" "CHR ''`'' \<notin> set command"
    and "mode ctx = MPlan" "snapshot (a_rules a) = []"
    and "runtime_kill_denial (e_process env) (bash_tool fl extra) [(''command'', JStr command)] = None"
  shows "is_allow (decision_of env (bash_tool fl extra) [(''command'', JStr command)] ctx a)"
proof -
  have word: "word \<noteq> []" "list_all plain_char word" "\<not> py_isspace (hd word)"
    using allowlisted_words assms(1) by (auto simp: list_all_iff)
  have nl: "newline \<in> set LEX_WHITESPACE" by (simp add: newline_def LEX_WHITESPACE_def)
  from shlex_first_word [OF word(1,2) nl assms(2)] have head: "argv_head command = Some word"
    unfolding argv_head_Some assms(3) by blast
  have blank: "py_strip command \<noteq> []" unfolding assms(3) using word(1,3) by (rule py_strip_starts)
  have cmd: "map_of [(''command'', JStr command)] ''command'' = Some (JStr command)" by simp
  from risk_simple [OF cmd blank assms(4,6,7,5), of extra] head assms(1)
  have risk: "bash_default_risk extra [(''command'', JStr command)] = suggest Low DAllow (''safe allowlist: '' @ py_repr_str word)"
    by simp
  then have "default_risk (bash_tool fl extra) [(''command'', JStr command)] ctx =
      Inr (suggest Low DAllow (''safe allowlist: '' @ py_repr_str word))" by simp
  then show ?thesis
    by (rule allowed_by_suggestion [OF _ _ _ _ assms(9,10)]) (simp_all add: risk bash_is_read_only_call_def)
qed

theorem plan_mode_runs_later_lines_witness:
  "is_allow (decision_of demo_env (bash_tool (\<lambda>m e. []) []) [(''command'', JStr (''ls'' @ newline # ''rm notes.txt''))]
     (demo_ctx\<lparr>mode := MPlan\<rparr>) new_authorizer)"
  by (rule plan_mode_runs_later_lines [where word = "''ls''" and second = "''rm notes.txt''"]) code_simp+

section \<open>Where the classification reads less than the shell\<close>

text \<open>A prefix rule tests the start of the whole line only.\<close>

lemma prefix_rule_first_command_only:
  "bash_matcher ''rm x'' ''rm:*'' \<and> \<not> bash_matcher ''true; rm x'' ''rm:*'' \<and> \<not> bash_matcher '' rm x'' ''rm:*''"
  by code_simp

text \<open>The lookahead exempts \<open>--force-with-lease\<close> in the pattern for \<open>-f\<close>; the one for \<open>--force\<close> matches it.\<close>

lemma force_with_lease_denied:
  "sg_default_decision (bash_default_risk [] [(''command'', JStr ''git push --force-with-lease'')]) = DDeny"
  by code_simp

text \<open>The pattern for \<open>rm\<close> allows one group of flags.\<close>

lemma separate_flags_not_dangerous: "matches_any DANGEROUS_PATTERNS ''rm -r -f /home'' = None"
  by code_simp

text \<open>Redirections and \<open>&\<close> are no operators for the classifier.\<close>

lemma redirection_is_read_only: "bash_is_read_only_call [] [(''command'', JStr ''echo x > y'')]"
  by code_simp

lemma background_is_read_only: "bash_is_read_only_call [] [(''command'', JStr ''ls & rm x'')]"
  by code_simp

text \<open>Only the second word of a \<open>git\<close> command is compared, so the entry \<open>stash list\<close> never matches.\<close>

lemma stash_list_not_recognized: "\<not> is_compound_safe ''git stash list | cat'' []"
  by code_simp

end
