(* ===== verification/Config_Layers.thy ===== *)
theory Config_Layers
  imports Kernel_Prelude
begin

text \<open>
  The configuration loader (\<open>core/config/loader.py\<close>): the deep merge of two documents, the scan of a
  directory, the overrides of the command line and the merge of all layers. A YAML document is a
  \<^typ>\<open>json\<close> value (mappings with string keys); \<open>yaml.safe_load\<close> is the argument \<open>load\<close>, a directory
  the list of its \<open>*.yaml\<close> files in the order of \<open>sorted()\<close>, with their texts, or \<open>None\<close> where it does
  not exist.
\<close>

type_synonym yaml_load = "string \<Rightarrow> json py"
type_synonym config_dir = "(string \<times> string) list option"

section \<open>Merging two documents\<close>

text \<open>The second equation is the loop over the items of \<open>high\<close>, which updates the result in place.\<close>

function (sequential) deep_merge :: "json \<Rightarrow> json \<Rightarrow> json"
  and merge_entries :: "(string \<times> json) list \<Rightarrow> (string \<times> json) list \<Rightarrow> (string \<times> json) list" where
  "deep_merge (JDict low) (JDict high) = JDict (merge_entries low high)"
| "deep_merge low high = high"
| "merge_entries result [] = result"
| "merge_entries result ((k, v) # items) =
     merge_entries (dict_set k (case map_of result k of Some old \<Rightarrow> deep_merge old v | None \<Rightarrow> v) result) items"
  by pat_completeness auto
termination
  by (relation "measure (\<lambda>x. case x of Inl (low, high) \<Rightarrow> size high | Inr (result, items) \<Rightarrow> size_list (size_prod (\<lambda>_. 0) size) items)")
    auto

section \<open>Reading a layer\<close>

definition load_file_raw :: "yaml_load \<Rightarrow> string \<Rightarrow> (string \<times> json) list py" where
  "load_file_raw load text =
     ebind (load text) (\<lambda>data.
       case (if py_truthy data then data else JDict []) of
         JDict d \<Rightarrow> Inr d
       | _ \<Rightarrow> Inl (PyExn ''must contain a YAML mapping at the top level''))"

text \<open>The stem of a file name: \<open>Path.stem\<close> keeps a name that is only the suffix.\<close>

definition local_suffix :: string where
  "local_suffix = ''.local.yaml''"

definition file_stem :: "string \<Rightarrow> string" where
  "file_stem name =
     (if py_endswith name local_suffix then take (length name - length local_suffix) name
      else if length name = 5 then name else take (length name - 5) name)"

fun scan_files :: "yaml_load \<Rightarrow> bool \<Rightarrow> (string \<times> string) list \<Rightarrow> (string \<times> json) list py" where
  "scan_files load is_local [] = Inr []"
| "scan_files load is_local ((name, text) # fs) =
     (if is_local \<noteq> py_endswith name local_suffix then scan_files load is_local fs
      else if file_stem name = [] then scan_files load is_local fs
      else ebind (load_file_raw load text) (\<lambda>raw.
           ebind (scan_files load is_local fs) (\<lambda>results. Inr ((file_stem name, JDict raw) # results))))"

definition scan_layer :: "yaml_load \<Rightarrow> config_dir \<Rightarrow> bool \<Rightarrow> (string \<times> json) list py" where
  "scan_layer load directory is_local =
     (case directory of None \<Rightarrow> Inr [] | Some fs \<Rightarrow> scan_files load is_local fs)"

section \<open>Overrides of the command line\<close>

fun split_dots :: "string \<Rightarrow> string \<Rightarrow> string list" where
  "split_dots cur [] = [cur]"
| "split_dots cur (c # s) = (if c = CHR ''.'' then cur # split_dots [] s else split_dots (cur @ [c]) s)"

definition parse_scalar :: "yaml_load \<Rightarrow> string \<Rightarrow> json" where
  "parse_scalar load raw =
     (case load raw of
        Inl e \<Rightarrow> JStr raw
      | Inr parsed \<Rightarrow>
          if parsed = JNull \<and> py_lower (py_strip raw) \<notin> {''null'', ''~'', []} then JStr raw else parsed)"

type_synonym overrides = "(string, (string, (string, json) dict) dict) dict"

definition parse_override :: "yaml_load \<Rightarrow> overrides \<Rightarrow> string \<Rightarrow> overrides" where
  "parse_override load out raw =
     (if CHR ''='' \<notin> set raw then out
      else let lhs = take (py_index raw (CHR ''='')) raw; rhs = drop (Suc (py_index raw (CHR ''=''))) raw
           in case split_dots [] lhs of
                [file_key, section_key, field_key] \<Rightarrow>
                  if file_key = [] \<or> section_key = [] \<or> field_key = [] then out
                  else (let file_bucket = (case map_of out file_key of Some b \<Rightarrow> b | None \<Rightarrow> []);
                            section_bucket = (case map_of file_bucket section_key of Some b \<Rightarrow> b | None \<Rightarrow> [])
                        in dict_set file_key
                             (dict_set section_key (dict_set field_key (parse_scalar load rhs) section_bucket) file_bucket)
                             out)
              | _ \<Rightarrow> out)"

definition parse_cli_overrides :: "yaml_load \<Rightarrow> string list \<Rightarrow> overrides" where
  "parse_cli_overrides load raws = foldl (parse_override load) [] raws"

text \<open>The overrides as documents, one for each file.\<close>

definition override_docs :: "overrides \<Rightarrow> (string \<times> json) list" where
  "override_docs out = map (\<lambda>(f, b). (f, JDict (map (\<lambda>(s, d). (s, JDict d)) b))) out"

section \<open>Merging the layers\<close>

definition merge_into :: "(string \<times> json) list \<Rightarrow> string \<times> json \<Rightarrow> (string \<times> json) list" where
  "merge_into merged piece =
     (case piece of (stem, raw) \<Rightarrow>
        dict_set stem (case map_of merged stem of Some current \<Rightarrow> deep_merge current raw | None \<Rightarrow> raw) merged)"

fun collect_layers ::
    "yaml_load \<Rightarrow> (config_dir \<times> bool) list \<Rightarrow> (string \<times> json) list \<Rightarrow> (string \<times> json) list py" where
  "collect_layers load [] merged = Inr merged"
| "collect_layers load ((directory, want_local) # layers) merged =
     ebind (scan_layer load directory want_local) (\<lambda>results.
       collect_layers load layers (foldl merge_into merged results))"

definition collect ::
    "yaml_load \<Rightarrow> config_dir \<Rightarrow> config_dir \<Rightarrow> string list \<Rightarrow> (string \<times> json) list py" where
  "collect load global_dir project_dir cli =
     ebind (collect_layers load [(global_dir, False), (project_dir, False), (project_dir, True)] []) (\<lambda>merged.
       Inr (foldl merge_into merged (override_docs (parse_cli_overrides load cli))))"

section \<open>Reference semantics: the last layer that touches a path decides\<close>

text \<open>
  The value at a path of keys, when it is no mapping; and whether a document has something to say about a
  path: it has every key of it, or a value that is no mapping on the way.
\<close>

fun leaf_at :: "string list \<Rightarrow> json \<Rightarrow> json option" where
  "leaf_at [] (JDict d) = None"
| "leaf_at [] v = Some v"
| "leaf_at (k # p) (JDict d) = (case map_of d k of None \<Rightarrow> None | Some v \<Rightarrow> leaf_at p v)"
| "leaf_at (k # p) v = None"

fun touches :: "string list \<Rightarrow> json \<Rightarrow> bool" where
  "touches [] v = True"
| "touches (k # p) (JDict d) = (case map_of d k of None \<Rightarrow> False | Some v \<Rightarrow> touches p v)"
| "touches (k # p) v = True"

text \<open>A document as a Python value: no mapping has a key twice.\<close>

fun wf_json :: "json \<Rightarrow> bool" where
  "wf_json (JDict d) \<longleftrightarrow> distinct (map fst d) \<and> (\<forall>(k, v) \<in> set d. wf_json v)"
| "wf_json (JList vs) \<longleftrightarrow> (\<forall>v \<in> set vs. wf_json v)"
| "wf_json v = True"

lemma map_of_merge_entries:
  "distinct (map fst items) \<Longrightarrow>
     map_of (merge_entries result items) k =
       (case map_of items k of
          None \<Rightarrow> map_of result k
        | Some v \<Rightarrow> Some (case map_of result k of None \<Rightarrow> v | Some old \<Rightarrow> deep_merge old v))"
proof (induction items arbitrary: result)
  case (Cons kv items)
  obtain k' v' where kv: "kv = (k', v')" by (cases kv)
  with Cons.prems have "map_of items k' = None" by (simp add: map_of_eq_None_iff)
  with Cons kv show ?case by (cases "k = k'") (simp_all split: option.split)
qed simp

lemma untouched_leaf: "\<not> touches p v \<Longrightarrow> leaf_at p v = None"
  by (induction p v rule: touches.induct) (auto split: option.splits)

lemma leaf_at_deep_merge:
  "wf_json high \<Longrightarrow> leaf_at p (deep_merge low high) = (if touches p high then leaf_at p high else leaf_at p low)"
proof (induction p high arbitrary: low rule: touches.induct)
  case (1 v)
  have "leaf_at [] (JDict d) = leaf_at [] (JDict d')" for d d' by simp
  then show ?case by (cases "(low, v)" rule: deep_merge.cases) simp_all
next
  case (2 k p d)
  show ?case
  proof (cases "\<exists>l. low = JDict l")
    case True
    then obtain l where l: "low = JDict l" ..
    show ?thesis
    proof (cases "map_of d k")
      case None
      with 2(2) l show ?thesis by (simp add: map_of_merge_entries)
    next
      case (Some v)
      then have v: "wf_json v" using 2(2) by (auto dest!: map_of_SomeD)
      have m: "map_of (merge_entries l d) k = Some (case map_of l k of None \<Rightarrow> v | Some old \<Rightarrow> deep_merge old v)"
        using 2(2) Some by (simp add: map_of_merge_entries)
      show ?thesis
        using 2(1) [OF Some v] by (cases "map_of l k") (simp_all add: l m Some untouched_leaf)
    qed
  next
    case False
    then have "deep_merge low (JDict d) = JDict d" "leaf_at (k # p) low = None \<or> True" by (cases low; simp)+
    moreover have "leaf_at (k # p) low = None" using False by (cases low) simp_all
    ultimately show ?thesis using untouched_leaf [of "k # p" "JDict d"] by simp
  qed
qed simp_all

lemma wf_json_dict_set: "wf_json v \<Longrightarrow> wf_json (JDict d) \<Longrightarrow> wf_json (JDict (dict_set k v d))"
  by (induction k v d rule: dict_set.induct) (auto simp: keys_dict_set)

text \<open>The pieces a load merges, lowest layer first, and the documents of one file among them.\<close>

fun layer_pieces :: "yaml_load \<Rightarrow> (config_dir \<times> bool) list \<Rightarrow> (string \<times> json) list py" where
  "layer_pieces load [] = Inr []"
| "layer_pieces load ((directory, want_local) # layers) =
     ebind (scan_layer load directory want_local) (\<lambda>results.
     ebind (layer_pieces load layers) (\<lambda>pieces. Inr (results @ pieces)))"

definition config_pieces ::
    "yaml_load \<Rightarrow> config_dir \<Rightarrow> config_dir \<Rightarrow> string list \<Rightarrow> (string \<times> json) list py" where
  "config_pieces load global_dir project_dir cli =
     ebind (layer_pieces load [(global_dir, False), (project_dir, False), (project_dir, True)]) (\<lambda>pieces.
       Inr (pieces @ override_docs (parse_cli_overrides load cli)))"

definition docs_of :: "string \<Rightarrow> (string \<times> json) list \<Rightarrow> json list" where
  "docs_of f pieces = map snd (filter (\<lambda>(stem, raw). stem = f) pieces)"

lemma collect_layers_pieces:
  "collect_layers load layers merged = ebind (layer_pieces load layers) (\<lambda>pieces. Inr (foldl merge_into merged pieces))"
  by (induction load layers merged rule: collect_layers.induct) (auto split: ebind_split)

lemma collect_pieces:
  "collect load global_dir project_dir cli =
     ebind (config_pieces load global_dir project_dir cli) (\<lambda>pieces. Inr (foldl merge_into [] pieces))"
  by (cases "layer_pieces load [(global_dir, False), (project_dir, False), (project_dir, True)]")
    (simp_all add: collect_def config_pieces_def collect_layers_pieces del: layer_pieces.simps)

lemma map_of_merge_into:
  "map_of (merge_into merged (stem, raw)) =
     (map_of merged)(stem \<mapsto> (case map_of merged stem of Some current \<Rightarrow> deep_merge current raw | None \<Rightarrow> raw))"
  by (simp add: merge_into_def)

lemma docs_of_simps [simp]:
  "docs_of f [] = []"
  "docs_of f ((stem, raw) # pieces) = (if stem = f then raw # docs_of f pieces else docs_of f pieces)"
  by (simp_all add: docs_of_def)

lemma fold_merge_docs:
  "map_of (foldl merge_into merged pieces) f =
     (case map_of merged f of
        Some v \<Rightarrow> Some (foldl deep_merge v (docs_of f pieces))
      | None \<Rightarrow> (case docs_of f pieces of [] \<Rightarrow> None | v # vs \<Rightarrow> Some (foldl deep_merge v vs)))"
proof (induction pieces arbitrary: merged)
  case (Cons piece pieces)
  obtain stem raw where "piece = (stem, raw)" by (cases piece)
  with Cons show ?case
    by (cases "stem = f") (simp_all add: map_of_merge_into split: option.split)
qed (simp split: option.split)

lemma find_append:
  "List.find P (xs @ ys) = (case List.find P xs of None \<Rightarrow> List.find P ys | Some x \<Rightarrow> Some x)"
  by (induction xs) auto

lemma leaf_at_fold:
  "\<forall>v \<in> set vs. wf_json v \<Longrightarrow>
     leaf_at p (foldl deep_merge v vs) =
       (case List.find (touches p) (rev vs) of Some w \<Rightarrow> leaf_at p w | None \<Rightarrow> leaf_at p v)"
  by (induction vs rule: rev_induct) (simp_all add: leaf_at_deep_merge)

section \<open>Properties\<close>

text \<open>
  C21. Precedence of the configuration layers: after a load that does not fail, the value at any path of keys
  of a file is the one of the highest layer that touches the path (global, then project, then project local
  files, then the command line), where a layer touches it when it has all its keys or a value that is no
  mapping on the way; when no layer does there is no value. The documents are as Python reads them, with
  no key twice in a mapping.
\<close>

theorem config_precedence:
  assumes "collect load global_dir project_dir cli = Inr merged"
    and "config_pieces load global_dir project_dir cli = Inr pieces"
    and "\<forall>v \<in> set (docs_of f pieces). wf_json v"
  shows "(case map_of merged f of None \<Rightarrow> None | Some v \<Rightarrow> leaf_at p v) =
           (case List.find (touches p) (rev (docs_of f pieces)) of None \<Rightarrow> None | Some v \<Rightarrow> leaf_at p v)"
proof -
  from assms(1,2) have "merged = foldl merge_into [] pieces" by (simp add: collect_pieces)
  then have m: "map_of merged f = (case docs_of f pieces of [] \<Rightarrow> None | v # vs \<Rightarrow> Some (foldl deep_merge v vs))"
    by (simp add: fold_merge_docs)
  show ?thesis
  proof (cases "docs_of f pieces")
    case Nil
    with m show ?thesis by simp
  next
    case (Cons v vs)
    have "leaf_at p (foldl deep_merge v vs) =
        (case List.find (touches p) (rev vs) of Some w \<Rightarrow> leaf_at p w | None \<Rightarrow> leaf_at p v)"
      using assms(3) Cons by (intro leaf_at_fold) simp
    then show ?thesis
      using m Cons untouched_leaf [of p v] by (auto simp: find_append split: option.split)
  qed
qed

end
