(* ===== verification/Config_Sections.thy ===== *)
theory Config_Sections
  imports Config_Layers
begin

text \<open>
  The configuration manager (\<open>core/config/manager.py\<close>) and the sections it hands out
  (\<open>core/config/section.py\<close>): startup, binding a section as its owner or reader, references to
  secrets, and an update of a section as the steps of several concurrent updates: read the file, write a
  temporary file, rename it, set the value in memory. Signals (\<open>core/signal.py\<close>) are at the end. A pydantic
  model is the dictionary of its fields; its class is a record of what the code calls on it.
\<close>

section \<open>State\<close>

text \<open>
  A schema: its identity, \<open>model_validate\<close>, and \<open>model_dump(exclude_defaults=True)\<close>
  (\<open>model_dump()\<close> gives all fields).
\<close>

record schema =
  sc_id :: nat
  sc_validate :: "(string \<times> json) list \<Rightarrow> (string \<times> json) list py"
  sc_nondefault :: "(string \<times> json) list \<Rightarrow> (string \<times> json) list"

record config_section =
  se_schema :: schema
  se_value :: "(string \<times> json) list"

type_synonym section_key = "string \<times> string"

record config_manager =
  cm_raw :: "(string \<times> json) list"
  cm_sections :: "(section_key \<times> config_section) list"
  cm_owned :: "section_key list"
  cm_started :: bool

record config_env =
  ce_load :: yaml_load
  ce_dump :: "(string \<times> json) list \<Rightarrow> string"
  ce_resolver :: "(string \<Rightarrow> string option) option"

definition new_config_manager :: config_manager where
  "new_config_manager = \<lparr>cm_raw = [], cm_sections = [], cm_owned = [], cm_started = False\<rparr>"

definition config_startup ::
    "config_env \<Rightarrow> config_dir \<Rightarrow> config_dir \<Rightarrow> string list \<Rightarrow> config_manager \<Rightarrow> config_manager py" where
  "config_startup env global_dir project_dir cli m =
     (if cm_started m then Inr m
      else ebind (collect (ce_load env) global_dir project_dir cli) (\<lambda>raw.
           Inr (m\<lparr>cm_raw := raw, cm_started := True\<rparr>)))"

section \<open>References to secrets\<close>

text \<open>\<open>_SECRET_RE.sub\<close>: every \<open>${secret:name}\<close>, from left to right, with a name of characters other than \<open>}\<close>.\<close>

definition secret_open :: string where
  "secret_open = ''${secret:''"

function expand_str :: "(string \<Rightarrow> string option) \<Rightarrow> string \<Rightarrow> string py" where
  "expand_str resolver [] = Inr []"
| "expand_str resolver (c # s) =
     (let name = takeWhile (\<lambda>d. d \<noteq> CHR ''}'') (drop 9 (c # s)); after = drop (9 + length name) (c # s)
      in if py_startswith (c # s) secret_open \<and> name \<noteq> [] \<and> after \<noteq> []
         then (case resolver name of
                 None \<Rightarrow> Inl (PyExn ''SecretNotFoundError'')
               | Some v \<Rightarrow> ebind (expand_str resolver (drop 1 after)) (\<lambda>r. Inr (v @ r)))
         else ebind (expand_str resolver s) (\<lambda>r. Inr (c # r)))"
  by pat_completeness auto
termination
  by (relation "measure (\<lambda>(resolver, s). length s)") auto

declare expand_str.simps(2) [simp del]

fun expand_value :: "(string \<Rightarrow> string option) \<Rightarrow> json \<Rightarrow> json py"
  and expand_entries :: "(string \<Rightarrow> string option) \<Rightarrow> (string \<times> json) list \<Rightarrow> (string \<times> json) list py"
  and expand_items :: "(string \<Rightarrow> string option) \<Rightarrow> json list \<Rightarrow> json list py" where
  "expand_value resolver (JStr s) = ebind (expand_str resolver s) (\<lambda>r. Inr (JStr r))"
| "expand_value resolver (JDict d) = ebind (expand_entries resolver d) (\<lambda>r. Inr (JDict r))"
| "expand_value resolver (JList vs) = ebind (expand_items resolver vs) (\<lambda>r. Inr (JList r))"
| "expand_value resolver v = Inr v"
| "expand_entries resolver [] = Inr []"
| "expand_entries resolver ((k, v) # d) =
     ebind (expand_value resolver v) (\<lambda>v'. ebind (expand_entries resolver d) (\<lambda>d'. Inr ((k, v') # d')))"
| "expand_items resolver [] = Inr []"
| "expand_items resolver (v # vs) =
     ebind (expand_value resolver v) (\<lambda>v'. ebind (expand_items resolver vs) (\<lambda>vs'. Inr (v' # vs')))"

definition expand_section :: "config_env \<Rightarrow> (string \<times> json) list \<Rightarrow> (string \<times> json) list py" where
  "expand_section env d = (case ce_resolver env of None \<Rightarrow> Inr d | Some resolver \<Rightarrow> expand_entries resolver d)"

section \<open>Binding\<close>

definition raw_section :: "config_manager \<Rightarrow> section_key \<Rightarrow> (string \<times> json) list py" where
  "raw_section m key =
     (case (case map_of (cm_raw m) (fst key) of None \<Rightarrow> JDict [] | Some doc \<Rightarrow> doc) of
        JDict d \<Rightarrow>
          (case (case map_of d (snd key) of Some v \<Rightarrow> if py_truthy v then v else JDict [] | None \<Rightarrow> JDict []) of
             JDict raw \<Rightarrow> Inr raw
           | _ \<Rightarrow> Inl (PyExn ''must be a mapping''))
      | _ \<Rightarrow> Inl (PyExn ''AttributeError''))"

definition get_or_create_section ::
    "config_env \<Rightarrow> section_key \<Rightarrow> schema \<Rightarrow> config_manager \<Rightarrow> (config_section \<times> config_manager) py" where
  "get_or_create_section env key sc m =
     (case map_of (cm_sections m) key of
        Some existing \<Rightarrow>
          if sc_id (se_schema existing) \<noteq> sc_id sc then Inl (PyExn ''Schema mismatch'') else Inr (existing, m)
      | None \<Rightarrow>
          ebind (raw_section m key) (\<lambda>raw.
          ebind (expand_section env raw) (\<lambda>expanded.
          ebind (sc_validate sc expanded) (\<lambda>instance_value.
            let sec = \<lparr>se_schema = sc, se_value = instance_value\<rparr>
            in Inr (sec, m\<lparr>cm_sections := dict_set key sec (cm_sections m)\<rparr>)))))"

definition bind_section ::
    "config_env \<Rightarrow> section_key \<Rightarrow> schema \<Rightarrow> config_manager \<Rightarrow> (config_section \<times> config_manager) py" where
  "bind_section env key sc m =
     (if key \<in> set (cm_owned m) then Inl (PyExn ''Section already bound by an earlier owner'')
      else ebind (get_or_create_section env key sc m) (\<lambda>(sec, m').
           Inr (sec, m'\<lparr>cm_owned := cm_owned m' @ [key]\<rparr>)))"

definition get_section ::
    "config_env \<Rightarrow> section_key \<Rightarrow> schema \<Rightarrow> config_manager \<Rightarrow> (config_section \<times> config_manager) py" where
  "get_section env key sc m = get_or_create_section env key sc m"

section \<open>Updating\<close>

text \<open>The files of the global directory, temporary files included.\<close>

type_synonym disk = "(string \<times> string) list"

definition write_path :: "string \<Rightarrow> string" where
  "write_path f = f @ ''.yaml''"

definition tmp_path :: "string \<Rightarrow> string" where
  "tmp_path f = write_path f @ ''.tmp''"

text \<open>The first half of \<open>_write_atomic\<close>: the file read back with the section patched in.\<close>

definition read_existing :: "config_env \<Rightarrow> disk \<Rightarrow> string \<Rightarrow> (string \<times> json) list py" where
  "read_existing env d f =
     (case map_of d (write_path f) of
        None \<Rightarrow> Inr []
      | Some text \<Rightarrow>
          ebind (ce_load env text) (\<lambda>loaded.
            Inr (case (if py_truthy loaded then loaded else JDict []) of JDict entries \<Rightarrow> entries | _ \<Rightarrow> [])))"

definition patch_section ::
    "schema \<Rightarrow> string \<Rightarrow> (string \<times> json) list \<Rightarrow> (string \<times> json) list \<Rightarrow> (string \<times> json) list" where
  "patch_section sc s v existing =
     (let dumped = sc_nondefault sc v
      in if dumped \<noteq> [] then dict_set s (JDict dumped) existing else dict_pop s existing)"

text \<open>An update that holds the lock of its section, by what it does next.\<close>

datatype update_phase =
    ReadFile "(string \<times> json) list"
  | WriteTmp "(string \<times> json) list" string
  | Replace "(string \<times> json) list"
  | Commit "(string \<times> json) list"

record config_world =
  cw_manager :: config_manager
  cw_disk :: disk
  cw_jobs :: "(section_key \<times> update_phase) list"

datatype config_action = StartUpdate section_key "(string \<times> json) list" | Proceed section_key

text \<open>
  One step of one update. \<open>StartUpdate\<close> is \<open>update\<close> up to the lock, with a value that validates; an update
  that waits for the lock has not started. \<open>Proceed\<close> is the next step of the update that holds it; where the step
  raises, the update ends and the value in memory is untouched.
\<close>

definition update_step :: "config_env \<Rightarrow> section_key \<Rightarrow> schema \<Rightarrow> update_phase \<Rightarrow> config_world \<Rightarrow> config_world" where
  "update_step env key sc phase w =
     (let f = fst key; put = (\<lambda>p. dict_set key p (cw_jobs w)); end_jobs = dict_pop key (cw_jobs w)
      in case phase of
           ReadFile v \<Rightarrow>
             (case read_existing env (cw_disk w) f of
                Inl e \<Rightarrow> w\<lparr>cw_jobs := end_jobs\<rparr>
              | Inr existing \<Rightarrow>
                  w\<lparr>cw_jobs := put (WriteTmp v (ce_dump env (patch_section sc (snd key) v existing)))\<rparr>)
         | WriteTmp v text \<Rightarrow>
             w\<lparr>cw_disk := dict_set (tmp_path f) text (cw_disk w), cw_jobs := put (Replace v)\<rparr>
         | Replace v \<Rightarrow>
             (case map_of (cw_disk w) (tmp_path f) of
                None \<Rightarrow> w\<lparr>cw_jobs := end_jobs\<rparr>
              | Some text \<Rightarrow>
                  w\<lparr>cw_disk := dict_set (write_path f) text (dict_pop (tmp_path f) (cw_disk w)),
                    cw_jobs := put (Commit v)\<rparr>)
         | Commit v \<Rightarrow>
             w\<lparr>cw_manager := (cw_manager w)\<lparr>cm_sections :=
                   dict_set key \<lparr>se_schema = sc, se_value = v\<rparr> (cm_sections (cw_manager w))\<rparr>,
               cw_jobs := end_jobs\<rparr>)"

definition config_act :: "config_env \<Rightarrow> config_action \<Rightarrow> config_world \<Rightarrow> config_world option" where
  "config_act env a w =
     (case a of
        StartUpdate key v \<Rightarrow>
          (case map_of (cm_sections (cw_manager w)) key of
             None \<Rightarrow> None
           | Some sec \<Rightarrow>
               if key \<notin> set (cm_owned (cw_manager w)) \<or> map_of (cw_jobs w) key \<noteq> None then None
               else (case sc_validate (se_schema sec) v of
                       Inl e \<Rightarrow> Some w
                     | Inr validated \<Rightarrow> Some (w\<lparr>cw_jobs := dict_set key (ReadFile validated) (cw_jobs w)\<rparr>)))
      | Proceed key \<Rightarrow>
          (case (map_of (cm_sections (cw_manager w)) key, map_of (cw_jobs w) key) of
             (Some sec, Some phase) \<Rightarrow> Some (update_step env key (se_schema sec) phase w)
           | _ \<Rightarrow> None))"

fun config_run :: "config_env \<Rightarrow> config_action list \<Rightarrow> config_world \<Rightarrow> config_world option" where
  "config_run env [] w = Some w"
| "config_run env (a # acts) w =
     (case config_act env a w of None \<Rightarrow> None | Some w' \<Rightarrow> config_run env acts w')"

text \<open>The kernel is started again on the same disk.\<close>

definition dir_listing :: "disk \<Rightarrow> config_dir" where
  "dir_listing d = Some (filter (\<lambda>(name, text). py_endswith name ''.yaml'') d)"

section \<open>Signals\<close>

text \<open>Slots by number: \<open>connect\<close> appends, its \<open>disconnect\<close> removes the first registration of the slot.\<close>

definition signal_connect :: "nat \<Rightarrow> nat list \<Rightarrow> nat list" where
  "signal_connect slot slots = slots @ [slot]"

definition signal_disconnect :: "nat \<Rightarrow> nat list \<Rightarrow> nat list" where
  "signal_disconnect slot slots = remove1 slot slots"

end
