(* ===== verification/Config_Updates.thy ===== *)
theory Config_Updates
  imports Config_Sections "HOL-Library.List_Lexorder" "HOL-Library.Char_ord"
begin

text \<open>
  What an update of a configuration section leaves on disk and in memory: alone, among updates of other
  files, and together with an update of another section of the same file; what a restart reads back; and
  what an update writes that nobody set.
\<close>

section \<open>Reading back what was dumped\<close>

text \<open>\<open>safe_dump(sort_keys=True)\<close>: the document read back has the keys of every mapping in order.\<close>

fun sort_value :: "json \<Rightarrow> json" where
  "sort_value (JDict d) = JDict (sort_key fst (map (\<lambda>(k, v). (k, sort_value v)) d))"
| "sort_value (JList vs) = JList (map sort_value vs)"
| "sort_value v = v"

definition sort_entries :: "(string \<times> json) list \<Rightarrow> (string \<times> json) list" where
  "sort_entries d = sort_key fst (map (\<lambda>(k, v). (k, sort_value v)) d)"

lemma sort_value_dict [simp]: "sort_value (JDict d) = JDict (sort_entries d)"
  by (simp add: sort_entries_def)

declare sort_value.simps(1) [simp del]

lemma keys_sort_entries: "fst ` set (sort_entries d) = fst ` set d" "distinct (map fst (sort_entries d)) = distinct (map fst d)"
proof -
  show keys: "fst ` set (sort_entries d) = fst ` set d"
    by (force simp: sort_entries_def)
  have "length (sort_entries d) = length d" by (simp add: sort_entries_def)
  with keys show "distinct (map fst (sort_entries d)) = distinct (map fst d)"
    by (metis card_distinct distinct_card length_map list.set_map)
qed

lemma map_of_map_value: "map_of (map (\<lambda>(k, v). (k, f v)) d) k = map_option f (map_of d k)"
  by (induction d) auto

lemma map_of_sort_entries:
  assumes "distinct (map fst d)"
  shows "map_of (sort_entries d) k = map_option sort_value (map_of d k)"
proof -
  let ?e = "map (\<lambda>(k, v). (k, sort_value v)) d"
  have "map fst ?e = map fst d" by (simp add: case_prod_unfold)
  then have "distinct (map fst ?e)" using assms by (simp only:)
  moreover have "distinct (map fst (sort_entries d))" using assms by (simp only: keys_sort_entries)
  moreover have "set (sort_entries d) = set ?e" by (simp add: sort_entries_def)
  ultimately have "map_of (sort_entries d) = map_of ?e" by (simp only: map_of_inject_set)
  then show ?thesis by (simp add: map_of_map_value)
qed

lemma sort_value_idem: "sort_value (sort_value v) = sort_value v"
proof (induction v rule: sort_value.induct)
  case (1 d)
  have f: "(\<lambda>(k, v). (k, sort_value v)) kv = kv" if "kv \<in> set (sort_entries d)" for kv
    using that 1 by (auto simp: sort_entries_def)
  have "sort_entries (sort_entries d) = sort_key fst (sort_entries d)"
    unfolding sort_entries_def [of "sort_entries d"] using map_idI [OF f] by simp
  also have "\<dots> = sort_entries d" by (rule sort_key_id_if_sorted) (simp add: sort_entries_def)
  finally show ?case by simp
qed simp_all

lemma wf_sort_value: "wf_json v \<Longrightarrow> wf_json (sort_value v)"
proof (induction v rule: sort_value.induct)
  case (1 d)
  then have "distinct (map fst (sort_entries d))" by (simp add: keys_sort_entries)
  moreover have "wf_json v" if "(k, v) \<in> set (sort_entries d)" for k v
    using that 1 by (fastforce simp: sort_entries_def)
  ultimately show ?case by auto
qed auto

text \<open>
  The documented behaviour of the libraries: YAML text loads to a value, a dumped document loads to itself with
  its keys sorted; a value that a schema has validated validates to itself, also from the
  non-default fields of its dump in any order of keys.
\<close>

definition yaml_ok :: "config_env \<Rightarrow> bool" where
  "yaml_ok env \<longleftrightarrow>
     (\<forall>text v. ce_load env text = Inr v \<longrightarrow> wf_json v) \<and>
     (\<forall>d. wf_json (JDict d) \<longrightarrow> ce_load env (ce_dump env d) = Inr (JDict (sort_entries d)))"

definition schema_ok :: "schema \<Rightarrow> bool" where
  "schema_ok sc \<longleftrightarrow>
     (\<forall>raw v. sc_validate sc raw = Inr v \<longrightarrow>
        wf_json (JDict (sc_nondefault sc v)) \<and> sc_validate sc v = Inr v \<and>
        sc_validate sc (sort_entries (sc_nondefault sc v)) = Inr v)"

text \<open>What an update to \<open>v\<close> leaves in the file for its section.\<close>

definition stored :: "schema \<Rightarrow> (string \<times> json) list \<Rightarrow> json option" where
  "stored sc v = (if sc_nondefault sc v = [] then None else Some (JDict (sort_entries (sc_nondefault sc v))))"

text \<open>The file of a section holds the value \<open>v\<close> for it.\<close>

definition holds_value :: "config_env \<Rightarrow> disk \<Rightarrow> section_key \<Rightarrow> schema \<Rightarrow> (string \<times> json) list \<Rightarrow> bool" where
  "holds_value env d key sc v \<longleftrightarrow>
     (\<exists>entries. read_existing env d (fst key) = Inr entries \<and> map_of entries (snd key) = stored sc v)"

lemma read_existing_wf:
  assumes "yaml_ok env" "read_existing env d f = Inr entries"
  shows "wf_json (JDict entries)"
proof (cases "map_of d (write_path f)")
  case None
  with assms(2) show ?thesis by (simp add: read_existing_def)
next
  case (Some body)
  with assms(2) obtain loaded where l: "ce_load env body = Inr loaded"
      "entries = (case (if py_truthy loaded then loaded else JDict []) of JDict entries \<Rightarrow> entries | _ \<Rightarrow> [])"
    by (auto simp: read_existing_def ebind_Inr_iff)
  from l(1) assms(1) have "wf_json loaded" by (auto simp: yaml_ok_def)
  with l(2) show ?thesis by (cases loaded) auto
qed

lemma wf_patch:
  assumes "wf_json (JDict existing)" "wf_json (JDict (sc_nondefault sc v))"
  shows "wf_json (JDict (patch_section sc s v existing))"
proof (cases "sc_nondefault sc v = []")
  case True
  with assms show ?thesis by (auto simp: patch_section_def Let_def) (auto simp: dict_pop_def)
next
  case False
  then show ?thesis
    unfolding patch_section_def Let_def using assms by (simp add: wf_json_dict_set del: wf_json.simps(1))
qed

text \<open>The file as it is read back after a patch: the section holds its value, every other one is as before.\<close>

lemma read_patched:
  assumes "yaml_ok env" "wf_json (JDict existing)" "wf_json (JDict (sc_nondefault sc v))"
    and "map_of d (write_path f) = Some (ce_dump env (patch_section sc s v existing))"
  shows "\<exists>entries. read_existing env d f = Inr entries \<and>
    (\<forall>k. map_of entries k = map_option sort_value (map_of (patch_section sc s v existing) k))"
proof -
  let ?p = "patch_section sc s v existing"
  have wf: "wf_json (JDict ?p)" using assms(2,3) by (rule wf_patch)
  then have "read_existing env d f = Inr (sort_entries ?p)"
    using assms(1,4) by (cases "sort_entries ?p") (simp_all add: read_existing_def yaml_ok_def)
  moreover have "map_of (sort_entries ?p) k = map_option sort_value (map_of ?p k)" for k
    using wf by (intro map_of_sort_entries) simp
  ultimately show ?thesis by blast
qed

lemma map_of_patch:
  "map_of (patch_section sc s v existing) k =
     (if k = s then (if sc_nondefault sc v = [] then None else Some (JDict (sc_nondefault sc v))) else map_of existing k)"
  by (simp add: patch_section_def Let_def)

lemma stored_idem: "map_option sort_value (stored sc v) = stored sc v"
proof -
  have "sort_entries (sort_entries d) = sort_entries d" for d using sort_value_idem [of "JDict d"] by simp
  then show ?thesis by (simp add: stored_def)
qed

lemma holds_after_patch:
  assumes "yaml_ok env" "wf_json (JDict existing)" "wf_json (JDict (sc_nondefault sc v))"
    and "map_of d (write_path f) = Some (ce_dump env (patch_section sc s v existing))"
  shows "holds_value env d (f, s) sc v"
    and "read_existing env d0 f = Inr existing \<Longrightarrow> s' \<noteq> s \<Longrightarrow> holds_value env d0 (f, s') sc' v' \<Longrightarrow> holds_value env d (f, s') sc' v'"
proof -
  from read_patched [OF assms] obtain entries where e: "read_existing env d f = Inr entries"
      "\<And>k. map_of entries k = map_option sort_value (map_of (patch_section sc s v existing) k)" by blast
  then show "holds_value env d (f, s) sc v"
    by (simp add: holds_value_def map_of_patch stored_def)
  show "holds_value env d (f, s') sc' v'"
    if "read_existing env d0 f = Inr existing" "s' \<noteq> s" "holds_value env d0 (f, s') sc' v'"
    using e that by (simp add: holds_value_def map_of_patch stored_idem)
qed

section \<open>One update alone\<close>

text \<open>The fields of a section that is bound and has no update in flight.\<close>

definition bound :: "config_world \<Rightarrow> section_key \<Rightarrow> schema \<Rightarrow> (string \<times> json) list \<Rightarrow> bool" where
  "bound w key sc v \<longleftrightarrow>
     map_of (cm_sections (cw_manager w)) key = Some \<lparr>se_schema = sc, se_value = v\<rparr>
     \<and> key \<in> set (cm_owned (cw_manager w)) \<and> map_of (cw_jobs w) key = None"

definition update_alone :: "section_key \<Rightarrow> (string \<times> json) list \<Rightarrow> config_action list" where
  "update_alone key v = StartUpdate key v # replicate 4 (Proceed key)"

lemma paths_differ [simp]: "tmp_path f \<noteq> write_path f'" "write_path f' \<noteq> tmp_path f"
proof -
  have "last (tmp_path f) \<noteq> last (write_path f')" by (simp add: tmp_path_def write_path_def)
  then show "tmp_path f \<noteq> write_path f'" "write_path f' \<noteq> tmp_path f" by metis+
qed

lemma write_path_inject [simp]: "write_path f = write_path f' \<longleftrightarrow> f = f'"
  by (simp add: write_path_def)

lemma dict_pop_set_new [simp]: "map_of d k = None \<Longrightarrow> dict_pop k (dict_set k v d) = d"
  by (induction k v d rule: dict_set.induct) (auto simp: dict_pop_def map_of_eq_None_iff filter_id_conv)

lemma dict_set_twice [simp]: "dict_set k v (dict_set k u d) = dict_set k v d"
  by (induction k u d rule: dict_set.induct) auto

lemma update_alone_run:
  assumes "bound w key sc old" "sc_validate sc v = Inr v'" "read_existing env (cw_disk w) (fst key) = Inr existing"
  shows "config_run env (update_alone key v) w = Some
    (w\<lparr>cw_manager := (cw_manager w)\<lparr>cm_sections :=
           dict_set key \<lparr>se_schema = sc, se_value = v'\<rparr> (cm_sections (cw_manager w))\<rparr>,
       cw_disk := dict_set (write_path (fst key)) (ce_dump env (patch_section sc (snd key) v' existing))
         (dict_pop (tmp_path (fst key)) (dict_set (tmp_path (fst key)) (ce_dump env (patch_section sc (snd key) v' existing)) (cw_disk w)))\<rparr>)"
  using assms
  by (cases w) (simp add: update_alone_def config_act_def update_step_def bound_def Let_def numeral_eq_Suc)

lemma read_existing_other:
  "map_of d' (write_path f) = map_of d (write_path f) \<Longrightarrow> read_existing env d' f = read_existing env d f"
  by (simp add: read_existing_def)

section \<open>Concurrent updates\<close>

text \<open>
  C19. Two sections of one file have two locks: when their owners update them at the same time, both updates can
  succeed, with both new values in memory, while the file keeps only the second one: the entry of the first
  section is the one from before, and a restart brings the old value back. (Both read the file before either
  writes it; the values, the sections and the file are arbitrary.)
\<close>

theorem concurrent_updates_lose_section:
  assumes "yaml_ok env" "schema_ok sc1" "schema_ok sc2" "s1 \<noteq> s2"
    and "bound w (f, s1) sc1 old1" "bound w (f, s2) sc2 old2"
    and "sc_validate sc1 v1 = Inr v1" "sc_validate sc2 v2 = Inr v2"
    and "read_existing env (cw_disk w) f = Inr existing"
  shows "\<exists>acts w' entries. config_run env acts w = Some w' \<and> bound w' (f, s1) sc1 v1 \<and> bound w' (f, s2) sc2 v2
    \<and> read_existing env (cw_disk w') f = Inr entries
    \<and> map_of entries s2 = stored sc2 v2 \<and> map_of entries s1 = map_option sort_value (map_of existing s1)"
proof -
  let ?a = "(f, s1)" and ?b = "(f, s2)"
  let ?acts = "[StartUpdate ?a v1, StartUpdate ?b v2, Proceed ?a, Proceed ?b, Proceed ?a, Proceed ?a,
    Proceed ?b, Proceed ?b, Proceed ?a, Proceed ?b]"
  have "\<exists>w'. config_run env ?acts w = Some w' \<and> bound w' ?a sc1 v1 \<and> bound w' ?b sc2 v2
      \<and> map_of (cw_disk w') (write_path f) = Some (ce_dump env (patch_section sc2 s2 v2 existing))"
    using assms(4-9)
    by (simp add: config_act_def update_step_def bound_def Let_def read_existing_def split: option.split)
  then obtain w' where w': "config_run env ?acts w = Some w'" "bound w' ?a sc1 v1" "bound w' ?b sc2 v2"
      "map_of (cw_disk w') (write_path f) = Some (ce_dump env (patch_section sc2 s2 v2 existing))" by blast
  have wf: "wf_json (JDict existing)" "wf_json (JDict (sc_nondefault sc2 v2))"
    using read_existing_wf [OF assms(1,9)] assms(3,8) by (auto simp: schema_ok_def simp del: wf_json.simps(1))
  from read_patched [OF assms(1) wf w'(4)] obtain entries where e: "read_existing env (cw_disk w') f = Inr entries"
      "\<And>k. map_of entries k = map_option sort_value (map_of (patch_section sc2 s2 v2 existing) k)" by blast
  from e(2) [of s2] e(2) [of s1] assms(4) have "map_of entries s2 = stored sc2 v2"
      "map_of entries s1 = map_option sort_value (map_of existing s1)"
    by (simp_all add: map_of_patch stored_def)
  with w'(1-3) e(1) show ?thesis by blast
qed

text \<open>
  The temporary file has one name for all sections of a file: when both updates write it before either renames it, the
  first one installs the document of the second and succeeds, and the second fails on the missing file
  although its document is on disk.
\<close>

lemma updates_exchange_outcomes:
  assumes "s1 \<noteq> s2" "bound w (f, s1) sc1 old1" "bound w (f, s2) sc2 old2"
    and "sc_validate sc1 v1 = Inr v1" "sc_validate sc2 v2 = Inr v2"
    and "read_existing env (cw_disk w) f = Inr existing"
  shows "\<exists>acts w'. config_run env acts w = Some w' \<and> bound w' (f, s1) sc1 v1 \<and> bound w' (f, s2) sc2 old2
    \<and> map_of (cw_disk w') (write_path f) = Some (ce_dump env (patch_section sc2 s2 v2 existing))"
proof -
  let ?a = "(f, s1)" and ?b = "(f, s2)"
  let ?acts = "[StartUpdate ?a v1, StartUpdate ?b v2, Proceed ?a, Proceed ?b, Proceed ?a, Proceed ?b,
    Proceed ?a, Proceed ?b, Proceed ?a]"
  have "\<exists>w'. config_run env ?acts w = Some w' \<and> bound w' ?a sc1 v1 \<and> bound w' ?b sc2 old2
      \<and> map_of (cw_disk w') (write_path f) = Some (ce_dump env (patch_section sc2 s2 v2 existing))"
    using assms
    by (simp add: config_act_def update_step_def bound_def Let_def read_existing_def split: option.split)
  then show ?thesis by blast
qed

end
