(* ===== verification/Config_Serial.thy ===== *)
theory Config_Serial
  imports Config_Updates
begin

text \<open>
  When no two updates of one file overlap, the files keep up with memory: an invariant over all interleavings
  with updates of other files and with steps that fail.
\<close>

section \<open>Updates that do not share a file\<close>

text \<open>Runs in which an update starts only when no update of its file is in flight.\<close>

definition serial_start :: "config_action \<Rightarrow> config_world \<Rightarrow> bool" where
  "serial_start a w \<longleftrightarrow>
     (case a of StartUpdate key v \<Rightarrow> list_all (\<lambda>(k, p). fst k \<noteq> fst key) (cw_jobs w) | Proceed key \<Rightarrow> True)"

fun serial_run :: "config_env \<Rightarrow> config_action list \<Rightarrow> config_world \<Rightarrow> config_world option" where
  "serial_run env [] w = Some w"
| "serial_run env (a # acts) w =
     (if serial_start a w
      then (case config_act env a w of None \<Rightarrow> None | Some w' \<Rightarrow> serial_run env acts w') else None)"

definition valid_for :: "schema \<Rightarrow> (string \<times> json) list \<Rightarrow> bool" where
  "valid_for sc v \<longleftrightarrow> (\<exists>raw. sc_validate sc raw = Inr v)"

text \<open>What is known of an update in flight, by its phase.\<close>

definition job_ok :: "config_env \<Rightarrow> disk \<Rightarrow> section_key \<Rightarrow> schema \<Rightarrow> update_phase \<Rightarrow> bool" where
  "job_ok env d key sc phase \<longleftrightarrow>
     (case phase of
        ReadFile v \<Rightarrow> valid_for sc v
      | WriteTmp v body \<Rightarrow> valid_for sc v \<and>
          (\<exists>ex. read_existing env d (fst key) = Inr ex \<and> body = ce_dump env (patch_section sc (snd key) v ex))
      | Replace v \<Rightarrow> valid_for sc v \<and>
          (\<exists>ex. read_existing env d (fst key) = Inr ex
             \<and> map_of d (tmp_path (fst key)) = Some (ce_dump env (patch_section sc (snd key) v ex)))
      | Commit v \<Rightarrow> holds_value env d key sc v)"

definition agrees :: "config_env \<Rightarrow> disk \<Rightarrow> section_key \<Rightarrow> config_section \<Rightarrow> bool" where
  "agrees env d key sec \<longleftrightarrow> holds_value env d key (se_schema sec) (se_value sec)"

definition same_schemas :: "config_world \<Rightarrow> config_world \<Rightarrow> bool" where
  "same_schemas w0 w \<longleftrightarrow>
     (\<forall>key. map_option se_schema (map_of (cm_sections (cw_manager w)) key) =
            map_option se_schema (map_of (cm_sections (cw_manager w0)) key))"

definition one_per_file :: "config_world \<Rightarrow> bool" where
  "one_per_file w \<longleftrightarrow>
     (\<forall>key key'. map_of (cw_jobs w) key \<noteq> None \<longrightarrow> map_of (cw_jobs w) key' \<noteq> None \<longrightarrow> fst key = fst key' \<longrightarrow> key = key')"

definition jobs_ok :: "config_env \<Rightarrow> config_world \<Rightarrow> bool" where
  "jobs_ok env w \<longleftrightarrow>
     (\<forall>key p. map_of (cw_jobs w) key = Some p \<longrightarrow>
        (\<exists>sec. map_of (cm_sections (cw_manager w)) key = Some sec \<and> job_ok env (cw_disk w) key (se_schema sec) p))"

definition at_commit :: "config_world \<Rightarrow> section_key \<Rightarrow> bool" where
  "at_commit w key \<longleftrightarrow> (\<exists>v. map_of (cw_jobs w) key = Some (Commit v))"

definition agreed :: "config_env \<Rightarrow> config_world \<Rightarrow> config_world \<Rightarrow> bool" where
  "agreed env w0 w \<longleftrightarrow>
     (\<forall>key sec sec0. map_of (cm_sections (cw_manager w)) key = Some sec \<longrightarrow>
        map_of (cm_sections (cw_manager w0)) key = Some sec0 \<longrightarrow> \<not> at_commit w key \<longrightarrow>
        agrees env (cw_disk w0) key sec0 \<or> se_value sec \<noteq> se_value sec0 \<longrightarrow> agrees env (cw_disk w) key sec)"

definition config_inv :: "config_env \<Rightarrow> config_world \<Rightarrow> config_world \<Rightarrow> bool" where
  "config_inv env w0 w \<longleftrightarrow> same_schemas w0 w \<and> one_per_file w \<and> jobs_ok env w \<and> agreed env w0 w"

text \<open>What only depends on the file of the section.\<close>

lemma holds_value_cong:
  "map_of d' (write_path (fst key)) = map_of d (write_path (fst key)) \<Longrightarrow> holds_value env d' key sc v = holds_value env d key sc v"
  by (simp add: holds_value_def read_existing_def)

lemma agrees_cong:
  "map_of d' (write_path (fst key)) = map_of d (write_path (fst key)) \<Longrightarrow> agrees env d' key sec = agrees env d key sec"
  unfolding agrees_def by (rule holds_value_cong)

lemma tmp_path_inject [simp]: "tmp_path f = tmp_path f' \<longleftrightarrow> f = f'"
  by (simp add: tmp_path_def)

lemma job_ok_other:
  assumes "map_of d' (write_path (fst key)) = map_of d (write_path (fst key))"
    and "map_of d' (tmp_path (fst key)) = map_of d (tmp_path (fst key))"
  shows "job_ok env d' key sc p = job_ok env d key sc p"
proof -
  have "read_existing env d' (fst key) = read_existing env d (fst key)" using assms(1) by (rule read_existing_other)
  then show ?thesis
    using holds_value_cong [OF assms(1), of env sc] by (cases p) (simp_all only: job_ok_def update_phase.case assms(2))
qed

text \<open>
  A step of one update: the files of the others are untouched, the sections of its own file that agreed still do, and it
  goes on in an accepted phase or ends.
\<close>

definition job_step :: "config_env \<Rightarrow> section_key \<Rightarrow> config_world \<Rightarrow> config_world \<Rightarrow> bool" where
  "job_step env key w w' \<longleftrightarrow>
     cw_manager w' = cw_manager w \<and>
     (\<forall>k. k \<noteq> key \<longrightarrow> map_of (cw_jobs w') k = map_of (cw_jobs w) k) \<and>
     (\<forall>f. f \<noteq> fst key \<longrightarrow> map_of (cw_disk w') (write_path f) = map_of (cw_disk w) (write_path f)
        \<and> map_of (cw_disk w') (tmp_path f) = map_of (cw_disk w) (tmp_path f)) \<and>
     (\<forall>p. map_of (cw_jobs w') key = Some p \<longrightarrow>
        (\<exists>sec. map_of (cm_sections (cw_manager w)) key = Some sec \<and> job_ok env (cw_disk w') key (se_schema sec) p)) \<and>
     (\<forall>s sec. s \<noteq> snd key \<longrightarrow> agrees env (cw_disk w) (fst key, s) sec \<longrightarrow> agrees env (cw_disk w') (fst key, s) sec) \<and>
     \<not> at_commit w key \<and>
     (at_commit w' key \<or> map_of (cw_disk w') (write_path (fst key)) = map_of (cw_disk w) (write_path (fst key)))"

lemma job_stepD:
  assumes "job_step env key w w'"
  shows "cw_manager w' = cw_manager w"
    and "k \<noteq> key \<Longrightarrow> map_of (cw_jobs w') k = map_of (cw_jobs w) k"
    and "f \<noteq> fst key \<Longrightarrow> map_of (cw_disk w') (write_path f) = map_of (cw_disk w) (write_path f)"
    and "f \<noteq> fst key \<Longrightarrow> map_of (cw_disk w') (tmp_path f) = map_of (cw_disk w) (tmp_path f)"
    and "map_of (cw_jobs w') key = Some p \<Longrightarrow>
      \<exists>sec. map_of (cm_sections (cw_manager w)) key = Some sec \<and> job_ok env (cw_disk w') key (se_schema sec) p"
    and "s \<noteq> snd key \<Longrightarrow> agrees env (cw_disk w) (fst key, s) sec \<Longrightarrow> agrees env (cw_disk w') (fst key, s) sec"
    and "\<not> at_commit w key"
    and "\<not> at_commit w' key \<Longrightarrow> map_of (cw_disk w') (write_path (fst key)) = map_of (cw_disk w) (write_path (fst key))"
  using assms unfolding job_step_def by blast+

lemma job_step_agrees:
  assumes "job_step env key w w'" "\<not> at_commit w' k" "agrees env (cw_disk w) k sec"
  shows "agrees env (cw_disk w') k sec"
proof (cases "k = key")
  case True
  with assms(2) job_stepD(8) [OF assms(1)] have "map_of (cw_disk w') (write_path (fst k)) = map_of (cw_disk w) (write_path (fst k))"
    by blast
  from agrees_cong [OF this] assms(3) show ?thesis by blast
next
  case False
  show ?thesis
  proof (cases "fst k = fst key")
    case True
    with False have s: "snd k \<noteq> snd key" by (metis prod.expand)
    from job_stepD(6) [OF assms(1) s, of sec] assms(3) True show ?thesis by (metis prod.collapse)
  next
    case False
    from agrees_cong [OF job_stepD(3) [OF assms(1) this]] assms(3) show ?thesis by blast
  qed
qed

lemma config_inv_job_step:
  assumes inv: "config_inv env w0 w" and job: "map_of (cw_jobs w) key \<noteq> None" and step: "job_step env key w w'"
  shows "config_inv env w0 w'"
proof -
  have m: "cw_manager w' = cw_manager w" and other: "\<And>k. k \<noteq> key \<Longrightarrow> map_of (cw_jobs w') k = map_of (cw_jobs w) k"
    using job_stepD(1,2) [OF step] by blast+
  have commit: "at_commit w' k = at_commit w k" if "k \<noteq> key" for k using other [OF that] by (simp add: at_commit_def)
  have one: "k = key" if "map_of (cw_jobs w) k \<noteq> None" "fst k = fst key" for k
    using inv that job unfolding config_inv_def one_per_file_def by blast
  have "one_per_file w'"
    unfolding one_per_file_def
  proof (intro allI impI)
    fix k k' assume k: "map_of (cw_jobs w') k \<noteq> None" "map_of (cw_jobs w') k' \<noteq> None" "fst k = fst k'"
    then have "map_of (cw_jobs w) k \<noteq> None" "map_of (cw_jobs w) k' \<noteq> None" using other job by metis+
    then show "k = k'" using inv k(3) unfolding config_inv_def one_per_file_def by blast
  qed
  moreover have "jobs_ok env w'"
    unfolding jobs_ok_def
  proof (intro allI impI)
    fix k p assume p: "map_of (cw_jobs w') k = Some p"
    show "\<exists>sec. map_of (cm_sections (cw_manager w')) k = Some sec \<and> job_ok env (cw_disk w') k (se_schema sec) p"
    proof (cases "k = key")
      case True
      from job_stepD(5) [OF step, of p] p True m show ?thesis by simp
    next
      case False
      with p other have q: "map_of (cw_jobs w) k = Some p" by simp
      with one False have "fst k \<noteq> fst key" by blast
      then have "job_ok env (cw_disk w') k sc p = job_ok env (cw_disk w) k sc p" for sc
        by (intro job_ok_other job_stepD(3,4) [OF step])
      moreover from q inv have "\<exists>sec. map_of (cm_sections (cw_manager w)) k = Some sec \<and> job_ok env (cw_disk w) k (se_schema sec) p"
        unfolding config_inv_def jobs_ok_def by blast
      ultimately show ?thesis using m by simp
    qed
  qed
  moreover have "agreed env w0 w'"
    unfolding agreed_def
  proof (intro allI impI)
    fix k sec sec0
    assume k: "map_of (cm_sections (cw_manager w')) k = Some sec" "map_of (cm_sections (cw_manager w0)) k = Some sec0"
      "\<not> at_commit w' k" "agrees env (cw_disk w0) k sec0 \<or> se_value sec \<noteq> se_value sec0"
    have "\<not> at_commit w k" using k(3) commit job_stepD(7) [OF step] by metis
    with k inv have "agrees env (cw_disk w) k sec" unfolding config_inv_def agreed_def m by blast
    with job_step_agrees [OF step k(3)] show "agrees env (cw_disk w') k sec" by blast
  qed
  ultimately show ?thesis using inv m by (simp add: config_inv_def same_schemas_def)
qed

lemma job_stepI:
  assumes "cw_manager w' = cw_manager w"
    and "\<And>k. k \<noteq> key \<Longrightarrow> map_of (cw_jobs w') k = map_of (cw_jobs w) k"
    and "\<And>f. f \<noteq> fst key \<Longrightarrow> map_of (cw_disk w') (write_path f) = map_of (cw_disk w) (write_path f)
        \<and> map_of (cw_disk w') (tmp_path f) = map_of (cw_disk w) (tmp_path f)"
    and "\<And>p. map_of (cw_jobs w') key = Some p \<Longrightarrow>
        \<exists>sec. map_of (cm_sections (cw_manager w)) key = Some sec \<and> job_ok env (cw_disk w') key (se_schema sec) p"
    and "\<And>s sec. s \<noteq> snd key \<Longrightarrow> agrees env (cw_disk w) (fst key, s) sec \<Longrightarrow> agrees env (cw_disk w') (fst key, s) sec"
    and "\<not> at_commit w key"
    and "\<not> at_commit w' key \<Longrightarrow> map_of (cw_disk w') (write_path (fst key)) = map_of (cw_disk w) (write_path (fst key))"
  shows "job_step env key w w'"
  using assms unfolding job_step_def by blast

text \<open>Steps that leave the files themselves alone.\<close>

lemma job_step_no_write:
  assumes "map_of (cw_jobs w) key = Some p" "\<forall>v. p \<noteq> Commit v"
    and "cw_manager w' = cw_manager w" "cw_jobs w' = dict_pop key (cw_jobs w) \<or> cw_jobs w' = dict_set key p' (cw_jobs w)"
    and "cw_disk w' = cw_disk w \<or> (\<exists>body. cw_disk w' = dict_set (tmp_path (fst key)) body (cw_disk w))"
    and "cw_jobs w' = dict_set key p' (cw_jobs w) \<Longrightarrow>
      \<exists>sec. map_of (cm_sections (cw_manager w)) key = Some sec \<and> job_ok env (cw_disk w') key (se_schema sec) p'"
  shows "job_step env key w w'"
proof (rule job_stepI)
  have disk: "map_of (cw_disk w') (write_path f) = map_of (cw_disk w) (write_path f)" for f
    using assms(5) by auto
  then show "map_of (cw_disk w') (write_path (fst key)) = map_of (cw_disk w) (write_path (fst key))" .
  show "map_of (cw_disk w') (write_path f) = map_of (cw_disk w) (write_path f)
        \<and> map_of (cw_disk w') (tmp_path f) = map_of (cw_disk w) (tmp_path f)" if "f \<noteq> fst key" for f
    using disk assms(5) that by auto
  show "agrees env (cw_disk w') (fst key, s) sec" if "agrees env (cw_disk w) (fst key, s) sec" for s sec
    using agrees_cong [of "cw_disk w'" "(fst key, s)" "cw_disk w" env sec] disk that by simp
  show "map_of (cw_jobs w') k = map_of (cw_jobs w) k" if "k \<noteq> key" for k using assms(4) that by auto
  show "\<exists>sec. map_of (cm_sections (cw_manager w)) key = Some sec \<and> job_ok env (cw_disk w') key (se_schema sec) q"
    if "map_of (cw_jobs w') key = Some q" for q using assms(4,6) that by auto
  show "\<not> at_commit w key" using assms(1,2) by (simp add: at_commit_def)
qed (fact assms(3))

lemma proceed_job_step:
  assumes yaml: "yaml_ok env" and sc: "schema_ok (se_schema sec)"
    and sec: "map_of (cm_sections (cw_manager w)) key = Some sec"
    and job: "map_of (cw_jobs w) key = Some p" "\<forall>v. p \<noteq> Commit v"
    and ok: "job_ok env (cw_disk w) key (se_schema sec) p"
  shows "job_step env key w (update_step env key (se_schema sec) p w)"
proof (cases p)
  case (ReadFile v)
  show ?thesis
  proof (cases "read_existing env (cw_disk w) (fst key)")
    case (Inl e)
    show ?thesis
      by (rule job_step_no_write [OF job, where p' = p]) (use ReadFile Inl sec ok in \<open>simp_all add: update_step_def Let_def\<close>)
  next
    case (Inr ex)
    have "job_ok env (cw_disk w) key (se_schema sec) (WriteTmp v (ce_dump env (patch_section (se_schema sec) (snd key) v ex)))"
      using ok Inr by (simp add: job_ok_def ReadFile)
    then show ?thesis
      by (intro job_step_no_write [OF job]) (use ReadFile Inr sec in \<open>auto simp: update_step_def Let_def\<close>)
  qed
next
  case (WriteTmp v body)
  have "read_existing env (dict_set (tmp_path (fst key)) body (cw_disk w)) (fst key) = read_existing env (cw_disk w) (fst key)"
    by (rule read_existing_other) simp
  then have "job_ok env (dict_set (tmp_path (fst key)) body (cw_disk w)) key (se_schema sec) (Replace v)"
    using ok by (auto simp: job_ok_def WriteTmp)
  then show ?thesis
    by (intro job_step_no_write [OF job]) (use WriteTmp sec in \<open>auto simp: update_step_def Let_def\<close>)
next
  case (Replace v)
  from ok obtain ex where ex: "valid_for (se_schema sec) v" "read_existing env (cw_disk w) (fst key) = Inr ex"
      "map_of (cw_disk w) (tmp_path (fst key)) = Some (ce_dump env (patch_section (se_schema sec) (snd key) v ex))"
    by (auto simp: job_ok_def Replace)
  let ?w = "update_step env key (se_schema sec) p w"
  have w: "cw_manager ?w = cw_manager w" "cw_jobs ?w = dict_set key (Commit v) (cw_jobs w)"
    "cw_disk ?w = dict_set (write_path (fst key)) (ce_dump env (patch_section (se_schema sec) (snd key) v ex))
       (dict_pop (tmp_path (fst key)) (cw_disk w))"
    using ex(3) by (simp_all add: update_step_def Let_def Replace)
  have wf: "wf_json (JDict ex)" "wf_json (JDict (sc_nondefault (se_schema sec) v))"
    using read_existing_wf [OF yaml ex(2)] ex(1) sc by (auto simp: valid_for_def schema_ok_def simp del: wf_json.simps(1))
  have path: "map_of (cw_disk ?w) (write_path (fst key)) = Some (ce_dump env (patch_section (se_schema sec) (snd key) v ex))"
    by (simp add: w(3))
  show ?thesis
  proof (rule job_stepI)
    show "\<exists>s. map_of (cm_sections (cw_manager w)) key = Some s \<and> job_ok env (cw_disk ?w) key (se_schema s) q"
      if "map_of (cw_jobs ?w) key = Some q" for q
      using holds_after_patch(1) [OF yaml wf path] that sec by (auto simp: w(2) job_ok_def)
    show "agrees env (cw_disk ?w) (fst key, s) sec'" if "s \<noteq> snd key" "agrees env (cw_disk w) (fst key, s) sec'" for s sec'
      using holds_after_patch(2) [OF yaml wf path ex(2) that(1)] that(2) unfolding agrees_def by simp
    show "\<not> at_commit w key" using job by (simp add: at_commit_def)
    show "map_of (cw_disk ?w) (write_path (fst key)) = map_of (cw_disk w) (write_path (fst key))" if "\<not> at_commit ?w key"
      using that by (simp add: at_commit_def w(2))
  qed (simp_all add: w)
qed (use job(2) in simp)

lemma config_inv_job_ok:
  "config_inv env w0 w \<Longrightarrow> map_of (cw_jobs w) key = Some p \<Longrightarrow>
     \<exists>sec. map_of (cm_sections (cw_manager w)) key = Some sec \<and> job_ok env (cw_disk w) key (se_schema sec) p"
  unfolding config_inv_def jobs_ok_def by blast

lemma config_inv_agrees:
  "config_inv env w0 w \<Longrightarrow> map_of (cm_sections (cw_manager w)) key = Some sec \<Longrightarrow>
   map_of (cm_sections (cw_manager w0)) key = Some sec0 \<Longrightarrow> \<not> at_commit w key \<Longrightarrow>
   agrees env (cw_disk w0) key sec0 \<or> se_value sec \<noteq> se_value sec0 \<Longrightarrow> agrees env (cw_disk w) key sec"
  unfolding config_inv_def agreed_def by blast

lemma commit_step_inv:
  assumes inv: "config_inv env w0 w" and sec: "map_of (cm_sections (cw_manager w)) key = Some sec"
    and job: "map_of (cw_jobs w) key = Some (Commit v)"
  shows "config_inv env w0 (update_step env key (se_schema sec) (Commit v) w)"
proof -
  let ?w = "update_step env key (se_schema sec) (Commit v) w"
  have w: "map_of (cm_sections (cw_manager ?w)) k =
      (if k = key then Some \<lparr>se_schema = se_schema sec, se_value = v\<rparr> else map_of (cm_sections (cw_manager w)) k)"
    "map_of (cw_jobs ?w) k = (if k = key then None else map_of (cw_jobs w) k)" "cw_disk ?w = cw_disk w" for k
    by (simp_all add: update_step_def Let_def)
  have holds: "holds_value env (cw_disk w) key (se_schema sec) v"
    using config_inv_job_ok [OF inv job] sec by (simp add: job_ok_def)
  have "map_option se_schema (map_of (cm_sections (cw_manager ?w)) k) = map_option se_schema (map_of (cm_sections (cw_manager w)) k)" for k
    using sec by (simp add: w(1))
  then have schemas: "same_schemas w0 ?w" using inv unfolding config_inv_def same_schemas_def by simp
  have jobs: "map_of (cw_jobs ?w) k = Some p \<Longrightarrow> k \<noteq> key \<and> map_of (cw_jobs w) k = Some p" for k p
    by (simp add: w(2) split: if_splits)
  have "one_per_file ?w"
    unfolding one_per_file_def
  proof (intro allI impI)
    fix k k' assume "map_of (cw_jobs ?w) k \<noteq> None" "map_of (cw_jobs ?w) k' \<noteq> None" "fst k = fst k'"
    then have "map_of (cw_jobs w) k \<noteq> None" "map_of (cw_jobs w) k' \<noteq> None" "fst k = fst k'"
      by (simp_all add: w(2) split: if_splits)
    then show "k = k'" using inv unfolding config_inv_def one_per_file_def by blast
  qed
  moreover have "jobs_ok env ?w"
    unfolding jobs_ok_def
  proof (intro allI impI)
    fix k p assume k: "map_of (cw_jobs ?w) k = Some p"
    from config_inv_job_ok [OF inv, of k p] jobs [OF k]
    show "\<exists>s. map_of (cm_sections (cw_manager ?w)) k = Some s \<and> job_ok env (cw_disk ?w) k (se_schema s) p"
      by (simp add: w(1,3))
  qed
  moreover have "agreed env w0 ?w"
    unfolding agreed_def
  proof (intro allI impI)
    fix k s s0
    assume k: "map_of (cm_sections (cw_manager ?w)) k = Some s" "map_of (cm_sections (cw_manager w0)) k = Some s0"
      "\<not> at_commit ?w k" "agrees env (cw_disk w0) k s0 \<or> se_value s \<noteq> se_value s0"
    show "agrees env (cw_disk ?w) k s"
    proof (cases "k = key")
      case True
      with k(1) have "s = \<lparr>se_schema = se_schema sec, se_value = v\<rparr>" by (simp add: w(1))
      with holds True show ?thesis by (simp add: agrees_def w(3))
    next
      case False
      with k(3) have "\<not> at_commit w k" by (simp add: at_commit_def w(2))
      moreover from k(1) False have "map_of (cm_sections (cw_manager w)) k = Some s" by (simp add: w(1))
      ultimately show ?thesis using config_inv_agrees [OF inv _ k(2) _ k(4)] by (simp add: w(3))
    qed
  qed
  ultimately show ?thesis using schemas by (simp add: config_inv_def)
qed

lemma start_step_inv:
  assumes inv: "config_inv env w0 w" and sec: "map_of (cm_sections (cw_manager w)) key = Some sec"
    and free: "list_all (\<lambda>(k, p). fst k \<noteq> fst key) (cw_jobs w)" and val: "sc_validate (se_schema sec) v = Inr v'"
  shows "config_inv env w0 (w\<lparr>cw_jobs := dict_set key (ReadFile v') (cw_jobs w)\<rparr>)"
proof -
  let ?w = "w\<lparr>cw_jobs := dict_set key (ReadFile v') (cw_jobs w)\<rparr>"
  have jobs: "map_of (cw_jobs ?w) k = (if k = key then Some (ReadFile v') else map_of (cw_jobs w) k)" for k by simp
  have free': "fst k \<noteq> fst key" if "map_of (cw_jobs w) k \<noteq> None" for k
    using free that by (force simp: list_all_iff dest: map_of_SomeD)
  have "one_per_file ?w" using inv free' unfolding config_inv_def one_per_file_def jobs by metis
  moreover have "jobs_ok env ?w"
    unfolding jobs_ok_def
  proof (intro allI impI)
    fix k p assume k: "map_of (cw_jobs ?w) k = Some p"
    show "\<exists>s. map_of (cm_sections (cw_manager ?w)) k = Some s \<and> job_ok env (cw_disk ?w) k (se_schema s) p"
    proof (cases "k = key")
      case True
      with k sec val show ?thesis by (auto simp: job_ok_def valid_for_def)
    next
      case False
      with k config_inv_job_ok [OF inv, of k p] show ?thesis by simp
    qed
  qed
  moreover have "agreed env w0 ?w"
    unfolding agreed_def
  proof (intro allI impI)
    fix k s s0
    assume k: "map_of (cm_sections (cw_manager ?w)) k = Some s" "map_of (cm_sections (cw_manager w0)) k = Some s0"
      "\<not> at_commit ?w k" "agrees env (cw_disk w0) k s0 \<or> se_value s \<noteq> se_value s0"
    have "\<not> at_commit w k"
      using k(3) free' [of k] by (cases "k = key") (auto simp: at_commit_def)
    with config_inv_agrees [OF inv _ k(2) _ k(4)] k(1) show "agrees env (cw_disk ?w) k s" by simp
  qed
  ultimately show ?thesis using inv by (simp add: config_inv_def same_schemas_def)
qed

lemma serial_act_inv:
  assumes "yaml_ok env" "\<And>key sec. map_of (cm_sections (cw_manager w)) key = Some sec \<Longrightarrow> schema_ok (se_schema sec)"
    and inv: "config_inv env w0 w" and act: "serial_start a w" "config_act env a w = Some w'"
  shows "config_inv env w0 w'"
proof (cases a)
  case (StartUpdate key v)
  with act(2) obtain sec where sec: "map_of (cm_sections (cw_manager w)) key = Some sec"
      "w' = w \<or> (\<exists>v'. sc_validate (se_schema sec) v = Inr v' \<and> w' = w\<lparr>cw_jobs := dict_set key (ReadFile v') (cw_jobs w)\<rparr>)"
    by (auto simp: config_act_def split: option.splits if_splits sum.splits)
  with inv act(1) start_step_inv [OF inv sec(1)] show ?thesis by (auto simp: serial_start_def StartUpdate)
next
  case (Proceed key)
  with act(2) obtain sec p where s: "map_of (cm_sections (cw_manager w)) key = Some sec" "map_of (cw_jobs w) key = Some p"
      "w' = update_step env key (se_schema sec) p w"
    by (auto simp: config_act_def split: option.splits)
  show ?thesis
  proof (cases "\<exists>v. p = Commit v")
    case True
    with s commit_step_inv [OF inv s(1)] show ?thesis by auto
  next
    case False
    from config_inv_job_ok [OF inv s(2)] s(1) have "job_ok env (cw_disk w) key (se_schema sec) p" by simp
    from config_inv_job_step [OF inv _ proceed_job_step [OF assms(1) assms(2) [OF s(1)] s(1,2) _ this]] s False
    show ?thesis by simp
  qed
qed

section \<open>Properties\<close>


end
