(* ===== verification/Json_Text.thy ===== *)
theory Json_Text
  imports Kernel_Prelude
begin

text \<open>
  A concrete text format for JSON values with a parser that inverts it. The program's own texts (YAML,
  JSON) are written and read by libraries, which are arguments of the model; the instances of theorems that
  ask of such a library to read back what it wrote use this one.
\<close>

fun enc_str :: "string \<Rightarrow> string" where
  "enc_str [] = ''.''"
| "enc_str (c # s) = CHR ''+'' # c # enc_str s"

fun dec_str :: "string \<Rightarrow> (string \<times> string) option" where
  "dec_str [] = None"
| "dec_str (m # s) =
     (if m = CHR ''.'' then Some ([], s)
      else case s of [] \<Rightarrow> None | c # u \<Rightarrow> (case dec_str u of None \<Rightarrow> None | Some (w, v) \<Rightarrow> Some (c # w, v)))"

definition enc_int :: "int \<Rightarrow> string" where
  "enc_int i = (if i < 0 then CHR ''-'' # enc_str (replicate (nat (- i)) CHR ''1'') else CHR ''+'' # enc_str (replicate (nat i) CHR ''1''))"

definition dec_int :: "string \<Rightarrow> (int \<times> string) option" where
  "dec_int s =
     (case s of
        [] \<Rightarrow> None
      | sign # u \<Rightarrow>
          (case dec_str u of
             None \<Rightarrow> None
           | Some (w, v) \<Rightarrow> Some (if sign = CHR ''-'' then - int (length w) else int (length w), v)))"

fun enc_json :: "json \<Rightarrow> string" where
  "enc_json JNull = ''n''"
| "enc_json (JBool b) = (if b then ''t'' else ''f'')"
| "enc_json (JInt i) = CHR ''i'' # enc_int i"
| "enc_json (JFloat m e) = CHR ''d'' # enc_int m @ enc_int e"
| "enc_json (JStr s) = CHR ''s'' # enc_str s"
| "enc_json (JList vs) = CHR ''['' # concat (map (\<lambda>v. CHR '','' # enc_json v) vs) @ '']''"
| "enc_json (JDict d) = CHR ''{'' # concat (map (\<lambda>(k, v). CHR '','' # enc_str k @ enc_json v) d) @ ''}''"

fun dec_json :: "nat \<Rightarrow> string \<Rightarrow> (json \<times> string) option"
  and dec_items :: "nat \<Rightarrow> string \<Rightarrow> (json list \<times> string) option"
  and dec_entries :: "nat \<Rightarrow> string \<Rightarrow> ((string \<times> json) list \<times> string) option" where
  "dec_json 0 s = None"
| "dec_json (Suc n) [] = None"
| "dec_json (Suc n) (c # s) =
     (if c = CHR ''n'' then Some (JNull, s)
      else if c = CHR ''t'' then Some (JBool True, s)
      else if c = CHR ''f'' then Some (JBool False, s)
      else if c = CHR ''i'' then map_option (\<lambda>(i, u). (JInt i, u)) (dec_int s)
      else if c = CHR ''d'' then
        (case dec_int s of None \<Rightarrow> None | Some (m, u) \<Rightarrow> map_option (\<lambda>(e, v). (JFloat m e, v)) (dec_int u))
      else if c = CHR ''s'' then map_option (\<lambda>(w, u). (JStr w, u)) (dec_str s)
      else if c = CHR ''['' then map_option (\<lambda>(vs, u). (JList vs, u)) (dec_items n s)
      else if c = CHR ''{'' then map_option (\<lambda>(d, u). (JDict d, u)) (dec_entries n s)
      else None)"
| "dec_items 0 s = None"
| "dec_items (Suc n) [] = None"
| "dec_items (Suc n) (c # s) =
     (if c = CHR '']'' then Some ([], s)
      else case dec_json n s of
             None \<Rightarrow> None
           | Some (v, u) \<Rightarrow> map_option (\<lambda>(vs, w). (v # vs, w)) (dec_items n u))"
| "dec_entries 0 s = None"
| "dec_entries (Suc n) [] = None"
| "dec_entries (Suc n) (c # s) =
     (if c = CHR ''}'' then Some ([], s)
      else case dec_str s of
             None \<Rightarrow> None
           | Some (k, u) \<Rightarrow>
               (case dec_json n u of
                  None \<Rightarrow> None
                | Some (v, w) \<Rightarrow> map_option (\<lambda>(d, x). ((k, v) # d, x)) (dec_entries n w)))"

lemma dec_enc_str [simp]: "dec_str (enc_str s @ u) = Some (s, u)"
  by (induction s) simp_all

lemma dec_enc_int [simp]: "dec_int (enc_int i @ u) = Some (i, u)"
  by (simp add: dec_int_def enc_int_def)

declare dec_json.simps [simp del] dec_items.simps [simp del] dec_entries.simps [simp del]

lemma dec_enc_items:
  assumes "\<And>v u n. v \<in> set vs \<Longrightarrow> length (enc_json v) \<le> n \<Longrightarrow> dec_json n (enc_json v @ u) = Some (v, u)"
  shows "length (concat (map (\<lambda>v. CHR '','' # enc_json v) vs)) < n \<Longrightarrow>
    dec_items n (concat (map (\<lambda>v. CHR '','' # enc_json v) vs) @ CHR '']'' # u) = Some (vs, u)"
  using assms
proof (induction vs arbitrary: n)
  case Nil
  then show ?case by (cases n) (simp_all add: dec_items.simps)
next
  case (Cons v vs)
  from Cons.prems obtain m where m: "n = Suc m" by (cases n) auto
  let ?tail = "concat (map (\<lambda>v. CHR '','' # enc_json v) vs) @ CHR '']'' # u"
  have "dec_json m (enc_json v @ ?tail) = Some (v, ?tail)"
    using Cons.prems(1) m by (intro Cons.prems(2)) simp_all
  moreover have "dec_items m ?tail = Some (vs, u)"
    using Cons.prems m by (intro Cons.IH) simp_all
  ultimately show ?case by (simp add: m dec_items.simps)
qed

lemma dec_enc_entries:
  assumes "\<And>k v u n. (k, v) \<in> set d \<Longrightarrow> length (enc_json v) \<le> n \<Longrightarrow> dec_json n (enc_json v @ u) = Some (v, u)"
  shows "length (concat (map (\<lambda>(k, v). CHR '','' # enc_str k @ enc_json v) d)) < n \<Longrightarrow>
    dec_entries n (concat (map (\<lambda>(k, v). CHR '','' # enc_str k @ enc_json v) d) @ CHR ''}'' # u) = Some (d, u)"
  using assms
proof (induction d arbitrary: n)
  case Nil
  then show ?case by (cases n) (simp_all add: dec_entries.simps)
next
  case (Cons kv d)
  obtain k v where kv: "kv = (k, v)" by (cases kv)
  from Cons.prems obtain m where m: "n = Suc m" by (cases n) auto
  let ?tail = "concat (map (\<lambda>(k, v). CHR '','' # enc_str k @ enc_json v) d) @ CHR ''}'' # u"
  have "dec_json m (enc_json v @ ?tail) = Some (v, ?tail)"
    using Cons.prems(1) m kv by (intro Cons.prems(2) [of k]) simp_all
  moreover have "dec_entries m ?tail = Some (d, u)"
    using Cons.prems m kv by (intro Cons.IH) (simp, metis list.set_intros(2))
  ultimately show ?case by (simp add: m kv dec_entries.simps)
qed

lemma dec_enc_json: "length (enc_json v) \<le> n \<Longrightarrow> dec_json n (enc_json v @ u) = Some (v, u)"
proof (induction v arbitrary: n u rule: enc_json.induct)
  case (6 vs)
  from 6(2) obtain m where m: "n = Suc m" by (cases n) auto
  have "dec_items m (concat (map (\<lambda>v. CHR '','' # enc_json v) vs) @ CHR '']'' # u) = Some (vs, u)"
    by (rule dec_enc_items) (fact 6(1), use 6(2) m in simp)
  then show ?case by (simp add: m dec_json.simps(3))
next
  case (7 d)
  from 7(2) obtain m where m: "n = Suc m" by (cases n) auto
  have step: "dec_json k (enc_json v @ u) = Some (v, u)" if "(x, v) \<in> set d" "length (enc_json v) \<le> k" for x v k u
    using 7(1) [OF that(1) refl that(2)] .
  have len: "length (concat (map (\<lambda>(k, v). CHR '','' # enc_str k @ enc_json v) d)) < m"
    using 7(2) unfolding m enc_json.simps length_append list.size by linarith
  have "dec_entries m (concat (map (\<lambda>(k, v). CHR '','' # enc_str k @ enc_json v) d) @ CHR ''}'' # u) = Some (d, u)"
    by (rule dec_enc_entries [OF step len])
  then show ?case by (simp add: m dec_json.simps(3))
next
  case (2 b)
  then show ?case by (cases n; cases b) (simp_all add: dec_json.simps(3))
next
  case 1
  then show ?case by (cases n) (simp_all add: dec_json.simps(3))
next
  case (3 i)
  then show ?case by (cases n) (simp_all add: dec_json.simps(3))
next
  case (4 m e)
  then show ?case by (cases n) (simp_all add: dec_json.simps(3))
next
  case (5 s)
  then show ?case by (cases n) (simp_all add: dec_json.simps(3))
qed

text \<open>A text with anything after its value is an error.\<close>

definition read_json :: "string \<Rightarrow> json py" where
  "read_json s = (case dec_json (length s) s of Some (v, []) \<Rightarrow> Inr v | _ \<Rightarrow> Inl (PyExn ''decode error''))"

lemma read_enc_json [simp]: "read_json (enc_json v) = Inr v"
  using dec_enc_json [of v "length (enc_json v)" "[]"] by (simp add: read_json_def)

end
