(* ===== verification/Config_Restart.thy ===== *)
theory Config_Restart
  imports Config_Serial Json_Text
begin

text \<open>
  What a restart reads back after an update, and what an update writes to the file that was never in it: values of
  other layers and the plain text of secrets. A concrete YAML format and schema for the instances.
\<close>

section \<open>Restart\<close>

text \<open>The documents of the higher layers say nothing about the section.\<close>

definition silent_above :: "string \<Rightarrow> string \<Rightarrow> (string \<times> json) list \<Rightarrow> bool" where
  "silent_above f s pieces \<longleftrightarrow> (\<forall>doc \<in> set (docs_of f pieces). \<exists>d. doc = JDict d \<and> map_of d s = None)"

lemma docs_of_append [simp]: "docs_of f (xs @ ys) = docs_of f xs @ docs_of f ys"
  by (simp add: docs_of_def)

lemma fold_silent:
  "\<forall>doc \<in> set docs. \<exists>d. doc = JDict d \<and> map_of d s = None \<Longrightarrow> \<forall>doc \<in> set docs. wf_json doc \<Longrightarrow>
     \<exists>r. foldl deep_merge (JDict l) docs = JDict r \<and> map_of r s = map_of l s"
proof (induction docs arbitrary: l)
  case (Cons doc docs)
  then obtain d where d: "doc = JDict d" "map_of d s = None" by auto
  with Cons.prems(2) have "map_of (merge_entries l d) s = map_of l s" by (simp add: map_of_merge_entries)
  with Cons.IH [of "merge_entries l d"] Cons.prems d show ?case by simp
qed simp

lemma file_stem_write_path:
  "\<not> py_endswith (write_path f) local_suffix \<Longrightarrow> f \<noteq> [] \<Longrightarrow> file_stem (write_path f) = f"
  by (simp add: file_stem_def write_path_def)

lemma stem_inverse:
  assumes "py_endswith name ''.yaml''" "\<not> py_endswith name local_suffix" "file_stem name = f" "f \<noteq> ''.yaml''"
  shows "name = write_path f"
proof -
  from assms(1) obtain p where p: "name = p @ ''.yaml''" by (auto simp: py_simps suffix_def)
  with assms(2-4) show ?thesis
    by (cases "p = []") (auto simp: file_stem_def write_path_def)
qed

text \<open>What the global directory contributes to one file.\<close>

lemma scan_global_docs:
  assumes "\<forall>(name, body) \<in> set fs. py_endswith name ''.yaml''" "distinct (map fst fs)" "f \<noteq> []" "f \<noteq> ''.yaml''"
    and "\<not> py_endswith (write_path f) local_suffix" "scan_files load False fs = Inr results"
  shows "(case map_of fs (write_path f) of
            None \<Rightarrow> docs_of f results = []
          | Some body \<Rightarrow> \<exists>raw. load_file_raw load body = Inr raw \<and> docs_of f results = [JDict raw])"
  using assms(1,2,6)
proof (induction fs arbitrary: results)
  case (Cons nb fs)
  obtain name body where nb: "nb = (name, body)" by (cases nb)
  note prems = Cons.prems [unfolded nb]
  have ih: "scan_files load False fs = Inr rs \<Longrightarrow> (case map_of fs (write_path f) of
            None \<Rightarrow> docs_of f rs = []
          | Some body \<Rightarrow> \<exists>raw. load_file_raw load body = Inr raw \<and> docs_of f rs = [JDict raw])" for rs
    using Cons.IH [of rs] prems by simp
  show ?case
  proof (cases "py_endswith name local_suffix \<or> file_stem name = []")
    case True
    then have "name \<noteq> write_path f" using assms(3,5) file_stem_write_path by auto
    with True prems ih [of results] nb show ?thesis by (auto split: if_splits)
  next
    case False
    with prems obtain raw rs where r: "load_file_raw load body = Inr raw" "scan_files load False fs = Inr rs"
        "results = (file_stem name, JDict raw) # rs" by (auto simp: ebind_Inr_iff)
    show ?thesis
    proof (cases "name = write_path f")
      case True
      then have "map_of fs (write_path f) = None" using prems(2) by (simp add: map_of_eq_None_iff)
      with ih [OF r(2)] r True nb assms(3,5) show ?thesis by (simp add: file_stem_write_path)
    next
      case False
      with stem_inverse [of name f] prems(1) \<open>\<not> (_ \<or> _)\<close> assms(4) have "file_stem name \<noteq> f" by auto
      with ih [OF r(2)] r(3) False nb show ?thesis by (cases "map_of fs (write_path f)") simp_all
    qed
  qed
qed simp

lemma map_of_listing: "map_of (filter (\<lambda>(name, body). py_endswith name ''.yaml'') d) (write_path f) = map_of d (write_path f)"
  by (induction d) (auto simp: write_path_def)

lemma distinct_listing: "distinct (map fst d) \<Longrightarrow> distinct (map fst (filter P d))"
  by (induction d) auto

lemma sort_entries_Nil [simp]: "sort_entries d = [] \<longleftrightarrow> d = []"
proof -
  have "length (sort_entries d) = length d" by (simp add: sort_entries_def)
  then show ?thesis by (metis length_0_conv)
qed

text \<open>The documents merged for one file, when only the global one knows the section.\<close>

lemma merged_section:
  assumes "\<forall>doc \<in> set upper. \<exists>e. doc = JDict e \<and> map_of e s = None" "\<forall>doc \<in> set upper. wf_json doc"
  shows "(case map_of (foldl merge_into [] pieces) f of None \<Rightarrow> docs_of f pieces = []
          | Some doc \<Rightarrow> docs_of f pieces = JDict raw # upper \<longrightarrow> (\<exists>r. doc = JDict r \<and> map_of r s = map_of raw s))"
    and "(case map_of (foldl merge_into [] pieces) f of None \<Rightarrow> True
          | Some doc \<Rightarrow> docs_of f pieces = upper \<longrightarrow> (\<exists>r. doc = JDict r \<and> map_of r s = None))"
proof -
  show "(case map_of (foldl merge_into [] pieces) f of None \<Rightarrow> docs_of f pieces = []
          | Some doc \<Rightarrow> docs_of f pieces = JDict raw # upper \<longrightarrow> (\<exists>r. doc = JDict r \<and> map_of r s = map_of raw s))"
    using fold_silent [OF assms, of raw] by (cases "docs_of f pieces") (auto simp: fold_merge_docs)
  show "(case map_of (foldl merge_into [] pieces) f of None \<Rightarrow> True
          | Some doc \<Rightarrow> docs_of f pieces = upper \<longrightarrow> (\<exists>r. doc = JDict r \<and> map_of r s = None))"
  proof (cases upper)
    case (Cons doc docs)
    then obtain e where e: "doc = JDict e" "map_of e s = None" using assms(1) by auto
    have "\<forall>doc \<in> set docs. \<exists>e. doc = JDict e \<and> map_of e s = None" "\<forall>doc \<in> set docs. wf_json doc"
      using assms Cons by auto
    from fold_silent [OF this, of e] Cons e show ?thesis by (cases "docs_of f pieces") (auto simp: fold_merge_docs)
  qed (cases "docs_of f pieces"; simp add: fold_merge_docs)
qed

lemma read_existing_loaded:
  assumes "map_of d (write_path f) = Some body" "load_file_raw (ce_load env) body = Inr raw"
  shows "read_existing env d f = Inr raw"
proof -
  from assms(2) obtain data where "ce_load env body = Inr data"
      "(case (if py_truthy data then data else JDict []) of JDict e \<Rightarrow> Inr e
        | _ \<Rightarrow> Inl (PyExn ''must contain a YAML mapping at the top level'')) = Inr raw"
    by (auto simp: load_file_raw_def ebind_Inr_iff)
  with assms(1) show ?thesis
    by (cases "py_truthy data"; cases data) (simp_all add: read_existing_def)
qed

section \<open>A concrete format and schema\<close>

definition demo_yaml :: config_env where
  "demo_yaml =
     \<lparr>ce_load = (\<lambda>body. ebind (read_json body) (\<lambda>v. if wf_json v then Inr v else Inl (PyExn ''ConstructorError''))),
      ce_dump = (\<lambda>d. enc_json (JDict (sort_entries d))),
      ce_resolver = Some (\<lambda>name. if name = ''k'' then Some ''sk-1'' else None)\<rparr>"

lemma demo_yaml_ok: "yaml_ok demo_yaml"
proof -
  have "wf_json (JDict (sort_entries d))" if "wf_json (JDict d)" for d
    using wf_sort_value [OF that] by (simp only: sort_value_dict)
  then show ?thesis by (auto simp: yaml_ok_def demo_yaml_def ebind_Inr_iff simp del: wf_json.simps(1) enc_json.simps split: if_splits)
qed

text \<open>A schema of string fields with their defaults.\<close>

fun is_jstr :: "json \<Rightarrow> bool" where
  "is_jstr (JStr s) = True"
| "is_jstr v = False"

definition fill :: "(string \<times> string) list \<Rightarrow> (string \<times> json) list \<Rightarrow> (string \<times> json) list" where
  "fill defaults raw = map (\<lambda>(k, dflt). (k, case map_of raw k of None \<Rightarrow> JStr dflt | Some x \<Rightarrow> x)) defaults"

definition is_default :: "(string \<times> string) list \<Rightarrow> string \<Rightarrow> json \<Rightarrow> bool" where
  "is_default defaults k x \<longleftrightarrow> map_option JStr (map_of defaults k) = Some x"

definition string_fields :: "nat \<Rightarrow> (string \<times> string) list \<Rightarrow> schema" where
  "string_fields n defaults =
     \<lparr>sc_id = n,
      sc_validate = (\<lambda>raw. if list_all (\<lambda>(k, x). is_jstr x) (fill defaults raw) then Inr (fill defaults raw)
                           else Inl (PyExn ''ValidationError'')),
      sc_nondefault = (\<lambda>v. filter (\<lambda>(k, x). \<not> is_default defaults k x) v)\<rparr>"

lemma keys_fill: "map fst (fill defaults raw) = map fst defaults"
  by (simp add: fill_def case_prod_unfold)

lemma fill_again:
  assumes "distinct (map fst defaults)"
    and "\<And>k x. (k, x) \<in> set (fill defaults raw) \<Longrightarrow> (case map_of r k of None \<Rightarrow> is_default defaults k x | Some y \<Rightarrow> y = x)"
  shows "fill defaults r = fill defaults raw"
proof -
  have "(case map_of r k of None \<Rightarrow> JStr dflt | Some x \<Rightarrow> x) = (case map_of raw k of None \<Rightarrow> JStr dflt | Some x \<Rightarrow> x)"
    (is "_ = ?x") if "(k, dflt) \<in> set defaults" for k dflt
  proof -
    have "(k, ?x) \<in> set (fill defaults raw)" using that by (force simp: fill_def)
    from assms(2) [OF this] that assms(1) show ?thesis by (cases "map_of r k") (simp_all add: is_default_def)
  qed
  then show ?thesis unfolding fill_def by (intro map_cong) auto
qed

lemma nondefault_lookup:
  assumes "distinct (map fst v)" "(k, x) \<in> set v"
  shows "map_of (filter (\<lambda>(k, x). \<not> is_default defaults k x) v) k = (if is_default defaults k x then None else Some x)"
proof -
  let ?nd = "filter (\<lambda>(k, x). \<not> is_default defaults k x) v"
  have unique: "y = x" if "(k, y) \<in> set v" for y using assms that by (metis map_of_is_SomeI option.inject)
  show ?thesis
  proof (cases "is_default defaults k x")
    case True
    then have "k \<notin> fst ` set ?nd" using unique by auto
    with True show ?thesis by (simp add: map_of_eq_None_iff)
  next
    case False
    then have "(k, x) \<in> set ?nd" using assms(2) by simp
    then have "map_of ?nd k = Some x" by (rule map_of_is_SomeI [OF distinct_listing [OF assms(1)]])
    with False show ?thesis by simp
  qed
qed

lemma string_fields_ok:
  assumes "distinct (map fst defaults)"
  shows "schema_ok (string_fields n defaults)"
  unfolding schema_ok_def
proof (intro allI impI)
  let ?sc = "string_fields n defaults"
  fix raw v assume v: "sc_validate ?sc raw = Inr v"
  then have veq: "v = fill defaults raw" and strs: "list_all (\<lambda>(k, x). is_jstr x) v"
    by (auto simp: string_fields_def split: if_splits)
  have dist: "distinct (map fst v)" using assms by (simp add: veq keys_fill)
  have nd: "sc_nondefault ?sc v = filter (\<lambda>(k, x). \<not> is_default defaults k x) v" by (simp add: string_fields_def)
  have plain: "sort_value x = x" "wf_json x" if "(k, x) \<in> set v" for k x
    using strs that by (cases x; fastforce simp: list_all_iff)+
  have ndist: "distinct (map fst (sc_nondefault ?sc v))" unfolding nd using dist by (rule distinct_listing)
  moreover have "\<forall>(k, x) \<in> set (sc_nondefault ?sc v). wf_json x" using plain(2) by (auto simp: nd)
  ultimately have "wf_json (JDict (sc_nondefault ?sc v))" by simp
  moreover have "fill defaults v = v"
    unfolding veq by (rule fill_again [OF assms]) (use dist in \<open>simp add: veq\<close>)
  moreover have "fill defaults (sort_entries (sc_nondefault ?sc v)) = v"
    unfolding veq
  proof (rule fill_again [OF assms], fold veq)
    fix k x assume "(k, x) \<in> set v"
    with nondefault_lookup [OF dist this, of defaults] plain(1) [OF this]
    show "case map_of (sort_entries (sc_nondefault ?sc v)) k of None \<Rightarrow> is_default defaults k x | Some y \<Rightarrow> y = x"
      by (simp add: map_of_sort_entries [OF ndist, unfolded nd] nd)
  qed
  ultimately show "wf_json (JDict (sc_nondefault ?sc v)) \<and> sc_validate ?sc v = Inr v
      \<and> sc_validate ?sc (sort_entries (sc_nondefault ?sc v)) = Inr v"
    using strs by (simp add: string_fields_def)
qed

definition demo_schema :: schema where
  "demo_schema = string_fields 0 [(''key'', []), (''model'', ''m0'')]"

lemma demo_schema_ok: "schema_ok demo_schema"
  unfolding demo_schema_def by (rule string_fields_ok) simp

section \<open>Properties\<close>

text \<open>
  C20. Round trip through a restart: if the file of a section holds its value \<open>v\<close> (as it does after an update
  whose file no other one touched meanwhile), the kernel starts again on this directory with project files and command line
  overrides that do not mention the section, and the value has no references to secrets, then binding the
  section gives exactly \<open>v\<close> again, although only the fields that differ from their defaults were written.
\<close>

theorem restart_reads_update:
  assumes sc: "schema_ok sc" "valid_for sc v"
    and disk: "holds_value env d (f, s) sc v" "distinct (map fst d)"
    and f: "f \<noteq> []" "f \<noteq> ''.yaml''" "\<not> py_endswith (write_path f) local_suffix"
    and start: "config_startup env (dir_listing d) project_dir cli new_config_manager = Inr m"
    and above: "layer_pieces (ce_load env) [(project_dir, False), (project_dir, True)] = Inr higher"
    and silent: "silent_above f s (higher @ override_docs (parse_cli_overrides (ce_load env) cli))"
    and wf: "\<forall>doc \<in> set (docs_of f (higher @ override_docs (parse_cli_overrides (ce_load env) cli))). wf_json doc"
    and plain: "expand_section env (sort_entries (sc_nondefault sc v)) = Inr (sort_entries (sc_nondefault sc v))"
  shows "\<exists>m'. bind_section env (f, s) sc m = Inr (\<lparr>se_schema = sc, se_value = v\<rparr>, m')"
proof -
  let ?higher = "higher @ override_docs (parse_cli_overrides (ce_load env) cli)"
  let ?fs = "filter (\<lambda>(name, body). py_endswith name ''.yaml'') d"
  let ?nd = "sc_nondefault sc v"
  from start above obtain results where r: "scan_files (ce_load env) False ?fs = Inr results"
      "m = new_config_manager\<lparr>cm_raw := foldl merge_into [] (results @ ?higher), cm_started := True\<rparr>"
    by (auto simp: config_startup_def collect_pieces config_pieces_def ebind_Inr_iff new_config_manager_def
        dir_listing_def scan_layer_def)
  have listing: "\<forall>(name, body) \<in> set ?fs. py_endswith name ''.yaml''" "distinct (map fst ?fs)"
    using distinct_listing [OF disk(2)] by auto
  from disk(1) obtain entries where e: "read_existing env d f = Inr entries" "map_of entries s = stored sc v"
    by (auto simp: holds_value_def)
  note docs = scan_global_docs [OF listing f(1,2,3) r(1), unfolded map_of_listing]
  note merged = merged_section [OF silent [unfolded silent_above_def] wf, where pieces = "results @ ?higher" and f = f]
  have "raw_section m (f, s) = Inr (sort_entries ?nd)"
  proof (cases "map_of d (write_path f)")
    case None
    then have none: "docs_of f results = []" "?nd = []"
      using docs e by (auto simp: read_existing_def stored_def split: if_splits)
    show ?thesis
      using merged(2) none
      by (cases "map_of (foldl merge_into [] (results @ ?higher)) f")
        (auto simp: raw_section_def r(2) new_config_manager_def sort_entries_def)
  next
    case (Some body)
    with docs obtain raw where raw: "load_file_raw (ce_load env) body = Inr raw" "docs_of f results = [JDict raw]" by auto
    from read_existing_loaded [OF Some raw(1)] e have s: "map_of raw s = stored sc v" by simp
    from merged(1) [of raw] raw(2) obtain doc where "map_of (foldl merge_into [] (results @ ?higher)) f = Some (JDict doc)"
        "map_of doc s = stored sc v"
      using s by (cases "map_of (foldl merge_into [] (results @ ?higher)) f") auto
    then show ?thesis
      by (auto simp: raw_section_def r(2) new_config_manager_def stored_def sort_entries_def)
  qed
  moreover have "sc_validate sc (sort_entries ?nd) = Inr v" using sc by (auto simp: schema_ok_def valid_for_def)
  ultimately show ?thesis
    using plain by (simp add: bind_section_def get_or_create_section_def r(2) new_config_manager_def Let_def)
qed

text \<open>
  Secrets leak into the file: when a field of a section refers to a secret and the owner updates the section in
  any other field, the update writes the plain text of the secret to the configuration file in place of the
  reference. (The section holds the expanded value, and \<open>_write_atomic\<close> dumps all of it.)
\<close>

theorem update_writes_secret:
  assumes "yaml_ok env" "schema_ok sc" "ce_resolver env = Some resolver" "resolver name = Some secret"
    and "name \<noteq> []" "CHR ''}'' \<notin> set name"
    and "raw_section m (f, s) = Inr raw" "map_of raw k = Some (JStr (secret_open @ name @ ''}''))"
    and "map_of (cm_sections m) (f, s) = None" "bind_section env (f, s) sc m = Inr (sec, m')"
    and "\<forall>r v x. sc_validate sc r = Inr v \<and> map_of r k = Some (JStr x) \<longrightarrow> map_of v k = Some (JStr x)"
    and "sc_validate sc new = Inr new" "map_of new k = map_of (se_value sec) k"
    and "map_of (sc_nondefault sc new) k = map_of new k" "read_existing env d f = Inr existing"
  shows "\<exists>w entries nd. config_run env (update_alone (f, s) new) \<lparr>cw_manager = m', cw_disk = d, cw_jobs = []\<rparr> = Some w
    \<and> read_existing env (cw_disk w) f = Inr entries \<and> map_of entries s = Some (JDict nd) \<and> map_of nd k = Some (JStr secret)"
proof -
  let ?w0 = "\<lparr>cw_manager = m', cw_disk = d, cw_jobs = []\<rparr>"
  have expanded: "expand_str resolver (secret_open @ name @ ''}'') = Inr secret"
  proof -
    have "takeWhile (\<lambda>c. c \<noteq> CHR ''}'') (name @ ''}'') = name"
      using assms(6) by (subst takeWhile_append2) auto
    then show ?thesis
      using assms(4,5) by (simp add: expand_str.simps(2) [of resolver "CHR 0x24"] secret_open_def py_simps)
  qed
  have entry: "expand_entries resolver r = Inr r' \<Longrightarrow> map_of r k = Some (JStr (secret_open @ name @ ''}'')) \<Longrightarrow>
      map_of r' k = Some (JStr secret)" for r r'
    by (induction r arbitrary: r') (auto simp: ebind_Inr_iff expanded split: if_splits)
  from assms(3,7,9,10) obtain e where e: "expand_entries resolver raw = Inr e" "sc_validate sc e = Inr (se_value sec)"
      "se_schema sec = sc" "map_of (cm_sections m') (f, s) = Some sec" "(f, s) \<in> set (cm_owned m')"
    by (auto simp: bind_section_def get_or_create_section_def ebind_Inr_iff expand_section_def Let_def split: if_splits)
  from assms(11) e(2) entry [OF e(1) assms(8)] have "map_of (se_value sec) k = Some (JStr secret)" by blast
  with assms(13,14) have nd: "map_of (sc_nondefault sc new) k = Some (JStr secret)" by simp
  have "bound ?w0 (f, s) sc (se_value sec)" using e(3-5) by (simp add: bound_def)
  from update_alone_run [OF this assms(12)] assms(15) obtain w where
    w: "config_run env (update_alone (f, s) new) ?w0 = Some w"
      "map_of (cw_disk w) (write_path f) = Some (ce_dump env (patch_section sc s new existing))" by simp
  have wf: "wf_json (JDict existing)" "wf_json (JDict (sc_nondefault sc new))"
    using read_existing_wf [OF assms(1,15)] assms(2,12) by (auto simp: schema_ok_def simp del: wf_json.simps(1))
  have "stored sc new = Some (JDict (sort_entries (sc_nondefault sc new)))" using nd by (auto simp: stored_def)
  with holds_after_patch(1) [OF assms(1) wf w(2)] obtain entries where
    "read_existing env (cw_disk w) f = Inr entries" "map_of entries s = Some (JDict (sort_entries (sc_nondefault sc new)))"
    by (auto simp: holds_value_def)
  moreover have "map_of (sort_entries (sc_nondefault sc new)) k = Some (JStr secret)"
    using wf(2) nd by (simp add: map_of_sort_entries)
  ultimately show ?thesis using w(1) by blast
qed

end
