(* ===== verification/Config_Instances.thy ===== *)
theory Config_Instances
  imports Config_Restart
begin

text \<open>
  A kernel with one configuration file and two sections in it: the instances of the properties of the
  configuration, and what else happens to a value that came from another layer.
\<close>

section \<open>A kernel that has read one file\<close>

definition demo_doc :: "(string \<times> json) list" where
  "demo_doc = [(''llm'', JDict [(''key'', JStr ''${secret:k}''), (''model'', JStr ''m1'')]), (''tools'', JDict [(''model'', JStr ''t1'')])]"

definition demo_disk :: disk where
  "demo_disk = [(''c.yaml'', ce_dump demo_yaml demo_doc)]"

definition demo_value :: "string \<Rightarrow> string \<Rightarrow> (string \<times> json) list" where
  "demo_value k m = [(''key'', JStr k), (''model'', JStr m)]"

definition demo_section_of :: "(string \<times> json) list \<Rightarrow> config_section" where
  "demo_section_of v = \<lparr>se_schema = demo_schema, se_value = v\<rparr>"

definition demo_manager :: config_manager where
  "demo_manager = \<lparr>cm_raw = [(''c'', JDict demo_doc)],
     cm_sections = [((''c'', ''llm''), demo_section_of (demo_value ''sk-1'' ''m1'')), ((''c'', ''tools''), demo_section_of (demo_value [] ''t1''))],
     cm_owned = [(''c'', ''llm''), (''c'', ''tools'')], cm_started = True\<rparr>"

definition demo_config_world :: config_world where
  "demo_config_world = \<lparr>cw_manager = demo_manager, cw_disk = demo_disk, cw_jobs = []\<rparr>"

lemma demo_collect: "collect (ce_load demo_yaml) (dir_listing demo_disk) None [] = Inr [(''c'', JDict demo_doc)]"
  by code_simp

lemma demo_startup:
  "config_startup demo_yaml (dir_listing demo_disk) None [] new_config_manager =
     Inr (new_config_manager\<lparr>cm_raw := [(''c'', JDict demo_doc)], cm_started := True\<rparr>)"
  by (simp add: config_startup_def demo_collect new_config_manager_def)

lemma demo_valid: "sc_validate demo_schema (demo_value k m) = Inr (demo_value k m)"
  by (simp add: demo_schema_def string_fields_def fill_def demo_value_def)

lemma demo_read: "read_existing demo_yaml demo_disk ''c'' = Inr demo_doc"
  by code_simp

lemma demo_bound:
  "bound demo_config_world (''c'', ''llm'') demo_schema (demo_value ''sk-1'' ''m1'')"
  "bound demo_config_world (''c'', ''tools'') demo_schema (demo_value [] ''t1'')"
  by (simp_all add: bound_def demo_config_world_def demo_manager_def demo_section_of_def)

section \<open>Instances\<close>

theorem restart_reads_update_witness:
  "\<exists>m'. bind_section demo_yaml (''c'', ''tools'') demo_schema (new_config_manager\<lparr>cm_raw := [(''c'', JDict demo_doc)], cm_started := True\<rparr>)
     = Inr (\<lparr>se_schema = demo_schema, se_value = demo_value [] ''t1''\<rparr>, m')"
proof (rule restart_reads_update [OF demo_schema_ok, where d = demo_disk and project_dir = None and cli = "[]" and higher = "[]"])
  show "valid_for demo_schema (demo_value [] ''t1'')"
    using demo_valid by (auto simp: valid_for_def)
  have "map_of demo_doc ''tools'' = stored demo_schema (demo_value [] ''t1'')" by code_simp
  then show "holds_value demo_yaml demo_disk (''c'', ''tools'') demo_schema (demo_value [] ''t1'')"
    by (simp add: holds_value_def demo_read)
  show "distinct (map fst demo_disk)" by (simp add: demo_disk_def)
  show "\<not> py_endswith (write_path ''c'') local_suffix" by code_simp
  show "expand_section demo_yaml (sort_entries (sc_nondefault demo_schema (demo_value [] ''t1''))) =
      Inr (sort_entries (sc_nondefault demo_schema (demo_value [] ''t1'')))" by code_simp
qed (simp_all add: demo_startup scan_layer_def silent_above_def override_docs_def parse_cli_overrides_def)

theorem concurrent_updates_lose_section_witness:
  "\<exists>acts w' entries. config_run demo_yaml acts demo_config_world = Some w'
    \<and> bound w' (''c'', ''llm'') demo_schema (demo_value ''sk-1'' ''m2'') \<and> bound w' (''c'', ''tools'') demo_schema (demo_value [] ''t2'')
    \<and> read_existing demo_yaml (cw_disk w') ''c'' = Inr entries
    \<and> map_of entries ''tools'' = stored demo_schema (demo_value [] ''t2'')
    \<and> map_of entries ''llm'' = map_option sort_value (map_of demo_doc ''llm'')"
proof (rule concurrent_updates_lose_section [OF demo_yaml_ok demo_schema_ok demo_schema_ok _ demo_bound demo_valid demo_valid])
  show "read_existing demo_yaml (cw_disk demo_config_world) ''c'' = Inr demo_doc" by (simp add: demo_config_world_def demo_read)
qed simp

lemma demo_serial_run:
  "\<exists>w. serial_run demo_yaml (update_alone (''c'', ''tools'') (demo_value [] ''t2'')) demo_config_world = Some w \<and> cw_jobs w = []
     \<and> map_of (cm_sections (cw_manager w)) (''c'', ''tools'') = Some (demo_section_of (demo_value [] ''t2''))"
  by (simp add: update_alone_def serial_start_def config_act_def demo_config_world_def demo_manager_def demo_section_of_def
      demo_valid update_step_def demo_read numeral_eq_Suc Let_def dict_pop_def)


theorem update_writes_secret_witness:
  "\<exists>w entries nd. config_run demo_yaml (update_alone (''c'', ''llm'') (demo_value ''sk-1'' ''m9''))
       \<lparr>cw_manager = snd (projr (bind_section demo_yaml (''c'', ''llm'') demo_schema
          (new_config_manager\<lparr>cm_raw := [(''c'', JDict demo_doc)], cm_started := True\<rparr>))), cw_disk = demo_disk, cw_jobs = []\<rparr> = Some w
    \<and> read_existing demo_yaml (cw_disk w) ''c'' = Inr entries \<and> map_of entries ''llm'' = Some (JDict nd)
    \<and> map_of nd ''key'' = Some (JStr ''sk-1'')"
proof -
  let ?m = "new_config_manager\<lparr>cm_raw := [(''c'', JDict demo_doc)], cm_started := True\<rparr>"
  let ?raw = "[(''key'', JStr ''${secret:k}''), (''model'', JStr ''m1'')]"
  have raw: "raw_section ?m (''c'', ''llm'') = Inr ?raw" by (simp add: raw_section_def demo_doc_def)
  have e: "expand_section demo_yaml ?raw = Inr (demo_value ''sk-1'' ''m1'')" by code_simp
  obtain m' where b: "bind_section demo_yaml (''c'', ''llm'') demo_schema ?m = Inr (\<lparr>se_schema = demo_schema, se_value = demo_value ''sk-1'' ''m1''\<rparr>, m')"
  proof -
    have "cm_owned ?m = []" "cm_sections ?m = []" by (simp_all add: new_config_manager_def)
    then have "\<exists>m'. bind_section demo_yaml (''c'', ''llm'') demo_schema ?m = Inr (\<lparr>se_schema = demo_schema, se_value = demo_value ''sk-1'' ''m1''\<rparr>, m')"
      by (simp add: bind_section_def get_or_create_section_def raw e demo_valid Let_def)
    with that show ?thesis by blast
  qed
  show ?thesis
    unfolding b sum.sel snd_conv
  proof (rule update_writes_secret [OF demo_yaml_ok demo_schema_ok _ _ _ _ raw _ _ b _ demo_valid _ _ demo_read,
        where name = "''k''" and resolver = "\<lambda>name. if name = ''k'' then Some ''sk-1'' else None"])
    show "map_of ?raw ''key'' = Some (JStr (secret_open @ ''k'' @ ''}''))" by code_simp
    show "map_of (sc_nondefault demo_schema (demo_value ''sk-1'' ''m9'')) ''key'' = map_of (demo_value ''sk-1'' ''m9'') ''key''"
      by code_simp
    show "\<forall>r v x. sc_validate demo_schema r = Inr v \<and> map_of r ''key'' = Some (JStr x) \<longrightarrow> map_of v ''key'' = Some (JStr x)"
      by (auto simp: demo_schema_def string_fields_def fill_def split: if_splits)
    show "ce_resolver demo_yaml = Some (\<lambda>name. if name = ''k'' then Some ''sk-1'' else None)" by (simp add: demo_yaml_def)
    show "map_of (demo_value ''sk-1'' ''m9'') ''key'' =
      map_of (se_value \<lparr>se_schema = demo_schema, se_value = demo_value ''sk-1'' ''m1''\<rparr>) ''key''" by (simp add: demo_value_def)
    show "map_of (cm_sections ?m) (''c'', ''llm'') = None" by (simp add: new_config_manager_def)
  qed simp_all
qed

theorem config_precedence_witness:
  "(case map_of (projr (collect (ce_load demo_yaml) (dir_listing demo_disk) (dir_listing demo_disk) [''c.llm.model=m5''])) ''c'' of
      None \<Rightarrow> None | Some v \<Rightarrow> leaf_at [''llm'', ''model''] v) = Some (JStr ''m5'')"
proof -
  let ?c = "collect (ce_load demo_yaml) (dir_listing demo_disk) (dir_listing demo_disk) [''c.llm.model=m5'']"
  let ?p = "config_pieces (ce_load demo_yaml) (dir_listing demo_disk) (dir_listing demo_disk) [''c.llm.model=m5'']"
  have "\<not> isl ?c" "\<not> isl ?p" by code_simp+
  then obtain merged pieces where m: "?c = Inr merged" "?p = Inr pieces" by (cases ?c; cases ?p) auto
  have "list_all wf_json (docs_of ''c'' (projr ?p))"
    "(case List.find (touches [''llm'', ''model'']) (rev (docs_of ''c'' (projr ?p))) of None \<Rightarrow> None | Some v \<Rightarrow> leaf_at [''llm'', ''model''] v)
      = Some (JStr ''m5'')" by code_simp+
  with config_precedence [OF m] m show ?thesis by (simp add: list_all_iff)
qed

section \<open>Values of other layers\<close>

text \<open>A value given once on the command line is in the global file for good after any update of its section.\<close>

lemma override_becomes_permanent:
  "(let m = projr (config_startup demo_yaml (dir_listing demo_disk) None [''c.tools.model=t7''] new_config_manager);
        (sec, m1) = projr (bind_section demo_yaml (''c'', ''tools'') demo_schema m);
        w = the (config_run demo_yaml (update_alone (''c'', ''tools'') (demo_value ''x'' (case map_of (se_value sec) ''model'' of Some (JStr s) \<Rightarrow> s)))
                   \<lparr>cw_manager = m1, cw_disk = demo_disk, cw_jobs = []\<rparr>)
    in se_value (fst (projr (bind_section demo_yaml (''c'', ''tools'') demo_schema
         (projr (config_startup demo_yaml (dir_listing (cw_disk w)) None [] new_config_manager)))))) = demo_value ''x'' ''t7''"
  by code_simp

text \<open>A value that a project file sets hides what the owner stores: it is lost with the restart.\<close>

lemma hidden_update_is_lost:
  "(let project = Some [(''c.yaml'', ce_dump demo_yaml [(''tools'', JDict [(''model'', JStr ''p'')])])];
        m = projr (config_startup demo_yaml (dir_listing demo_disk) project [] new_config_manager);
        (sec, m1) = projr (bind_section demo_yaml (''c'', ''tools'') demo_schema m);
        w = the (config_run demo_yaml (update_alone (''c'', ''tools'') (demo_value [] ''t9''))
                   \<lparr>cw_manager = m1, cw_disk = demo_disk, cw_jobs = []\<rparr>)
    in se_value (fst (projr (bind_section demo_yaml (''c'', ''tools'') demo_schema
         (projr (config_startup demo_yaml (dir_listing (cw_disk w)) project [] new_config_manager)))))) = demo_value [] ''p''"
  by code_simp

text \<open>\<open>disconnect\<close> is documented as idempotent; its second call removes another registration of the same slot.\<close>

lemma disconnect_twice: "signal_disconnect s (signal_disconnect s (signal_connect s (signal_connect s slots))) = remove1 s (remove1 s (slots @ [s, s]))"
  by (simp add: signal_connect_def signal_disconnect_def)

end
