(* ===== verification/File_Tools.thy ===== *)
theory File_Tools
  imports Runtime_Guard Shell_Lexer
begin

text \<open>
  The file tools: the cache of what was read (\<open>tools/file_state.py\<close>), reading a range of lines
  (\<open>tools/builtin/file_read.py\<close>), replacing text (\<open>file_edit.py\<close>) and writing a file (\<open>file_write.py\<close>). A
  file holds text and a modification time; \<open>resolve\<close> of the environment is the file system's resolution of an
  absolute path (symbolic links, \<open>..\<close>), \<open>hash_text\<close> the SHA-256 digest. Reading translates all line endings to a
  newline, as \<open>Path.read_text\<close> does. Images and PDF files, and files that are not text, are not modelled.
\<close>

section \<open>Text\<close>

fun universal_newlines :: "string \<Rightarrow> string" where
  "universal_newlines [] = []"
| "universal_newlines [c] = [if c = CHR 0x0D then CHR 0x0A else c]"
| "universal_newlines (c # d # s) =
     (if c = CHR 0x0D
      then CHR 0x0A # (if d = CHR 0x0A then universal_newlines s else universal_newlines (d # s))
      else c # universal_newlines (d # s))"

text \<open>\<open>str.count\<close> and \<open>str.replace\<close> look at occurrences that do not overlap, from the left.\<close>

function str_count :: "string \<Rightarrow> string \<Rightarrow> nat" where
  "str_count old s =
     (if old = [] then Suc (length s)
      else case s of
             [] \<Rightarrow> 0
           | c # u \<Rightarrow> if py_startswith s old then Suc (str_count old (drop (length old) s)) else str_count old u)"
  by pat_completeness auto
termination
  by (relation "measure (\<lambda>(old, s). length s)") auto

fun replace_first :: "string \<Rightarrow> string \<Rightarrow> string \<Rightarrow> string" where
  "replace_first old new s =
     (if py_startswith s old then new @ drop (length old) s
      else case s of [] \<Rightarrow> [] | c # u \<Rightarrow> c # replace_first old new u)"

function replace_all :: "string \<Rightarrow> string \<Rightarrow> string \<Rightarrow> string" where
  "replace_all old new s =
     (if old = [] then new @ concat (map (\<lambda>c. c # new) s)
      else case s of
             [] \<Rightarrow> []
           | c # u \<Rightarrow>
               if py_startswith s old then new @ replace_all old new (drop (length old) s)
               else c # replace_all old new u)"
  by pat_completeness auto
termination
  by (relation "measure (\<lambda>(old, new, s). length s)") auto

declare str_count.simps [simp del] replace_first.simps [simp del] replace_all.simps [simp del]

text \<open>\<open>str.splitlines(keepends=True)\<close>\<close>

definition line_end :: "char \<Rightarrow> bool" where
  "line_end c \<longleftrightarrow> (let n = (of_char c :: nat) in (10 \<le> n \<and> n \<le> 13) \<or> (28 \<le> n \<and> n \<le> 30) \<or> n = 133)"

fun splitlines_from :: "string \<Rightarrow> string \<Rightarrow> string list" where
  "splitlines_from cur [] = (if cur = [] then [] else [cur])"
| "splitlines_from cur (c # s) =
     (if line_end c
      then (case s of
              d # u \<Rightarrow>
                if c = CHR 0x0D \<and> d = CHR 0x0A then (cur @ [c, d]) # splitlines_from [] u
                else (cur @ [c]) # splitlines_from [] s
            | [] \<Rightarrow> [cur @ [c]])
      else splitlines_from (cur @ [c]) s)"

definition splitlines :: "string \<Rightarrow> string list" where
  "splitlines s = splitlines_from [] s"

section \<open>Files and the cache\<close>

record file_env =
  process_cwd :: string
  resolve :: "string \<Rightarrow> string"
  hash_text :: "string \<Rightarrow> string"

record file_state =
  fs_path :: string
  mtime_ns :: nat
  sha256_hex :: string

record files =
  disk_files :: "(string \<times> (string \<times> nat)) list"
  disk_dirs :: "string list"
  state_cache :: "(string \<times> file_state) list"

definition is_absolute :: "string \<Rightarrow> bool" where
  "is_absolute p \<longleftrightarrow> py_startswith p ''/''"

text \<open>The file a path names, relative to a directory.\<close>

definition resolve_in :: "file_env \<Rightarrow> string \<Rightarrow> string \<Rightarrow> string" where
  "resolve_in env dir p = resolve env (if is_absolute p then p else dir @ ''/'' @ p)"

definition exists_at :: "files \<Rightarrow> string \<Rightarrow> bool" where
  "exists_at w p \<longleftrightarrow> map_of (disk_files w) p \<noteq> None \<or> p \<in> set (disk_dirs w)"

definition read_text :: "files \<Rightarrow> string \<Rightarrow> string py" where
  "read_text w p =
     (case map_of (disk_files w) p of
        Some (body, m) \<Rightarrow> Inr (universal_newlines body)
      | None \<Rightarrow> Inl (PyExn (if p \<in> set (disk_dirs w) then ''IsADirectoryError'' else ''FileNotFoundError'')))"

definition write_text :: "nat \<Rightarrow> string \<Rightarrow> string \<Rightarrow> files \<Rightarrow> files py" where
  "write_text now p body w =
     (if p \<in> set (disk_dirs w) then Inl (PyExn ''IsADirectoryError'')
      else Inr (w\<lparr>disk_files := dict_set p (body, now) (disk_files w)\<rparr>))"

definition cache_record :: "file_env \<Rightarrow> string \<Rightarrow> string \<Rightarrow> files \<Rightarrow> files py" where
  "cache_record env p content w =
     (case map_of (disk_files w) p of
        None \<Rightarrow> Inl (PyExn ''FileNotFoundError'')
      | Some (body, m) \<Rightarrow>
          Inr (w\<lparr>state_cache := dict_set p \<lparr>fs_path = p, mtime_ns = m, sha256_hex = hash_text env content\<rparr> (state_cache w)\<rparr>))"

definition cache_verify :: "string \<Rightarrow> files \<Rightarrow> file_state option" where
  "cache_verify p w = map_of (state_cache w) p"

definition cache_invalidate :: "string \<Rightarrow> files \<Rightarrow> files" where
  "cache_invalidate p w = w\<lparr>state_cache := dict_pop p (state_cache w)\<rparr>"

section \<open>Inputs and permissions\<close>

definition truthy_arg :: "tool_input \<Rightarrow> string \<Rightarrow> json option" where
  "truthy_arg inp k = (case map_of inp k of Some v \<Rightarrow> if py_truthy v then Some v else None | None \<Rightarrow> None)"

definition py_str_value :: "(int \<Rightarrow> int \<Rightarrow> string) \<Rightarrow> json \<Rightarrow> string" where
  "py_str_value fl v = (case v of JStr s \<Rightarrow> s | _ \<Rightarrow> py_repr fl v)"

definition file_input_path :: "(int \<Rightarrow> int \<Rightarrow> string) \<Rightarrow> tool_input \<Rightarrow> string" where
  "file_input_path fl inp =
     (case truthy_arg inp ''file_path'' of
        Some v \<Rightarrow> py_str_value fl v
      | None \<Rightarrow> (case truthy_arg inp ''path'' of Some v \<Rightarrow> py_str_value fl v | None \<Rightarrow> []))"

definition is_within :: "string \<Rightarrow> string \<Rightarrow> bool" where
  "is_within p dir \<longleftrightarrow> p = dir \<or> py_startswith p (if dir = ''/'' then ''/'' else dir @ ''/'')"

definition file_suggest :: "risk \<Rightarrow> decision_kind \<Rightarrow> string \<Rightarrow> permission_suggestion" where
  "file_suggest r d reason = \<lparr>sg_risk = r, sg_default_decision = d, sg_reason = reason\<rparr>"

definition edit_default_risk ::
    "file_env \<Rightarrow> (int \<Rightarrow> int \<Rightarrow> string) \<Rightarrow> tool_input \<Rightarrow> authorize_context \<Rightarrow> permission_suggestion" where
  "edit_default_risk env fl inp ctx =
     (let p = file_input_path fl inp
      in if p \<noteq> [] \<and> is_within (resolve_in env (process_cwd env) p) (resolve_in env (process_cwd env) (cwd ctx))
         then file_suggest Low DAllow ''edit within cwd''
         else file_suggest High DAsk ''editing path outside cwd'')"

definition write_default_risk ::
    "file_env \<Rightarrow> (int \<Rightarrow> int \<Rightarrow> string) \<Rightarrow> files \<Rightarrow> tool_input \<Rightarrow> authorize_context \<Rightarrow> permission_suggestion" where
  "write_default_risk env fl w inp ctx =
     (let p = file_input_path fl inp; target = resolve_in env (process_cwd env) p
      in if p = [] \<or> \<not> is_within target (resolve_in env (process_cwd env) (cwd ctx))
         then file_suggest High DAsk ''write outside cwd''
         else if exists_at w target then file_suggest Medium DAsk ''overwriting existing file''
         else file_suggest Low DAllow ''creating new file in cwd'')"

definition write_is_destructive :: "file_env \<Rightarrow> (int \<Rightarrow> int \<Rightarrow> string) \<Rightarrow> files \<Rightarrow> tool_input \<Rightarrow> bool" where
  "write_is_destructive env fl w inp \<longleftrightarrow>
     file_input_path fl inp \<noteq> [] \<and> exists_at w (resolve_in env (process_cwd env) (file_input_path fl inp))"

definition file_matcher :: "(int \<Rightarrow> int \<Rightarrow> string) \<Rightarrow> tool_input \<Rightarrow> string \<Rightarrow> bool" where
  "file_matcher fl inp pattern = fnmatch pattern (file_input_path fl inp)"

definition string_arg :: "tool_input \<Rightarrow> string \<Rightarrow> string \<Rightarrow> string py" where
  "string_arg inp k message = (case map_of inp k of Some (JStr s) \<Rightarrow> Inr s | _ \<Rightarrow> Inl (PyExn message))"

definition edit_validate_input :: "(int \<Rightarrow> int \<Rightarrow> string) \<Rightarrow> tool_input \<Rightarrow> unit py" where
  "edit_validate_input fl inp =
     (if file_input_path fl inp = [] then Inl (PyExn ''file_path must be a non-empty string'')
      else ebind (string_arg inp ''old_string'' ''old_string must be a string'') (\<lambda>old.
           ebind (string_arg inp ''new_string'' ''new_string must be a string'') (\<lambda>new.
             if old = new then Inl (PyExn ''old_string and new_string are identical'') else Inr ())))"

definition write_validate_input :: "(int \<Rightarrow> int \<Rightarrow> string) \<Rightarrow> tool_input \<Rightarrow> unit py" where
  "write_validate_input fl inp =
     (if file_input_path fl inp = [] then Inl (PyExn ''file_path must be a non-empty string'')
      else ebind (string_arg inp ''content'' ''content must be a string'') (\<lambda>content. Inr ()))"

section \<open>Calls\<close>

text \<open>A result is an error text or the texts before and after the change.\<close>

datatype file_result = FileError string | FileChanged "string option" string

definition edit_call ::
    "file_env \<Rightarrow> (int \<Rightarrow> int \<Rightarrow> string) \<Rightarrow> nat \<Rightarrow> string \<Rightarrow> tool_input \<Rightarrow> files \<Rightarrow> file_result py \<times> files" where
  "edit_call env fl now dir inp w =
     (case (string_arg inp ''old_string'' ''KeyError'', string_arg inp ''new_string'' ''KeyError'') of
        (Inr old, Inr new) \<Rightarrow>
          (let p = resolve_in env dir (file_input_path fl inp);
               all = (case map_of inp ''replace_all'' of Some v \<Rightarrow> py_truthy v | None \<Rightarrow> False)
           in if \<not> exists_at w p then (Inr (FileError ''file not found''), w)
              else (case read_text w p of
                Inl e \<Rightarrow> (Inl e, w)
              | Inr current \<Rightarrow>
                  if (case cache_verify p w of Some st \<Rightarrow> sha256_hex st \<noteq> hash_text env current | None \<Rightarrow> False)
                  then (Inr (FileError ''changed on disk since last read''), w)
                  else if \<not> py_contains old current then (Inr (FileError ''old_string not found in file''), w)
                  else if \<not> all \<and> 1 < str_count old current
                  then (Inr (FileError ''old_string appears multiple times''), w)
                  else (let updated = (if all then replace_all old new current else replace_first old new current)
                        in case write_text now p updated w of
                             Inl e \<Rightarrow> (Inl e, w)
                           | Inr w' \<Rightarrow> (Inr (FileChanged (Some current) updated), cache_invalidate p w'))))
      | _ \<Rightarrow> (Inl (PyExn ''KeyError''), w))"

text \<open>The directories above a path; \<open>mkdir(parents=True, exist_ok=True)\<close> fails where one of them is a file.\<close>

definition parent_dirs :: "string \<Rightarrow> string list" where
  "parent_dirs p = map (\<lambda>i. take i p) (filter (\<lambda>i. 0 < i \<and> p ! i = CHR ''/'') [0..<length p])"

definition make_parents :: "string \<Rightarrow> files \<Rightarrow> files py" where
  "make_parents p w =
     (if list_ex (\<lambda>d. map_of (disk_files w) d \<noteq> None) (parent_dirs p) then Inl (PyExn ''NotADirectoryError'')
      else Inr (w\<lparr>disk_dirs := disk_dirs w @ filter (\<lambda>d. d \<notin> set (disk_dirs w)) (parent_dirs p)\<rparr>))"

definition write_call ::
    "file_env \<Rightarrow> (int \<Rightarrow> int \<Rightarrow> string) \<Rightarrow> nat \<Rightarrow> string \<Rightarrow> tool_input \<Rightarrow> files \<Rightarrow> file_result py \<times> files" where
  "write_call env fl now dir inp w =
     (case string_arg inp ''content'' ''KeyError'' of
        Inl e \<Rightarrow> (Inl e, w)
      | Inr content \<Rightarrow>
          (let p = resolve_in env dir (file_input_path fl inp);
               write = (\<lambda>existing.
                 (case make_parents p w of
                    Inl e \<Rightarrow> (Inl e, w)
                  | Inr w1 \<Rightarrow>
                      (case write_text now p content w1 of
                         Inl e \<Rightarrow> (Inl e, w1)
                       | Inr w2 \<Rightarrow> (Inr (FileChanged existing content), cache_invalidate p w2))))
           in if exists_at w p
              then (case read_text w p of
                      Inl e \<Rightarrow> (Inl e, w)
                    | Inr existing \<Rightarrow>
                        if (case cache_verify p w of Some st \<Rightarrow> sha256_hex st \<noteq> hash_text env existing | None \<Rightarrow> False)
                        then (Inr (FileError ''changed on disk since last read''), w)
                        else write (Some existing))
              else write None))"

section \<open>Reading\<close>

definition MAX_LINES_DEFAULT :: int where
  "MAX_LINES_DEFAULT = 2000"

definition MAX_CHARS :: int where
  "MAX_CHARS = 2000000"

definition int_of_arg :: "json \<Rightarrow> int py" where
  "int_of_arg v = (case py_int_of_json v of Some i \<Rightarrow> Inr i | None \<Rightarrow> Inl (PyExn ''ValueError''))"

text \<open>\<open>xs[a:b]\<close> for \<open>0 \<le> a\<close>: a negative end counts from the end of the list.\<close>

definition py_slice :: "'a list \<Rightarrow> nat \<Rightarrow> int \<Rightarrow> 'a list" where
  "py_slice xs a b = drop a (take (nat (if b < 0 then b + int (length xs) else b)) xs)"

record read_result =
  rr_content :: string
  rr_start :: int
  rr_end :: int
  rr_total :: nat
  rr_truncated :: bool

definition read_range :: "string \<Rightarrow> int \<Rightarrow> int \<Rightarrow> read_result" where
  "read_range raw_text start_line limit =
     (let ls = splitlines raw_text;
          end_line = min (int (length ls)) (start_line - 1 + limit);
          sliced = concat (py_slice ls (nat (start_line - 1)) end_line)
      in \<lparr>rr_content = (if MAX_CHARS < int (length sliced) then take (nat MAX_CHARS) sliced else sliced),
          rr_start = start_line, rr_end = end_line, rr_total = length ls,
          rr_truncated = (end_line < int (length ls) \<or> MAX_CHARS < int (length sliced))\<rparr>)"

text \<open>\<open>Path.suffix\<close>: from the last dot of the last component, unless the dot is its first or last character.\<close>

definition path_suffix :: "string \<Rightarrow> string" where
  "path_suffix p =
     (let name = rev (takeWhile (\<lambda>c. c \<noteq> CHR ''/'') (rev p));
          ext = rev (takeWhile (\<lambda>c. c \<noteq> CHR ''.'') (rev name))
      in if ext = name \<or> ext = [] \<or> length name = Suc (length ext) then [] else CHR ''.'' # ext)"

definition IMAGE_EXTS :: "string list" where
  "IMAGE_EXTS = [''.png'', ''.jpg'', ''.jpeg'', ''.webp'', ''.gif'']"

datatype read_outcome = ReadError string | ReadText read_result | ReadMedia

definition read_text_call ::
    "file_env \<Rightarrow> string \<Rightarrow> tool_input \<Rightarrow> files \<Rightarrow> read_outcome py \<times> files" where
  "read_text_call env p inp w =
     (let start = (case truthy_arg inp ''offset'' of
                     Some v \<Rightarrow> int_of_arg v
                   | None \<Rightarrow> (case truthy_arg inp ''start_line'' of Some v \<Rightarrow> int_of_arg v | None \<Rightarrow> Inr 1));
          limit = (case truthy_arg inp ''limit'' of Some v \<Rightarrow> int_of_arg v | None \<Rightarrow> Inr MAX_LINES_DEFAULT)
      in (case (start, limit) of
            (Inr i, Inr n) \<Rightarrow>
              (case read_text w p of
                 Inl e \<Rightarrow> (Inr (ReadError ''read failed''), w)
               | Inr raw_text \<Rightarrow>
                   (case cache_record env p raw_text w of
                      Inl e \<Rightarrow> (Inl e, w)
                    | Inr w' \<Rightarrow> (Inr (ReadText (read_range raw_text (max 1 i) n)), w')))
          | (Inl e, _) \<Rightarrow> (Inl e, w)
          | (_, Inl e) \<Rightarrow> (Inl e, w)))"

definition read_call ::
    "file_env \<Rightarrow> (int \<Rightarrow> int \<Rightarrow> string) \<Rightarrow> string \<Rightarrow> tool_input \<Rightarrow> files \<Rightarrow> read_outcome py \<times> files" where
  "read_call env fl dir inp w =
     (let named = file_input_path fl inp; p = resolve_in env dir named; ext = py_lower (path_suffix named)
      in if \<not> exists_at w p then (Inr (ReadError ''file not found''), w)
         else if map_of (disk_files w) p = None then (Inr (ReadError ''not a regular file''), w)
         else if ext \<in> set IMAGE_EXTS \<or> ext = ''.pdf'' then (Inr ReadMedia, w)
         else read_text_call env p inp w)"

section \<open>The tools\<close>

definition edit_tool :: "file_env \<Rightarrow> (int \<Rightarrow> int \<Rightarrow> string) \<Rightarrow> tool" where
  "edit_tool env fl =
     \<lparr>t_name = ''Edit'', t_aliases = [''FileEdit''], t_kind = KEdit,
      prepare_permission_matcher = (\<lambda>inp. Inr (\<lambda>p. Inr (file_matcher fl inp p))),
      default_risk = (\<lambda>inp ctx. Inr (edit_default_risk env fl inp ctx)),
      is_destructive = (\<lambda>inp. Inr False),
      is_read_only_call = (\<lambda>inp ctx. Inr (is_read_only KEdit)),
      user_facing_name = (\<lambda>inp. Inr ''Edit''),
      activity_description = (\<lambda>inp. Inr None),
      destructive_warning = (\<lambda>inp. Inr None)\<rparr>"

definition write_tool :: "file_env \<Rightarrow> (int \<Rightarrow> int \<Rightarrow> string) \<Rightarrow> files \<Rightarrow> tool" where
  "write_tool env fl w =
     \<lparr>t_name = ''Write'', t_aliases = [''FileWrite''], t_kind = KEdit,
      prepare_permission_matcher = (\<lambda>inp. Inr (\<lambda>p. Inr (file_matcher fl inp p))),
      default_risk = (\<lambda>inp ctx. Inr (write_default_risk env fl w inp ctx)),
      is_destructive = (\<lambda>inp. Inr (write_is_destructive env fl w inp)),
      is_read_only_call = (\<lambda>inp ctx. Inr (is_read_only KEdit)),
      user_facing_name = (\<lambda>inp. Inr ''Write''),
      activity_description = (\<lambda>inp. Inr None),
      destructive_warning = (\<lambda>inp. Inr None)\<rparr>"

definition read_tool :: "(int \<Rightarrow> int \<Rightarrow> string) \<Rightarrow> tool" where
  "read_tool fl =
     \<lparr>t_name = ''Read'', t_aliases = [''FileRead''], t_kind = KRead,
      prepare_permission_matcher = (\<lambda>inp. Inr (\<lambda>p. Inr (file_matcher fl inp p))),
      default_risk = (\<lambda>inp ctx. Inr (file_suggest Low DAllow ''file read within cwd is low-risk'')),
      is_destructive = (\<lambda>inp. Inr False),
      is_read_only_call = (\<lambda>inp ctx. Inr (is_read_only KRead)),
      user_facing_name = (\<lambda>inp. Inr ''Read''),
      activity_description = (\<lambda>inp. Inr None),
      destructive_warning = (\<lambda>inp. Inr None)\<rparr>"

end
