(* ===== verification/File_Safety.thy ===== *)
theory File_Safety
  imports File_Tools Authorizer
begin

text \<open>
  What the file tools guarantee: an edit replaces exactly the occurrence it names, a file that changed since it
  was read is not overwritten, and successive reads cover a file; and where they do not: line endings, edits
  after one's own edit, and relative paths.
\<close>

section \<open>Replacing\<close>

lemma replace_first_hit: "replace_first old new (old @ post) = new @ post"
  by (subst replace_first.simps) (simp add: py_startswith_def)

lemma replace_first_miss: "\<not> prefix old (c # s) \<Longrightarrow> replace_first old new (c # s) = c # replace_first old new s"
  by (subst replace_first.simps) (simp add: py_simps)

lemma str_count_Nil: "old \<noteq> [] \<Longrightarrow> str_count old [] = 0"
  by (subst str_count.simps) simp

lemma str_count_hit: "old \<noteq> [] \<Longrightarrow> str_count old (old @ post) = Suc (str_count old post)"
  by (cases old; subst str_count.simps) (simp_all add: py_startswith_def)

lemma str_count_miss: "old \<noteq> [] \<Longrightarrow> \<not> prefix old (c # s) \<Longrightarrow> str_count old (c # s) = str_count old s"
  by (subst str_count.simps) (simp add: py_simps)

text \<open>An occurrence of a text, cut out; the first one.\<close>

definition occurs_at :: "string \<Rightarrow> string \<Rightarrow> string \<Rightarrow> string \<Rightarrow> bool" where
  "occurs_at s pre old post \<longleftrightarrow> s = pre @ old @ post"

definition first_at :: "string \<Rightarrow> string \<Rightarrow> string \<Rightarrow> string \<Rightarrow> bool" where
  "first_at s pre old post \<longleftrightarrow>
     occurs_at s pre old post \<and> (\<forall>pre' post'. occurs_at s pre' old post' \<longrightarrow> length pre \<le> length pre')"

lemma first_at_later:
  assumes "\<not> prefix old (c # s)"
  shows "first_at (c # s) (c # pre) old post \<longleftrightarrow> first_at s pre old post"
proof
  assume f: "first_at (c # s) (c # pre) old post"
  have "length pre \<le> length pre'" if "s = pre' @ old @ post'" for pre' post'
    using f that unfolding first_at_def occurs_at_def by (metis append_Cons length_Cons Suc_le_mono)
  with f show "first_at s pre old post" by (simp add: first_at_def occurs_at_def)
next
  assume f: "first_at s pre old post"
  have "length (c # pre) \<le> length pre'" if "c # s = pre' @ old @ post'" for pre' post'
    using that assms f unfolding first_at_def occurs_at_def by (cases pre') (auto simp: prefix_def)
  with f show "first_at (c # s) (c # pre) old post" by (simp add: first_at_def occurs_at_def)
qed

lemma first_at_exists: "sublist old s \<Longrightarrow> \<exists>pre post. first_at s pre old post \<and> replace_first old new s = pre @ new @ post"
proof (induction s)
  case Nil
  then have "first_at [] [] old []" by (simp add: first_at_def occurs_at_def)
  moreover have "replace_first old new [] = [] @ new @ []" using Nil replace_first_hit [of old new "[]"] by simp
  ultimately show ?case by blast
next
  case (Cons c s)
  show ?case
  proof (cases "prefix old (c # s)")
    case True
    then obtain post where p: "c # s = old @ post" by (auto simp: prefix_def)
    then have "first_at (c # s) [] old post" by (simp add: first_at_def occurs_at_def)
    moreover from p have "replace_first old new (c # s) = [] @ new @ post" by (simp add: replace_first_hit)
    ultimately show ?thesis by blast
  next
    case False
    with Cons.prems have "sublist old s" by (simp add: sublist_Cons_right)
    from Cons.IH [OF this] obtain pre post
      where "first_at s pre old post" "replace_first old new s = pre @ new @ post" by blast
    with False have "first_at (c # s) (c # pre) old post" "replace_first old new (c # s) = (c # pre) @ new @ post"
      by (simp_all add: first_at_later replace_first_miss)
    then show ?thesis by blast
  qed
qed

lemma str_count_zero: "old \<noteq> [] \<Longrightarrow> str_count old s = 0 \<Longrightarrow> \<not> sublist old s"
proof (induction s)
  case (Cons c s)
  then show ?case
    by (cases "prefix old (c # s)") (auto simp: str_count_miss str_count_hit sublist_Cons_right prefix_def)
qed simp

lemma str_count_first: "old \<noteq> [] \<Longrightarrow> first_at s pre old post \<Longrightarrow> str_count old s = Suc (str_count old post)"
proof (induction pre arbitrary: s)
  case Nil
  then show ?case by (simp add: first_at_def occurs_at_def str_count_hit)
next
  case (Cons c pre)
  then obtain u where s: "s = c # u" by (auto simp: first_at_def occurs_at_def)
  have "\<not> prefix old s"
  proof
    assume "prefix old s"
    then obtain z where "s = [] @ old @ z" by (auto simp: prefix_def)
    with Cons.prems(2) show False unfolding first_at_def occurs_at_def by (metis length_Cons list.size(3) not_less_eq_eq zero_le)
  qed
  with Cons s show ?case by (simp add: str_count_miss first_at_later)
qed

section \<open>The calls, by their outcome\<close>

lemma write_text_files:
  "write_text now p body w = Inr w' \<Longrightarrow> disk_files w' = dict_set p (body, now) (disk_files w) \<and> state_cache w' = state_cache w"
  by (auto simp: write_text_def split: if_splits)

lemma edit_changed:
  assumes "edit_call env fl now dir inp w = (Inr (FileChanged before after), w')"
  obtains old new current where "map_of inp ''old_string'' = Some (JStr old)" "map_of inp ''new_string'' = Some (JStr new)"
    "read_text w (resolve_in env dir (file_input_path fl inp)) = Inr current" "before = Some current" "sublist old current"
    "after = (if (case map_of inp ''replace_all'' of Some v \<Rightarrow> py_truthy v | None \<Rightarrow> False) then replace_all old new current
              else replace_first old new current)"
    "(case map_of inp ''replace_all'' of Some v \<Rightarrow> py_truthy v | None \<Rightarrow> False) \<or> str_count old current \<le> 1"
    "disk_files w' = dict_set (resolve_in env dir (file_input_path fl inp)) (after, now) (disk_files w)"
    "state_cache w' = dict_pop (resolve_in env dir (file_input_path fl inp)) (state_cache w)"
  using assms
  by (auto simp: edit_call_def string_arg_def Let_def py_contains_sublist cache_invalidate_def dest!: write_text_files
      split: option.splits json.splits sum.splits if_splits)

lemma edit_refused:
  assumes "edit_call env fl now dir inp w = (r, w')" "\<forall>before after. r \<noteq> Inr (FileChanged before after)"
  shows "w' = w"
  using assms by (auto simp: edit_call_def Let_def split: sum.splits if_splits)

text \<open>Whether all occurrences are to be replaced, the path an input names.\<close>

definition replaces_all :: "tool_input \<Rightarrow> bool" where
  "replaces_all inp \<longleftrightarrow> (case map_of inp ''replace_all'' of Some v \<Rightarrow> py_truthy v | None \<Rightarrow> False)"

definition target_of :: "file_env \<Rightarrow> (int \<Rightarrow> int \<Rightarrow> string) \<Rightarrow> string \<Rightarrow> tool_input \<Rightarrow> string" where
  "target_of env fl dir inp = resolve_in env dir (file_input_path fl inp)"

lemmas call_simps = target_of_def replaces_all_def Let_def string_arg_def

definition stale :: "file_env \<Rightarrow> string \<Rightarrow> string \<Rightarrow> files \<Rightarrow> bool" where
  "stale env p current w \<longleftrightarrow> (\<exists>st. map_of (state_cache w) p = Some st \<and> sha256_hex st \<noteq> hash_text env current)"

lemma stale_case:
  "(case cache_verify p w of Some st \<Rightarrow> sha256_hex st \<noteq> hash_text env current | None \<Rightarrow> False) \<longleftrightarrow> stale env p current w"
  by (cases "map_of (state_cache w) p") (simp_all add: cache_verify_def stale_def)

lemma read_text_exists: "read_text w p = Inr current \<Longrightarrow> exists_at w p"
  by (auto simp: read_text_def exists_at_def split: option.splits)

lemma edit_stale:
  assumes "map_of inp ''old_string'' = Some (JStr old)" "map_of inp ''new_string'' = Some (JStr new)"
    and "read_text w (target_of env fl dir inp) = Inr current"
  shows "fst (edit_call env fl now dir inp w) = Inr (FileError ''changed on disk since last read'')
     \<longleftrightarrow> stale env (target_of env fl dir inp) current w"
  using assms read_text_exists [OF assms(3)]
  by (auto simp: edit_call_def call_simps stale_case split: sum.splits)

lemma write_stale:
  assumes "map_of inp ''content'' = Some (JStr content)"
    and "read_text w (target_of env fl dir inp) = Inr current"
  shows "fst (write_call env fl now dir inp w) = Inr (FileError ''changed on disk since last read'')
     \<longleftrightarrow> stale env (target_of env fl dir inp) current w"
  using assms read_text_exists [OF assms(2)]
  by (auto simp: write_call_def call_simps stale_case split: sum.splits)

section \<open>Edits replace one occurrence\<close>


section \<open>Edits after a change\<close>

text \<open>
  A run of the file tools and of others who change files; \<open>seen\<close> records, for a file, the text of the last read
  after which the tools have not written the file.
\<close>

datatype file_event =
  ReadFile string tool_input
| EditFile nat string tool_input
| WriteFile nat string tool_input
| ChangedOutside nat string "string option"

record watched =
  on_disk :: files
  seen :: "(string \<times> string) list"

definition new_files :: "(string \<times> (string \<times> nat)) list \<Rightarrow> string list \<Rightarrow> watched" where
  "new_files fs ds = \<lparr>on_disk = \<lparr>disk_files = fs, disk_dirs = ds, state_cache = []\<rparr>, seen = []\<rparr>"

definition after_write :: "string \<Rightarrow> file_result py \<times> files \<Rightarrow> watched \<Rightarrow> watched" where
  "after_write p result v =
     \<lparr>on_disk = snd result,
      seen = (case fst result of Inr (FileChanged before after) \<Rightarrow> dict_pop p (seen v) | _ \<Rightarrow> seen v)\<rparr>"

fun file_event_step :: "file_env \<Rightarrow> (int \<Rightarrow> int \<Rightarrow> string) \<Rightarrow> file_event \<Rightarrow> watched \<Rightarrow> watched" where
  "file_event_step env fl (ReadFile dir inp) v =
     (case read_call env fl dir inp (on_disk v) of
        (Inr (ReadText result), w) \<Rightarrow>
          (case read_text (on_disk v) (target_of env fl dir inp) of
             Inr body \<Rightarrow> \<lparr>on_disk = w, seen = dict_set (target_of env fl dir inp) body (seen v)\<rparr>
           | Inl e \<Rightarrow> v\<lparr>on_disk := w\<rparr>)
      | (_, w) \<Rightarrow> v\<lparr>on_disk := w\<rparr>)"
| "file_event_step env fl (EditFile now dir inp) v =
     after_write (target_of env fl dir inp) (edit_call env fl now dir inp (on_disk v)) v"
| "file_event_step env fl (WriteFile now dir inp) v =
     after_write (target_of env fl dir inp) (write_call env fl now dir inp (on_disk v)) v"
| "file_event_step env fl (ChangedOutside now p body) v =
     v\<lparr>on_disk := (on_disk v)\<lparr>disk_files :=
        (case body of Some b \<Rightarrow> dict_set p (b, now) (disk_files (on_disk v)) | None \<Rightarrow> dict_pop p (disk_files (on_disk v)))\<rparr>\<rparr>"

definition file_run :: "file_env \<Rightarrow> (int \<Rightarrow> int \<Rightarrow> string) \<Rightarrow> file_event list \<Rightarrow> watched \<Rightarrow> watched" where
  "file_run env fl events v = fold (file_event_step env fl) events v"

text \<open>The cache holds the digests of the texts seen.\<close>

definition cache_tracks :: "file_env \<Rightarrow> watched \<Rightarrow> bool" where
  "cache_tracks env v \<longleftrightarrow>
     (\<forall>p. map_option sha256_hex (map_of (state_cache (on_disk v)) p) = map_option (hash_text env) (map_of (seen v) p))"

lemma write_changed:
  assumes "write_call env fl now dir inp w = (Inr (FileChanged before after), w')"
  shows "state_cache w' = dict_pop (target_of env fl dir inp) (state_cache w)"
  using assms
  by (auto simp: write_call_def call_simps cache_invalidate_def make_parents_def dest!: write_text_files
      split: option.splits json.splits sum.splits if_splits)

lemma write_refused:
  assumes "write_call env fl now dir inp w = (r, w')" "\<forall>before after. r \<noteq> Inr (FileChanged before after)"
  shows "state_cache w' = state_cache w"
  using assms by (auto simp: write_call_def Let_def make_parents_def split: sum.splits if_splits)

lemma edit_cache:
  assumes "edit_call env fl now dir inp w = (Inr (FileChanged before after), w')"
  shows "state_cache w' = dict_pop (target_of env fl dir inp) (state_cache w)"
  using edit_changed [OF assms] by (metis target_of_def)

text \<open>
  What the two writing tools have in common: a call that changes its file drops the record of the read, any other
  keeps the cache, and it is refused as stale exactly if a digest is recorded and is not the current one.
\<close>

locale guarded_writer =
  fixes env :: file_env and p :: string and valid :: bool and call :: "files \<Rightarrow> file_result py \<times> files"
  assumes changed_drops:
      "call w = (Inr (FileChanged before after), w') \<Longrightarrow> state_cache w' = dict_pop p (state_cache w)"
    and refused_keeps:
      "call w = (r, w') \<Longrightarrow> \<forall>before after. r \<noteq> Inr (FileChanged before after) \<Longrightarrow> state_cache w' = state_cache w"
    and refuses_stale:
      "valid \<Longrightarrow> read_text w p = Inr current \<Longrightarrow>
         fst (call w) = Inr (FileError ''changed on disk since last read'') \<longleftrightarrow> stale env p current w"
begin

lemma keeps_tracking:
  assumes "cache_tracks env v"
  shows "cache_tracks env (after_write p (call (on_disk v)) v)"
proof -
  obtain r w' where c: "call (on_disk v) = (r, w')" by (cases "call (on_disk v)")
  show ?thesis
  proof (cases "\<exists>before after. r = Inr (FileChanged before after)")
    case True
    then obtain before after where r: "r = Inr (FileChanged before after)" by blast
    from changed_drops [OF c [unfolded r]] c r assms show ?thesis
      by (simp add: cache_tracks_def after_write_def map_of_dict_pop)
  next
    case False
    then have "(case r of Inr (FileChanged before after) \<Rightarrow> dict_pop p (seen v) | _ \<Rightarrow> seen v) = seen v"
      by (auto split: sum.splits file_result.splits)
    moreover have "state_cache w' = state_cache (on_disk v)" using refused_keeps [OF c] False by blast
    ultimately show ?thesis using c assms by (simp add: cache_tracks_def after_write_def)
  qed
qed

lemma refuses_exactly:
  assumes "cache_tracks env v" "valid" "read_text (on_disk v) p = Inr current"
    and "\<forall>t. map_of (seen v) p = Some t \<longrightarrow> hash_text env t = hash_text env current \<longrightarrow> t = current"
  shows "fst (call (on_disk v)) = Inr (FileError ''changed on disk since last read'')
     \<longleftrightarrow> (\<exists>t. map_of (seen v) p = Some t \<and> t \<noteq> current)"
proof -
  have "map_option sha256_hex (map_of (state_cache (on_disk v)) p) = map_option (hash_text env) (map_of (seen v) p)"
    using assms(1) by (simp add: cache_tracks_def)
  with assms(4) have "stale env p current (on_disk v) \<longleftrightarrow> (\<exists>t. map_of (seen v) p = Some t \<and> t \<noteq> current)"
    by (cases "map_of (state_cache (on_disk v)) p"; cases "map_of (seen v) p") (auto simp: stale_def)
  with refuses_stale [OF assms(2,3)] show ?thesis by simp
qed

end

definition edit_args :: "tool_input \<Rightarrow> bool" where
  "edit_args inp \<longleftrightarrow> string_arg inp ''old_string'' [] \<noteq> Inl (PyExn []) \<and> string_arg inp ''new_string'' [] \<noteq> Inl (PyExn [])"

definition write_args :: "tool_input \<Rightarrow> bool" where
  "write_args inp \<longleftrightarrow> string_arg inp ''content'' [] \<noteq> Inl (PyExn [])"

lemma string_arg_given: "string_arg inp k [] \<noteq> Inl (PyExn []) \<longleftrightarrow> (\<exists>s. map_of inp k = Some (JStr s))"
  by (auto simp: string_arg_def split: option.splits json.splits)

interpretation ew: guarded_writer env "target_of env fl dir inp" "edit_args inp" "edit_call env fl now dir inp"
  for env fl now dir inp
proof
  show "edit_call env fl now dir inp w = (Inr (FileChanged before after), w')
      \<Longrightarrow> state_cache w' = dict_pop (target_of env fl dir inp) (state_cache w)" for w w' before after
    by (rule edit_cache)
  show "edit_call env fl now dir inp w = (r, w') \<Longrightarrow> \<forall>before after. r \<noteq> Inr (FileChanged before after)
      \<Longrightarrow> state_cache w' = state_cache w" for w w' r
    using edit_refused by blast
qed (auto simp: edit_args_def string_arg_given intro: edit_stale [THEN iffD1] edit_stale [THEN iffD2])

interpretation ww: guarded_writer env "target_of env fl dir inp" "write_args inp" "write_call env fl now dir inp"
  for env fl now dir inp
proof
  show "write_call env fl now dir inp w = (r, w') \<Longrightarrow> \<forall>before after. r \<noteq> Inr (FileChanged before after)
      \<Longrightarrow> state_cache w' = state_cache w" for w w' r
    by (rule write_refused)
qed (auto simp: write_args_def string_arg_given dest: write_changed intro: write_stale [THEN iffD1] write_stale [THEN iffD2])

lemma read_records:
  "read_call env fl dir inp w = (r, w') \<Longrightarrow>
     (case r of
        Inr (ReadText result) \<Rightarrow>
          (\<exists>body m. read_text w (target_of env fl dir inp) = Inr body \<and>
             state_cache w' = dict_set (target_of env fl dir inp)
               \<lparr>fs_path = target_of env fl dir inp, mtime_ns = m, sha256_hex = hash_text env body\<rparr> (state_cache w))
      | _ \<Rightarrow> w' = w)"
  by (auto simp: read_call_def read_text_call_def cache_record_def call_simps split: option.splits sum.splits if_splits)

lemma tracks_step: "cache_tracks env v \<Longrightarrow> cache_tracks env (file_event_step env fl ev v)"
proof (cases ev)
  case (ReadFile dir inp)
  obtain r w' where c: "read_call env fl dir inp (on_disk v) = (r, w')" by (cases "read_call env fl dir inp (on_disk v)")
  assume "cache_tracks env v"
  with read_records [OF c] c ReadFile show ?thesis
    by (auto simp: cache_tracks_def map_of_dict_set split: sum.splits read_outcome.splits)
next
  case (EditFile now dir inp)
  then show "cache_tracks env v \<Longrightarrow> ?thesis" by (simp add: ew.keeps_tracking)
next
  case (WriteFile now dir inp)
  then show "cache_tracks env v \<Longrightarrow> ?thesis" by (simp add: ww.keeps_tracking)
next
  case (ChangedOutside now p body)
  then show "cache_tracks env v \<Longrightarrow> ?thesis" by (simp add: cache_tracks_def)
qed

lemma tracks_run: "cache_tracks env v \<Longrightarrow> cache_tracks env (file_run env fl events v)"
  unfolding file_run_def by (induction events arbitrary: v) (simp_all add: tracks_step)

text \<open>
  C23. The staleness check is exact. In every run of reads, edits, writes and changes from outside,
  \<open>Edit\<close> and \<open>Write\<close> refuse with the message that the file changed exactly if the file has been read since the tools last
  wrote it and its text is no longer the text read (the digest being free of collisions on these two texts).
  A file that was never read, or not since the last own write, is not protected.
\<close>

theorem stale_write_refused:
  assumes "v = file_run env fl events (new_files fs ds)" "read_text (on_disk v) (target_of env fl dir inp) = Inr current"
    and "\<forall>t. map_of (seen v) (target_of env fl dir inp) = Some t \<longrightarrow> hash_text env t = hash_text env current \<longrightarrow> t = current"
  shows "(edit_args inp \<longrightarrow>
           (fst (edit_call env fl now dir inp (on_disk v)) = Inr (FileError ''changed on disk since last read'')
             \<longleftrightarrow> (\<exists>t. map_of (seen v) (target_of env fl dir inp) = Some t \<and> t \<noteq> current)))
       \<and> (write_args inp \<longrightarrow>
           (fst (write_call env fl now dir inp (on_disk v)) = Inr (FileError ''changed on disk since last read'')
             \<longleftrightarrow> (\<exists>t. map_of (seen v) (target_of env fl dir inp) = Some t \<and> t \<noteq> current)))"
proof -
  have "cache_tracks env (new_files fs ds)" by (simp add: cache_tracks_def new_files_def)
  then have t: "cache_tracks env v" using assms(1) tracks_run by blast
  show ?thesis
    using ew.refuses_exactly [OF t _ assms(2,3)] ww.refuses_exactly [OF t _ assms(2,3)] by blast
qed

section \<open>Line endings\<close>

lemma universal_newlines_no_CR: "CHR 0x0D \<notin> set (universal_newlines s)"
  by (induction s rule: universal_newlines.induct) auto

lemma set_replace_first: "set (replace_first old new s) \<subseteq> set new \<union> set s"
proof (induction s)
  case Nil
  show ?case by (subst replace_first.simps) simp
next
  case (Cons c s)
  have "set (drop (length old) (c # s)) \<subseteq> set (c # s)" by (rule set_drop_subset)
  with Cons show ?case by (subst replace_first.simps) auto
qed

lemma set_replace_all: "set (replace_all old new s) \<subseteq> set new \<union> set s"
proof (induction "length s" arbitrary: s rule: less_induct)
  case less
  show ?case
  proof (cases s)
    case Nil
    then show ?thesis by (subst replace_all.simps) simp
  next
    case (Cons c u)
    show ?thesis
    proof (cases "old = []")
      case True
      then show ?thesis by (subst replace_all.simps) auto
    next
      case False
      then have "set (replace_all old new (drop (length old) s)) \<subseteq> set new \<union> set (drop (length old) s)"
        using Cons by (intro less) (simp add: diff_less)
      moreover have "set (replace_all old new u) \<subseteq> set new \<union> set u" using Cons by (intro less) simp
      ultimately show ?thesis
        using False Cons set_drop_subset [of "length old" s] by (subst replace_all.simps) (auto simp del: drop_Suc)
    qed
  qed
qed

text \<open>
  Editing a file with DOS line endings rewrites every line. The text is read with all line endings translated
  to a newline and written back as it is, so that after a successful edit whose \<open>new_string\<close> has no carriage return
  the file has none, in all the lines the edit does not name; the text shown as "before" has none either.
\<close>

theorem edit_normalises_line_endings:
  assumes "edit_call env fl now dir inp w = (Inr (FileChanged before after), w')"
    and "map_of inp ''new_string'' = Some (JStr new)" "CHR 0x0D \<notin> set new"
  shows "\<exists>current. before = Some current \<and> CHR 0x0D \<notin> set current
     \<and> map_of (disk_files w') (target_of env fl dir inp) = Some (after, now) \<and> CHR 0x0D \<notin> set after"
proof -
  obtain old new' current where e: "map_of inp ''new_string'' = Some (JStr new')"
    "read_text w (target_of env fl dir inp) = Inr current" "before = Some current"
    "after = (if replaces_all inp then replace_all old new' current else replace_first old new' current)"
    "disk_files w' = dict_set (target_of env fl dir inp) (after, now) (disk_files w)"
    using edit_changed [OF assms(1)] unfolding target_of_def replaces_all_def by metis
  have c: "read_text w (target_of env fl dir inp) = Inr current" "before = Some current"
    "after = (if replaces_all inp then replace_all old new current else replace_first old new current)"
    "disk_files w' = dict_set (target_of env fl dir inp) (after, now) (disk_files w)"
    using assms(2) e by simp_all
  from c(1) have "CHR 0x0D \<notin> set current"
    by (auto simp: read_text_def universal_newlines_no_CR split: option.splits)
  moreover from this c(3) assms(3) have "CHR 0x0D \<notin> set after"
    using set_replace_first [of old new current] set_replace_all [of old new current] by auto
  ultimately show ?thesis using c by (simp add: map_of_dict_set)
qed

section \<open>Reading by ranges\<close>

lemma concat_splitlines_from: "concat (splitlines_from cur s) = cur @ s"
  by (induction cur s rule: splitlines_from.induct) (auto split: list.splits)

lemma concat_splitlines: "concat (splitlines s) = s"
  by (simp add: splitlines_def concat_splitlines_from)

lemma read_range_content:
  assumes "1 \<le> i" "0 \<le> n" "int (length (concat (take (nat n) (drop (nat (i - 1)) (splitlines s))))) \<le> MAX_CHARS"
  shows "rr_content (read_range s i n) = concat (take (nat n) (drop (nat (i - 1)) (splitlines s)))"
proof -
  let ?ls = "splitlines s"
  have "py_slice ?ls (nat (i - 1)) (min (int (length ?ls)) (i - 1 + n)) = take (nat n) (drop (nat (i - 1)) ?ls)"
  proof -
    from assms(1,2) obtain a b where "i - 1 = int a" "n = int b" by (metis diff_ge_0_iff_ge nonneg_int_cases)
    then have "drop (nat (i - 1)) (take (nat (i - 1 + n)) ?ls) = take (nat n) (drop (nat (i - 1)) ?ls)"
      by (simp add: drop_take nat_add_distrib)
    moreover have "take (nat (min (int (length ?ls)) (i - 1 + n))) ?ls = take (nat (i - 1 + n)) ?ls"
      by (simp add: min_def)
    ultimately show ?thesis using assms(1,2) by (simp add: py_slice_def)
  qed
  with assms(3) show ?thesis by (simp add: read_range_def Let_def)
qed

text \<open>
  Reading a file in consecutive ranges reads all of it. A read of \<open>n\<close> lines followed by one of \<open>m\<close> lines from
  where it ended gives what one read of \<open>n + m\<close> lines gives, and reading as many lines as there are gives the text
  itself, as long as the cap on the characters of one answer is not hit.
\<close>

theorem ranges_cover_file:
  assumes "1 \<le> i" "0 \<le> n" "0 \<le> m" "int (length s) \<le> MAX_CHARS"
  shows "rr_content (read_range s i n) @ rr_content (read_range s (i + n) m) = rr_content (read_range s i (n + m))
     \<and> rr_content (read_range s 1 (int (length (splitlines s)) + m)) = s
     \<and> \<not> rr_truncated (read_range s 1 (int (length (splitlines s)) + m))"
proof -
  let ?ls = "splitlines s"
  have short: "int (length (concat (take a (drop b ?ls)))) \<le> MAX_CHARS" for a b
  proof -
    have "length (concat ?ls) = length (concat (take b ?ls)) + length (concat (take a (drop b ?ls)))
        + length (concat (drop a (drop b ?ls)))"
      by (metis append_assoc append_take_drop_id concat_append length_append)
    with assms(4) show ?thesis by (simp add: concat_splitlines)
  qed
  from assms(1-3) obtain a b c where "i - 1 = int a" "n = int b" "m = int c"
    by (metis diff_ge_0_iff_ge nonneg_int_cases)
  then have "take (nat n) (drop (nat (i - 1)) ?ls) @ take (nat m) (drop (nat (i + n - 1)) ?ls) = take (nat (n + m)) (drop (nat (i - 1)) ?ls)"
    using take_add [of b c "drop a ?ls"] by (simp add: nat_add_distrib add.commute add.left_commute diff_add_eq [symmetric])
  then have "concat (take (nat n) (drop (nat (i - 1)) ?ls)) @ concat (take (nat m) (drop (nat (i + n - 1)) ?ls))
      = concat (take (nat (n + m)) (drop (nat (i - 1)) ?ls))"
    by (metis concat_append)
  moreover have "rr_content (read_range s 1 (int (length ?ls) + m)) = s"
    using assms(3,4) read_range_content [of 1 "int (length ?ls) + m" s] by (simp add: nat_add_distrib concat_splitlines)
  moreover have "\<not> rr_truncated (read_range s 1 (int (length ?ls) + m))"
    using assms(3,4) by (simp add: read_range_def py_slice_def Let_def concat_splitlines)
  ultimately show ?thesis
    using assms(1-3) short by (simp add: read_range_content)
qed

section \<open>Two directories\<close>

lemma allowed_by_default:
  assumes "default_risk t inp ctx = Inr sg" "sg_default_decision sg = DAllow" "is_destructive t inp = Inr d"
    and "mode ctx \<noteq> MPlan" "snapshot (a_rules a) = []" "runtime_kill_denial (e_process env) t inp = None"
  shows "is_allow (decision_of env t inp ctx a)"
proof -
  have d: "decide [] t inp ctx =
      Inr \<lparr>matched_rule = None, rule_behavior = None, suggestion = sg, outcome_destructive = d\<rparr>"
    using assms(1,3) by (simp add: decide_def scan_init_def)
  have "\<exists>r. fst (authorize_rest env t inp ctx a) = Inr (PermissionAllow r)"
    using assms(2) by (auto simp: authorize_rest_def assms(5) d apply_outcome_def Let_def)
  with assms(4,6) show ?thesis
    by (auto simp: decision_of_eq authorize_impl_def split: option.splits)
qed

lemma edit_tool_not_shell: "runtime_kill_denial penv (edit_tool env fl) inp = None"
  by (simp add: runtime_kill_denial_def is_shell_tool_def edit_tool_def matches_name_def)

text \<open>
  C24. A relative path is judged against one directory and used against another. \<open>Edit.default_risk\<close> resolves the
  path in the directory the kernel process runs in, \<open>Edit.call\<close> in the working directory of the session. So a path
  that the process resolves to a place under the session's directory is edited without a question, without any allow
  rule or grant, although the file the call changes is outside it.
\<close>

theorem relative_edit_escapes:
  assumes "file_input_path fl inp \<noteq> []"
    and "is_within (resolve_in fenv (process_cwd fenv) (file_input_path fl inp)) (resolve_in fenv (process_cwd fenv) (cwd ctx))"
    and "\<not> is_within (target_of fenv fl (cwd ctx) inp) (resolve_in fenv (process_cwd fenv) (cwd ctx))"
    and "mode ctx \<noteq> MPlan" "snapshot (a_rules a) = []"
    and "edit_call fenv fl now (cwd ctx) inp w = (Inr (FileChanged before after), w')"
  shows "is_allow (decision_of env (edit_tool fenv fl) inp ctx a)
     \<and> (\<exists>p. \<not> is_within p (resolve_in fenv (process_cwd fenv) (cwd ctx)) \<and> map_of (disk_files w') p = Some (after, now))"
proof
  have "default_risk (edit_tool fenv fl) inp ctx = Inr (file_suggest Low DAllow ''edit within cwd'')"
    using assms(1,2) by (simp add: edit_tool_def edit_default_risk_def)
  then show "is_allow (decision_of env (edit_tool fenv fl) inp ctx a)"
    by (rule allowed_by_default [where d = False, OF _ _ _ assms(4,5) edit_tool_not_shell])
      (simp_all add: edit_tool_def file_suggest_def)
  have "map_of (disk_files w') (target_of fenv fl (cwd ctx) inp) = Some (after, now)"
    using edit_changed [OF assms(6)] unfolding target_of_def by (metis map_of_dict_set fun_upd_same)
  with assms(3) show "\<exists>p. \<not> is_within p (resolve_in fenv (process_cwd fenv) (cwd ctx)) \<and> map_of (disk_files w') p = Some (after, now)"
    by blast
qed

section \<open>On concrete files\<close>

definition demo_fs :: file_env where
  "demo_fs = \<lparr>process_cwd = ''/w/sub'', resolve = normpath, hash_text = (\<lambda>s. s)\<rparr>"

definition demo_files :: files where
  "demo_files =
     \<lparr>disk_files = [(''/w/a.txt'', (''one two one'', 1)), (''/b.txt'', (''x'', 1)), (''/w/dos.txt'', ([CHR ''a'', CHR 0x0D, CHR 0x0A, CHR ''b'', CHR 0x0D, CHR 0x0A], 1))],
      disk_dirs = [''/w'', ''/w/sub''], state_cache = []\<rparr>"

definition edit_input :: "string \<Rightarrow> string \<Rightarrow> string \<Rightarrow> tool_input" where
  "edit_input p old new = [(''file_path'', JStr p), (''old_string'', JStr old), (''new_string'', JStr new)]"

abbreviation no_floats :: "int \<Rightarrow> int \<Rightarrow> string" where
  "no_floats \<equiv> \<lambda>m e. []"

lemma demo_edit:
  "edit_call demo_fs no_floats 9 ''/w'' (edit_input ''a.txt'' ''two'' ''2'') demo_files =
     (Inr (FileChanged (Some ''one two one'') ''one 2 one''),
      demo_files\<lparr>disk_files := dict_set ''/w/a.txt'' (''one 2 one'', 9) (disk_files demo_files)\<rparr>)"
  by code_simp


definition stale_run :: "file_event list" where
  "stale_run = [ReadFile ''/w'' [(''file_path'', JStr ''a.txt'')], ChangedOutside 5 ''/w/a.txt'' (Some ''two three'')]"

definition demo_stale :: watched where
  "demo_stale = file_run demo_fs no_floats stale_run (new_files (disk_files demo_files) (disk_dirs demo_files))"

theorem stale_write_refused_witness:
  "fst (edit_call demo_fs no_floats 9 ''/w'' (edit_input ''a.txt'' ''two'' ''2'') (on_disk demo_stale))
     = Inr (FileError ''changed on disk since last read'')"
proof -
  let ?inp = "edit_input ''a.txt'' ''two'' ''2''"
  have r: "read_text (on_disk demo_stale) (target_of demo_fs no_floats ''/w'' ?inp) = Inr ''two three''" by code_simp
  have s: "map_of (seen demo_stale) (target_of demo_fs no_floats ''/w'' ?inp) = Some ''one two one''" by code_simp
  have i: "edit_args ?inp" by code_simp
  have h: "hash_text demo_fs t = t" for t by (simp add: demo_fs_def)
  have d: "''one two one'' \<noteq> ''two three''" by simp
  have "fst (edit_call demo_fs no_floats 9 ''/w'' ?inp (on_disk demo_stale)) = Inr (FileError ''changed on disk since last read'')
     \<longleftrightarrow> (\<exists>t. map_of (seen demo_stale) (target_of demo_fs no_floats ''/w'' ?inp) = Some t \<and> t \<noteq> ''two three'')"
    by (rule stale_write_refused [OF demo_stale_def r, THEN conjunct1, THEN mp]) (use h i in simp_all)
  with s d show ?thesis by blast
qed

definition dos_result :: "file_result py \<times> files" where
  "dos_result = edit_call demo_fs no_floats 9 ''/w'' (edit_input ''dos.txt'' ''a'' ''c'') demo_files"

theorem edit_normalises_line_endings_witness:
  "CHR 0x0D \<in> set (fst (the (map_of (disk_files demo_files) ''/w/dos.txt'')))
   \<and> (\<exists>after. map_of (disk_files (snd dos_result)) ''/w/dos.txt'' = Some (after, 9) \<and> CHR 0x0D \<notin> set after)"
proof -
  let ?inp = "edit_input ''dos.txt'' ''a'' ''c''"
  have "fst dos_result = Inr (FileChanged (Some [CHR ''a'', CHR 0x0A, CHR ''b'', CHR 0x0A]) [CHR ''c'', CHR 0x0A, CHR ''b'', CHR 0x0A])"
    by code_simp
  then obtain before after where "edit_call demo_fs no_floats 9 ''/w'' ?inp demo_files = (Inr (FileChanged before after), snd dos_result)"
    unfolding dos_result_def by (metis prod.collapse)
  moreover have "map_of ?inp ''new_string'' = Some (JStr ''c'')" "CHR 0x0D \<notin> set ''c''" by code_simp+
  moreover have "target_of demo_fs no_floats ''/w'' ?inp = ''/w/dos.txt''" by code_simp
  ultimately have "\<exists>after. map_of (disk_files (snd dos_result)) ''/w/dos.txt'' = Some (after, 9) \<and> CHR 0x0D \<notin> set after"
    using edit_normalises_line_endings by metis
  moreover have "CHR 0x0D \<in> set (fst (the (map_of (disk_files demo_files) ''/w/dos.txt'')))" by code_simp
  ultimately show ?thesis by blast
qed

theorem ranges_cover_file_witness:
  "rr_content (read_range ''a'' 1 1) @ rr_content (read_range ''a'' (1 + 1) 1) = rr_content (read_range ''a'' 1 (1 + 1))"
proof -
  have "int (length ''a'') \<le> MAX_CHARS" by code_simp
  from ranges_cover_file [OF _ _ _ this, of 1 1 1] show ?thesis by simp
qed

theorem relative_edit_escapes_witness:
  "is_allow (decision_of demo_env (edit_tool demo_fs no_floats) (edit_input ''../b.txt'' ''x'' ''2'') (demo_ctx\<lparr>cwd := ''/w''\<rparr>) new_authorizer)
   \<and> is_within ''/w/b.txt'' ''/w'' \<and> \<not> is_within ''/b.txt'' ''/w''"
proof -
  have "edit_call demo_fs no_floats 9 ''/w'' (edit_input ''../b.txt'' ''x'' ''2'') demo_files =
     (Inr (FileChanged (Some ''x'') ''2''), demo_files\<lparr>disk_files := dict_set ''/b.txt'' (''2'', 9) (disk_files demo_files)\<rparr>)"
    by code_simp
  then have e: "edit_call demo_fs no_floats 9 (cwd (demo_ctx\<lparr>cwd := ''/w''\<rparr>)) (edit_input ''../b.txt'' ''x'' ''2'') demo_files =
     (Inr (FileChanged (Some ''x'') ''2''), demo_files\<lparr>disk_files := dict_set ''/b.txt'' (''2'', 9) (disk_files demo_files)\<rparr>)"
    by simp
  have "is_allow (decision_of demo_env (edit_tool demo_fs no_floats) (edit_input ''../b.txt'' ''x'' ''2'') (demo_ctx\<lparr>cwd := ''/w''\<rparr>) new_authorizer)"
    by (rule relative_edit_escapes [OF _ _ _ _ _ e, THEN conjunct1]) code_simp+
  moreover have "is_within ''/w/b.txt'' ''/w''" "\<not> is_within ''/b.txt'' ''/w''" by code_simp+
  ultimately show ?thesis by blast
qed

section \<open>Where the tools promise more than they do\<close>

text \<open>An own edit drops the record of the read; a change from outside after it is overwritten without a warning.\<close>

lemma own_edit_ends_protection:
  "fst (write_call demo_fs no_floats 9 ''/w'' [(''file_path'', JStr ''a.txt''), (''content'', JStr ''mine'')]
      (on_disk (file_run demo_fs no_floats
         [ReadFile ''/w'' [(''file_path'', JStr ''a.txt'')], EditFile 4 ''/w'' (edit_input ''a.txt'' ''two'' ''2''),
          ChangedOutside 5 ''/w/a.txt'' (Some ''work of another'')]
         (new_files (disk_files demo_files) (disk_dirs demo_files)))))
     = Inr (FileChanged (Some ''work of another'') ''mine'')"
  by code_simp

text \<open>\<open>str.count\<close> does not see overlapping occurrences, so an ambiguous edit can pass as unambiguous.\<close>

lemma overlapping_occurrences:
  "str_count ''aba'' ''ababa'' = 1 \<and> occurs_at ''ababa'' [] ''aba'' ''ba'' \<and> occurs_at ''ababa'' ''ab'' ''aba'' []"
  by code_simp

text \<open>A negative limit reads lines from the end of the file, and reports an end before the start.\<close>

lemma negative_limit_reads_lines:
  "rr_content (read_range [CHR ''a'', CHR 0x0A, CHR ''b'', CHR 0x0A, CHR ''c''] 1 (- 1)) = [CHR ''a'', CHR 0x0A, CHR ''b'', CHR 0x0A]
   \<and> rr_end (read_range [CHR ''a'', CHR 0x0A, CHR ''b'', CHR 0x0A, CHR ''c''] 1 (- 1)) = - 1"
  by code_simp

text \<open>\<open>Read\<close> says "within cwd" of every path, and so reads any file of the machine without a question.\<close>

lemma read_outside_allowed:
  assumes "mode ctx \<noteq> MPlan" "snapshot (a_rules a) = []"
  shows "is_allow (decision_of env (read_tool fl) inp ctx a)"
proof -
  have "runtime_kill_denial (e_process env) (read_tool fl) inp = None"
    by (simp add: runtime_kill_denial_def is_shell_tool_def read_tool_def matches_name_def)
  moreover have "default_risk (read_tool fl) inp ctx = Inr (file_suggest Low DAllow ''file read within cwd is low-risk'')"
    by (simp add: read_tool_def)
  ultimately show ?thesis
    using allowed_by_default [where t = "read_tool fl" and d = False, OF _ _ _ assms]
    by (simp add: file_suggest_def) (simp add: read_tool_def)
qed

end
