(* ===== verification/Page_Ranges.thy ===== *)
theory Page_Ranges
  imports Runtime_Guard
begin

text \<open>
  The page ranges of a PDF request (\<open>_parse_pages\<close> and \<open>_format_page_list\<close> of \<open>tools/builtin/file_read.py\<close>): a
  request such as \<open>"1-3, 7"\<close> becomes the indices of the pages, counted from 0, and the indices of the answer become
  such a text again.
\<close>

section \<open>Definitions\<close>

definition PDF_MAX_PAGES_PER_REQUEST :: nat where
  "PDF_MAX_PAGES_PER_REQUEST = 20"

definition PDF_AUTO_LIMIT :: nat where
  "PDF_AUTO_LIMIT = 10"

fun split_commas :: "string \<Rightarrow> string list" where
  "split_commas [] = [[]]"
| "split_commas (c # s) =
     (if c = CHR '','' then [] # split_commas s
      else (case split_commas s of [] \<Rightarrow> [[c]] | w # ws \<Rightarrow> (c # w) # ws))"

text \<open>\<open>part.find("-", 1)\<close>: a dash that is not the sign of the first number.\<close>

definition find_dash :: "string \<Rightarrow> nat option" where
  "find_dash part =
     (case part of
        [] \<Rightarrow> None
      | c # s \<Rightarrow> if CHR ''-'' \<in> set s then Some (Suc (length (takeWhile (\<lambda>d. d \<noteq> CHR ''-'') s))) else None)"

definition part_pages :: "nat \<Rightarrow> string \<Rightarrow> nat list py" where
  "part_pages page_total part =
     (case find_dash part of
        Some d \<Rightarrow>
          (case (py_int_of_str (take d part), py_int_of_str (drop (Suc d) part)) of
             (Some lo, Some hi) \<Rightarrow>
               if lo < 1 \<or> hi < 1 then Inl (PyExn ''page numbers must be >= 1'')
               else if lo > hi then Inl (PyExn ''invalid range (start > end)'')
               else Inr (filter (\<lambda>i. i < page_total) [nat lo - 1 ..< nat hi])
           | _ \<Rightarrow> Inl (PyExn ''invalid page range''))
      | None \<Rightarrow>
          (case py_int_of_str part of
             None \<Rightarrow> Inl (PyExn ''invalid page number'')
           | Some p \<Rightarrow>
               if p < 1 then Inl (PyExn ''page numbers must be >= 1'')
               else Inr (if nat p \<le> page_total then [nat p - 1] else [])))"

fun collect_pages :: "nat \<Rightarrow> string list \<Rightarrow> nat list \<Rightarrow> nat list py" where
  "collect_pages page_total [] indices = Inr indices"
| "collect_pages page_total (part # parts) indices =
     (if py_strip part = [] then collect_pages page_total parts indices
      else ebind (part_pages page_total (py_strip part)) (\<lambda>found. collect_pages page_total parts (indices @ found)))"

definition parse_pages :: "string option \<Rightarrow> nat \<Rightarrow> nat list py" where
  "parse_pages spec page_total =
     (case spec of
        None \<Rightarrow>
          if PDF_AUTO_LIMIT < page_total then Inl (PyExn ''specify a page range'') else Inr [0..<page_total]
      | Some s \<Rightarrow>
          ebind (collect_pages page_total (split_commas s) []) (\<lambda>indices.
            if indices = [] then Inl (PyExn ''no valid pages in range'')
            else (let result = sort (remdups indices)
                  in if PDF_MAX_PAGES_PER_REQUEST < length result then Inl (PyExn ''too many pages'') else Inr result)))"

fun page_runs :: "nat \<Rightarrow> nat \<Rightarrow> nat list \<Rightarrow> (nat \<times> nat) list" where
  "page_runs start previous [] = [(start, previous)]"
| "page_runs start previous (p # ps) =
     (if p = Suc previous then page_runs start p ps else (start, previous) # page_runs p p ps)"

definition format_range :: "nat \<times> nat \<Rightarrow> string" where
  "format_range r =
     (if fst r = snd r then py_str_nat (fst r) else py_str_nat (fst r) @ ''-'' @ py_str_nat (snd r))"

definition format_page_list :: "nat list \<Rightarrow> string" where
  "format_page_list indices =
     (case map Suc indices of
        [] \<Rightarrow> []
      | p # ps \<Rightarrow> py_join '', '' (map format_range (page_runs p p ps)))"

section \<open>Reading back what was printed\<close>

lemma digits_no_mark: "list_all is_digit_char w \<Longrightarrow> CHR '','' \<notin> set w \<and> CHR ''-'' \<notin> set w"
  by (auto simp: list_all_iff is_digit_char_def)

lemma str_nat_no_mark: "CHR '','' \<notin> set (py_str_nat n)" "CHR ''-'' \<notin> set (py_str_nat n)"
  using digits_no_mark [OF py_str_nat_digits] by auto

lemma split_commas_word: "CHR '','' \<notin> set w \<Longrightarrow> split_commas w = [w]"
  by (induction w) auto

lemma split_commas_append: "CHR '','' \<notin> set w \<Longrightarrow> split_commas (w @ CHR '','' # s) = w # split_commas s"
  by (induction w) auto

lemma split_commas_join:
  "\<forall>w\<in>set (v # ws). CHR '','' \<notin> set w \<Longrightarrow>
     split_commas (py_join '', '' (v # ws)) = v # map (\<lambda>w. CHR '' '' # w) ws"
proof (induction ws arbitrary: v)
  case Nil
  then show ?case by (simp add: split_commas_word)
next
  case (Cons w ws)
  then have "split_commas (py_join '', '' (w # ws)) = w # map (\<lambda>w. CHR '' '' # w) ws" by simp
  with Cons.prems show ?case by (simp add: split_commas_append)
qed

lemma hd_last_format:
  "format_range r \<noteq> []" "is_digit_char (hd (format_range r))" "is_digit_char (last (format_range r))"
proof -
  have d: "is_digit_char (hd (py_str_nat n))" "is_digit_char (last (py_str_nat n))" for n
    using py_str_nat_digits [of n] by (auto simp: list_all_iff)
  show "format_range r \<noteq> []" "is_digit_char (hd (format_range r))" "is_digit_char (last (format_range r))"
    by (simp_all add: format_range_def d)
qed

lemma strip_format: "py_strip (format_range r) = format_range r" "py_strip (CHR '' '' # format_range r) = format_range r"
proof -
  have h: "\<not> py_isspace (hd (format_range r))" "\<not> py_isspace (last (format_range r))"
    using hd_last_format digit_not_space by blast+
  then show "py_strip (format_range r) = format_range r" using hd_last_format(1) by (intro py_strip_id) simp_all
  moreover have "py_lstrip (CHR '' '' # format_range r) = py_lstrip (format_range r)"
    by (simp add: py_lstrip_def py_isspace_def)
  ultimately show "py_strip (CHR '' '' # format_range r) = format_range r" by (simp add: py_strip_def)
qed

lemma find_dash_digits: "CHR ''-'' \<notin> set w \<Longrightarrow> find_dash w = None"
  by (cases w) (simp_all add: find_dash_def)

lemma find_dash_range:
  assumes "w \<noteq> []" "CHR ''-'' \<notin> set w"
  shows "find_dash (w @ CHR ''-'' # u) = Some (length w)"
proof (cases w)
  case (Cons c s)
  with assms(2) have "takeWhile (\<lambda>d. d \<noteq> CHR ''-'') (s @ CHR ''-'' # u) = s" by (simp add: takeWhile_append)
  with Cons show ?thesis by (simp add: find_dash_def)
qed (use assms in simp)

lemma part_pages_format:
  assumes "1 \<le> fst r" "fst r \<le> snd r" "snd r \<le> page_total"
  shows "part_pages page_total (format_range r) = Inr [fst r - 1 ..< snd r]"
proof (cases "fst r = snd r")
  case True
  with assms show ?thesis
    by (simp add: part_pages_def format_range_def find_dash_digits str_nat_no_mark py_int_of_str_nat_text upt_conv_Cons)
next
  case False
  have "filter (\<lambda>i. i < page_total) [fst r - 1 ..< snd r] = [fst r - 1 ..< snd r]"
    using assms(3) by (simp add: filter_id_conv)
  with False assms show ?thesis
    by (simp add: part_pages_def format_range_def find_dash_range str_nat_no_mark py_int_of_str_nat_text)
qed

definition run_ok :: "nat \<Rightarrow> nat \<times> nat \<Rightarrow> bool" where
  "run_ok page_total r \<longleftrightarrow> 1 \<le> fst r \<and> fst r \<le> snd r \<and> snd r \<le> page_total"

lemma collect_format:
  assumes "\<forall>(w, r)\<in>set parts. run_ok page_total r \<and> py_strip w = format_range r"
  shows "collect_pages page_total (map fst parts) acc = Inr (acc @ concat (map (\<lambda>(w, r). [fst r - 1 ..< snd r]) parts))"
  using assms
proof (induction parts arbitrary: acc)
  case (Cons x parts)
  obtain w r where x: "x = (w, r)" by (cases x)
  with Cons.prems have "run_ok page_total r" "py_strip w = format_range r" by auto
  then have "part_pages page_total (py_strip w) = Inr [fst r - 1 ..< snd r]" "py_strip w \<noteq> []"
    by (simp_all add: run_ok_def part_pages_format hd_last_format)
  with Cons x show ?case by simp
qed simp

lemma runs_expand:
  assumes "1 \<le> start" "start \<le> previous" "sorted_wrt (<) (previous # ps)"
  shows "concat (map (\<lambda>r. [fst r - 1 ..< snd r]) (page_runs start previous ps)) = [start - 1 ..< previous] @ map (\<lambda>p. p - 1) ps"
  using assms
proof (induction start previous ps rule: page_runs.induct)
  case (2 start previous p ps)
  show ?case
  proof (cases "p = Suc previous")
    case True
    with 2 show ?thesis by simp
  next
    case False
    with 2 have "concat (map (\<lambda>r. [fst r - 1 ..< snd r]) (page_runs p p ps)) = [p - 1 ..< p] @ map (\<lambda>p. p - 1) ps" by simp
    moreover have "[p - 1 ..< p] = [p - 1]" using 2(5) by (cases p) simp_all
    ultimately show ?thesis using False by simp
  qed
qed simp

lemma runs_ok:
  assumes "1 \<le> start" "start \<le> previous" "sorted_wrt (<) (previous # ps)" "\<forall>p\<in>set (previous # ps). p \<le> page_total"
  shows "\<forall>r\<in>set (page_runs start previous ps). run_ok page_total r"
  using assms
proof (induction start previous ps rule: page_runs.induct)
  case (2 start previous p ps)
  show ?case
  proof (cases "p = Suc previous")
    case True
    with 2 show ?thesis by simp
  next
    case False
    with 2 have "\<forall>r\<in>set (page_runs p p ps). run_ok page_total r" by simp
    with False 2 show ?thesis by (simp add: run_ok_def)
  qed
qed (simp add: run_ok_def)

lemma page_runs_Cons: "\<exists>r rs. page_runs start previous ps = r # rs"
  by (induction start previous ps rule: page_runs.induct) auto

lemma no_comma_format: "CHR '','' \<notin> set (format_range r)"
  by (simp add: format_range_def str_nat_no_mark)

text \<open>
  Page lists can be read back. The text printed for the pages of an answer, as a list of page numbers and ranges,
  parses to the same pages, for every increasing list of at most 20 pages of the document.
\<close>

theorem page_list_roundtrip:
  assumes "sorted_wrt (<) indices" "indices \<noteq> []" "\<forall>i\<in>set indices. i < page_total" "length indices \<le> PDF_MAX_PAGES_PER_REQUEST"
  shows "parse_pages (Some (format_page_list indices)) page_total = Inr indices"
proof -
  obtain i js where ij: "indices = i # js" using assms(2) by (cases indices) auto
  obtain r rs where runs: "page_runs (Suc i) (Suc i) (map Suc js) = r # rs"
    using page_runs_Cons by blast
  have s: "sorted_wrt (<) (Suc i # map Suc js)" using assms(1) ij by (simp add: sorted_wrt_map)
  have ok: "\<forall>q\<in>set (r # rs). run_ok page_total q"
  proof -
    have "\<forall>p\<in>set (Suc i # map Suc js). p \<le> page_total" using assms(3) ij by auto
    from runs_ok [OF _ order.refl s this] runs show ?thesis by simp
  qed
  define parts where "parts = (format_range r, r) # map (\<lambda>q. (CHR '' '' # format_range q, q)) rs"
  have f: "format_page_list indices = py_join '', '' (map format_range (r # rs))"
    by (simp only: format_page_list_def ij list.map list.case runs)
  have "split_commas (format_page_list indices) = format_range r # map (\<lambda>w. CHR '' '' # w) (map format_range rs)"
    unfolding f list.map by (rule split_commas_join) (use no_comma_format in auto)
  then have "split_commas (format_page_list indices) = map fst parts" by (simp add: parts_def comp_def)
  moreover have "collect_pages page_total (map fst parts) [] = Inr ([] @ concat (map (\<lambda>(w, q). [fst q - 1 ..< snd q]) parts))"
    by (rule collect_format) (use ok strip_format in \<open>auto simp: parts_def\<close>)
  moreover have "concat (map (\<lambda>(w, q). [fst q - 1 ..< snd q]) parts) = concat (map (\<lambda>q. [fst q - 1 ..< snd q]) (r # rs))"
    by (simp add: parts_def comp_def)
  moreover have "\<dots> = indices"
    using runs_expand [OF _ order.refl s] ij by (simp add: runs [symmetric] comp_def)
  ultimately have "collect_pages page_total (split_commas (format_page_list indices)) [] = Inr indices" by simp
  moreover have "sort (remdups indices) = indices"
    using assms(1) by (simp add: strict_sorted_iff distinct_remdups_id sorted_sort_id)
  ultimately show ?thesis using assms(2,4) by (simp add: parse_pages_def)
qed

theorem page_list_roundtrip_witness:
  "format_page_list [0, 1, 2, 5, 7, 8] = ''1-3, 6, 8-9'' \<and> parse_pages (Some (format_page_list [0, 1, 2, 5, 7, 8])) 9 = Inr [0, 1, 2, 5, 7, 8]"
proof
  show "format_page_list [0, 1, 2, 5, 7, 8] = ''1-3, 6, 8-9''" by code_simp
  show "parse_pages (Some (format_page_list [0, 1, 2, 5, 7, 8])) 9 = Inr [0, 1, 2, 5, 7, 8]"
    by (rule page_list_roundtrip) (simp_all add: PDF_MAX_PAGES_PER_REQUEST_def)
qed

section \<open>What a request can name\<close>

lemma part_pages_bound: "part_pages page_total part = Inr found \<Longrightarrow> i \<in> set found \<Longrightarrow> i < page_total"
  by (auto simp: part_pages_def split: option.splits if_splits)

lemma collect_pages_bound:
  "collect_pages page_total parts acc = Inr indices \<Longrightarrow> \<forall>i\<in>set acc. i < page_total \<Longrightarrow> \<forall>i\<in>set indices. i < page_total"
proof (induction parts arbitrary: acc)
  case (Cons part parts)
  show ?case
  proof (cases "py_strip part = []")
    case False
    with Cons.prems(1) obtain found where f: "part_pages page_total (py_strip part) = Inr found"
      "collect_pages page_total parts (acc @ found) = Inr indices" by (auto simp: ebind_Inr_iff)
    have "\<forall>i\<in>set (acc @ found). i < page_total" using Cons.prems(2) part_pages_bound [OF f(1)] by auto
    then show ?thesis by (rule Cons.IH [OF f(2)])
  qed (use Cons in simp)
qed simp

lemma parsed_pages_bounded:
  assumes "parse_pages spec page_total = Inr pages"
  shows "sorted pages \<and> distinct pages \<and> (\<forall>i\<in>set pages. i < page_total) \<and> length pages \<le> PDF_MAX_PAGES_PER_REQUEST"
  using assms collect_pages_bound [of page_total _ "[]"]
  by (auto simp: parse_pages_def ebind_Inr_iff Let_def PDF_AUTO_LIMIT_def PDF_MAX_PAGES_PER_REQUEST_def
      split: option.splits if_splits)

end
