(* ===== verification/Acp_Codec.thy ===== *)
theory Acp_Codec
  imports Kernel_Prelude
begin

text \<open>
  The frames of the protocol (\<open>core/protocol/acp/codec.py\<close>, \<open>core/protocol/interfaces/errors.py\<close>): decoding a JSON-RPC
  frame into a request, a notification or a response, and encoding what the kernel sends. \<open>orjson\<close> is an argument;
  a model that is sent is its JSON dump.
\<close>

section \<open>Errors\<close>

definition PARSE_ERROR :: int where "PARSE_ERROR = - 32700"
definition INVALID_REQUEST :: int where "INVALID_REQUEST = - 32600"
definition METHOD_NOT_FOUND :: int where "METHOD_NOT_FOUND = - 32601"
definition INVALID_PARAMS :: int where "INVALID_PARAMS = - 32602"
definition INTERNAL_ERROR :: int where "INTERNAL_ERROR = - 32603"
definition REQUEST_CANCELLED :: int where "REQUEST_CANCELLED = - 32800"

lemmas error_codes = PARSE_ERROR_def INVALID_REQUEST_def METHOD_NOT_FOUND_def INVALID_PARAMS_def INTERNAL_ERROR_def
  REQUEST_CANCELLED_def

text \<open>An exception with its error code (\<open>getattr(exc, "code", INTERNAL_ERROR)\<close>) and its text.\<close>

datatype proto_error = ProtoError int string

section \<open>Messages\<close>

type_synonym params = "(string \<times> json) list"

datatype acp_message =
  InRequest json json params "json option"
| InNotification json params "json option"
| InResponse json "json option" "json option"

datatype acp_outbound =
  OutResponse json json
| OutError json int string
| OutRequest json string json
| OutNotification string json

section \<open>Decoding\<close>

definition meta_of :: "params \<Rightarrow> json option" where
  "meta_of p = (case map_of p ''_meta'' of None \<Rightarrow> None | Some JNull \<Rightarrow> None | Some v \<Rightarrow> Some v)"

definition decode_params :: "params \<Rightarrow> params" where
  "decode_params p =
     (let p' = dict_pop ''_meta'' p
      in case meta_of p of
           Some m \<Rightarrow> if ''meta'' \<notin> set (map fst p') then dict_set ''meta'' m p' else p'
         | None \<Rightarrow> p')"

definition decode_object :: "params \<Rightarrow> proto_error + acp_message" where
  "decode_object obj =
     (if map_of obj ''jsonrpc'' \<noteq> Some (JStr ''2.0'')
      then Inl (ProtoError INVALID_REQUEST ''Missing or wrong jsonrpc field; expected 2.0'')
      else (case (case map_of obj ''params'' of
                    Some v \<Rightarrow> if py_truthy v then v else JDict []
                  | None \<Rightarrow> JDict []) of
              JDict p \<Rightarrow>
                (case (map_of obj ''method'', map_of obj ''id'') of
                   (Some m, Some i) \<Rightarrow> Inr (InRequest i m (decode_params p) (meta_of p))
                 | (Some m, None) \<Rightarrow> Inr (InNotification m (decode_params p) (meta_of p))
                 | (None, Some i) \<Rightarrow> Inr (InResponse i (map_of obj ''result'') (map_of obj ''error''))
                 | (None, None) \<Rightarrow> Inl (ProtoError INVALID_REQUEST ''Frame must have method or id''))
            | _ \<Rightarrow> Inl (ProtoError INVALID_REQUEST ''params must be a JSON object if present'')))"

definition decode :: "(string \<Rightarrow> json option) \<Rightarrow> string \<Rightarrow> proto_error + acp_message" where
  "decode loads raw =
     (case loads raw of
        None \<Rightarrow> Inl (ProtoError PARSE_ERROR ''JSON parse error'')
      | Some (JDict obj) \<Rightarrow> decode_object obj
      | Some v \<Rightarrow> Inl (ProtoError INVALID_REQUEST ''JSON-RPC frame must be a JSON object''))"

section \<open>Encoding\<close>

definition wire_key :: "string \<Rightarrow> string" where
  "wire_key k = (if k = ''meta'' then ''_meta'' else k)"

definition meta_entry :: "string \<times> json \<Rightarrow> params \<Rightarrow> params" where
  "meta_entry e d = dict_set (wire_key (fst e)) (snd e) d"

fun meta_to_wire :: "json \<Rightarrow> json" where
  "meta_to_wire (JDict d) = JDict (fold meta_entry (map (\<lambda>(k, v). (k, meta_to_wire v)) d) [])"
| "meta_to_wire (JList vs) = JList (map meta_to_wire vs)"
| "meta_to_wire v = v"

definition encode_frame :: "acp_outbound \<Rightarrow> params" where
  "encode_frame msg =
     (case msg of
        OutResponse i result \<Rightarrow> [(''jsonrpc'', JStr ''2.0''), (''id'', i), (''result'', meta_to_wire result)]
      | OutError i code message \<Rightarrow>
          [(''jsonrpc'', JStr ''2.0''), (''id'', i), (''error'', JDict [(''code'', JInt code), (''message'', JStr message)])]
      | OutRequest i m p \<Rightarrow>
          [(''jsonrpc'', JStr ''2.0''), (''id'', i), (''method'', JStr m), (''params'', meta_to_wire p)]
      | OutNotification m p \<Rightarrow> [(''jsonrpc'', JStr ''2.0''), (''method'', JStr m), (''params'', meta_to_wire p)])"

definition encode :: "(json \<Rightarrow> string) \<Rightarrow> acp_outbound \<Rightarrow> string" where
  "encode dumps msg = dumps (JDict (encode_frame msg))"

definition encode_error :: "proto_error \<Rightarrow> acp_outbound" where
  "encode_error e =
     (case e of ProtoError code message \<Rightarrow>
        OutError JNull code
          (if code = INTERNAL_ERROR then ''Internal error'' else if message = [] then ''Protocol error'' else message))"

section \<open>What a peer reads\<close>

text \<open>The message that a frame of the kernel is for a peer with the same codec.\<close>

definition frame_read :: "acp_outbound \<Rightarrow> acp_message" where
  "frame_read msg =
     (case msg of
        OutResponse i result \<Rightarrow> InResponse i (Some (meta_to_wire result)) None
      | OutError i code message \<Rightarrow>
          InResponse i None (Some (JDict [(''code'', JInt code), (''message'', JStr message)]))
      | OutRequest i m p \<Rightarrow>
          (case meta_to_wire p of JDict q \<Rightarrow> InRequest i (JStr m) (decode_params q) (meta_of q) | v \<Rightarrow> InRequest i (JStr m) [] None)
      | OutNotification m p \<Rightarrow>
          (case meta_to_wire p of JDict q \<Rightarrow> InNotification (JStr m) (decode_params q) (meta_of q) | v \<Rightarrow> InNotification (JStr m) [] None))"

definition object_params :: "acp_outbound \<Rightarrow> bool" where
  "object_params msg \<longleftrightarrow>
     (case msg of OutRequest i m p \<Rightarrow> (\<exists>q. p = JDict q) | OutNotification m p \<Rightarrow> (\<exists>q. p = JDict q) | _ \<Rightarrow> True)"

text \<open>Keys that are neither of the two names of the metadata.\<close>

definition plain_keys :: "params \<Rightarrow> bool" where
  "plain_keys p \<longleftrightarrow> ''_meta'' \<notin> set (map fst p) \<and> ''meta'' \<notin> set (map fst p)"

lemma decode_params_plain: "plain_keys p \<Longrightarrow> decode_params p = p \<and> meta_of p = None"
proof
  assume p: "plain_keys p"
  then have "map_of p ''_meta'' = None" by (simp add: plain_keys_def map_of_eq_None_iff)
  then show m: "meta_of p = None" by (simp add: meta_of_def)
  have "dict_pop ''_meta'' p = p" using p by (induction p) (auto simp: plain_keys_def dict_pop_def)
  with m show "decode_params p = p" by (simp add: decode_params_def)
qed

theorem frames_are_read:
  assumes "\<And>v. loads (dumps v) = Some v" "object_params msg"
  shows "decode loads (encode dumps msg) = Inr (frame_read msg)"
  using assms by (auto simp: decode_def encode_def decode_object_def encode_frame_def frame_read_def object_params_def
      meta_of_def decode_params_def dict_pop_def split: acp_outbound.splits)

text \<open>
  The renaming of \<open>meta\<close> goes into data too: a tool input with a field \<open>meta\<close> reaches the client under another
  name, and with both names one of the two values is lost.
\<close>

lemma meta_renaming_changes_data:
  "meta_to_wire (JDict [(''toolInput'', JDict [(''meta'', JStr ''a'')])]) = JDict [(''toolInput'', JDict [(''_meta'', JStr ''a'')])]
   \<and> meta_to_wire (JDict [(''_meta'', JStr ''a''), (''meta'', JStr ''b'')]) = JDict [(''_meta'', JStr ''b'')]"
  by code_simp

end
