(* ===== verification/Acp_Dispatch.thy ===== *)
theory Acp_Dispatch
  imports Acp_Codec
begin

text \<open>
  The dispatcher of one connection (\<open>core/protocol/acp/session_handler.py\<close>, \<open>routing.py\<close>, \<open>namespaces.py\<close>,
  \<open>handshake.py\<close>) under the transport loop (\<open>access/routes/session.py\<close>), which gives every connection a dispatcher
  of its own. A step is a stretch of code without a suspension. What the handlers of the session layer do
  is free: they push messages, ask the client and finish with any result.
\<close>

section \<open>Routing a request\<close>

datatype handler_target = ToSession | ToModel | ToSecrets | ToCommands | ToTools

definition REQUEST_DISPATCH :: "(string \<times> handler_target) list" where
  "REQUEST_DISPATCH =
     [(''_mustang.agent/commands/list'', ToCommands),
      (''_mustang.agent/web_fetch/backend_options'', ToTools), (''_mustang.agent/web_fetch/set_backend'', ToTools),
      (''_mustang.agent/web_fetch/get_config'', ToTools), (''_mustang.agent/web_fetch/set_config'', ToTools),
      (''session/new'', ToSession), (''session/load'', ToSession), (''session/resume'', ToSession),
      (''session/close'', ToSession), (''session/list'', ToSession), (''session/prompt'', ToSession),
      (''_mustang.agent/session/activate_skill'', ToSession), (''_mustang.agent/session/execute_shell'', ToSession),
      (''_mustang.agent/session/execute_python'', ToSession), (''_mustang.agent/session/cancel_execution'', ToSession),
      (''session/set_mode'', ToSession), (''session/set_config_option'', ToSession),
      (''_mustang.agent/session/rename'', ToSession), (''_mustang.agent/session/archive'', ToSession),
      (''_mustang.agent/session/delete'', ToSession), (''_mustang.agent/session/get_usage'', ToSession),
      (''_mustang.agent/session/tool_snapshot'', ToSession),
      (''_mustang.agent/model/profile_list'', ToModel), (''_mustang.agent/model/provider_list'', ToModel),
      (''_mustang.agent/model/provider_add'', ToModel), (''_mustang.agent/model/provider_remove'', ToModel),
      (''_mustang.agent/model/provider_refresh'', ToModel), (''_mustang.agent/model/set_current'', ToModel),
      (''_mustang.agent/model/add'', ToModel), (''_mustang.agent/model/update'', ToModel),
      (''_mustang.agent/llm/thinking_get'', ToModel), (''_mustang.agent/llm/thinking_set'', ToModel),
      (''_mustang.agent/secrets/auth'', ToSecrets)]"

definition NOTIFICATION_DISPATCH :: "string list" where
  "NOTIFICATION_DISPATCH = [''session/cancel'', ''_mustang.agent/session/cancel_execution'']"

definition RUNTIME_METHODS :: "string list" where
  "RUNTIME_METHODS = [''_mustang.agent/runtime/status'', ''_mustang.agent/runtime/restart'']"

text \<open>The methods that go through the Agent Hub when the prompt backend is the router.\<close>

definition ROUTER_MODEL_METHODS :: "string list" where
  "ROUTER_MODEL_METHODS =
     [''_mustang.agent/model/profile_list'', ''_mustang.agent/model/provider_list'',
      ''_mustang.agent/model/provider_add'', ''_mustang.agent/model/provider_remove'',
      ''_mustang.agent/model/provider_refresh'', ''_mustang.agent/model/set_current'', ''_mustang.agent/model/add'',
      ''_mustang.agent/model/update'', ''_mustang.agent/llm/thinking_get'', ''_mustang.agent/llm/thinking_set'']"

definition ROUTER_TOOLS_METHODS :: "string list" where
  "ROUTER_TOOLS_METHODS =
     [''_mustang.agent/web_fetch/backend_options'', ''_mustang.agent/web_fetch/set_backend'',
      ''_mustang.agent/web_fetch/get_config'', ''_mustang.agent/web_fetch/set_config'']"

definition ROUTER_METHODS :: "string list" where
  "ROUTER_METHODS =
     [''_mustang.agent/commands/list'', ''session/new'', ''session/list'', ''session/load'', ''session/resume'',
      ''session/prompt'', ''_mustang.agent/session/activate_skill'', ''session/close'', ''session/set_mode'',
      ''_mustang.agent/session/execute_shell'', ''_mustang.agent/session/execute_python'',
      ''_mustang.agent/session/cancel_execution'', ''_mustang.agent/session/get_usage'']
     @ ROUTER_MODEL_METHODS @ ROUTER_TOOLS_METHODS"

text \<open>The pydantic schema of a method, the environment and what is loaded.\<close>

record proto_env =
  valid_params :: "string \<Rightarrow> params \<Rightarrow> bool"
  router_backend :: bool
  hub_available :: bool
  control_available :: bool
  loaded :: "handler_target \<Rightarrow> bool"

datatype route = ToInitialize | ToAuthenticate | ToRuntime string | ToHub string | ToHandler handler_target string

definition invalid_params :: proto_error where
  "invalid_params = ProtoError INVALID_PARAMS ''Invalid params''"

definition hashable :: "json \<Rightarrow> bool" where
  "hashable v \<longleftrightarrow> (case v of JList vs \<Rightarrow> False | JDict d \<Rightarrow> False | _ \<Rightarrow> True)"

definition route_request :: "proto_env \<Rightarrow> bool \<Rightarrow> json \<Rightarrow> params \<Rightarrow> proto_error + route" where
  "route_request env initialized m p =
     (if m = JStr ''initialize''
      then (if initialized then Inl (ProtoError INVALID_REQUEST ''Connection already initialized'')
            else if valid_params env ''initialize'' p then Inr ToInitialize else Inl invalid_params)
      else if \<not> initialized
      then Inl (ProtoError INVALID_REQUEST ''Connection not initialized; send initialize first'')
      else (case m of
              JStr name \<Rightarrow>
                if name = ''authenticate''
                then (if valid_params env name p then Inr ToAuthenticate else Inl invalid_params)
                else if name \<in> set RUNTIME_METHODS
                then (if \<not> control_available env then Inl (ProtoError INTERNAL_ERROR ''Supervisor control is not available'')
                      else if valid_params env name p then Inr (ToRuntime name) else Inl invalid_params)
                else if router_backend env \<and> name \<in> set ROUTER_METHODS
                then (if name \<noteq> ''_mustang.agent/commands/list'' \<and> \<not> valid_params env name p then Inl invalid_params
                      else if hub_available env then Inr (ToHub name)
                      else Inl (ProtoError INTERNAL_ERROR ''Agent Hub endpoint is not available''))
                else (case map_of REQUEST_DISPATCH name of
                        None \<Rightarrow> Inl (ProtoError METHOD_NOT_FOUND ''Method not found'')
                      | Some t \<Rightarrow>
                          if \<not> valid_params env name p then Inl invalid_params
                          else if loaded env t then Inr (ToHandler t name)
                          else Inl (ProtoError INTERNAL_ERROR ''subsystem is not available''))
            | _ \<Rightarrow> if hashable m then Inl (ProtoError METHOD_NOT_FOUND ''Method not found'')
                  else Inl (ProtoError INTERNAL_ERROR ''TypeError'')))"

text \<open>The version that \<open>initialize\<close> agrees on.\<close>

definition SUPPORTED_VERSION :: int where
  "SUPPORTED_VERSION = 1"

definition negotiated_version :: "int \<Rightarrow> int" where
  "negotiated_version requested = (if requested \<le> SUPPORTED_VERSION then requested else SUPPORTED_VERSION)"

text \<open>\<open>_make_error_response\<close>: the text of an error that does not leak details.\<close>

definition error_text :: "proto_error \<Rightarrow> string" where
  "error_text e =
     (case e of ProtoError code message \<Rightarrow>
        if code = INTERNAL_ERROR then ''Internal error'' else if code = INVALID_PARAMS then ''Invalid params'' else message)"

definition make_error_response :: "json \<Rightarrow> proto_error \<Rightarrow> acp_outbound" where
  "make_error_response i e = (case e of ProtoError code message \<Rightarrow> OutError i code (error_text e))"

text \<open>Requests to the hub are repeated while no runtime is registered; the answers are those of the hub.\<close>

definition HUB_RUNTIME_RETRY_ATTEMPTS :: nat where
  "HUB_RUNTIME_RETRY_ATTEMPTS = 24"

fun hub_attempts :: "nat \<Rightarrow> (nat \<Rightarrow> params) \<Rightarrow> nat \<Rightarrow> params" where
  "hub_attempts 0 answer i = answer i"
| "hub_attempts (Suc left) answer i =
     (if map_of (answer i) ''error'' \<noteq> Some (JStr ''runtime_not_registered'') then answer i
      else hub_attempts left answer (Suc i))"

definition route_agent_contract :: "(nat \<Rightarrow> params) \<Rightarrow> proto_error + params" where
  "route_agent_contract answer =
     (let payload = hub_attempts (HUB_RUNTIME_RETRY_ATTEMPTS - 1) answer 0
      in if map_of payload ''ok'' = Some (JBool True) then Inr payload
         else Inl (ProtoError INTERNAL_ERROR ''hub contract failed''))"

section \<open>The state of a connection\<close>

text \<open>
  A dispatch of a request: its task waits to start, or drains the queue of the sender while the handler runs, or is
  gone while the handler goes on. The handler was not started yet, is running, or is done: with a result, an error, or nothing at all when it was
  cancelled before its first step. \<open>dt_asked\<close> is whether \<open>task.cancel()\<close> was called.
\<close>

datatype handler_state = NotStarted | Running | Returned json | Raised proto_error | NoResult

datatype dispatch_phase = Waiting | Draining | Orphaned

record dispatch =
  dt_id :: json
  dt_method :: json
  dt_params :: params
  dt_phase :: dispatch_phase
  dt_asked :: bool
  dt_handler :: handler_state

text \<open>
  \<open>received_ids\<close> keeps the ids of all requests, which are numbered in this order. A frame that was sent, with the number of the
  request it answers, if any. \<open>forgets\<close> below is the end of a question to the client, answered or not.
\<close>

datatype sent_frame = Answer nat acp_outbound | Pushed acp_outbound | Refused acp_outbound

record acp =
  initialized :: bool
  open_conn :: bool
  received_ids :: "json list"
  tasks :: "(nat \<times> dispatch) list"
  incoming :: "(json \<times> nat) list"
  client_cancelled :: "json list"
  sender_queue :: "acp_outbound list"
  next_ask :: int
  in_flight :: "(int \<times> (json, proto_error) sum option) list"
  sent :: "sent_frame list"

definition new_acp :: acp where
  "new_acp = \<lparr>initialized = False, open_conn = True, received_ids = [], tasks = [], incoming = [], client_cancelled = [],
              sender_queue = [], next_ask = 1, in_flight = [], sent = []\<rparr>"

text \<open>Python compares booleans and whole floats with integers.\<close>

definition id_key :: "json \<Rightarrow> json" where
  "id_key v =
     (case v of
        JBool b \<Rightarrow> JInt (if b then 1 else 0)
      | JFloat m e \<Rightarrow>
          if 0 \<le> e then JInt (m * 10 ^ nat e)
          else if m mod 10 ^ nat (- e) = 0 then JInt (m div 10 ^ nat (- e)) else v
      | _ \<Rightarrow> v)"

definition set_handler :: "nat \<Rightarrow> dispatch \<Rightarrow> handler_state \<Rightarrow> acp \<Rightarrow> acp" where
  "set_handler n t h c = c\<lparr>tasks := dict_set n (t\<lparr>dt_handler := h\<rparr>) (tasks c)\<rparr>"

definition handler_done :: "handler_state \<Rightarrow> bool" where
  "handler_done h \<longleftrightarrow> h \<noteq> NotStarted \<and> h \<noteq> Running"

section \<open>Steps\<close>

text \<open>The transport: a frame that cannot be decoded is refused, a request gets a task of its own.\<close>

definition refuse_frame :: "proto_error \<Rightarrow> acp \<Rightarrow> acp" where
  "refuse_frame e c = c\<lparr>sent := sent c @ [Refused (encode_error e)]\<rparr>"

definition receive_request :: "json \<Rightarrow> json \<Rightarrow> params \<Rightarrow> acp \<Rightarrow> acp" where
  "receive_request i m p c =
     c\<lparr>tasks := dict_set (length (received_ids c))
         \<lparr>dt_id = i, dt_method = m, dt_params = p, dt_phase = Waiting, dt_asked = False, dt_handler = NotStarted\<rparr> (tasks c),
       received_ids := received_ids c @ [i]\<rparr>"

text \<open>
  \<open>_handle_request\<close> starts: the task of the handler is created and filed under the id. With an id that is not
  hashable the filing raises: the dispatch ends there, the handler goes on.
\<close>

definition begin_dispatch :: "nat \<Rightarrow> dispatch \<Rightarrow> acp \<Rightarrow> acp" where
  "begin_dispatch n t c =
     (if hashable (dt_id t)
      then c\<lparr>tasks := dict_set n (t\<lparr>dt_phase := Draining\<rparr>) (tasks c), incoming := dict_set (id_key (dt_id t)) n (incoming c)\<rparr>
      else c\<lparr>tasks := dict_set n (t\<lparr>dt_phase := Orphaned\<rparr>) (tasks c)\<rparr>)"

definition initialize_result :: "params \<Rightarrow> json" where
  "initialize_result p =
     JDict [(''protocolVersion'',
       JInt (negotiated_version (case map_of p ''protocolVersion'' of Some (JInt v) \<Rightarrow> v | _ \<Rightarrow> SUPPORTED_VERSION)))]"

text \<open>The handler's first stretch: routing, and the two methods that are answered at once.\<close>

definition start_handler :: "proto_env \<Rightarrow> nat \<Rightarrow> dispatch \<Rightarrow> acp \<Rightarrow> acp" where
  "start_handler env n t c =
     (if dt_asked t then set_handler n t NoResult c
      else (case route_request env (initialized c) (dt_method t) (dt_params t) of
              Inl e \<Rightarrow> set_handler n t (Raised e) c
            | Inr ToInitialize \<Rightarrow> set_handler n t (Returned (initialize_result (dt_params t))) (c\<lparr>initialized := True\<rparr>)
            | Inr ToAuthenticate \<Rightarrow> set_handler n t (Returned (JDict [])) c
            | Inr r \<Rightarrow> set_handler n t Running c))"

text \<open>A \<open>CancelledError\<close> in the handler: who asked for it decides what the client is told.\<close>

definition cancelled_result :: "dispatch \<Rightarrow> acp \<Rightarrow> handler_state" where
  "cancelled_result t c =
     (if id_key (dt_id t) \<in> set (client_cancelled c) then Raised (ProtoError REQUEST_CANCELLED ''Request cancelled'')
      else if dt_method t = JStr ''session/prompt'' then Returned (JDict [(''stopReason'', JStr ''cancelled'')])
      else Raised (ProtoError REQUEST_CANCELLED ''Request cancelled''))"

text \<open>\<open>notify\<close> and \<open>request\<close> of the sender.\<close>

definition push_frame :: "acp_outbound \<Rightarrow> acp \<Rightarrow> acp" where
  "push_frame f c = c\<lparr>sender_queue := sender_queue c @ [f]\<rparr>"

definition ask_client :: "string \<Rightarrow> json \<Rightarrow> acp \<Rightarrow> acp" where
  "ask_client m p c =
     push_frame (OutRequest (JInt (next_ask c)) m p)
       (c\<lparr>in_flight := dict_set (next_ask c) None (in_flight c), next_ask := next_ask c + 1\<rparr>)"

definition resolve_response :: "json \<Rightarrow> json option \<Rightarrow> json option \<Rightarrow> acp \<Rightarrow> acp" where
  "resolve_response i result error c =
     (case id_key i of
        JInt n \<Rightarrow>
          (case map_of (in_flight c) n of
             Some None \<Rightarrow>
               c\<lparr>in_flight := dict_set n
                   (Some (case error of
                      Some e \<Rightarrow> if e = JNull then Inl (case result of Some v \<Rightarrow> if py_truthy v then v else JDict [] | None \<Rightarrow> JDict [])
                                else Inr (ProtoError INTERNAL_ERROR ''error of the client'')
                    | None \<Rightarrow> Inl (case result of Some v \<Rightarrow> if py_truthy v then v else JDict [] | None \<Rightarrow> JDict [])))
                   (in_flight c)\<rparr>
           | _ \<Rightarrow> c)
      | _ \<Rightarrow> c)"

definition drain_queue :: "acp \<Rightarrow> acp" where
  "drain_queue c = c\<lparr>sent := sent c @ map Pushed (sender_queue c), sender_queue := []\<rparr>"

definition pump_one :: "acp \<Rightarrow> acp" where
  "pump_one c =
     (case sender_queue c of [] \<Rightarrow> c | f # q \<Rightarrow> c\<lparr>sent := sent c @ [Pushed f], sender_queue := q\<rparr>)"

definition answer_of :: "dispatch \<Rightarrow> acp_outbound" where
  "answer_of t =
     (case dt_handler t of
        Returned v \<Rightarrow> OutResponse (dt_id t) v
      | Raised e \<Rightarrow> make_error_response (dt_id t) e
      | _ \<Rightarrow> make_error_response (dt_id t) (ProtoError INTERNAL_ERROR ''handler produced no result''))"

text \<open>The end of \<open>_handle_request\<close>: the record of the id is dropped, the queue drained, the answer sent.\<close>

definition complete_dispatch :: "nat \<Rightarrow> dispatch \<Rightarrow> acp \<Rightarrow> acp" where
  "complete_dispatch n t c =
     (let c1 = drain_queue (c\<lparr>incoming := dict_pop (id_key (dt_id t)) (incoming c),
                             client_cancelled := filter (\<lambda>i. i \<noteq> id_key (dt_id t)) (client_cancelled c)\<rparr>)
      in c1\<lparr>tasks := dict_pop n (tasks c1), sent := sent c1 @ [Answer n (answer_of t)]\<rparr>)"

text \<open>\<open>$/cancel_request\<close> looks up the task filed under the id.\<close>

definition cancel_incoming :: "json \<Rightarrow> acp \<Rightarrow> acp" where
  "cancel_incoming i c =
     (case map_of (incoming c) (id_key i) of
        None \<Rightarrow> c
      | Some n \<Rightarrow>
          (case map_of (tasks c) n of
             None \<Rightarrow> c
           | Some t \<Rightarrow>
               if handler_done (dt_handler t) then c
               else c\<lparr>client_cancelled := id_key i # client_cancelled c,
                      tasks := dict_set n (t\<lparr>dt_asked := True\<rparr>) (tasks c)\<rparr>))"

text \<open>The schema of the notification: an id is a string or an integer.\<close>

definition cancellable :: "json \<Rightarrow> bool" where
  "cancellable i \<longleftrightarrow> (case i of JStr s \<Rightarrow> True | JInt k \<Rightarrow> True | _ \<Rightarrow> False)"

text \<open>
  Other notifications: \<open>session/cancel\<close> is handled before the handshake, others not; what the session layer does is
  free, and what is in the queue then is drained. The connection drops: all tasks are cancelled, pending questions
  of the kernel are abandoned.
\<close>

definition notification_accepted :: "proto_env \<Rightarrow> string \<Rightarrow> params \<Rightarrow> acp \<Rightarrow> bool" where
  "notification_accepted env m p c \<longleftrightarrow>
     \<not> (router_backend env \<and> m = ''session/cancel'') \<and> m \<in> set NOTIFICATION_DISPATCH
       \<and> (initialized c \<or> m = ''session/cancel'') \<and> valid_params env m p \<and> loaded env ToSession"

definition drop_connection :: "acp \<Rightarrow> acp" where
  "drop_connection c = c\<lparr>open_conn := False, tasks := [], in_flight := []\<rparr>"

inductive acp_step :: "proto_env \<Rightarrow> acp \<Rightarrow> acp \<Rightarrow> bool" for env where
  bad_frame: "open_conn c \<Longrightarrow> acp_step env c (refuse_frame e c)"
| request: "open_conn c \<Longrightarrow> acp_step env c (receive_request i m p c)"
| begins: "map_of (tasks c) n = Some t \<Longrightarrow> dt_phase t = Waiting \<Longrightarrow> acp_step env c (begin_dispatch n t c)"
| starts: "map_of (tasks c) n = Some t \<Longrightarrow> dt_phase t \<noteq> Waiting \<Longrightarrow> dt_handler t = NotStarted \<Longrightarrow> acp_step env c (start_handler env n t c)"
| returns: "map_of (tasks c) n = Some t \<Longrightarrow> dt_handler t = Running \<Longrightarrow> acp_step env c (set_handler n t (Returned v) c)"
| raises: "map_of (tasks c) n = Some t \<Longrightarrow> dt_handler t = Running \<Longrightarrow> acp_step env c (set_handler n t (Raised e) c)"
| cancelled: "map_of (tasks c) n = Some t \<Longrightarrow> dt_handler t = Running \<Longrightarrow> acp_step env c (set_handler n t (cancelled_result t c) c)"
| pushes: "open_conn c \<Longrightarrow> acp_step env c (push_frame (OutNotification m p) c)"
| asks: "open_conn c \<Longrightarrow> acp_step env c (ask_client m p c)"
| pumps: "map_of (tasks c) n = Some t \<Longrightarrow> dt_phase t = Draining \<Longrightarrow> acp_step env c (pump_one c)"
| completes: "map_of (tasks c) n = Some t \<Longrightarrow> dt_phase t = Draining \<Longrightarrow> handler_done (dt_handler t) \<Longrightarrow> acp_step env c (complete_dispatch n t c)"
| forgets: "acp_step env c (c\<lparr>in_flight := dict_pop k (in_flight c)\<rparr>)"
| response: "open_conn c \<Longrightarrow> acp_step env c (resolve_response i result error c)"
| cancel: "open_conn c \<Longrightarrow> cancellable i \<Longrightarrow> acp_step env c (cancel_incoming i c)"
| notified: "open_conn c \<Longrightarrow> notification_accepted env m p c \<Longrightarrow> acp_step env c (drain_queue c)"
| drops: "open_conn c \<Longrightarrow> acp_step env c (drop_connection c)"

inductive acp_run :: "proto_env \<Rightarrow> acp \<Rightarrow> acp \<Rightarrow> bool" for env where
  refl: "acp_run env c c"
| step: "acp_run env c d \<Longrightarrow> acp_step env d e \<Longrightarrow> acp_run env c e"

inductive_cases acp_stepE: "acp_step env c d"

end
