(* ===== verification/Acp_Safety.thy ===== *)
theory Acp_Safety
  imports Acp_Dispatch
begin

text \<open>
  What the dispatcher guarantees for one connection, under all interleavings of its tasks: every request is answered
  once and with its id, what was pushed before a handler ended reaches the client before the answer, nothing runs
  before the handshake, and a request can be cancelled by its id as long as ids are not reused.
\<close>

section \<open>What was sent\<close>

fun pushes_of :: "sent_frame list \<Rightarrow> acp_outbound list" where
  "pushes_of [] = []"
| "pushes_of (Pushed f # fs) = f # pushes_of fs"
| "pushes_of (f # fs) = pushes_of fs"

fun answers_to :: "nat \<Rightarrow> sent_frame list \<Rightarrow> acp_outbound list" where
  "answers_to n [] = []"
| "answers_to n (Answer m f # fs) = (if m = n then f # answers_to n fs else answers_to n fs)"
| "answers_to n (f # fs) = answers_to n fs"

fun outbound_id :: "acp_outbound \<Rightarrow> json" where
  "outbound_id (OutResponse i v) = i"
| "outbound_id (OutError i code m) = i"
| "outbound_id (OutRequest i m p) = i"
| "outbound_id (OutNotification m p) = JNull"

fun is_error :: "acp_outbound \<Rightarrow> bool" where
  "is_error (OutError i code m) = True"
| "is_error f = False"

lemma pushes_of_append [simp]: "pushes_of (xs @ ys) = pushes_of xs @ pushes_of ys"
  by (induction xs rule: pushes_of.induct) auto

lemma answers_to_append [simp]: "answers_to n (xs @ ys) = answers_to n xs @ answers_to n ys"
  by (induction n xs rule: answers_to.induct) auto

lemma pushes_of_pushed [simp]: "pushes_of (map Pushed q) = q"
  by (induction q) auto

lemma answers_to_pushed [simp]: "answers_to n (map Pushed q) = []"
  by (induction q) auto

lemma answers_to_empty: "answers_to n xs = [] \<longleftrightarrow> (\<forall>f. Answer n f \<notin> set xs)"
  by (induction n xs rule: answers_to.induct) auto

definition pushed :: "acp \<Rightarrow> acp_outbound list" where
  "pushed c = pushes_of (sent c) @ sender_queue c"

lemma outbound_id_answer: "outbound_id (answer_of t) = dt_id t"
  by (auto simp: answer_of_def make_error_response_def split: handler_state.splits proto_error.splits)

lemmas step_defs = refuse_frame_def receive_request_def begin_dispatch_def start_handler_def set_handler_def
  push_frame_def ask_client_def resolve_response_def drain_queue_def pump_one_def complete_dispatch_def
  cancel_incoming_def drop_connection_def

lemma acp_run_induct [consumes 1, case_names refl step]:
  assumes "acp_run env c d" "P c" "\<And>d e. acp_run env c d \<Longrightarrow> P d \<Longrightarrow> acp_step env d e \<Longrightarrow> P e"
  shows "P d"
  using assms
proof (induction rule: acp_run.induct)
  case (step c d e)
  have "P d" using step.IH step.prems by blast
  with step.hyps step.prems(2) show ?case by blast
qed simp

lemma acp_run_trans: "acp_run env d e \<Longrightarrow> acp_run env c d \<Longrightarrow> acp_run env c e"
  by (induction rule: acp_run.induct) (auto intro: acp_run.step)

section \<open>How a step changes a connection\<close>

text \<open>The answers sent grow only when a dispatch completes, and what is pushed keeps its order.\<close>

lemma start_handler_frame:
  "sent (start_handler env n t c) = sent c" "sender_queue (start_handler env n t c) = sender_queue c"
  "received_ids (start_handler env n t c) = received_ids c" "open_conn (start_handler env n t c) = open_conn c"
  "incoming (start_handler env n t c) = incoming c"
  "\<exists>h. h \<noteq> NotStarted \<and> tasks (start_handler env n t c) = dict_set n (t\<lparr>dt_handler := h\<rparr>) (tasks c)"
  by (auto simp: start_handler_def set_handler_def split: sum.splits route.splits)

lemma resolve_frame:
  "sent (resolve_response i r e c) = sent c" "sender_queue (resolve_response i r e c) = sender_queue c"
  "received_ids (resolve_response i r e c) = received_ids c" "open_conn (resolve_response i r e c) = open_conn c"
  "tasks (resolve_response i r e c) = tasks c" "initialized (resolve_response i r e c) = initialized c"
  "incoming (resolve_response i r e c) = incoming c"
  by (auto simp: resolve_response_def split: json.splits option.splits)

lemma cancel_frame:
  "sent (cancel_incoming i c) = sent c" "sender_queue (cancel_incoming i c) = sender_queue c"
  "received_ids (cancel_incoming i c) = received_ids c" "open_conn (cancel_incoming i c) = open_conn c"
  "initialized (cancel_incoming i c) = initialized c" "incoming (cancel_incoming i c) = incoming c"
  "tasks (cancel_incoming i c) = tasks c
     \<or> (\<exists>n t. map_of (tasks c) n = Some t \<and> \<not> handler_done (dt_handler t)
           \<and> tasks (cancel_incoming i c) = dict_set n (t\<lparr>dt_asked := True\<rparr>) (tasks c))"
  by (auto simp: cancel_incoming_def split: option.splits)

lemma pump_frame:
  "pushes_of (sent (pump_one c)) @ sender_queue (pump_one c) = pushes_of (sent c) @ sender_queue c"
  "answers_to n (sent (pump_one c)) = answers_to n (sent c)"
  "received_ids (pump_one c) = received_ids c" "open_conn (pump_one c) = open_conn c"
  "tasks (pump_one c) = tasks c" "initialized (pump_one c) = initialized c" "incoming (pump_one c) = incoming c"
  by (auto simp: pump_one_def split: list.splits)

lemmas frames = start_handler_frame(1-5) resolve_frame cancel_frame(1-6) pump_frame

lemma step_pushed: "acp_step env c d \<Longrightarrow> prefix (pushed c) (pushed d)"
  by (erule acp_stepE)
    (simp_all add: pushed_def frames, simp_all add: step_defs pushes_of.simps Let_def split: if_splits)

lemma run_pushed: "acp_run env c d \<Longrightarrow> prefix (pushed c) (pushed d)"
  by (induction rule: acp_run_induct) (simp, metis step_pushed prefix_order.trans)

section \<open>One answer for each request\<close>

definition answers_ok :: "acp \<Rightarrow> bool" where
  "answers_ok c \<longleftrightarrow>
     (\<forall>n t. map_of (tasks c) n = Some t \<longrightarrow> n < length (received_ids c) \<and> received_ids c ! n = dt_id t) \<and>
     (\<forall>n. answers_to n (sent c) = [] \<or>
        (\<exists>f. answers_to n (sent c) = [f] \<and> n < length (received_ids c) \<and> outbound_id f = received_ids c ! n
           \<and> map_of (tasks c) n = None)) \<and>
     (open_conn c \<longrightarrow> (\<forall>n < length (received_ids c). map_of (tasks c) n = None \<longrightarrow> answers_to n (sent c) \<noteq> []))"

lemma answers_ok_cong:
  assumes "answers_ok c" "map_of (tasks d) = map_of (tasks c)" "\<And>n. answers_to n (sent d) = answers_to n (sent c)"
    and "received_ids d = received_ids c" "open_conn d = open_conn c"
  shows "answers_ok d"
  using assms by (simp add: answers_ok_def)

lemma answers_ok_task:
  assumes "answers_ok c" "map_of (tasks c) n = Some t" "dt_id t' = dt_id t" "tasks d = dict_set n t' (tasks c)"
    and "sent d = sent c" "received_ids d = received_ids c" "open_conn d = open_conn c"
  shows "answers_ok d"
  using assms by (auto simp: answers_ok_def map_of_dict_set)

lemma answers_ok_receive:
  assumes "answers_ok c"
  shows "answers_ok (receive_request i m p c)"
proof -
  have old: "n \<noteq> length (received_ids c)" if "map_of (tasks c) n = Some t" for n t
    using assms that by (auto simp: answers_ok_def)
  have "answers_to (length (received_ids c)) (sent c) = []" using assms by (auto simp: answers_ok_def)
  with assms show ?thesis
    by (auto simp: answers_ok_def receive_request_def map_of_dict_set nth_append less_Suc_eq)
qed

lemma answers_ok_complete:
  assumes "answers_ok c" "map_of (tasks c) n = Some t"
  shows "answers_ok (complete_dispatch n t c)"
proof -
  have "answers_to n (sent c) = []" "n < length (received_ids c)" "received_ids c ! n = dt_id t"
    using assms by (auto simp: answers_ok_def)
  with assms(1) show ?thesis
    by (auto simp: answers_ok_def complete_dispatch_def drain_queue_def Let_def map_of_dict_pop outbound_id_answer)
qed

lemma answers_ok_drop: "answers_ok c \<Longrightarrow> answers_ok (drop_connection c)"
  by (auto simp: answers_ok_def drop_connection_def)

lemma answers_ok_step: "acp_step env c d \<Longrightarrow> answers_ok c \<Longrightarrow> answers_ok d"
proof (erule acp_stepE)
  fix n t assume t: "answers_ok c" "map_of (tasks c) n = Some t" "d = start_handler env n t c"
  obtain h where "tasks (start_handler env n t c) = dict_set n (t\<lparr>dt_handler := h\<rparr>) (tasks c)"
    using start_handler_frame(6) by blast
  with t show "answers_ok d" by (intro answers_ok_task [OF t(1,2), of "t\<lparr>dt_handler := h\<rparr>"]) (simp_all add: frames)
next
  fix n t h assume t: "answers_ok c" "map_of (tasks c) n = Some t" "d = set_handler n t (Returned h) c"
  then show "answers_ok d" by (intro answers_ok_task [OF t(1,2), of "t\<lparr>dt_handler := Returned h\<rparr>"]) (simp_all add: set_handler_def)
next
  fix n t e assume t: "answers_ok c" "map_of (tasks c) n = Some t" "d = set_handler n t (Raised e) c"
  then show "answers_ok d" by (intro answers_ok_task [OF t(1,2), of "t\<lparr>dt_handler := Raised e\<rparr>"]) (simp_all add: set_handler_def)
next
  fix n t assume t: "answers_ok c" "map_of (tasks c) n = Some t" "d = set_handler n t (cancelled_result t c) c"
  then show "answers_ok d"
    by (intro answers_ok_task [OF t(1,2), of "t\<lparr>dt_handler := cancelled_result t c\<rparr>"]) (simp_all add: set_handler_def)
next
  fix n t assume t: "answers_ok c" "map_of (tasks c) n = Some t" "d = begin_dispatch n t c"
  show "answers_ok d"
  proof (cases "hashable (dt_id t)")
    case True
    with t show ?thesis by (intro answers_ok_task [OF t(1,2), of "t\<lparr>dt_phase := Draining\<rparr>"]) (simp_all add: begin_dispatch_def)
  next
    case False
    with t show ?thesis by (intro answers_ok_task [OF t(1,2), of "t\<lparr>dt_phase := Orphaned\<rparr>"]) (simp_all add: begin_dispatch_def)
  qed
next
  fix i assume t: "answers_ok c" "d = cancel_incoming i c"
  show "answers_ok d"
  proof (cases "tasks d = tasks c")
    case True
    with t show ?thesis by (intro answers_ok_cong [OF t(1)]) (simp_all add: frames)
  next
    case False
    with cancel_frame(7) [of i c] t obtain n u where
      "map_of (tasks c) n = Some u" "tasks d = dict_set n (u\<lparr>dt_asked := True\<rparr>) (tasks c)" by auto
    with t show ?thesis by (intro answers_ok_task [OF t(1), of n u "u\<lparr>dt_asked := True\<rparr>"]) (simp_all add: frames)
  qed
qed (auto simp: answers_ok_receive answers_ok_complete answers_ok_drop frames refuse_frame_def push_frame_def
    ask_client_def drain_queue_def intro: answers_ok_cong)

lemma run_answers_ok: "acp_run env c d \<Longrightarrow> answers_ok c \<Longrightarrow> answers_ok d"
  by (induction rule: acp_run.induct) (simp, blast intro: answers_ok_step)

lemma new_answers_ok: "answers_ok new_acp"
  by (simp add: answers_ok_def new_acp_def)


section \<open>Pushed before answered\<close>

definition answered_after :: "acp_outbound list \<Rightarrow> nat \<Rightarrow> acp \<Rightarrow> bool" where
  "answered_after ps n c \<longleftrightarrow> prefix ps (pushed c) \<and>
     (\<forall>xs f ys. sent c = xs @ Answer n f # ys \<longrightarrow> prefix ps (pushes_of xs))"

lemma answered_after_append:
  assumes "answered_after ps n c" "prefix (pushed c) (pushed d)" "sent d = sent c @ zs" "\<forall>f. Answer n f \<notin> set zs"
  shows "answered_after ps n d"
proof -
  have "prefix ps (pushes_of xs)" if "sent d = xs @ Answer n f # ys" for xs f ys
  proof -
    from that assms(3) have e: "sent c @ zs = xs @ Answer n f # ys" by simp
    then have "length xs < length (sent c)"
    proof (rule contrapos_pp)
      assume "\<not> length xs < length (sent c)"
      then have "Answer n f \<in> set zs"
        using e by (auto simp: append_eq_append_conv2 append_eq_Cons_conv)
      with assms(4) show "sent c @ zs \<noteq> xs @ Answer n f # ys" by blast
    qed
    with e obtain ys' where "sent c = xs @ Answer n f # ys'"
      by (auto simp: append_eq_append_conv2 append_eq_Cons_conv)
    with assms(1) show ?thesis by (simp add: answered_after_def)
  qed
  moreover have "prefix ps (pushed d)" using assms(1,2) by (auto simp: answered_after_def intro: prefix_order.trans)
  ultimately show ?thesis by (simp add: answered_after_def)
qed

lemma answered_after_quiet:
  assumes "answered_after ps n c" "acp_step env c d" "sent d = sent c @ zs" "\<forall>f. Answer n f \<notin> set zs"
  shows "answered_after ps n d"
  using answered_after_append [OF assms(1) step_pushed [OF assms(2)] assms(3,4)] .

lemma sent_grows:
  "acp_step env c d \<Longrightarrow>
     (\<exists>zs. sent d = sent c @ zs \<and> (\<forall>n f. Answer n f \<notin> set zs))
     \<or> (\<exists>n t. map_of (tasks c) n = Some t \<and> handler_done (dt_handler t) \<and> dt_phase t = Draining
          \<and> sent d = sent c @ map Pushed (sender_queue c) @ [Answer n (answer_of t)])"
  by (erule acp_stepE)
    (simp_all add: frames, auto simp: step_defs Let_def split: if_splits list.splits)

lemma answered_after_step:
  assumes "answered_after ps n c" "acp_step env c d"
  shows "answered_after ps n d"
  using sent_grows [OF assms(2)]
proof
  assume "\<exists>zs. sent d = sent c @ zs \<and> (\<forall>n f. Answer n f \<notin> set zs)"
  then show ?thesis using answered_after_quiet [OF assms] by blast
next
  assume "\<exists>n t. map_of (tasks c) n = Some t \<and> handler_done (dt_handler t) \<and> dt_phase t = Draining
          \<and> sent d = sent c @ map Pushed (sender_queue c) @ [Answer n (answer_of t)]"
  then obtain m t where d: "sent d = (sent c @ map Pushed (sender_queue c)) @ [Answer m (answer_of t)]" by auto
  have "prefix ps (pushes_of xs)" if e: "sent d = xs @ Answer n f # ys" for xs f ys
  proof (cases ys rule: rev_cases)
    case Nil
    with e d have "xs = sent c @ map Pushed (sender_queue c)" by simp
    with assms(1) show ?thesis by (simp add: answered_after_def pushed_def)
  next
    case (snoc us u)
    with e d have s: "sent c @ map Pushed (sender_queue c) = xs @ Answer n f # us" by simp
    define c' where "c' = drain_queue c"
    have "answered_after ps n c'"
      by (rule answered_after_append [OF assms(1), of c' "map Pushed (sender_queue c)"])
        (auto simp: c'_def drain_queue_def pushed_def)
    moreover have "sent c' = xs @ Answer n f # us" using s by (simp add: c'_def drain_queue_def)
    ultimately show ?thesis by (simp add: answered_after_def)
  qed
  moreover have "prefix ps (pushed d)"
    using assms step_pushed by (auto simp: answered_after_def intro: prefix_order.trans)
  ultimately show ?thesis by (simp add: answered_after_def)
qed

lemma run_answered_after: "acp_run env c d \<Longrightarrow> answered_after ps n c \<Longrightarrow> answered_after ps n d"
  by (induction rule: acp_run.induct) (simp, blast intro: answered_after_step)

text \<open>
  C26. What was pushed comes before the answer. Everything that was sent or waiting to be sent, from whatever handler,
  while a request had no answer yet is on the wire, in the order it was pushed, before the answer to the request.
  So a client has seen all the updates of a \<open>session/load\<close> when the load is answered.
\<close>

theorem pushed_before_answer:
  assumes "acp_run env new_acp c" "answers_to n (sent c) = []" "acp_run env c d" "sent d = xs @ Answer n f # ys"
  shows "prefix (pushed c) (pushes_of xs)"
proof -
  have "\<forall>f. Answer n f \<notin> set (sent c)" using assms(2) by (simp add: answers_to_empty)
  then have "answered_after (pushed c) n c" by (auto simp: answered_after_def)
  from run_answered_after [OF assms(3) this] assms(4) show ?thesis by (simp add: answered_after_def)
qed

section \<open>The handshake comes first\<close>

text \<open>A handler that has served nothing.\<close>

fun unserved :: "handler_state \<Rightarrow> bool" where
  "unserved Running = False"
| "unserved (Returned v) = False"
| "unserved h = True"

definition handshake_ok :: "acp \<Rightarrow> bool" where
  "handshake_ok c \<longleftrightarrow> initialized c \<or>
     ((\<forall>n t. map_of (tasks c) n = Some t \<longrightarrow> unserved (dt_handler t))
      \<and> (\<forall>n f. Answer n f \<in> set (sent c) \<longrightarrow> is_error f))"

lemma initialized_step: "acp_step env c d \<Longrightarrow> initialized c \<Longrightarrow> initialized d"
  by (erule acp_stepE)
    (simp_all add: frames, auto simp: step_defs Let_def split: if_splits sum.splits route.splits list.splits)

lemma route_uninitialized: "route_request env False m p = Inr r \<Longrightarrow> r = ToInitialize"
  by (auto simp: route_request_def split: if_splits)

lemma is_error_make: "is_error (make_error_response i e)"
  by (cases e) (simp add: make_error_response_def)

lemma handshake_step:
  assumes "acp_step env c d" "handshake_ok c"
  shows "handshake_ok d"
proof (cases "initialized c")
  case True
  then show ?thesis using initialized_step [OF assms(1)] by (simp add: handshake_ok_def)
next
  case False
  with assms(2) have h: "\<And>n t. map_of (tasks c) n = Some t \<Longrightarrow> unserved (dt_handler t)"
    "\<And>n f. Answer n f \<in> set (sent c) \<Longrightarrow> is_error f" unfolding handshake_ok_def by blast+
  have run: "dt_handler t \<noteq> Running" if "map_of (tasks c) n = Some t" for n t using h(1) [OF that] by (cases "dt_handler t") auto
  from assms(1) show ?thesis
  proof (rule acp_stepE)
    fix n t assume t: "d = start_handler env n t c" "map_of (tasks c) n = Some t"
    show ?thesis
    proof (cases "dt_asked t")
      case True
      with t h show ?thesis by (auto simp: start_handler_def set_handler_def handshake_ok_def map_of_dict_set)
    next
      case asked: False
      show ?thesis
      proof (cases "route_request env False (dt_method t) (dt_params t)")
        case (Inl e)
        with t h asked False show ?thesis
          by (auto simp: start_handler_def set_handler_def handshake_ok_def map_of_dict_set)
      next
        case (Inr r)
        with route_uninitialized have "r = ToInitialize" by blast
        with Inr t asked False show ?thesis by (simp add: start_handler_def set_handler_def handshake_ok_def)
      qed
    qed
  next
    fix n t assume t: "d = complete_dispatch n t c" "map_of (tasks c) n = Some t" "handler_done (dt_handler t)"
    have "is_error (answer_of t)"
      using h(1) [OF t(2)] t(3) by (cases "dt_handler t") (auto simp: answer_of_def handler_done_def is_error_make)
    with t h show ?thesis
      by (auto simp: handshake_ok_def complete_dispatch_def drain_queue_def Let_def map_of_dict_pop)
  next
    fix i assume d: "d = cancel_incoming i c"
    have "unserved (dt_handler u)" if u: "map_of (tasks d) n = Some u" for n u
      using cancel_frame(7) [of i c]
    proof
      assume "tasks (cancel_incoming i c) = tasks c"
      with u d h(1) show ?thesis by simp
    next
      assume "\<exists>n t. map_of (tasks c) n = Some t \<and> \<not> handler_done (dt_handler t)
           \<and> tasks (cancel_incoming i c) = dict_set n (t\<lparr>dt_asked := True\<rparr>) (tasks c)"
      then obtain m t where "map_of (tasks c) m = Some t" "tasks d = dict_set m (t\<lparr>dt_asked := True\<rparr>) (tasks c)"
        using d by auto
      with u h(1) [of m t] h(1) [of n u] show ?thesis by (auto simp: map_of_dict_set split: if_splits)
    qed
    then show ?thesis using h(2) d by (simp add: handshake_ok_def frames)
  next
    fix n t assume "map_of (tasks c) n = Some t" "dt_handler t = Running"
    with run show ?thesis by blast
  next
    fix n t assume "map_of (tasks c) n = Some t" "dt_handler t = Running"
    with run show ?thesis by blast
  next
    fix n t assume "map_of (tasks c) n = Some t" "dt_handler t = Running"
    with run show ?thesis by blast
  qed (use h in \<open>auto simp: handshake_ok_def resolve_frame refuse_frame_def receive_request_def begin_dispatch_def
      push_frame_def ask_client_def drain_queue_def pump_one_def drop_connection_def map_of_dict_set
      split: if_splits list.splits\<close>)
qed

text \<open>
  Nothing happens before the handshake. As long as no \<open>initialize\<close> has succeeded, no handler of the session
  layer runs, whatever requests arrive, and every answer is an error; and a second \<open>initialize\<close> is refused.
\<close>

theorem handshake_first:
  assumes "acp_run env new_acp c"
  shows "(\<not> initialized c \<longrightarrow>
       (\<forall>n t. map_of (tasks c) n = Some t \<longrightarrow> dt_handler t \<noteq> Running)
       \<and> (\<forall>n f. Answer n f \<in> set (sent c) \<longrightarrow> is_error f))
     \<and> (initialized c \<longrightarrow>
       route_request env (initialized c) (JStr ''initialize'') p = Inl (ProtoError INVALID_REQUEST ''Connection already initialized''))"
proof -
  have "handshake_ok c" using assms
  proof (induction rule: acp_run_induct)
    case refl
    show ?case by (simp add: handshake_ok_def new_acp_def)
  qed (blast intro: handshake_step)
  then have "\<not> initialized c \<Longrightarrow> map_of (tasks c) n = Some t \<Longrightarrow> dt_handler t \<noteq> Running" for n t
    unfolding handshake_ok_def by (metis unserved.simps(1))
  with \<open>handshake_ok c\<close> show ?thesis by (auto simp: handshake_ok_def route_request_def)
qed

section \<open>Cancelling by id\<close>

definition filed :: "acp \<Rightarrow> bool" where
  "filed c \<longleftrightarrow> (\<forall>n t. map_of (tasks c) n = Some t \<and> dt_phase t = Draining \<longrightarrow> map_of (incoming c) (id_key (dt_id t)) = Some n)"

lemma received_grow: "acp_step env c d \<Longrightarrow> prefix (received_ids c) (received_ids d)"
  by (erule acp_stepE) (simp_all add: frames, auto simp: step_defs Let_def split: if_splits)

lemma filedI:
  "(\<And>n t. map_of (tasks d) n = Some t \<Longrightarrow> dt_phase t = Draining \<Longrightarrow> map_of (incoming d) (id_key (dt_id t)) = Some n) \<Longrightarrow> filed d"
  by (simp add: filed_def)

lemma filed_task:
  assumes "filed c" "map_of (tasks c) n = Some t" "dt_id t' = dt_id t" "dt_phase t' = dt_phase t"
    and "tasks d = dict_set n t' (tasks c)" "incoming d = incoming c"
  shows "filed d"
  using assms by (intro filedI) (auto simp: filed_def map_of_dict_set split: if_splits)

lemma filed_step:
  assumes "acp_step env c d" "filed c" "answers_ok c" "distinct (map id_key (received_ids c))"
  shows "filed d"
proof -
  have other: "id_key (dt_id u) \<noteq> id_key (dt_id t)"
    if "map_of (tasks c) n = Some t" "map_of (tasks c) m = Some u" "m \<noteq> n" for n m t u
  proof -
    from that assms(3) have "n < length (received_ids c)" "m < length (received_ids c)"
      "received_ids c ! n = dt_id t" "received_ids c ! m = dt_id u" by (auto simp: answers_ok_def)
    with assms(4) that(3) show ?thesis by (metis length_map nth_eq_iff_index_eq nth_map)
  qed
  from assms(1) show ?thesis
  proof (rule acp_stepE)
    fix n t assume t: "d = begin_dispatch n t c" "map_of (tasks c) n = Some t"
    show ?thesis
    proof (rule filedI)
      fix m u assume u: "map_of (tasks d) m = Some u" "dt_phase u = Draining"
      show "map_of (incoming d) (id_key (dt_id u)) = Some m"
      proof (cases "m = n")
        case True
        with u t show ?thesis by (auto simp: begin_dispatch_def map_of_dict_set split: if_splits)
      next
        case False
        with u t have "map_of (tasks c) m = Some u" by (auto simp: begin_dispatch_def map_of_dict_set split: if_splits)
        with False t u(2) other [OF t(2) this False] assms(2) show ?thesis
          by (auto simp: begin_dispatch_def map_of_dict_set filed_def)
      qed
    qed
  next
    fix n t assume t: "d = complete_dispatch n t c" "map_of (tasks c) n = Some t"
    show ?thesis
    proof (rule filedI)
      fix m u assume u: "map_of (tasks d) m = Some u" "dt_phase u = Draining"
      with t have m: "m \<noteq> n" "map_of (tasks c) m = Some u"
        by (auto simp: complete_dispatch_def drain_queue_def Let_def map_of_dict_pop split: if_splits)
      with t u(2) other [OF t(2) m(2,1)] assms(2) show "map_of (incoming d) (id_key (dt_id u)) = Some m"
        by (auto simp: complete_dispatch_def drain_queue_def Let_def map_of_dict_pop filed_def)
    qed
  next
    fix n t assume t: "d = start_handler env n t c" "map_of (tasks c) n = Some t"
    obtain h where "tasks (start_handler env n t c) = dict_set n (t\<lparr>dt_handler := h\<rparr>) (tasks c)"
      using start_handler_frame(6) by blast
    with t show ?thesis by (intro filed_task [OF assms(2) t(2), of "t\<lparr>dt_handler := h\<rparr>"]) (simp_all add: frames)
  next
    fix i assume d: "d = cancel_incoming i c"
    show ?thesis
    proof (cases "tasks d = tasks c")
      case True
      with d assms(2) show ?thesis by (simp add: filed_def frames)
    next
      case False
      with cancel_frame(7) [of i c] d obtain n u where
        "map_of (tasks c) n = Some u" "tasks d = dict_set n (u\<lparr>dt_asked := True\<rparr>) (tasks c)" by auto
      with d show ?thesis by (intro filed_task [OF assms(2), of n u "u\<lparr>dt_asked := True\<rparr>"]) (simp_all add: frames)
    qed
  next
    fix i m p assume "d = receive_request i m p c"
    with assms(2) show ?thesis by (auto simp: filed_def receive_request_def map_of_dict_set split: if_splits)
  qed (use assms(2) in \<open>auto simp: filed_def frames refuse_frame_def set_handler_def push_frame_def ask_client_def
      drain_queue_def drop_connection_def map_of_dict_set split: if_splits\<close>)
qed

lemma run_filed:
  assumes "acp_run env new_acp c" "distinct (map id_key (received_ids c))"
  shows "filed c"
  using assms
proof (induction rule: acp_run_induct)
  case refl
  then show ?case by (simp add: filed_def new_acp_def)
next
  case (step d e)
  from received_grow [OF step.hyps(2)] step.prems have "distinct (map id_key (received_ids d))"
    by (auto simp: prefix_def)
  with step.IH step.hyps(2) run_answers_ok [OF step.hyps(1) new_answers_ok] show ?case by (blast intro: filed_step)
qed


section \<open>Idle connections\<close>

text \<open>Steps in which the client sends no request and no notification but a cancellation.\<close>

inductive quiet_run :: "proto_env \<Rightarrow> acp \<Rightarrow> acp \<Rightarrow> bool" for env where
  quiet_refl: "quiet_run env c c"
| quiet_step: "quiet_run env c d \<Longrightarrow> acp_step env d e \<Longrightarrow> received_ids e = received_ids d
     \<Longrightarrow> (\<forall>m p. notification_accepted env m p d \<longrightarrow> e \<noteq> drain_queue d) \<Longrightarrow> quiet_run env c e"

lemma idle_step:
  assumes "acp_step env c d" "tasks c = []" "received_ids d = received_ids c"
    and "\<forall>m p. notification_accepted env m p c \<longrightarrow> d \<noteq> drain_queue c"
  shows "tasks d = [] \<and> pushes_of (sent d) = pushes_of (sent c)"
  using assms(1)
proof (rule acp_stepE)
  fix i assume d: "d = cancel_incoming i c"
  with assms(2) have "d = c" by (simp add: cancel_incoming_def split: option.splits)
  with assms(2) show ?thesis by simp
next
  fix m p assume "d = drain_queue c" "notification_accepted env m p c"
  with assms(4) show ?thesis by blast
qed (use assms(2,3) in \<open>auto simp: frames refuse_frame_def receive_request_def push_frame_def ask_client_def drop_connection_def\<close>)


section \<open>Requests through the hub\<close>

lemma hub_attempts_first:
  "\<exists>k \<le> left. hub_attempts left answer i = answer (i + k)
     \<and> (\<forall>j < k. map_of (answer (i + j)) ''error'' = Some (JStr ''runtime_not_registered''))
     \<and> (k < left \<longrightarrow> map_of (answer (i + k)) ''error'' \<noteq> Some (JStr ''runtime_not_registered''))"
proof (induction left arbitrary: i)
  case (Suc left)
  show ?case
  proof (cases "map_of (answer i) ''error'' = Some (JStr ''runtime_not_registered'')")
    case True
    from Suc [of "Suc i"] obtain k where k: "k \<le> left" "hub_attempts left answer (Suc i) = answer (Suc i + k)"
      "\<forall>j < k. map_of (answer (Suc i + j)) ''error'' = Some (JStr ''runtime_not_registered'')"
      "k < left \<longrightarrow> map_of (answer (Suc i + k)) ''error'' \<noteq> Some (JStr ''runtime_not_registered'')" by blast
    have "map_of (answer (i + j)) ''error'' = Some (JStr ''runtime_not_registered'')" if "j < Suc k" for j
      using that True k(3) by (cases j) auto
    with k True show ?thesis by (intro exI [of _ "Suc k"]) simp
  next
    case False
    then show ?thesis by (intro exI [of _ 0]) simp
  qed
qed simp

lemma hub_retries_bounded:
  "\<exists>k < HUB_RUNTIME_RETRY_ATTEMPTS. hub_attempts (HUB_RUNTIME_RETRY_ATTEMPTS - 1) answer 0 = answer k
     \<and> (\<forall>j < k. map_of (answer j) ''error'' = Some (JStr ''runtime_not_registered''))"
proof -
  obtain k where "k \<le> HUB_RUNTIME_RETRY_ATTEMPTS - 1" "hub_attempts (HUB_RUNTIME_RETRY_ATTEMPTS - 1) answer 0 = answer (0 + k)"
    "\<forall>j < k. map_of (answer (0 + j)) ''error'' = Some (JStr ''runtime_not_registered'')"
    using hub_attempts_first by blast
  moreover have "k < HUB_RUNTIME_RETRY_ATTEMPTS" using calculation(1) by (simp add: HUB_RUNTIME_RETRY_ATTEMPTS_def)
  ultimately show ?thesis by auto
qed

section \<open>Requests that get no answer\<close>

lemma orphan_step:
  assumes "acp_step env c d" "map_of (tasks c) n = Some t" "dt_phase t = Orphaned" "open_conn d" "answers_ok c"
  shows "\<exists>u. map_of (tasks d) n = Some u \<and> dt_phase u = Orphaned"
  using assms(1)
proof (rule acp_stepE)
  fix m u assume u: "d = start_handler env m u c" "map_of (tasks c) m = Some u"
  obtain h where "tasks (start_handler env m u c) = dict_set m (u\<lparr>dt_handler := h\<rparr>) (tasks c)"
    using start_handler_frame(6) by blast
  with u assms(2,3) show ?thesis by (auto simp: map_of_dict_set)
next
  fix i assume "d = cancel_incoming i c"
  with cancel_frame(7) [of i c] assms(2,3) show ?thesis by (auto simp: map_of_dict_set)
next
  fix i m p assume "d = receive_request i m p c"
  moreover have "n \<noteq> length (received_ids c)" using assms(2,5) by (auto simp: answers_ok_def)
  ultimately show ?thesis using assms(2,3) by (simp add: receive_request_def map_of_dict_set)
qed (use assms(2,3,4) in \<open>auto simp: frames refuse_frame_def begin_dispatch_def set_handler_def push_frame_def ask_client_def
      drain_queue_def drop_connection_def complete_dispatch_def Let_def map_of_dict_set map_of_dict_pop\<close>)

text \<open>The handler of a request whose id is a list or an object runs, but nothing ever answers the request.\<close>

lemma open_before: "acp_step env c d \<Longrightarrow> open_conn d \<Longrightarrow> open_conn c"
  by (erule acp_stepE) (simp_all add: frames, auto simp: step_defs Let_def split: if_splits)

lemma orphan_never_answered:
  assumes "acp_run env c d" "answers_ok c" "map_of (tasks c) n = Some t" "dt_phase t = Orphaned" "open_conn d"
  shows "answers_to n (sent d) = []"
proof -
  have "answers_ok d \<and> (\<exists>u. map_of (tasks d) n = Some u \<and> dt_phase u = Orphaned)"
    using assms
  proof (induction rule: acp_run_induct)
    case (step d e)
    with open_before [OF step.hyps(2)] have "answers_ok d" "\<exists>u. map_of (tasks d) n = Some u \<and> dt_phase u = Orphaned" by blast+
    with step.hyps(2) step.prems show ?case by (blast intro: answers_ok_step orphan_step)
  qed simp
  then show ?thesis by (auto simp: answers_ok_def)
qed

section \<open>Concrete runs\<close>

datatype acp_act =
  DoRequest json json params | DoBegin nat | DoStart nat | DoReturn nat json | DoCancelled nat | DoPush json | DoPump nat
| DoComplete nat | DoCancel json

fun act_step :: "proto_env \<Rightarrow> acp_act \<Rightarrow> acp \<Rightarrow> acp option" where
  "act_step env (DoRequest i m p) c = (if open_conn c then Some (receive_request i m p c) else None)"
| "act_step env (DoBegin n) c =
     (case map_of (tasks c) n of
        Some t \<Rightarrow> if dt_phase t = Waiting then Some (begin_dispatch n t c) else None | None \<Rightarrow> None)"
| "act_step env (DoStart n) c =
     (case map_of (tasks c) n of
        Some t \<Rightarrow> if dt_phase t \<noteq> Waiting \<and> dt_handler t = NotStarted then Some (start_handler env n t c) else None
      | None \<Rightarrow> None)"
| "act_step env (DoReturn n v) c =
     (case map_of (tasks c) n of
        Some t \<Rightarrow> if dt_handler t = Running then Some (set_handler n t (Returned v) c) else None | None \<Rightarrow> None)"
| "act_step env (DoCancelled n) c =
     (case map_of (tasks c) n of
        Some t \<Rightarrow> if dt_handler t = Running then Some (set_handler n t (cancelled_result t c) c) else None | None \<Rightarrow> None)"
| "act_step env (DoPush p) c = (if open_conn c then Some (push_frame (OutNotification ''session/update'' p) c) else None)"
| "act_step env (DoPump n) c =
     (case map_of (tasks c) n of Some t \<Rightarrow> if dt_phase t = Draining then Some (pump_one c) else None | None \<Rightarrow> None)"
| "act_step env (DoComplete n) c =
     (case map_of (tasks c) n of
        Some t \<Rightarrow> if dt_phase t = Draining \<and> handler_done (dt_handler t) then Some (complete_dispatch n t c) else None
      | None \<Rightarrow> None)"
| "act_step env (DoCancel i) c = (if open_conn c \<and> cancellable i then Some (cancel_incoming i c) else None)"

fun act_run :: "proto_env \<Rightarrow> acp_act list \<Rightarrow> acp \<Rightarrow> acp option" where
  "act_run env [] c = Some c"
| "act_run env (a # as) c = (case act_step env a c of Some d \<Rightarrow> act_run env as d | None \<Rightarrow> None)"

lemma act_step_sound: "act_step env a c = Some d \<Longrightarrow> acp_step env c d"
  by (cases a) (auto split: option.splits if_splits intro: acp_step.intros)

lemma act_run_sound: "act_run env as c = Some d \<Longrightarrow> acp_run env c d"
proof (induction as arbitrary: c)
  case (Cons a as)
  then obtain e where "act_step env a c = Some e" "act_run env as e = Some d" by (auto split: option.splits)
  with Cons.IH [of e] show ?case using act_step_sound acp_run_trans acp_run.step acp_run.refl by metis
qed (simp add: acp_run.refl)

definition demo_proto :: proto_env where
  "demo_proto = \<lparr>valid_params = (\<lambda>m p. True), router_backend = False, hub_available = False, control_available = False,
                 loaded = (\<lambda>t. True)\<rparr>"

text \<open>A handshake, then a request for which a session update is pushed.\<close>

definition hello :: "acp_act list" where
  "hello = [DoRequest (JInt 0) (JStr ''initialize'') [], DoBegin 0, DoStart 0, DoComplete 0]"

definition loading :: "acp_act list" where
  "loading = hello @ [DoRequest (JInt 1) (JStr ''session/load'') [], DoBegin 1, DoStart 1, DoPush (JDict [])]"

definition after_acts :: "acp_act list \<Rightarrow> acp" where
  "after_acts as = the (act_run demo_proto as new_acp)"

lemma after_acts_run: "act_run demo_proto as new_acp \<noteq> None \<Longrightarrow> acp_run demo_proto new_acp (after_acts as)"
  by (auto simp: after_acts_def intro: act_run_sound)


theorem pushed_before_answer_witness:
  "prefix [OutNotification ''session/update'' (JDict [])]
     (pushes_of [Answer 0 (OutResponse (JInt 0) (JDict [(''protocolVersion'', JInt 1)])), Pushed (OutNotification ''session/update'' (JDict []))])"
proof -
  have c: "acp_run demo_proto new_acp (after_acts loading)" by (rule after_acts_run) code_simp
  have "act_run demo_proto [DoReturn 1 (JDict []), DoComplete 1] (after_acts loading)
      = Some (after_acts (loading @ [DoReturn 1 (JDict []), DoComplete 1]))" by code_simp
  then have d: "acp_run demo_proto (after_acts loading) (after_acts (loading @ [DoReturn 1 (JDict []), DoComplete 1]))"
    by (rule act_run_sound)
  have s: "sent (after_acts (loading @ [DoReturn 1 (JDict []), DoComplete 1]))
      = [Answer 0 (OutResponse (JInt 0) (JDict [(''protocolVersion'', JInt 1)])), Pushed (OutNotification ''session/update'' (JDict []))]
        @ Answer 1 (OutResponse (JInt 1) (JDict [])) # []" by code_simp
  have "answers_to 1 (sent (after_acts loading)) = []" "pushed (after_acts loading) = [OutNotification ''session/update'' (JDict [])]"
    by code_simp+
  with pushed_before_answer [OF c _ d s] show ?thesis by metis
qed

theorem handshake_first_witness:
  "is_error (OutError (JInt 7) INVALID_REQUEST ''Connection not initialized; send initialize first'')
   \<and> Answer 0 (OutError (JInt 7) INVALID_REQUEST ''Connection not initialized; send initialize first'')
       \<in> set (sent (after_acts [DoRequest (JInt 7) (JStr ''session/new'') [], DoBegin 0, DoStart 0, DoComplete 0]))"
proof -
  let ?c = "after_acts [DoRequest (JInt 7) (JStr ''session/new'') [], DoBegin 0, DoStart 0, DoComplete 0]"
  have "acp_run demo_proto new_acp ?c" by (rule after_acts_run) code_simp
  moreover have "\<not> initialized ?c" by code_simp
  moreover have "Answer 0 (OutError (JInt 7) INVALID_REQUEST ''Connection not initialized; send initialize first'') \<in> set (sent ?c)"
    by code_simp
  ultimately show ?thesis using handshake_first by blast
qed

definition running_load :: dispatch where
  "running_load = \<lparr>dt_id = JInt 1, dt_method = JStr ''session/load'', dt_params = [], dt_phase = Draining, dt_asked = False,
                   dt_handler = Running\<rparr>"



section \<open>Where requests are not treated as promised\<close>

text \<open>An id used twice: the request that ends first removes the record of the other, which can no longer be cancelled.\<close>

lemma reused_id_not_cancelled:
  "let c = after_acts (loading @ [DoRequest (JInt 1) (JStr ''session/prompt'') [], DoBegin 2, DoStart 2,
                                  DoReturn 1 (JDict []), DoComplete 1])
   in 2 \<in> set (map fst (tasks c)) \<and> tasks (cancel_incoming (JInt 1) c) = tasks c"
  by code_simp

text \<open>A cancellation that overtakes the first step of the handler makes the answer an internal error.\<close>

lemma early_cancel_internal_error:
  "answers_to 1 (sent (after_acts (hello @ [DoRequest (JInt 1) (JStr ''session/load'') [], DoBegin 1, DoCancel (JInt 1),
                                            DoStart 1, DoComplete 1])))
     = [OutError (JInt 1) INTERNAL_ERROR ''Internal error'']"
  by code_simp

lemma unhashable_id_runs:
  "map_option (\<lambda>t. (dt_phase t, dt_handler t))
     (map_of (tasks (after_acts (hello @ [DoRequest (JList []) (JStr ''session/load'') [], DoBegin 1, DoStart 1]))) 1)
   = Some (Orphaned, Running)"
  by code_simp

text \<open>Versions below the only one supported are agreed to.\<close>

lemma unsupported_version_agreed: "v \<le> 0 \<Longrightarrow> negotiated_version v = v \<and> v \<noteq> SUPPORTED_VERSION"
  by (simp add: negotiated_version_def SUPPORTED_VERSION_def)

end
