(* ===== verification/Spec2Isabelle.thy ===== *)
theory Spec2Isabelle
  imports Log_Replay Prompt_Retry Cron_Limits Task_Limits Shell_Safety Config_Instances File_Safety Page_Ranges Acp_Safety
begin

text \<open>
  Verification development of the DeepCLI kernel (the Python package \<open>src/src/kernel/kernel\<close>). Paths below are
  relative to \<open>agents/mustang\<close> in it, unless they start with \<open>core\<close> or \<open>agents\<close>.

  The program. The kernel is one asyncio process. A client opens a connection and speaks a JSON-RPC
  protocol; the dispatcher of the connection routes each request to a handler and answers it. The session layer
  queues the prompts of a session and runs them one at a time as turns; a turn is a query: requests to a model and
  the execution of the tool calls in its replies, until a reply has none. The history of a query is kept in memory,
  compacted when it grows, and written to an event log from which a session is rebuilt. Every tool
  call is authorized first: by a hard guard, by grants of the session, by the mode, by rules, by what the tool itself
  says of the risk, by a model that judges shell commands, and by the user. Tools start background tasks whose
  ends are reported to the agents of the session. A scheduler shares a database with other
  kernels and executes tasks at given times. Settings come in layers of files and are written back.

  How it is modelled. A class with state is a \<open>record\<close>, a tagged union a \<open>datatype\<close>, a Python dictionary an association
  list in insertion order, an \<open>int\<close> an \<open>int\<close> or \<open>nat\<close>, a string a list of characters below 256. Code that may raise has a result
  of type \<open>'a py\<close>, with \<open>Inl\<close> the exception; every raise and early return is a branch. Concurrency is a step relation or
  a list of actions: the code between two suspensions is one step, and steps of different tasks, agents, connections
  or kernels come in any order. Libraries, the file system, the clock, random draws, processes and replies of models
  are arguments of the definitions. Each theory opens with what it holds and which files it models.

  Foundations.
  \<^item> \<open>Kernel_Prelude\<close>: Python's string operations, dictionaries, JSON values, results; the collection \<open>py_simps\<close>.
  \<^item> \<open>Py_Regex\<close>: the fragment of \<open>re\<close> that the patterns of the kernel use, as a backtracking matcher.
  \<^item> \<open>Shell_Lexer\<close>: \<open>shlex.split\<close> and \<open>fnmatch\<close>.  \<open>Json_Text\<close>: a text format with an inverse, for instances.

  Authorization (\<open>tool_authz/\<close>, \<open>plans.py\<close>).
  \<^item> \<open>Tool_Contract\<close>: a tool is a record of the methods the authorizer calls (\<open>tools/tool.py\<close>), so that the theorems hold for
    every tool. \<open>Session_Scope\<close>: the locale of components with one bucket of state per session, interpreted on the grant
    cache and on the classifier.
  \<^item> \<open>Permission_Rules\<close>: rules, their text form (which can be read back) and the layered store (unique ids).
  \<^item> \<open>Rule_Engine\<close>: the loop with its short-circuit and cached matcher is the first deny, else ask, else allow rule.
  \<^item> \<open>Grant_Cache\<close>, with the locale \<open>grant_store\<close>; \<open>Bash_Classifier\<close>, with its denial budget; \<open>Runtime_Guard\<close>; \<open>Plan_Files\<close>.
  \<^item> \<open>Authorizer\<close>: \<open>authorize()\<close> with every early return. Its theorems say from where an allow can come, what a deny rule, the guard
    and plan mode enforce, the scope of a grant, and an invariant of all reachable states.

  A query (\<open>orchestrator/\<close>, \<open>llm/types.py\<close>, \<open>hooks/\<close>).
  \<^item> \<open>Messages\<close>: messages and the automaton of paired tool uses and results that providers ask for.
  \<^item> \<open>Conversation_History\<close>, \<open>Compaction\<close>: the history and its compaction passes, which keep it paired.
  \<^item> \<open>Hooks\<close>; \<open>Tool_Execution\<close>: batches, authorization with the user, the pipeline of a call, merging of concurrent queues.
  \<^item> \<open>Query_Loop\<close>: \<open>run_query\<close> over the list of replies of the provider. It ends and bounds the number of requests, and in
    every request each tool use is answered.

  Sessions (\<open>sessions/\<close>).
  \<^item> \<open>Message_Serde\<close>, \<open>Session_Log\<close>: rows of the log, the append, mode changes, the permission round trip, the reload.
  \<^item> \<open>Log_Replay\<close>: the history rebuilt from the log refines the one in memory (an abstraction over \<open>Query_Loop\<close> and
    \<open>Session_Log\<close>).
  \<^item> \<open>Turn_Queue\<close>: admission, queue, dispatch, cancellation and end of turns; conservation of prompts and serial turns.
    \<open>Prompt_Retry\<close>: prompts that a client repeats with an id of its own: each is executed at most once if the repetitions
    are timely; copies that arrive together are both executed.

  Connections (\<open>core/protocol/acp/\<close>, \<open>agents/access/routes/session.py\<close>).
  \<^item> \<open>Acp_Codec\<close>: frames. \<open>Acp_Dispatch\<close>: routing, and the tasks of one connection. \<open>Acp_Safety\<close>: one answer for each request, what was
    pushed comes before the answer, the handshake comes first, cancellation by id; and what idle clients miss.

  Scheduler (\<open>schedule/\<close>).
  \<^item> \<open>Cron_Tasks\<close>, \<open>Cron_Store\<close>, \<open>Cron_Scheduler\<close>: data and grammar, the table and the tasks in memory, ticks, claims, heartbeats and
    settlement of several kernels. \<open>Cron_Claims\<close>: claims are exclusive while heartbeats are timely, and how that fails.
    \<open>Cron_Limits\<close>: how often a task is executed.

  Background tasks (\<open>tasks/\<close>, \<open>tools/builtin/\<close>).
  \<^item> \<open>Task_Registry\<close>, \<open>Task_Tools\<close>, \<open>Task_Runs\<close>: the shared registry, the tools that use it, and a session of agents and the
    coroutines of their tasks. \<open>Task_Limits\<close>: messages, notifications and output lines that are lost.

  Concrete tools (\<open>tools/builtin/\<close>, \<open>tools/file_state.py\<close>).
  \<^item> \<open>Shell_Tools\<close>, \<open>Windows_Shells\<close>: the classification of commands. \<open>Shell_Safety\<close>: the splitter of compound commands against a
    direct reading of the operators, exactly which commands run with no question, and dangerous ones.
  \<^item> \<open>File_Tools\<close>, \<open>File_Safety\<close>: reading, editing and writing with the cache of what was read. The locale
    \<open>guarded_writer\<close> is what Edit and Write have in common. \<open>Page_Ranges\<close>: page lists of PDF requests.

  Configuration (\<open>core/config/\<close>, \<open>core/signal.py\<close>).
  \<^item> \<open>Config_Layers\<close>, \<open>Config_Sections\<close>: layers and overrides; sections, secrets and concurrent updates. \<open>Config_Updates\<close>, \<open>Config_Serial\<close>,
    \<open>Config_Restart\<close>, \<open>Config_Instances\<close>: what an update leaves in files and memory, alone and with others, and after a restart.

  Bounds and abstractions.
  \<^item> The list of replies of \<open>run_query\<close> is the fuel of the loop: \<open>Query_Loop.query_terminates\<close> shows that \<open>max_turns + 5\<close>
    replies are enough. All other recursions are structural or have a measure.
  \<^item> Cron times are rationals, so the rounding of floats is left out. An SQL statement, and the settlement of an execution, is
    one step. So is the start of a background task with the creation of its output file.
  \<^item> Arguments: \<open>croniter\<close>, \<open>orjson\<close>, YAML, pydantic schemas, the reading of ISO timestamps, SHA-256, process ids, replies of
    models, answers of users, results of tools and hooks. Hypotheses on them state documented behaviour
    (a text that was dumped is read back) or name the case (the digest of two given texts differs).
  \<^item> Files hold text, with a modification time; the file system is POSIX and its resolution of paths an argument.

  Not modelled, with the reason.
  \<^item> Providers and the model manager (\<open>llm/\<close>, \<open>llm_provider/\<close>): calls of remote services and the translation of their
    streams; \<open>llm/types.py\<close> is modelled.
  \<^item> MCP (\<open>mcp/\<close>), gateways (\<open>gateways/\<close>), web tools (\<open>tools/web/\<close>), git (\<open>git/\<close>), the Python REPL (\<open>tools/repl/\<close>): network
    and process I/O around libraries.
  \<^item> Memory and skills (\<open>memory/\<close>, \<open>skills/\<close>): files of notes chosen by prompts to a model. Prompts (\<open>prompts/\<close>) are data.
  \<^item> The tool registry (\<open>tools/__init__.py\<close>, \<open>tools/registry.py\<close>), slash commands (\<open>commands/\<close>), the remaining tools.
  \<^item> Execution and delivery of cron tasks (\<open>schedule/executor.py\<close>, \<open>schedule/delivery.py\<close>): their ends are arguments of the steps.
  \<^item> The SQLite store of sessions, replay to a joining client, titles; secrets and flags (\<open>core/secrets\<close>, \<open>core/flags\<close>);
    module loading (\<open>runtime/\<close>, \<open>module_table.py\<close>, \<open>core/lifecycle.py\<close>).
  \<^item> The conversion between wire and internal types (\<open>core/protocol/acp/schemas\<close>, the wrappers of \<open>routing.py\<close>,
    \<open>core/protocol/interfaces\<close>): copies of fields. The batcher (\<open>interfaces/batcher.py\<close>) is used nowhere.
  \<^item> Authentication of connections (\<open>agents/access/security\<close>), the Agent Hub (\<open>agent_hub/\<close>) and the supervisor
    (\<open>supervisor/\<close>): processes, sockets and a web framework.
  \<^item> The older daemon (\<open>archive/\<close>), the terminal client (TypeScript), the launcher and the probe: other programs.
\<close>

end
